(* ===== verification/Prelude.thy ===== *)
theory Prelude
  imports Main "HOL-Library.Word" "HOL-Library.Signed_Division"
begin

text \<open>
  Shared material of the Thrille development.

  \<^item> The vocabulary of the C++ code: \<open>thrID\<close> (a C \<open>int\<close>, \<open>coretypes.h\<close>),
    \<open>addr\<close> (a 64-bit pointer; \<open>NULL\<close> is 0), the ways the process can leave through
    \<open>_Exit(UNRECOVERABLE_ERROR)\<close>.
  \<^item> The tracker monad: a computation takes the object state and either leaves the process
    (\<open>Inl\<close> the reason and the state at that moment) or returns a value and the new state.
  \<^item> \<open>std::map\<close> as an association list in key order, with the default-inserting read of
    \<open>operator[]\<close> (\<open>cm_touch\<close>) kept apart from the plain lookup (\<open>cm_get\<close>).
\<close>

named_theorems cmap_simps \<open>lookups in updated C++ maps\<close>
named_theorems tm_simps \<open>execution of tracker computations\<close>
named_theorems tm_rules \<open>partial-correctness rules of the tracker monad\<close>

section \<open>Vocabulary\<close>

type_synonym thrID = int
type_synonym addr = "64 word"

abbreviation (input) INVALID_THREAD :: thrID where "INVALID_THREAD \<equiv> -1"
abbreviation (input) UNKNOWN_THREAD :: thrID where "UNKNOWN_THREAD \<equiv> -2"
abbreviation (input) UNJOINED :: thrID where "UNJOINED \<equiv> -1"
abbreviation (input) OPERATION_SUCCESSFUL :: int where "OPERATION_SUCCESSFUL \<equiv> 0"
abbreviation (input) NULL :: addr where "NULL \<equiv> 0"

datatype exit_reason =
    SafeAssert string        \<comment> \<open>\<open>safe_assert(cond)\<close> failed; the text of \<open>cond\<close>\<close>
  | ProgramDeadlock          \<comment> \<open>\<open>ExecutionTracker::deadlockCheck\<close>\<close>
  | ProgramAssertFail        \<comment> \<open>\<open>ExecutionTracker::thrilleAssert\<close>\<close>
  | ErrorExit string         \<comment> \<open>an explicit \<open>_Exit(UNRECOVERABLE_ERROR)\<close> after a message\<close>
  | Undefined string         \<comment> \<open>the source reads memory it has not written\<close>

section \<open>The tracker monad\<close>

type_synonym ('s, 'a) tm = "'s \<Rightarrow> (exit_reason \<times> 's) + ('a \<times> 's)"

definition ret :: "'a \<Rightarrow> ('s, 'a) tm" where
  "ret x s = Inr (x, s)"

definition bnd :: "('s, 'a) tm \<Rightarrow> ('a \<Rightarrow> ('s, 'b) tm) \<Rightarrow> ('s, 'b) tm" where
  "bnd m k s = (case m s of Inl e \<Rightarrow> Inl e | Inr (x, s') \<Rightarrow> k x s')"

definition upd :: "('s \<Rightarrow> 's) \<Rightarrow> ('s, unit) tm" where
  "upd f s = Inr ((), f s)"

definition gets :: "('s \<Rightarrow> 'a) \<Rightarrow> ('s, 'a) tm" where
  "gets f s = Inr (f s, s)"

definition exit_with :: "exit_reason \<Rightarrow> ('s, 'a) tm" where
  "exit_with r s = Inl (r, s)"

primrec steps :: "('s, unit) tm list \<Rightarrow> ('s, unit) tm" where
  "steps [] = ret ()"
| "steps (m # ms) = bnd m (\<lambda>_. steps ms)"

primrec for_each :: "('a \<Rightarrow> ('s, unit) tm) \<Rightarrow> 'a list \<Rightarrow> ('s, unit) tm" where
  "for_each f [] = ret ()"
| "for_each f (x # xs) = bnd (f x) (\<lambda>_. for_each f xs)"

lemma tm_run [tm_simps, simp]:
  "ret x s = Inr (x, s)"
  "upd f s = Inr ((), f s)"
  "gets g s = Inr (g s, s)"
  "exit_with r s = Inl (r, s)"
  by (simp_all add: ret_def upd_def gets_def exit_with_def)

lemma bnd_Inr [tm_simps, simp]: "m s = Inr (x, s') \<Longrightarrow> bnd m k s = k x s'"
  by (simp add: bnd_def)

lemma bnd_Inl [tm_simps, simp]: "m s = Inl e \<Longrightarrow> bnd m k s = Inl e"
  by (simp add: bnd_def)

lemma bnd_eq_Inr:
  "bnd m k s = Inr (y, s'') \<longleftrightarrow> (\<exists>x s'. m s = Inr (x, s') \<and> k x s' = Inr (y, s''))"
  by (auto simp: bnd_def split: sum.splits)

lemma bnd_eq_Inl:
  "bnd m k s = Inl e \<longleftrightarrow> m s = Inl e \<or> (\<exists>x s'. m s = Inr (x, s') \<and> k x s' = Inl e)"
  by (auto simp: bnd_def split: sum.splits)

lemma bnd_assoc: "bnd (bnd m f) g = bnd m (\<lambda>x. bnd (f x) g)"
  by (rule ext) (auto simp: bnd_def split: sum.splits)

lemma bnd_ret: "bnd (ret x) k = k x"
  by (rule ext) simp

subsection \<open>Partial correctness\<close>

text \<open>
  \<open>valid P m Q\<close>: from a state with \<open>P\<close>, if \<open>m\<close> returns then \<open>Q\<close> holds of its result and
  state. \<open>returns P m\<close>: from a state with \<open>P\<close> the computation does return, it never leaves
  the process.
\<close>

definition valid :: "('s \<Rightarrow> bool) \<Rightarrow> ('s, 'a) tm \<Rightarrow> ('a \<Rightarrow> 's \<Rightarrow> bool) \<Rightarrow> bool" where
  "valid P m Q \<longleftrightarrow> (\<forall>s x s'. P s \<longrightarrow> m s = Inr (x, s') \<longrightarrow> Q x s')"

definition returns :: "('s \<Rightarrow> bool) \<Rightarrow> ('s, 'a) tm \<Rightarrow> bool" where
  "returns P m \<longleftrightarrow> (\<forall>s. P s \<longrightarrow> (\<exists>x s'. m s = Inr (x, s')))"

lemma validI [intro?]: "(\<And>s x s'. P s \<Longrightarrow> m s = Inr (x, s') \<Longrightarrow> Q x s') \<Longrightarrow> valid P m Q"
  by (auto simp: valid_def)

lemma validD: "valid P m Q \<Longrightarrow> m s = Inr (x, s') \<Longrightarrow> P s \<Longrightarrow> Q x s'"
  by (auto simp: valid_def)

lemma valid_ret [tm_rules]: "valid (Q x) (ret x) Q"
  by (auto simp: valid_def)

lemma valid_upd [tm_rules]: "valid (\<lambda>s. Q () (f s)) (upd f) Q"
  by (auto simp: valid_def)

lemma valid_gets [tm_rules]: "valid (\<lambda>s. Q (g s) s) (gets g) Q"
  by (auto simp: valid_def)

lemma valid_bnd [tm_rules]:
  "valid P m R \<Longrightarrow> (\<And>x. valid (R x) (k x) Q) \<Longrightarrow> valid P (bnd m k) Q"
  by (fastforce simp: valid_def bnd_eq_Inr)

lemma valid_pre: "valid P m Q \<Longrightarrow> (\<And>s. P' s \<Longrightarrow> P s) \<Longrightarrow> valid P' m Q"
  by (auto simp: valid_def)

lemma valid_post: "valid P m Q \<Longrightarrow> (\<And>x s. Q x s \<Longrightarrow> Q' x s) \<Longrightarrow> valid P m Q'"
  by (auto simp: valid_def)

lemma returns_bnd:
  "returns P m \<Longrightarrow> valid P m R \<Longrightarrow> (\<And>x. returns (R x) (k x)) \<Longrightarrow> returns P (bnd m k)"
  unfolding returns_def valid_def by (metis bnd_Inr)

lemma valid_for_each:
  assumes "\<And>x. x \<in> set xs \<Longrightarrow> valid I (f x) (\<lambda>_. I)"
  shows "valid I (for_each f xs) (\<lambda>_. I)"
  using assms
proof (induction xs)
  case Nil
  show ?case by (auto simp: valid_def)
next
  case (Cons x xs)
  then have "valid I (f x) (\<lambda>_. I)" and "valid I (for_each f xs) (\<lambda>_. I)" by auto
  then show ?case by (auto intro: valid_bnd)
qed

section \<open>C++ maps\<close>

text \<open>
  \<open>std::map<K,V>\<close> iterates in key order, so it is the association list of its entries in
  that order. \<open>cm_put\<close> is the assignment \<open>m[k] = v\<close>, \<open>cm_get d m k\<close> the value that
  \<open>m[k]\<close> reads (\<open>d\<close> is the value-initialised default of \<open>V\<close>), \<open>cm_touch d k m\<close> the map
  after such a read, and \<open>cm_erase\<close> is \<open>m.erase(k)\<close>. \<open>keys_with P m\<close> lists, in iteration
  order, the keys whose value satisfies \<open>P\<close>.
\<close>

type_synonym ('k, 'v) cmap = "('k \<times> 'v) list"

fun cm_put :: "'k::linorder \<Rightarrow> 'v \<Rightarrow> ('k, 'v) cmap \<Rightarrow> ('k, 'v) cmap" where
  "cm_put k v [] = [(k, v)]"
| "cm_put k v ((k', v') # m) =
     (if k < k' then (k, v) # (k', v') # m
      else if k = k' then (k, v) # m
      else (k', v') # cm_put k v m)"

definition cm_get :: "'v \<Rightarrow> ('k, 'v) cmap \<Rightarrow> 'k \<Rightarrow> 'v" where
  "cm_get d m k = (case map_of m k of None \<Rightarrow> d | Some v \<Rightarrow> v)"

definition cm_touch :: "'v \<Rightarrow> 'k::linorder \<Rightarrow> ('k, 'v) cmap \<Rightarrow> ('k, 'v) cmap" where
  "cm_touch d k m = (case map_of m k of None \<Rightarrow> cm_put k d m | Some _ \<Rightarrow> m)"

definition cm_erase :: "'k \<Rightarrow> ('k, 'v) cmap \<Rightarrow> ('k, 'v) cmap" where
  "cm_erase k m = filter (\<lambda>e. fst e \<noteq> k) m"

definition cm_keys :: "('k, 'v) cmap \<Rightarrow> 'k list" where
  "cm_keys m = map fst m"

definition cm_ok :: "('k::linorder, 'v) cmap \<Rightarrow> bool" where
  "cm_ok m = sorted_wrt (<) (map fst m)"

definition keys_with :: "('v \<Rightarrow> bool) \<Rightarrow> ('k, 'v) cmap \<Rightarrow> 'k list" where
  "keys_with P m = map fst (filter (\<lambda>e. P (snd e)) m)"

subsection \<open>Lookup after update\<close>

lemma map_of_cm_put [simp, cmap_simps]: "map_of (cm_put k v m) = (map_of m)(k \<mapsto> v)"
  by (induction k v m rule: cm_put.induct) (auto simp: fun_eq_iff)

lemma map_of_cm_touch [cmap_simps]:
  "map_of (cm_touch d k m) j = (if j = k then Some (cm_get d m k) else map_of m j)"
  by (auto simp: cm_touch_def cm_get_def split: option.splits)

lemma map_of_cm_erase [cmap_simps]:
  "map_of (cm_erase k m) j = (if j = k then None else map_of m j)"
  by (induction m) (auto simp: cm_erase_def)

lemma cm_get_put [simp, cmap_simps]:
  "cm_get d (cm_put k v m) j = (if j = k then v else cm_get d m j)"
  by (simp add: cm_get_def)

lemma cm_get_touch [simp, cmap_simps]: "cm_get d (cm_touch d k m) j = cm_get d m j"
  by (auto simp: cm_get_def cm_touch_def split: option.splits)

lemma cm_touch_known [simp]: "map_of m k \<noteq> None \<Longrightarrow> cm_touch d k m = m"
  by (auto simp: cm_touch_def)

lemma cm_get_Some: "map_of m k = Some v \<Longrightarrow> cm_get d m k = v"
  by (simp add: cm_get_def)

lemma cm_get_cases:
  "cm_get d m k = v \<longleftrightarrow> map_of m k = Some v \<or> (map_of m k = None \<and> v = d)"
  by (auto simp: cm_get_def split: option.splits)

subsection \<open>Key order\<close>

lemma keys_cm_put [simp]: "fst ` set (cm_put k v m) = insert k (fst ` set m)"
  by (induction k v m rule: cm_put.induct) auto

lemma cm_ok_Nil [simp]: "cm_ok []"
  by (simp add: cm_ok_def)

lemma cm_ok_Cons: "cm_ok ((k, v) # m) \<longleftrightarrow> (\<forall>j \<in> fst ` set m. k < j) \<and> cm_ok m"
  by (auto simp: cm_ok_def)

lemma cm_ok_put [simp, intro]: "cm_ok m \<Longrightarrow> cm_ok (cm_put k v m)"
proof (induction k v m rule: cm_put.induct)
  case (2 k v k' v' m)
  then show ?case by (force simp: cm_ok_Cons)
qed (simp add: cm_ok_def)

lemma cm_ok_touch [simp, intro]: "cm_ok m \<Longrightarrow> cm_ok (cm_touch d k m)"
  by (auto simp: cm_touch_def split: option.splits)

lemma cm_ok_erase [simp, intro]: "cm_ok m \<Longrightarrow> cm_ok (cm_erase k m)"
  by (auto simp: cm_ok_def cm_erase_def sorted_wrt_map intro: sorted_wrt_filter)

lemma cm_ok_distinct: "cm_ok m \<Longrightarrow> distinct (map fst m)"
  by (simp add: cm_ok_def strict_sorted_iff)

lemma in_set_cm_iff: "cm_ok m \<Longrightarrow> (k, v) \<in> set m \<longleftrightarrow> map_of m k = Some v"
  by (simp add: cm_ok_distinct)

lemma set_keys_with: "cm_ok m \<Longrightarrow> set (keys_with P m) = {k. \<exists>v. map_of m k = Some v \<and> P v}"
  by (force simp: keys_with_def simp flip: in_set_cm_iff)

lemma keys_with_Nil_iff: "keys_with P m = [] \<longleftrightarrow> (\<forall>e \<in> set m. \<not> P (snd e))"
  by (auto simp: keys_with_def filter_empty_conv)

lemma sorted_keys_with: "cm_ok m \<Longrightarrow> sorted_wrt (<) (keys_with P m)"
  unfolding cm_ok_def keys_with_def sorted_wrt_map by (rule sorted_wrt_filter)

lemma hd_keys_with_least:
  assumes "cm_ok m" and "k \<in> set (keys_with P m)"
  shows "hd (keys_with P m) \<le> k"
  using assms(2) sorted_keys_with [OF assms(1), of P] by (cases "keys_with P m") auto

lemma cm_put_same: "cm_ok m \<Longrightarrow> map_of m k = Some v \<Longrightarrow> cm_put k v m = m"
  by (induction k v m rule: cm_put.induct)
    (fastforce simp: cm_ok_Cons dest: map_of_SomeD split: if_splits)+

text \<open>Two ordered maps with the same lookups are the same list.\<close>

lemma cm_eqI:
  assumes "cm_ok m" and "cm_ok m'" and "map_of m = map_of m'"
  shows "m = m'"
  using assms
proof (induction m arbitrary: m')
  case Nil
  then show ?case by (metis list.exhaust map_of.simps(1) map_of_eq_None_iff map_of_eq_empty_iff)
next
  case (Cons e m)
  obtain k v where e: "e = (k, v)" by (cases e)
  with Cons.prems(3) have some: "map_of m' k = Some v"
    by (metis fun_upd_same map_of.simps(2) prod.sel)
  then obtain k' v' n where m': "m' = (k', v') # n" by (cases m') auto
  have "k' \<le> k"
    using Cons.prems(2) some by (auto simp: m' cm_ok_Cons less_imp_le dest!: map_of_SomeD split: if_splits)
  moreover have "k \<le> k'"
  proof (rule ccontr)
    assume "\<not> k \<le> k'"
    then have "map_of (e # m) k' = None"
      using Cons.prems(1) by (auto simp: e cm_ok_Cons map_of_eq_None_iff)
    with fun_cong [OF Cons.prems(3), of k'] show False by (simp add: m')
  qed
  ultimately have kk: "k' = k" and vv: "v' = v" using some by (auto simp: m')
  have fresh: "map_of m k = None" "map_of n k = None"
    using Cons.prems(1,2) by (auto simp: e m' kk cm_ok_Cons map_of_eq_None_iff)
  have "map_of m = map_of n"
  proof
    fix j
    show "map_of m j = map_of n j"
      using fun_cong [OF Cons.prems(3), of j] fresh by (cases "j = k") (auto simp: e m' kk)
  qed
  with Cons show ?case by (auto simp: e m' kk vv cm_ok_Cons)
qed

end
