(* ===== verification/C_String.thy ===== *)
theory C_String
  imports Prelude
begin

text \<open>
  C strings and the parts of the C library the code uses on them: \<open>fgets\<close>, \<open>%d\<close> and \<open>%p\<close> of
  \<open>printf\<close>, \<open>atoi\<close>, \<open>strtol\<close>, \<open>strtoul(_, _, 16)\<close>, \<open>strncmp\<close>, \<open>isspace\<close>, with the round trips
  that the schedule files rely on: what \<open>%d\<close> prints \<open>atoi\<close> reads back, what \<open>%p\<close> prints
  \<open>strtoul\<close> reads back.
\<close>

section \<open>C strings\<close>

text \<open>
  A C string is the list of its characters before the terminating NUL. A stream opened for
  reading is the list of characters still to be read.
\<close>

definition newline :: char where "newline = CHR 0x0A"

text \<open>
  \<open>fgets(buf, n, f)\<close> reads at most \<open>n - 1\<close> characters and stops after a newline; \<open>None\<close> is
  the \<open>NULL\<close> it returns at the end of the file.
\<close>

fun fgets_take :: "nat \<Rightarrow> string \<Rightarrow> string \<times> string" where
  "fgets_take 0 f = ([], f)"
| "fgets_take (Suc n) [] = ([], [])"
| "fgets_take (Suc n) (c # f) =
     (if c = newline then ([c], f)
      else (let (l, r) = fgets_take n f in (c # l, r)))"

definition fgets :: "nat \<Rightarrow> string \<Rightarrow> (string \<times> string) option" where
  "fgets n f = (if f = [] then None else Some (fgets_take (n - 1) f))"

definition strncmp_eq :: "string \<Rightarrow> string \<Rightarrow> nat \<Rightarrow> bool" where
  "strncmp_eq s t n = (take n s = take n t)"

definition isspace :: "char \<Rightarrow> bool" where
  "isspace c = (c \<in> {CHR '' '', CHR 0x09, CHR 0x0A, CHR 0x0B, CHR 0x0C, CHR 0x0D})"

subsection \<open>Decimal numbers\<close>

definition digit_char :: "nat \<Rightarrow> char" where
  "digit_char d = char_of (48 + d)"

fun dec_digits :: "nat \<Rightarrow> string" where
  "dec_digits n = (if n < 10 then [digit_char n] else dec_digits (n div 10) @ [digit_char (n mod 10)])"

declare dec_digits.simps [simp del]

definition printf_d :: "int \<Rightarrow> string" where
  "printf_d i = (if i < 0 then CHR ''-'' # dec_digits (nat (- i)) else dec_digits (nat i))"

definition is_digit :: "char \<Rightarrow> bool" where
  "is_digit c = (48 \<le> (of_char c :: nat) \<and> (of_char c :: nat) \<le> 57)"

definition digit_val :: "char \<Rightarrow> nat" where
  "digit_val c = of_char c - 48"

definition digits_val :: "nat \<Rightarrow> string \<Rightarrow> nat" where
  "digits_val acc ds = foldl (\<lambda>a c. 10 * a + digit_val c) acc ds"

text \<open>
  \<open>strtol\<close> saturates at the bounds of \<open>long\<close>; \<open>atoi\<close> is \<open>(int) strtol(s, NULL, 10)\<close>, the low
  32 bits read as a signed number. \<open>strtol10\<close> also returns the unread rest (\<open>endptr\<close>); with
  no digits the value is 0 and nothing is consumed.
\<close>

definition clamp_long :: "int \<Rightarrow> int" where
  "clamp_long z = max (- (2 ^ 63)) (min (2 ^ 63 - 1) z)"

definition c_int :: "int \<Rightarrow> int" where
  "c_int z = (z + 2 ^ 31) mod 2 ^ 32 - 2 ^ 31"

definition strtol10 :: "string \<Rightarrow> int \<times> string" where
  "strtol10 s =
     (let t = dropWhile isspace s;
          neg = (case t of c # _ \<Rightarrow> c = CHR ''-'' | [] \<Rightarrow> False);
          u = (case t of c # r \<Rightarrow> if c = CHR ''-'' \<or> c = CHR ''+'' then r else t | [] \<Rightarrow> []);
          ds = takeWhile is_digit u;
          v = int (digits_val 0 ds)
      in if ds = [] then (0, s)
         else (clamp_long (if neg then - v else v), dropWhile is_digit u))"

definition atoi :: "string \<Rightarrow> int" where
  "atoi s = c_int (fst (strtol10 s))"

subsection \<open>Hexadecimal numbers\<close>

definition hex_char :: "nat \<Rightarrow> char" where
  "hex_char d = (if d < 10 then char_of (48 + d) else char_of (87 + d))"

fun hex_digits :: "nat \<Rightarrow> string" where
  "hex_digits n = (if n < 16 then [hex_char n] else hex_digits (n div 16) @ [hex_char (n mod 16)])"

declare hex_digits.simps [simp del]

text \<open>\<open>%p\<close> of glibc: \<open>(nil)\<close> for a null pointer, \<open>0x\<close> and the hexadecimal digits otherwise.\<close>

definition printf_p :: "addr \<Rightarrow> string" where
  "printf_p a = (if a = NULL then ''(nil)'' else ''0x'' @ hex_digits (unat a))"

definition hex_val :: "char \<Rightarrow> nat option" where
  "hex_val c =
     (let n = (of_char c :: nat)
      in if 48 \<le> n \<and> n \<le> 57 then Some (n - 48)
         else if 97 \<le> n \<and> n \<le> 102 then Some (n - 87)
         else if 65 \<le> n \<and> n \<le> 70 then Some (n - 55)
         else None)"

definition is_hex :: "char \<Rightarrow> bool" where
  "is_hex c = (hex_val c \<noteq> None)"

definition hex_vals :: "string \<Rightarrow> nat" where
  "hex_vals ds = foldl (\<lambda>a c. 16 * a + the (hex_val c)) 0 ds"

text \<open>
  \<open>strtoul(s, NULL, 16)\<close>: optional space, optional sign (a minus negates modulo \<open>2 ^ 64\<close>), an
  optional \<open>0x\<close> that counts only when a hexadecimal digit follows it, digits; the value
  saturates at \<open>ULONG_MAX\<close>, and no digits give 0.
\<close>

definition strip_0x :: "string \<Rightarrow> string" where
  "strip_0x s =
     (case s of
        c # d # e # r \<Rightarrow>
          if c = CHR ''0'' \<and> (d = CHR ''x'' \<or> d = CHR ''X'') \<and> is_hex e then e # r else s
      | _ \<Rightarrow> s)"

definition strtoul16 :: "string \<Rightarrow> addr" where
  "strtoul16 s =
     (let t = dropWhile isspace s;
          neg = (case t of c # _ \<Rightarrow> c = CHR ''-'' | [] \<Rightarrow> False);
          u = (case t of c # r \<Rightarrow> if c = CHR ''-'' \<or> c = CHR ''+'' then r else t | [] \<Rightarrow> []);
          v = hex_vals (takeWhile is_hex (strip_0x u))
      in if v < 2 ^ 64 then (if neg then - word_of_nat v else word_of_nat v) else - 1)"

section \<open>Round trips\<close>

lemma of_char_digit [simp]: "d < 10 \<Longrightarrow> (of_char (digit_char d) :: nat) = 48 + d"
  by (simp add: digit_char_def)

lemma digit_char_props [simp]:
  "d < 10 \<Longrightarrow> is_digit (digit_char d)"
  "d < 10 \<Longrightarrow> digit_val (digit_char d) = d"
  by (simp_all add: is_digit_def digit_val_def)

lemma dec_digits_all: "\<forall>c \<in> set (dec_digits n). is_digit c"
proof (induction n rule: dec_digits.induct)
  case (1 n)
  then show ?case by (subst dec_digits.simps) auto
qed

lemma dec_digits_nonempty [simp]: "dec_digits n \<noteq> []"
  by (subst dec_digits.simps) simp

lemma digits_val_dec [simp]: "digits_val 0 (dec_digits n) = n"
proof (induction n rule: dec_digits.induct)
  case (1 n)
  then show ?case by (subst dec_digits.simps) (auto simp: digits_val_def)
qed

lemma digit_not_space: "is_digit c \<Longrightarrow> \<not> isspace c"
  by (auto simp: is_digit_def isspace_def)

lemma digit_not_sign: "is_digit c \<Longrightarrow> c \<noteq> CHR ''-'' \<and> c \<noteq> CHR ''+''"
  by (auto simp: is_digit_def)

lemma minus_not_space: "\<not> isspace (CHR ''-'')"
  by (simp add: isspace_def)

lemma takeWhile_stop: "\<forall>c \<in> set xs. P c \<Longrightarrow> (r = [] \<or> \<not> P (hd r)) \<Longrightarrow> takeWhile P (xs @ r) = xs"
  by (cases r) (auto simp: takeWhile_append)

lemma dropWhile_stop: "\<forall>c \<in> set xs. P c \<Longrightarrow> (r = [] \<or> \<not> P (hd r)) \<Longrightarrow> dropWhile P (xs @ r) = r"
  by (cases r) (auto simp: dropWhile_append)

lemma strtol10_digits:
  assumes "r = [] \<or> \<not> is_digit (hd r)"
  shows "strtol10 (dec_digits n @ r) = (clamp_long (int n), r)"
proof -
  obtain c cs where d: "dec_digits n = c # cs" by (cases "dec_digits n") auto
  have c: "is_digit c" using dec_digits_all [of n] d by simp
  have tw: "takeWhile is_digit (dec_digits n @ r) = dec_digits n"
    "dropWhile is_digit (dec_digits n @ r) = r"
    by (rule takeWhile_stop [OF dec_digits_all assms] dropWhile_stop [OF dec_digits_all assms])+
  have "dropWhile isspace (dec_digits n @ r) = dec_digits n @ r"
    by (simp add: d digit_not_space [OF c])
  with tw show ?thesis
    using digit_not_sign [OF c] digits_val_dec [of n] by (simp add: strtol10_def d)
qed

lemma strtol10_minus:
  assumes "r = [] \<or> \<not> is_digit (hd r)"
  shows "strtol10 (CHR ''-'' # dec_digits n @ r) = (clamp_long (- int n), r)"
proof -
  have tw: "takeWhile is_digit (dec_digits n @ r) = dec_digits n"
    "dropWhile is_digit (dec_digits n @ r) = r"
    by (rule takeWhile_stop [OF dec_digits_all assms] dropWhile_stop [OF dec_digits_all assms])+
  then show ?thesis by (simp add: strtol10_def minus_not_space)
qed

lemma c_int_id: "- (2 ^ 31) \<le> i \<Longrightarrow> i < 2 ^ 31 \<Longrightarrow> c_int i = i"
  by (simp add: c_int_def)

lemma clamp_long_id: "- (2 ^ 63) \<le> i \<Longrightarrow> i < 2 ^ 63 \<Longrightarrow> clamp_long i = i"
  by (simp add: clamp_long_def)

lemma strtol10_printf_d:
  assumes "- (2 ^ 63) \<le> i" and "i < 2 ^ 63" and "r = [] \<or> \<not> is_digit (hd r)"
  shows "strtol10 (printf_d i @ r) = (i, r)"
  using assms strtol10_digits [OF assms(3), of "nat i"] strtol10_minus [OF assms(3), of "nat (- i)"]
  by (auto simp: printf_d_def clamp_long_id)

lemma strtol10_skip_space: "(\<forall>c \<in> set sp. isspace c) \<Longrightarrow> s \<noteq> [] \<Longrightarrow> fst (strtol10 (sp @ s)) = fst (strtol10 s)"
  by (auto simp: strtol10_def Let_def dropWhile_append)

lemma atoi_printf_d:
  assumes "- (2 ^ 31) \<le> i" and "i < 2 ^ 31" and "r = [] \<or> \<not> is_digit (hd r)"
    and "\<forall>c \<in> set sp. isspace c"
  shows "atoi (sp @ printf_d i @ r) = i"
proof -
  have "strtol10 (printf_d i @ r) = (i, r)"
    using assms by (intro strtol10_printf_d) auto
  moreover have "printf_d i @ r \<noteq> []" by (simp add: printf_d_def)
  ultimately show ?thesis
    using assms by (simp add: atoi_def strtol10_skip_space c_int_id)
qed

subsection \<open>Hexadecimal\<close>

lemma hex_val_char [simp]: "d < 16 \<Longrightarrow> hex_val (hex_char d) = Some d"
  by (auto simp: hex_char_def hex_val_def Let_def)

lemma hex_digits_all: "\<forall>c \<in> set (hex_digits n). is_hex c"
proof (induction n rule: hex_digits.induct)
  case (1 n)
  then show ?case by (subst hex_digits.simps) (auto simp: is_hex_def)
qed

lemma hex_digits_nonempty [simp]: "hex_digits n \<noteq> []"
  by (subst hex_digits.simps) simp

lemma hex_vals_digits [simp]: "hex_vals (hex_digits n) = n"
proof (induction n rule: hex_digits.induct)
  case (1 n)
  then show ?case by (subst hex_digits.simps) (auto simp: hex_vals_def)
qed

lemma hex_not_space: "is_hex c \<Longrightarrow> \<not> isspace c"
  by (auto simp: is_hex_def hex_val_def isspace_def Let_def)

lemma not_hex [simp]: "\<not> is_hex (CHR ''('')" "\<not> is_hex newline"
  by (simp_all add: is_hex_def hex_val_def newline_def)

lemma strtoul16_printf_p:
  assumes "r = [] \<or> \<not> is_hex (hd r)" and "\<forall>c \<in> set sp. isspace c"
  shows "strtoul16 (sp @ printf_p a @ r) = a"
proof (cases "a = NULL")
  case True
  then show ?thesis
    using assms(2) by (simp add: strtoul16_def printf_p_def dropWhile_append isspace_def strip_0x_def hex_vals_def)
next
  case False
  obtain c cs where d: "hex_digits (unat a) = c # cs" by (cases "hex_digits (unat a)") auto
  have c: "is_hex c" using hex_digits_all [of "unat a"] d by simp
  have tw: "takeWhile is_hex (hex_digits (unat a) @ r) = hex_digits (unat a)"
    by (rule takeWhile_stop [OF hex_digits_all assms(1)])
  have "hex_vals (c # cs) = unat a" using hex_vals_digits [of "unat a"] d by simp
  moreover have "unat a < 2 ^ 64" using unsigned_less [of a] by simp
  ultimately show ?thesis
    using False assms(2) c tw
    by (simp add: strtoul16_def printf_p_def dropWhile_append isspace_def strip_0x_def d)
qed

subsection \<open>Reading a line\<close>

lemma fgets_take_line:
  "newline \<notin> set l \<Longrightarrow> length l < n \<Longrightarrow> fgets_take n (l @ newline # r) = (l @ [newline], r)"
proof (induction l arbitrary: n)
  case Nil
  then show ?case by (cases n) auto
next
  case (Cons c l)
  then show ?case by (cases n) auto
qed

lemma fgets_line:
  "newline \<notin> set l \<Longrightarrow> length l + 1 < n \<Longrightarrow> fgets n (l @ newline # r) = Some (l @ [newline], r)"
  by (simp add: fgets_def fgets_take_line)

lemma fgets_take_shrinks: "f \<noteq> [] \<Longrightarrow> 0 < n \<Longrightarrow> length (snd (fgets_take n f)) < length f"
proof (induction n f rule: fgets_take.induct)
  case (3 n c f)
  then show ?case by (cases "f = []"; cases n) (auto simp: newline_def split: prod.splits)
qed auto

lemma fgets_shrinks: "fgets n f = Some (l, r) \<Longrightarrow> 2 \<le> n \<Longrightarrow> length r < length f"
  using fgets_take_shrinks [of f "n - 1"] by (auto simp: fgets_def split: if_splits)

end
