(* ===== verification/Sched_Types.thy ===== *)
theory Sched_Types
  imports C_String
begin

text \<open>
  \<open>src/serializer/serializertypes.h\<close> and \<open>.cpp\<close>: what is known at a scheduling point and at a
  signal, the decisions a run records, and their text in the schedule file. A recorded decision
  is a value of \<open>DecisionInfo\<close>: its two constructors are the two subclasses.
\<close>

section \<open>Scheduling and signal points\<close>

record SchedPointInfo =
  sp_ret_addr :: addr
  sp_type :: string
  sp_thread :: thrID
  sp_enabled :: "(thrID, bool) cmap"
  sp_fenmap :: "(thrID, bool) cmap"
  sp_isYield :: bool
  sp_fromLog :: bool

text \<open>The constructor leaves \<open>fromLog\<close> unset; it is written before it is read, and starts as \<open>False\<close> here.\<close>

definition mk_SchedPointInfo :: "addr \<Rightarrow> string \<Rightarrow> thrID \<Rightarrow> (thrID, bool) cmap \<Rightarrow> bool \<Rightarrow> SchedPointInfo" where
  "mk_SchedPointInfo r ty thr en isy =
     \<lparr>sp_ret_addr = r, sp_type = ty, sp_thread = thr, sp_enabled = en, sp_fenmap = [],
      sp_isYield = isy, sp_fromLog = False\<rparr>"

record SignalPointInfo =
  sg_ret_addr :: addr
  sg_isBroadcast :: bool
  sg_thread :: thrID
  sg_cond :: addr
  sg_cond_map :: "(thrID, addr) cmap"

definition mk_SignalPointInfo :: "addr \<Rightarrow> bool \<Rightarrow> thrID \<Rightarrow> addr \<Rightarrow> (thrID, addr) cmap \<Rightarrow> SignalPointInfo" where
  "mk_SignalPointInfo r broad thr cnd m =
     \<lparr>sg_ret_addr = r, sg_isBroadcast = broad, sg_thread = thr, sg_cond = cnd, sg_cond_map = m\<rparr>"

section \<open>Decisions\<close>

datatype DecisionInfo =
    ScheduleDecisionInfo (chosen: thrID) (caller: thrID) (description: string) (idaddr: addr)
      (d_enabled: "thrID list")
  | SignalDecisionInfo (chosen: thrID) (caller: thrID) (idaddr: addr) (d_cond: addr)
      (oncond: "thrID list")

definition changeSpacesToUnderscores :: "string \<Rightarrow> string" where
  "changeSpacesToUnderscores s = map (\<lambda>c. if c = CHR '' '' then CHR ''_'' else c) s"

definition new_ScheduleDecisionInfo :: "thrID \<Rightarrow> thrID \<Rightarrow> string \<Rightarrow> addr \<Rightarrow> DecisionInfo" where
  "new_ScheduleDecisionInfo ch ca desc i = ScheduleDecisionInfo ch ca (changeSpacesToUnderscores desc) i []"

definition new_SignalDecisionInfo :: "thrID \<Rightarrow> thrID \<Rightarrow> addr \<Rightarrow> addr \<Rightarrow> DecisionInfo" where
  "new_SignalDecisionInfo ch ca i c = SignalDecisionInfo ch ca i c []"

fun addEnabledThread :: "thrID \<Rightarrow> DecisionInfo \<Rightarrow> DecisionInfo" where
  "addEnabledThread t (ScheduleDecisionInfo ch ca de i en) = ScheduleDecisionInfo ch ca de i (en @ [t])"
| "addEnabledThread t d = d"

fun addThreadOnCond :: "thrID \<Rightarrow> DecisionInfo \<Rightarrow> DecisionInfo" where
  "addThreadOnCond t (SignalDecisionInfo ch ca i c oc) = SignalDecisionInfo ch ca i c (oc @ [t])"
| "addThreadOnCond t d = d"

abbreviation getChosen :: "DecisionInfo \<Rightarrow> thrID" where "getChosen \<equiv> chosen"
abbreviation getID :: "DecisionInfo \<Rightarrow> addr" where "getID \<equiv> idaddr"

definition ln :: "string \<Rightarrow> string" where "ln s = s @ [newline]"

definition print_ids :: "thrID list \<Rightarrow> string" where
  "print_ids ts = concat (map (\<lambda>t. printf_d t @ '','') ts)"

text \<open>The lines \<open>printToFile\<close> writes for a decision, in the two subclasses.\<close>

definition sched_lines :: "thrID \<Rightarrow> thrID \<Rightarrow> string \<Rightarrow> addr \<Rightarrow> thrID list \<Rightarrow> string list" where
  "sched_lines ch ca de i en =
     [''SCHED'', ''chosen:'' @ printf_d ch, ''caller:'' @ printf_d ca, ''typstr:'' @ de,
      ''idaddr:'' @ printf_p i, ''enable:'' @ print_ids en]"

definition signal_lines :: "thrID \<Rightarrow> thrID \<Rightarrow> addr \<Rightarrow> addr \<Rightarrow> thrID list \<Rightarrow> string list" where
  "signal_lines ch ca i c oc =
     [''SIGNAL'', ''signalled:'' @ printf_d ch, ''caller:'' @ printf_d ca,
      ''idaddr:'' @ printf_p i, ''cond:'' @ printf_p c, ''oncond:'' @ print_ids oc]"

fun decision_lines :: "DecisionInfo \<Rightarrow> string list" where
  "decision_lines (ScheduleDecisionInfo ch ca de i en) = sched_lines ch ca de i en"
| "decision_lines (SignalDecisionInfo ch ca i c oc) = signal_lines ch ca i c oc"

definition printToFile :: "DecisionInfo \<Rightarrow> string" where
  "printToFile d = concat (map ln (decision_lines d))"

declare sched_lines_def [simp] signal_lines_def [simp]

lemma foldl_addEnabledThread:
  "foldl (\<lambda>d t. addEnabledThread t d) (ScheduleDecisionInfo ch ca de i en) ts
     = ScheduleDecisionInfo ch ca de i (en @ ts)"
  by (induction ts arbitrary: en) auto

lemma foldl_addThreadOnCond:
  "foldl (\<lambda>d t. addThreadOnCond t d) (SignalDecisionInfo ch ca i c oc) ts
     = SignalDecisionInfo ch ca i c (oc @ ts)"
  by (induction ts arbitrary: oc) auto

lemma changeSpaces_id: "CHR '' '' \<notin> set s \<Longrightarrow> changeSpacesToUnderscores s = s"
  by (induction s) (auto simp: changeSpacesToUnderscores_def)

lemma changeSpaces_no_space [simp]: "CHR '' '' \<notin> set (changeSpacesToUnderscores s)"
  by (auto simp: changeSpacesToUnderscores_def)

end
