(* ===== verification/Mersenne_Twister.thy ===== *)
theory Mersenne_Twister
  imports C_String
begin

unbundle bit_operations_syntax

text \<open>
  The random number generator of the loggers and its reference.

  \<^item> \<open>MTRand\<close> is the class of \<open>src/Mersenne-1.1/MersenneTwister.h\<close> as the loggers use it: seeding
    by one number and by an array, \<open>reload\<close>, \<open>randInt()\<close>, \<open>randInt(n)\<close>, \<open>save\<close> and \<open>load\<close>.
    \<open>uint32\<close> is \<open>unsigned long\<close>, 64 bits on the platform of the project, so every masking with
    \<open>0xffffffffUL\<close> is part of the model. The seed from \<open>/dev/urandom\<close> or the clock is an argument.
  \<^item> \<open>mt19937ar\<close> is Matsumoto and Nishimura's C program (\<open>Test/Original/mt19937ar.c\<close>),
    \<open>mt19937cok\<close> the version with Cokus's optimisation (\<open>Test/Cokus/mt19937ar-cok.c\<close>).

  \<open>MTRand\<close> twists its state eagerly and counts down, the reference twists lazily and counts up;
  a simulation relation shows that both draw the same numbers, and an invariant that every number
  drawn fits in 32 bits.
\<close>

section \<open>The class MTRand\<close>

definition N_mt :: nat where "N_mt = 624"   \<comment> \<open>\<open>enum { N = 624 }\<close>\<close>
definition M_mt :: nat where "M_mt = 397"   \<comment> \<open>\<open>enum { M = 397 }\<close>\<close>

lemma N_M_bounds [simp]:
  "0 < N_mt" "N_mt \<noteq> 0" "Suc 0 \<le> N_mt" "0 < M_mt" "M_mt < N_mt" "M_mt - Suc 0 < N_mt"
  by (simp_all add: N_mt_def M_mt_def)

lemma N_M_offset: "p < N_mt - Suc 0 \<Longrightarrow> p + M_mt - N_mt < N_mt"
  by (simp add: N_mt_def M_mt_def)

type_synonym u64 = "64 word"

record MTRand =
  state :: "u64 list"   \<comment> \<open>\<open>uint32 state[N]\<close>\<close>
  pNext :: nat          \<comment> \<open>\<open>pNext - state\<close>\<close>
  left :: int

definition hiBit :: "u64 \<Rightarrow> u64" where "hiBit u = u AND 0x80000000"
definition loBit :: "u64 \<Rightarrow> u64" where "loBit u = u AND 0x00000001"
definition loBits :: "u64 \<Rightarrow> u64" where "loBits u = u AND 0x7fffffff"

definition mixBits :: "u64 \<Rightarrow> u64 \<Rightarrow> u64" where
  "mixBits u v = hiBit u OR loBits v"

definition magic :: "u64 \<Rightarrow> u64" where
  "magic u = (if loBit u \<noteq> 0 then 0x9908b0df else 0)"

definition twist :: "u64 \<Rightarrow> u64 \<Rightarrow> u64 \<Rightarrow> u64" where
  "twist m s0 s1 = (m XOR drop_bit 1 (mixBits s0 s1)) XOR magic s1"

definition init_step :: "u64 list \<Rightarrow> nat \<Rightarrow> u64 list" where
  "init_step s i =
     s[i := (1812433253 * (s ! (i - 1) XOR drop_bit 30 (s ! (i - 1))) + word_of_nat i)
             AND 0xffffffff]"

definition MTRand_initialize :: "u64 \<Rightarrow> MTRand \<Rightarrow> MTRand" where
  "MTRand_initialize seed r =
     r\<lparr>state := foldl init_step ((state r)[0 := seed AND 0xffffffff]) [1..<N_mt]\<rparr>"

definition reload_state :: "u64 list \<Rightarrow> u64 list" where
  "reload_state s0 =
     (let s1 = foldl (\<lambda>s p. s[p := twist (s ! (p + M_mt)) (s ! p) (s ! (p + 1))]) s0 [0..<N_mt - M_mt];
          s2 = foldl (\<lambda>s p. s[p := twist (s ! (p + M_mt - N_mt)) (s ! p) (s ! (p + 1))]) s1
                 [N_mt - M_mt..<N_mt - 1]
      in s2[N_mt - 1 := twist (s2 ! (M_mt - 1)) (s2 ! (N_mt - 1)) (s2 ! 0)])"

definition MTRand_reload :: "MTRand \<Rightarrow> MTRand" where
  "MTRand_reload r = r\<lparr>state := reload_state (state r), left := int N_mt, pNext := 0\<rparr>"

definition MTRand_seed :: "u64 \<Rightarrow> MTRand \<Rightarrow> MTRand" where
  "MTRand_seed oneSeed r = MTRand_reload (MTRand_initialize oneSeed r)"

text \<open>
  The two mixing loops of array seeding. Their loop variables \<open>i\<close> and \<open>j\<close> wrap at \<open>N\<close> and at
  \<open>seedLength\<close>; the first argument counts the iterations left (\<open>k\<close>).
\<close>

fun seed_loop1 :: "nat \<Rightarrow> u64 list \<Rightarrow> nat \<Rightarrow> nat \<Rightarrow> u64 list \<Rightarrow> nat \<times> u64 list" where
  "seed_loop1 0 key i j s = (i, s)"
| "seed_loop1 (Suc k) key i j s =
     (let s = s[i := s ! i XOR ((s ! (i - 1) XOR drop_bit 30 (s ! (i - 1))) * 1664525)];
          s = s[i := s ! i + ((key ! j AND 0xffffffff) + word_of_nat j)];
          s = s[i := s ! i AND 0xffffffff];
          i = i + 1;
          j = j + 1;
          (s, i) = (if i \<ge> N_mt then (s[0 := s ! (N_mt - 1)], 1) else (s, i));
          j = (if j \<ge> length key then 0 else j)
      in seed_loop1 k key i j s)"

fun seed_loop2 :: "nat \<Rightarrow> nat \<Rightarrow> u64 list \<Rightarrow> u64 list" where
  "seed_loop2 0 i s = s"
| "seed_loop2 (Suc k) i s =
     (let s = s[i := s ! i XOR ((s ! (i - 1) XOR drop_bit 30 (s ! (i - 1))) * 1566083941)];
          s = s[i := s ! i - word_of_nat i];
          s = s[i := s ! i AND 0xffffffff];
          i = i + 1;
          (s, i) = (if i \<ge> N_mt then (s[0 := s ! (N_mt - 1)], 1) else (s, i))
      in seed_loop2 k i s)"

definition MTRand_seed_array :: "u64 list \<Rightarrow> MTRand \<Rightarrow> MTRand" where
  "MTRand_seed_array bigSeed r =
     (let r = MTRand_initialize 19650218 r;
          (i, s) = seed_loop1 (if N_mt > length bigSeed then N_mt else length bigSeed) bigSeed 1 0 (state r);
          s = seed_loop2 (N_mt - 1) i s
      in MTRand_reload (r\<lparr>state := s[0 := 0x80000000]\<rparr>))"

definition temper :: "u64 \<Rightarrow> u64" where
  "temper s1 =
     (let s1 = s1 XOR drop_bit 11 s1;
          s1 = s1 XOR (push_bit 7 s1 AND 0x9d2c5680);
          s1 = s1 XOR (push_bit 15 s1 AND 0xefc60000)
      in s1 XOR drop_bit 18 s1)"

definition MTRand_randInt :: "MTRand \<Rightarrow> u64 \<times> MTRand" where
  "MTRand_randInt r =
     (let r = (if left r = 0 then MTRand_reload r else r);
          r = r\<lparr>left := left r - 1\<rparr>;
          s1 = state r ! pNext r
      in (temper s1, r\<lparr>pNext := pNext r + 1\<rparr>))"

definition used_bits :: "u64 \<Rightarrow> u64" where
  "used_bits n =
     (let used = n;
          used = used OR drop_bit 1 used;
          used = used OR drop_bit 2 used;
          used = used OR drop_bit 4 used;
          used = used OR drop_bit 8 used
      in used OR drop_bit 16 used)"

text \<open>
  \<open>randInt(n)\<close> draws until the masked number is at most \<open>n\<close>; nothing bounds the number of draws,
  so not returning is the value \<open>None\<close>.
\<close>

partial_function (option) MTRand_randInt_upto :: "u64 \<Rightarrow> MTRand \<Rightarrow> (u64 \<times> MTRand) option" where
  "MTRand_randInt_upto n r =
     (let (x, r') = MTRand_randInt r; i = x AND used_bits n
      in if i > n then MTRand_randInt_upto n r' else Some (i, r'))"

definition MTRand_save :: "MTRand \<Rightarrow> u64 list" where
  "MTRand_save r = state r @ [word_of_int (left r)]"

definition MTRand_load :: "u64 list \<Rightarrow> MTRand \<Rightarrow> MTRand" where
  "MTRand_load la r =
     (let l = sint (ucast (la ! N_mt) :: 32 word)
      in r\<lparr>state := take N_mt la, left := l, pNext := nat (int N_mt - l)\<rparr>)"

definition MTRand_copy :: "MTRand \<Rightarrow> MTRand" where
  "MTRand_copy ob = \<lparr>state = state ob, pNext = nat (int N_mt - left ob), left = left ob\<rparr>"

section \<open>The reference program\<close>

record mt19937ar =
  mt :: "u64 list"      \<comment> \<open>\<open>static unsigned long mt[N]\<close>\<close>
  mti :: nat            \<comment> \<open>\<open>N+1\<close> means that \<open>mt\<close> is not initialised\<close>

definition o_init_genrand :: "u64 \<Rightarrow> mt19937ar \<Rightarrow> mt19937ar" where
  "o_init_genrand s g =
     g\<lparr>mt := foldl (\<lambda>m i. let m = m[i := 1812433253 * (m ! (i - 1) XOR drop_bit 30 (m ! (i - 1)))
                                       + word_of_nat i]
                           in m[i := m ! i AND 0xffffffff])
             ((mt g)[0 := s AND 0xffffffff]) [1..<N_mt],
       mti := N_mt\<rparr>"

fun o_key_loop1 :: "nat \<Rightarrow> u64 list \<Rightarrow> nat \<Rightarrow> nat \<Rightarrow> u64 list \<Rightarrow> nat \<times> u64 list" where
  "o_key_loop1 0 key i j m = (i, m)"
| "o_key_loop1 (Suc k) key i j m =
     (let m = m[i := (m ! i XOR ((m ! (i - 1) XOR drop_bit 30 (m ! (i - 1))) * 1664525))
                     + key ! j + word_of_nat j];
          m = m[i := m ! i AND 0xffffffff];
          i = i + 1;
          j = j + 1;
          (m, i) = (if i \<ge> N_mt then (m[0 := m ! (N_mt - 1)], 1) else (m, i));
          j = (if j \<ge> length key then 0 else j)
      in o_key_loop1 k key i j m)"

fun o_key_loop2 :: "nat \<Rightarrow> nat \<Rightarrow> u64 list \<Rightarrow> u64 list" where
  "o_key_loop2 0 i m = m"
| "o_key_loop2 (Suc k) i m =
     (let m = m[i := (m ! i XOR ((m ! (i - 1) XOR drop_bit 30 (m ! (i - 1))) * 1566083941))
                     - word_of_nat i];
          m = m[i := m ! i AND 0xffffffff];
          i = i + 1;
          (m, i) = (if i \<ge> N_mt then (m[0 := m ! (N_mt - 1)], 1) else (m, i))
      in o_key_loop2 k i m)"

definition o_init_by_array :: "u64 list \<Rightarrow> mt19937ar \<Rightarrow> mt19937ar" where
  "o_init_by_array key g =
     (let g = o_init_genrand 19650218 g;
          (i, m) = o_key_loop1 (if N_mt > length key then N_mt else length key) key 1 0 (mt g);
          m = o_key_loop2 (N_mt - 1) i m
      in g\<lparr>mt := m[0 := 0x80000000]\<rparr>)"

definition o_mag01 :: "u64 \<Rightarrow> u64" where
  "o_mag01 b = (if b = 0 then 0 else 0x9908b0df)"

definition o_twist :: "u64 \<Rightarrow> u64 \<Rightarrow> u64 \<Rightarrow> u64" where
  "o_twist m u v =
     (let y = (u AND 0x80000000) OR (v AND 0x7fffffff)
      in (m XOR drop_bit 1 y) XOR o_mag01 (y AND 1))"

definition o_generate :: "u64 list \<Rightarrow> u64 list" where
  "o_generate m0 =
     (let m1 = foldl (\<lambda>m kk. m[kk := o_twist (m ! (kk + M_mt)) (m ! kk) (m ! (kk + 1))]) m0
                 [0..<N_mt - M_mt];
          m2 = foldl (\<lambda>m kk. m[kk := o_twist (m ! (kk + M_mt - N_mt)) (m ! kk) (m ! (kk + 1))]) m1
                 [N_mt - M_mt..<N_mt - 1]
      in m2[N_mt - 1 := o_twist (m2 ! (M_mt - 1)) (m2 ! (N_mt - 1)) (m2 ! 0)])"

definition o_temper :: "u64 \<Rightarrow> u64" where
  "o_temper y =
     (let y = y XOR drop_bit 11 y;
          y = y XOR (push_bit 7 y AND 0x9d2c5680);
          y = y XOR (push_bit 15 y AND 0xefc60000);
          y = y XOR drop_bit 18 y
      in y)"

definition o_genrand_int32 :: "mt19937ar \<Rightarrow> u64 \<times> mt19937ar" where
  "o_genrand_int32 g =
     (let g = (if mti g \<ge> N_mt
               then (let g = (if mti g = N_mt + 1 then o_init_genrand 5489 g else g)
                     in g\<lparr>mt := o_generate (mt g), mti := 0\<rparr>)
               else g);
          y = mt g ! mti g
      in (o_temper y, g\<lparr>mti := mti g + 1\<rparr>))"

definition o_genrand_int31 :: "mt19937ar \<Rightarrow> u64 \<times> mt19937ar" where
  "o_genrand_int31 g = (let (y, g) = o_genrand_int32 g in (drop_bit 1 y, g))"

section \<open>Cokus's version\<close>

record mt19937cok =
  cok_state :: "u64 list"
  cok_left :: int
  cok_initf :: bool
  cok_next :: nat

definition MIXBITS :: "u64 \<Rightarrow> u64 \<Rightarrow> u64" where
  "MIXBITS u v = (u AND 0x80000000) OR (v AND 0x7fffffff)"

definition TWIST :: "u64 \<Rightarrow> u64 \<Rightarrow> u64" where
  "TWIST u v = drop_bit 1 (MIXBITS u v) XOR (if v AND 1 \<noteq> 0 then 0x9908b0df else 0)"

definition cok_init_genrand :: "u64 \<Rightarrow> mt19937cok \<Rightarrow> mt19937cok" where
  "cok_init_genrand s g =
     g\<lparr>cok_state := foldl (\<lambda>m j. let m = m[j := 1812433253 * (m ! (j - 1) XOR drop_bit 30 (m ! (j - 1)))
                                               + word_of_nat j]
                                  in m[j := m ! j AND 0xffffffff])
                     ((cok_state g)[0 := s AND 0xffffffff]) [1..<N_mt],
       cok_left := 1, cok_initf := True\<rparr>"

definition cok_next_state :: "mt19937cok \<Rightarrow> mt19937cok" where
  "cok_next_state g0 =
     (let g = (if cok_initf g0 then g0 else cok_init_genrand 5489 g0);
          s1 = foldl (\<lambda>s p. s[p := s ! (p + M_mt) XOR TWIST (s ! p) (s ! (p + 1))]) (cok_state g)
                 [0..<N_mt - M_mt];
          s2 = foldl (\<lambda>s p. s[p := s ! (p + M_mt - N_mt) XOR TWIST (s ! p) (s ! (p + 1))]) s1
                 [N_mt - M_mt..<N_mt - 1]
      in g\<lparr>cok_left := int N_mt, cok_next := 0,
           cok_state := s2[N_mt - 1 := s2 ! (M_mt - 1) XOR TWIST (s2 ! (N_mt - 1)) (s2 ! 0)]\<rparr>)"

definition cok_genrand_int32 :: "mt19937cok \<Rightarrow> u64 \<times> mt19937cok" where
  "cok_genrand_int32 g =
     (let g = g\<lparr>cok_left := cok_left g - 1\<rparr>;
          g = (if cok_left g = 0 then cok_next_state g else g);
          y = cok_state g ! cok_next g;
          g = g\<lparr>cok_next := cok_next g + 1\<rparr>;
          y = y XOR drop_bit 11 y;
          y = y XOR (push_bit 7 y AND 0x9d2c5680);
          y = y XOR (push_bit 15 y AND 0xefc60000);
          y = y XOR drop_bit 18 y
      in (y, g))"

section \<open>Sequences of draws\<close>

fun draws :: "('g \<Rightarrow> u64 \<times> 'g) \<Rightarrow> nat \<Rightarrow> 'g \<Rightarrow> u64 list \<times> 'g" where
  "draws d 0 g = ([], g)"
| "draws d (Suc n) g = (let (x, g') = d g; (xs, g'') = draws d n g' in (x # xs, g''))"

section \<open>Agreement with the reference\<close>

lemma o_twist_eq: "o_twist = twist"
proof (intro ext)
  fix m u v :: u64
  have "((u AND 0x80000000) OR (v AND 0x7fffffff)) AND 1 = v AND 1"
    by (simp add: bit.conj_disj_distrib2 and.assoc)
  then show "o_twist m u v = twist m u v"
    by (simp add: o_twist_def twist_def o_mag01_def magic_def mixBits_def hiBit_def loBit_def
        loBits_def)
qed

lemma TWIST_eq: "m XOR TWIST u v = twist m u v"
  by (simp add: TWIST_def MIXBITS_def twist_def magic_def mixBits_def hiBit_def loBit_def
      loBits_def xor.assoc)

lemma o_generate_eq: "o_generate = reload_state"
  by (rule ext) (simp only: o_generate_def reload_state_def o_twist_eq)

lemma o_temper_eq: "o_temper = temper"
  by (rule ext) (simp add: o_temper_def temper_def Let_def)

text \<open>Writing a cell and reading it back in the next assignment is one assignment.\<close>

lemma update_read_update:
  fixes m :: "u64 list"
  shows "m[i := m[i := a] ! i AND k] = m[i := a AND k]"
    and "m[i := m[i := a] ! i + b] = m[i := a + b]"
    and "m[i := m[i := a] ! i - b] = m[i := a - b]"
  by (cases "i < length m"; simp add: list_update_beyond)+

lemma o_init_eq: "mt g = state r \<Longrightarrow> mt (o_init_genrand s g) = state (MTRand_initialize s r)"
  by (simp add: o_init_genrand_def MTRand_initialize_def init_step_def [abs_def] Let_def update_read_update)

text \<open>Only the low 32 bits of a key word reach the state.\<close>

lemma and_mask_add:
  "((a + ((k AND 0xffffffff) + c)) AND 0xffffffff) = ((a + k + c) AND (0xffffffff :: u64))"
proof -
  have m: "x AND 0xffffffff = take_bit 32 x" for x :: u64
    by (simp add: take_bit_eq_mask mask_numeral)
  have "take_bit 32 (a + c + take_bit 32 k) = take_bit 32 (a + c + k)"
    by transfer (simp add: take_bit_eq_mod mod_add_right_eq)
  moreover have "a + (take_bit 32 k + c) = a + c + take_bit 32 k" and "a + k + c = a + c + k"
    by simp_all
  ultimately show ?thesis by (simp only: m)
qed

lemma key_loop1_eq: "o_key_loop1 k key i j m = seed_loop1 k key i j m"
  by (induction k arbitrary: i j m) (simp_all add: Let_def update_read_update and_mask_add)

lemma key_loop2_eq: "o_key_loop2 k i m = seed_loop2 k i m"
  by (induction k arbitrary: i m) (simp_all add: Let_def update_read_update)

lemma o_init_by_array_eq:
  assumes "mt g = state r"
  shows "reload_state (mt (o_init_by_array key g)) = state (MTRand_seed_array key r)"
  using o_init_eq [OF assms, of 19650218]
  by (simp add: o_init_by_array_def MTRand_seed_array_def MTRand_reload_def key_loop1_eq key_loop2_eq
      Let_def split: prod.splits)

text \<open>
  The simulation relation. Right after seeding, \<open>MTRand\<close> has already twisted the state that the
  reference will twist at its first draw; afterwards both hold the same array and the same
  position.
\<close>

definition mt_sim :: "MTRand \<Rightarrow> mt19937ar \<Rightarrow> bool" where
  "mt_sim r g \<longleftrightarrow>
     (mti g = N_mt \<and> state r = reload_state (mt g) \<and> left r = int N_mt \<and> pNext r = 0) \<or>
     (mti g \<le> N_mt \<and> state r = mt g \<and> pNext r = mti g \<and> left r = int N_mt - int (mti g))"

lemma mt_sim_seed: "mt g = state r \<Longrightarrow> mt_sim (MTRand_seed s r) (o_init_genrand s g)"
  using o_init_eq [of g r s]
  by (simp add: mt_sim_def MTRand_seed_def MTRand_reload_def o_init_genrand_def)

lemma o_init_by_array_mti [simp]: "mti (o_init_by_array key g) = N_mt"
  by (simp add: o_init_by_array_def o_init_genrand_def Let_def split: prod.splits)

lemma MTRand_seed_array_pos [simp]:
  "left (MTRand_seed_array key r) = int N_mt" "pNext (MTRand_seed_array key r) = 0"
  by (simp_all add: MTRand_seed_array_def MTRand_reload_def Let_def split: prod.splits)

lemma mt_sim_seed_array:
  "mt g = state r \<Longrightarrow> mt_sim (MTRand_seed_array key r) (o_init_by_array key g)"
  using o_init_by_array_eq [of g r key] by (simp add: mt_sim_def)

lemma mt_sim_step:
  assumes "mt_sim r g"
  shows "fst (MTRand_randInt r) = fst (o_genrand_int32 g)
       \<and> mt_sim (snd (MTRand_randInt r)) (snd (o_genrand_int32 g))"
  using assms
  by (auto simp: mt_sim_def MTRand_randInt_def o_genrand_int32_def MTRand_reload_def o_generate_eq
      o_temper_eq Let_def)

lemma mt_sim_draws: "mt_sim r g \<Longrightarrow> fst (draws MTRand_randInt n r) = fst (draws o_genrand_int32 n g)"
proof (induction n arbitrary: r g)
  case (Suc n)
  then show ?case
    using mt_sim_step [OF Suc.prems]
    by (auto simp: Let_def split: prod.splits) (metis fst_conv snd_conv)+
qed simp

subsection \<open>Cokus's version\<close>

definition cok_sim :: "mt19937cok \<Rightarrow> mt19937ar \<Rightarrow> bool" where
  "cok_sim c g \<longleftrightarrow> cok_initf c \<and> mti g \<le> N_mt \<and> cok_state c = mt g
     \<and> cok_left c = int N_mt - int (mti g) + 1 \<and> (mti g < N_mt \<longrightarrow> cok_next c = mti g)"

lemma cok_sim_seed:
  "mt g = cok_state c \<Longrightarrow> cok_sim (cok_init_genrand s c) (o_init_genrand s g)"
  by (simp add: cok_sim_def cok_init_genrand_def o_init_genrand_def Let_def)

lemma cok_next_state_eq:
  "cok_initf c \<Longrightarrow>
   cok_next_state c = c\<lparr>cok_left := int N_mt, cok_next := 0, cok_state := reload_state (cok_state c)\<rparr>"
  by (simp only: cok_next_state_def reload_state_def TWIST_eq Let_def if_True)

lemma cok_genrand_eq:
  "cok_genrand_int32 c =
     (let g = c\<lparr>cok_left := cok_left c - 1\<rparr>;
          g = (if cok_left g = 0 then cok_next_state g else g)
      in (temper (cok_state g ! cok_next g), g\<lparr>cok_next := cok_next g + 1\<rparr>))"
  by (simp only: cok_genrand_int32_def temper_def Let_def)

lemma cok_sim_step:
  assumes "cok_sim c g"
  shows "fst (cok_genrand_int32 c) = fst (o_genrand_int32 g)
       \<and> cok_sim (snd (cok_genrand_int32 c)) (snd (o_genrand_int32 g))"
proof (cases "mti g = N_mt")
  case True
  with assms have c: "cok_initf (c\<lparr>cok_left := cok_left c - 1\<rparr>)" "cok_left c - 1 = 0" "cok_state c = mt g"
    by (simp_all add: cok_sim_def)
  then show ?thesis
    using True cok_next_state_eq [OF c(1)]
    by (simp add: cok_sim_def cok_genrand_eq o_genrand_int32_def o_generate_eq o_temper_eq)
next
  case False
  with assms have "cok_left c - 1 \<noteq> 0" "mti g < N_mt" "cok_next c = mti g" "cok_state c = mt g"
    by (auto simp: cok_sim_def)
  with assms show ?thesis
    by (simp add: cok_sim_def cok_genrand_eq o_genrand_int32_def o_temper_eq)
qed

lemma cok_sim_draws: "cok_sim c g \<Longrightarrow> fst (draws cok_genrand_int32 n c) = fst (draws o_genrand_int32 n g)"
proof (induction n arbitrary: c g)
  case (Suc n)
  then show ?case
    using cok_sim_step [OF Suc.prems]
    by (auto simp: Let_def split: prod.splits) (metis fst_conv snd_conv)+
qed simp

section \<open>Range of the numbers drawn\<close>

definition small :: "u64 \<Rightarrow> bool" where
  "small x \<longleftrightarrow> take_bit 32 x = x"

lemma small_bits: "small x \<longleftrightarrow> (\<forall>n \<ge> 32. \<not> bit x n)"
proof
  assume "small x"
  then show "\<forall>n \<ge> 32. \<not> bit x n" by (metis bit_take_bit_iff not_less small_def)
next
  assume "\<forall>n \<ge> 32. \<not> bit x n"
  then show "small x" unfolding small_def
    by (intro bit_word_eqI) (auto simp: bit_take_bit_iff intro: leI)
qed

lemma small_less: "small x \<longleftrightarrow> unat x < 2 ^ 32"
proof -
  have "small x \<longleftrightarrow> unat (take_bit 32 x) = unat x"
    by (simp add: small_def word_unat_eq_iff)
  also have "\<dots> \<longleftrightarrow> unat x < 2 ^ 32"
    by (simp add: unsigned_take_bit_eq take_bit_nat_eq_self_iff)
  finally show ?thesis .
qed

lemma small_ops:
  "small a \<Longrightarrow> small b \<Longrightarrow> small (a XOR b)"
  "small a \<Longrightarrow> small b \<Longrightarrow> small (a OR b)"
  "small b \<Longrightarrow> small (a AND b)"
  "small a \<Longrightarrow> small (drop_bit k a)"
  by (auto simp: small_bits bit_simps)

lemma small_consts [simp]:
  "small 0" "small (numeral w) \<longleftrightarrow> take_bit 32 (numeral w :: u64) = numeral w"
  by (simp_all add: small_def)

lemma small_twist: "small m \<Longrightarrow> small (twist m u v)"
  by (auto simp: twist_def mixBits_def hiBit_def loBits_def magic_def intro!: small_ops)

lemma small_temper: "small x \<Longrightarrow> small (temper x)"
  by (auto simp: temper_def Let_def intro!: small_ops)

definition small_state :: "u64 list \<Rightarrow> bool" where
  "small_state s \<longleftrightarrow> length s = N_mt \<and> (\<forall>x \<in> set s. small x)"

lemma small_state_update: "small_state s \<Longrightarrow> small x \<Longrightarrow> small_state (s[i := x])"
  using set_update_subset_insert [of s i x] by (auto simp: small_state_def)

lemma small_state_nth: "small_state s \<Longrightarrow> i < N_mt \<Longrightarrow> small (s ! i)"
  by (auto simp: small_state_def)

lemma small_state_foldl:
  assumes "\<And>s p. p \<in> set ps \<Longrightarrow> small_state s \<Longrightarrow> small_state (f s p)" and "small_state s"
  shows "small_state (foldl f s ps)"
  using assms by (induction ps arbitrary: s) auto

lemma small_state_reload: "small_state s \<Longrightarrow> small_state (reload_state s)"
  unfolding reload_state_def Let_def
  by (intro small_state_update small_state_foldl small_twist small_state_nth) (auto simp: N_M_offset)

definition mt_ok :: "MTRand \<Rightarrow> bool" where
  "mt_ok r \<longleftrightarrow> small_state (state r) \<and> 0 \<le> left r \<and> left r \<le> int N_mt \<and> int (pNext r) = int N_mt - left r"

lemma mt_ok_reload: "small_state (state r) \<Longrightarrow> mt_ok (MTRand_reload r)"
  by (simp add: mt_ok_def MTRand_reload_def small_state_reload)

lemma small_state_initialize:
  assumes "length (state r) = N_mt"
  shows "small_state (state (MTRand_initialize seed r))"
proof -
  let ?step = "\<lambda>i s. length s = N_mt \<and> (\<forall>j < i. small (s ! j))"
  have one: "?step (Suc i) (init_step s i)" if "?step i s" "i < N_mt" for i s
    using that by (auto simp: init_step_def nth_list_update less_Suc_eq intro: small_ops)
  have "?step n (foldl init_step ((state r)[0 := seed AND 0xffffffff]) [1..<n])"
    if "1 \<le> n" "n \<le> N_mt" for n
    using that
  proof (induction n rule: nat_induct_at_least)
    case base
    show ?case using assms by (auto intro: small_ops)
  next
    case (Suc n)
    then show ?case using one by simp
  qed
  from this [of N_mt] show ?thesis
    by (auto simp: small_state_def MTRand_initialize_def in_set_conv_nth)
qed

lemma mt_ok_seed: "length (state r) = N_mt \<Longrightarrow> mt_ok (MTRand_seed s r)"
  by (simp add: MTRand_seed_def mt_ok_reload small_state_initialize)

lemma mt_ok_step: "mt_ok r \<Longrightarrow> mt_ok (snd (MTRand_randInt r))"
  by (auto simp: mt_ok_def MTRand_randInt_def MTRand_reload_def Let_def small_state_reload)

lemma small_randInt: "mt_ok r \<Longrightarrow> small (fst (MTRand_randInt r))"
  by (auto simp: mt_ok_def MTRand_randInt_def MTRand_reload_def Let_def
      intro!: small_temper small_state_nth small_state_reload)

lemma small_draws: "mt_ok r \<Longrightarrow> \<forall>x \<in> set (fst (draws MTRand_randInt n r)). small x"
proof (induction n arbitrary: r)
  case (Suc n)
  then show ?case
    using small_randInt [OF Suc.prems] mt_ok_step [OF Suc.prems]
    by (fastforce simp: Let_def split: prod.splits)
qed simp

section \<open>Seeding forgets the old state\<close>

lemma init_state_determined:
  assumes "length s = N_mt" and "length s' = N_mt"
  shows "foldl init_step (s[0 := x]) [1..<N_mt] = foldl init_step (s'[0 := x]) [1..<N_mt]"
proof -
  let ?agree = "\<lambda>n a b. length a = N_mt \<and> length b = N_mt \<and> (\<forall>j < n. a ! j = b ! j)"
  have one: "?agree (Suc i) (init_step a i) (init_step b i)" if "?agree i a b" "0 < i" "i < N_mt" for i a b
    using that by (auto simp: init_step_def nth_list_update less_Suc_eq)
  have "?agree n (foldl init_step (s[0 := x]) [1..<n]) (foldl init_step (s'[0 := x]) [1..<n])"
    if "1 \<le> n" "n \<le> N_mt" for n
    using that
  proof (induction n rule: nat_induct_at_least)
    case base
    show ?case using assms by simp
  next
    case (Suc n)
    then show ?case
      using one [of "foldl init_step (s[0 := x]) [1..<n]" "foldl init_step (s'[0 := x]) [1..<n]" n]
      by simp
  qed
  from this [of N_mt] show ?thesis by (auto intro: nth_equalityI)
qed

lemma MTRand_initialize_determined:
  "length (state r) = N_mt \<Longrightarrow> length (state r') = N_mt \<Longrightarrow>
   state (MTRand_initialize s r) = state (MTRand_initialize s r')"
  using init_state_determined [of "state r" "state r'" "s AND 0xffffffff"]
  by (simp add: MTRand_initialize_def)

lemma MTRand_seed_determined:
  "length (state r) = N_mt \<Longrightarrow> length (state r') = N_mt \<Longrightarrow> MTRand_seed s r = MTRand_seed s r'"
  using MTRand_initialize_determined [of r r' s] by (simp add: MTRand_seed_def MTRand_reload_def)

lemma MTRand_seed_array_determined:
  "length (state r) = N_mt \<Longrightarrow> length (state r') = N_mt \<Longrightarrow>
   MTRand_seed_array key r = MTRand_seed_array key r'"
  using MTRand_initialize_determined [of r r' 19650218]
  by (simp add: MTRand_seed_array_def MTRand_reload_def Let_def split: prod.splits)

section \<open>Properties\<close>

definition zero_mt :: MTRand where
  "zero_mt = \<lparr>state = replicate N_mt 0, pNext = 0, left = 0\<rparr>"

definition zero_ar :: mt19937ar where
  "zero_ar = \<lparr>mt = replicate N_mt 0, mti = N_mt + 1\<rparr>"

definition zero_cok :: mt19937cok where
  "zero_cok = \<lparr>cok_state = replicate N_mt 0, cok_left = 1, cok_initf = False, cok_next = 0\<rparr>"

text \<open>
  C26: The generator the loggers use is MT19937. Whatever the two arrays held before, an
  \<open>MTRand\<close> seeded with a number and the reference program initialised with the same number draw
  the same sequence, of any length, although the one twists eagerly and counts down and the
  other twists lazily and counts up.
\<close>

theorem MTRand_agrees_with_reference:
  assumes "length (state r) = N_mt" and "length (mt g) = N_mt"
  shows "fst (draws MTRand_randInt n (MTRand_seed s r)) = fst (draws o_genrand_int32 n (o_init_genrand s g))"
proof -
  let ?r = "r\<lparr>state := mt g\<rparr>"
  have "MTRand_seed s r = MTRand_seed s ?r"
    using assms by (intro MTRand_seed_determined) auto
  moreover have "mt_sim (MTRand_seed s ?r) (o_init_genrand s g)"
    by (intro mt_sim_seed) simp
  ultimately show ?thesis by (simp add: mt_sim_draws)
qed

theorem MTRand_agrees_with_reference_witness:
  "fst (draws MTRand_randInt 1000 (MTRand_seed 7 zero_mt))
     = fst (draws o_genrand_int32 1000 (o_init_genrand 7 zero_ar))"
  by (rule MTRand_agrees_with_reference) (simp_all add: zero_mt_def zero_ar_def)

text \<open>
  The same holds for seeding with an array, although \<open>MTRand\<close> masks the key words before
  adding them and the reference only afterwards.
\<close>

theorem MTRand_array_agrees_with_reference:
  assumes "length (state r) = N_mt" and "length (mt g) = N_mt"
  shows "fst (draws MTRand_randInt n (MTRand_seed_array key r))
       = fst (draws o_genrand_int32 n (o_init_by_array key g))"
proof -
  let ?r = "r\<lparr>state := mt g\<rparr>"
  have "MTRand_seed_array key r = MTRand_seed_array key ?r"
    using assms by (intro MTRand_seed_array_determined) auto
  moreover have "mt_sim (MTRand_seed_array key ?r) (o_init_by_array key g)"
    by (intro mt_sim_seed_array) simp
  ultimately show ?thesis by (simp add: mt_sim_draws)
qed

theorem MTRand_array_agrees_with_reference_witness:
  "fst (draws MTRand_randInt 700 (MTRand_seed_array [0x123, 0x234, 0x345, 0x456] zero_mt))
     = fst (draws o_genrand_int32 700 (o_init_by_array [0x123, 0x234, 0x345, 0x456] zero_ar))"
  by (rule MTRand_array_agrees_with_reference) (simp_all add: zero_mt_def zero_ar_def)

text \<open>
  Cokus's optimised version, which counts down from 1 and fuses the tempering, draws the same
  numbers as the reference.
\<close>

theorem cokus_agrees_with_reference:
  assumes "mt g = cok_state c"
  shows "fst (draws cok_genrand_int32 n (cok_init_genrand s c)) = fst (draws o_genrand_int32 n (o_init_genrand s g))"
  using assms by (intro cok_sim_draws cok_sim_seed)

theorem cokus_agrees_with_reference_witness:
  "fst (draws cok_genrand_int32 1000 (cok_init_genrand 5489 zero_cok))
     = fst (draws o_genrand_int32 1000 (o_init_genrand 5489 zero_ar))"
  by (rule cokus_agrees_with_reference) (simp add: zero_cok_def zero_ar_def)

text \<open>
  \<open>randInt()\<close> returns an integer in \<open>[0, 2^32 - 1]\<close>, as its comment says, although \<open>uint32\<close>
  has 64 bits: after seeding, every number of every sequence of draws is below \<open>2 ^ 32\<close>.
\<close>

theorem randInt_below_2_32:
  assumes "length (state r) = N_mt"
  shows "\<forall>x \<in> set (fst (draws MTRand_randInt n (MTRand_seed s r))). unat x < 2 ^ 32"
  using small_draws [OF mt_ok_seed [OF assms, of s], of n] by (simp add: small_less)

theorem randInt_below_2_32_witness:
  "list_all (\<lambda>x. unat x < 2 ^ 32) (fst (draws MTRand_randInt 1000 (MTRand_seed 1 zero_mt)))"
  using randInt_below_2_32 [of zero_mt 1000 1] by (simp add: zero_mt_def list_all_iff)

definition mt_next :: "MTRand \<Rightarrow> MTRand" where
  "mt_next r = snd (MTRand_randInt r)"

definition masked_draw :: "u64 \<Rightarrow> nat \<Rightarrow> MTRand \<Rightarrow> u64" where
  "masked_draw n k r = fst (MTRand_randInt ((mt_next ^^ k) r)) AND used_bits n"

text \<open>
  \<open>randInt(n)\<close> returns as soon as a draw, with the bits above those of \<open>n\<close> tossed, is at most
  \<open>n\<close>: it returns exactly the first such number, so a number of \<open>[0, n]\<close>, and has consumed exactly
  the draws up to it.
\<close>

theorem randInt_upto_first:
  assumes "masked_draw n k r \<le> n" and "\<And>j. j < k \<Longrightarrow> n < masked_draw n j r"
  shows "MTRand_randInt_upto n r = Some (masked_draw n k r, (mt_next ^^ Suc k) r)"
  using assms
proof (induction k arbitrary: r)
  case 0
  then show ?case
    by (subst MTRand_randInt_upto.simps) (auto simp: masked_draw_def mt_next_def Let_def split: prod.splits)
next
  case (Suc k)
  have shift: "masked_draw n (Suc j) r = masked_draw n j (mt_next r)" for j
    by (simp add: masked_draw_def funpow_swap1)
  have "n < masked_draw n 0 r" using Suc.prems(2) [of 0] by simp
  then have "MTRand_randInt_upto n r = MTRand_randInt_upto n (mt_next r)"
    by (subst MTRand_randInt_upto.simps) (auto simp: masked_draw_def mt_next_def Let_def split: prod.splits)
  also have "\<dots> = Some (masked_draw n k (mt_next r), (mt_next ^^ Suc k) (mt_next r))"
  proof (rule Suc.IH)
    show "masked_draw n k (mt_next r) \<le> n" using Suc.prems(1) by (simp add: shift)
    show "n < masked_draw n j (mt_next r)" if "j < k" for j
      using Suc.prems(2) [of "Suc j"] that by (simp add: shift)
  qed
  finally show ?case by (simp add: shift funpow_swap1)
qed

definition ones_mt :: MTRand where
  "ones_mt = \<lparr>state = replicate N_mt 1, pNext = 0, left = int N_mt\<rparr>"

theorem randInt_upto_first_witness:
  "masked_draw 0xffffffff 0 ones_mt \<le> 0xffffffff
   \<and> MTRand_randInt_upto 0xffffffff ones_mt
       = Some (masked_draw 0xffffffff 0 ones_mt, (mt_next ^^ Suc 0) ones_mt)"
proof -
  have le: "masked_draw 0xffffffff 0 ones_mt \<le> 0xffffffff"
    by (simp add: masked_draw_def ones_mt_def MTRand_randInt_def used_bits_def temper_def N_mt_def)
  show ?thesis using le randInt_upto_first [OF le] by simp
qed

text \<open>
  \<open>load\<close> restores what \<open>save\<close> wrote: for a generator whose counter and position agree (every
  generator reachable by seeding and drawing, see \<open>mt_ok_seed\<close> and \<open>mt_ok_step\<close>), loading its
  saved array into any generator gives the same generator back.
\<close>

theorem MTRand_load_save:
  assumes "mt_ok r"
  shows "MTRand_load (MTRand_save r) q = r"
proof -
  have len: "length (state r) = N_mt" and l: "0 \<le> left r" "left r \<le> int N_mt"
    and pos: "int (pNext r) = int N_mt - left r"
    using assms by (auto simp: mt_ok_def small_state_def)
  have "uint (word_of_int (left r) :: u64) = left r"
    using l by (simp add: N_mt_def unsigned_of_int take_bit_int_eq_self_iff)
  then have "sint (ucast (word_of_int (left r) :: u64) :: 32 word) = left r"
    using l by (simp add: ucast_eq N_mt_def signed_of_int signed_take_bit_int_eq_self_iff)
  moreover have "nat (int N_mt - left r) = pNext r" using pos by simp
  ultimately show ?thesis
    using len by (simp add: MTRand_load_def MTRand_save_def Let_def nth_append)
qed

theorem MTRand_load_save_witness:
  "mt_ok ones_mt \<and> MTRand_load (MTRand_save ones_mt) zero_mt = ones_mt"
proof -
  have "mt_ok ones_mt" by (simp add: mt_ok_def ones_mt_def small_state_def small_def)
  then show ?thesis using MTRand_load_save [of ones_mt zero_mt] by simp
qed

end
