(* ===== verification/Logger.thy ===== *)
theory Logger
  imports Sched_Types Mersenne_Twister
begin

text \<open>
  \<open>src/serializer/logger.cpp\<close>: the record of a run and the schedule it replays. A \<open>Logger\<close> reads a
  schedule file at construction (the addresses at which to schedule, then the decisions), hands
  the decisions out one by one, records the decisions of the run, and writes them in the same
  format when it is destroyed or the program dies.

  An open file is its text: \<open>readfile\<close> what is still to be read, \<open>schedulefile\<close> what has been
  written. What goes to standard output only (the hooks that do nothing but \<open>printf\<close> when \<open>print\<close>
  is set) has no effect on the state and is left out. \<open>fgets\<close> into the uninitialised buffers at
  the end of a file, and \<open>setWhitespaceToColon\<close> on a line without a colon, read memory that was
  not written: these are the exits \<open>Undefined\<close>.
\<close>

section \<open>State\<close>

record Logger =
  schedule :: "DecisionInfo list"
  read_schedule :: "DecisionInfo list"
  print :: bool
  addressToSchedule :: "addr list"      \<comment> \<open>\<open>set<void *>\<close>, in iteration order\<close>
  schedulefile :: "string option"       \<comment> \<open>\<open>None\<close> is a \<open>NULL\<close> file\<close>
  scheduleAll :: bool
  lastID :: string
  myrand :: MTRand
  infile_name :: string                 \<comment> \<open>\<open>_infile\<close>\<close>
  readfile :: "string option"
  schedulePointsToSkip :: int
  pointsLeftToSkip :: int

definition MAX_READ_SIZE :: nat where "MAX_READ_SIZE = 256"

definition fprint :: "string \<Rightarrow> 'a Logger_scheme \<Rightarrow> 'a Logger_scheme" where
  "fprint t l = l\<lparr>schedulefile := map_option (\<lambda>f. f @ t) (schedulefile l)\<rparr>"

section \<open>Scheduling addresses and random numbers\<close>

definition addAddressToSchedule :: "addr \<Rightarrow> 'a Logger_scheme \<Rightarrow> 'a Logger_scheme" where
  "addAddressToSchedule a l =
     l\<lparr>addressToSchedule := (if a \<in> set (addressToSchedule l) then addressToSchedule l
                              else insort a (addressToSchedule l))\<rparr>"

definition isSchedulingPoint :: "addr \<Rightarrow> 'a Logger_scheme \<Rightarrow> bool" where
  "isSchedulingPoint a l = (scheduleAll l \<or> a \<in> set (addressToSchedule l))"

definition scheduleAtAllMemory :: "'a Logger_scheme \<Rightarrow> 'a Logger_scheme" where
  "scheduleAtAllMemory l = l\<lparr>scheduleAll := True\<rparr>"

definition scheduleAtNoMemory :: "'a Logger_scheme \<Rightarrow> 'a Logger_scheme" where
  "scheduleAtNoMemory l = l\<lparr>scheduleAll := False\<rparr>"

definition numAddrToSchedule :: "'a Logger_scheme \<Rightarrow> int" where
  "numAddrToSchedule l = int (length (addressToSchedule l))"

definition tryToSchedule :: "('a Logger_scheme, bool) tm" where
  "tryToSchedule l =
     (if pointsLeftToSkip l = 0 then Inr (True, l\<lparr>pointsLeftToSkip := schedulePointsToSkip l\<rparr>)
      else Inr (False, l\<lparr>pointsLeftToSkip := pointsLeftToSkip l - 1\<rparr>))"

definition seedGenerator :: "u64 \<Rightarrow> 'a Logger_scheme \<Rightarrow> 'a Logger_scheme" where
  "seedGenerator s l = l\<lparr>myrand := MTRand_seed s (myrand l)\<rparr>"

text \<open>\<open>int Logger::getRandomNumber()\<close> converts the number drawn to \<open>int\<close>.\<close>

definition getRandomNumber :: "('a Logger_scheme, int) tm" where
  "getRandomNumber l =
     (let (x, r) = MTRand_randInt (myrand l) in Inr (c_int (uint x), l\<lparr>myrand := r\<rparr>))"

fun keep_element :: "nat \<Rightarrow> int \<Rightarrow> ('a Logger_scheme, bool) tm" where
  "keep_element 0 denom = ret False"
| "keep_element (Suc num) denom =
     bnd getRandomNumber (\<lambda>x. if x smod denom = 0 then ret True else keep_element num denom)"

fun sparsify_loop :: "int \<Rightarrow> int \<Rightarrow> addr list \<Rightarrow> ('a Logger_scheme, addr list) tm" where
  "sparsify_loop num denom [] = ret []"
| "sparsify_loop num denom (a # as) =
     bnd (keep_element (nat num) denom) (\<lambda>k.
     bnd (sparsify_loop num denom as) (\<lambda>r. ret (if k then a # r else r)))"

definition sparsifyMemorySchedulingPoints :: "int \<Rightarrow> int \<Rightarrow> ('a Logger_scheme, unit) tm" where
  "sparsifyMemorySchedulingPoints num denom =
     (if num = denom then ret ()
      else if denom = 0 then exit_with (Undefined ''division by zero'')
      else bnd (gets addressToSchedule) (\<lambda>as.
           bnd (sparsify_loop num denom as) (\<lambda>as'. upd (\<lambda>l. l\<lparr>addressToSchedule := as'\<rparr>))))"

section \<open>Handing out and recording decisions\<close>

definition getNextChoice :: "('a Logger_scheme, thrID) tm" where
  "getNextChoice l =
     (case read_schedule l of
        [] \<Rightarrow> Inl (Undefined ''read_schedule.begin()'', l)
      | d # ds \<Rightarrow> Inr (getChosen d, l\<lparr>lastID := printf_p (getID d), read_schedule := ds\<rparr>))"

definition getNextSignalChoice :: "('a Logger_scheme, thrID) tm" where
  "getNextSignalChoice l =
     (if length (read_schedule l) \<le> 0 then Inr (INVALID_THREAD, l) else getNextChoice l)"

definition getNextScheduleChoice :: "SchedPointInfo \<Rightarrow> ('a Logger_scheme, thrID) tm" where
  "getNextScheduleChoice s l =
     (if length (read_schedule l) \<le> 0 then Inr (INVALID_THREAD, l) else getNextChoice l)"

definition schedule_decision :: "thrID \<Rightarrow> SchedPointInfo \<Rightarrow> DecisionInfo" where
  "schedule_decision target s =
     foldl (\<lambda>d t. addEnabledThread t d)
       (new_ScheduleDecisionInfo target (sp_thread s) (sp_type s) (sp_ret_addr s))
       (keys_with (\<lambda>b. b) (sp_enabled s))"

definition scheduling :: "thrID \<Rightarrow> SchedPointInfo \<Rightarrow> 'a Logger_scheme \<Rightarrow> 'a Logger_scheme" where
  "scheduling target s l = l\<lparr>schedule := schedule l @ [schedule_decision target s]\<rparr>"

definition fairScheduling :: "thrID \<Rightarrow> SchedPointInfo \<Rightarrow> 'a Logger_scheme \<Rightarrow> 'a Logger_scheme" where
  "fairScheduling target s l = scheduling target (s\<lparr>sp_enabled := sp_fenmap s\<rparr>) l"

definition signal_decision :: "thrID \<Rightarrow> SignalPointInfo \<Rightarrow> DecisionInfo" where
  "signal_decision target s =
     foldl (\<lambda>d t. addThreadOnCond t d)
       (new_SignalDecisionInfo target (sg_thread s) (sg_ret_addr s) (sg_cond s))
       (keys_with (\<lambda>c. c = sg_cond s) (sg_cond_map s))"

definition signalScheduling :: "thrID \<Rightarrow> SignalPointInfo \<Rightarrow> 'a Logger_scheme \<Rightarrow> 'a Logger_scheme" where
  "signalScheduling target s l =
     (if sg_isBroadcast s then l else l\<lparr>schedule := schedule l @ [signal_decision target s]\<rparr>)"

section \<open>Writing the schedule file\<close>

definition addr_list_text :: "bool \<Rightarrow> addr list \<Rightarrow> string" where
  "addr_list_text all as =
     ln ''begin_addr_list'' @
     (if all then ln ''all'' else concat (map (\<lambda>a. ln (printf_p a)) as)) @
     ln ''end_addr_list''"

definition recordAddrSchedulingPoints :: "'a Logger_scheme \<Rightarrow> 'a Logger_scheme" where
  "recordAddrSchedulingPoints l = fprint (addr_list_text (scheduleAll l) (addressToSchedule l)) l"

definition printCurrentScheduleToFile :: "'a Logger_scheme \<Rightarrow> 'a Logger_scheme" where
  "printCurrentScheduleToFile l =
     fprint (concat (map printToFile (schedule l))) (recordAddrSchedulingPoints l)"

definition cleanClose :: "'a Logger_scheme \<Rightarrow> 'a Logger_scheme" where
  "cleanClose l = fprint (ln ''end_log'') l"

definition Logger_destroy :: "'a Logger_scheme \<Rightarrow> 'a Logger_scheme" where
  "Logger_destroy l = cleanClose (printCurrentScheduleToFile l)"

text \<open>\<open>file.rfind("/")\<close> and \<open>substr\<close>: the part of a path after its last slash.\<close>

definition base_name :: "string \<Rightarrow> string" where
  "base_name p = (if CHR ''/'' \<in> set p then rev (takeWhile (\<lambda>c. c \<noteq> CHR ''/'') (rev p)) else p)"

definition assertFail :: "string \<Rightarrow> string \<Rightarrow> 'a Logger_scheme \<Rightarrow> 'a Logger_scheme" where
  "assertFail file cond l =
     (case schedulefile l of
        None \<Rightarrow> l
      | Some _ \<Rightarrow> fprint (''thrille assert fail '' @ base_name file @ '' '' @ cond @ [newline])
                    (printCurrentScheduleToFile l))"

definition programAssertFail :: "thrID \<Rightarrow> addr \<Rightarrow> 'a Logger_scheme \<Rightarrow> 'a Logger_scheme" where
  "programAssertFail t a l =
     (case schedulefile l of
        None \<Rightarrow> l
      | Some _ \<Rightarrow> fprint (''program assert fail ['' @ printf_d t @ '']'' @ '' '' @ printf_p a @ [newline])
                    (printCurrentScheduleToFile l))"

definition programDeadlock :: "'a Logger_scheme \<Rightarrow> 'a Logger_scheme" where
  "programDeadlock l =
     (case schedulefile l of
        None \<Rightarrow> l
      | Some _ \<Rightarrow> fprint (ln ''program deadlock'') (printCurrentScheduleToFile l))"

definition segfault :: "thrID \<Rightarrow> 'a Logger_scheme \<Rightarrow> 'a Logger_scheme" where
  "segfault t l =
     (case schedulefile l of
        None \<Rightarrow> l
      | Some _ \<Rightarrow> fprint (''segfault thread '' @ printf_d t @ [newline]) (printCurrentScheduleToFile l))"

end
