(* ===== verification/Schedule_File.thy ===== *)
theory Schedule_File
  imports Logger
begin

text \<open>
  The reading half of \<open>src/serializer/logger.cpp\<close>: the constructor of \<open>Logger\<close> reads back the file
  that an earlier run wrote, first the list of addresses, then the decisions up to one of the
  closing lines. The parsers are computations over the text that is still to be read. A text
  file is assumed to hold no NUL character.

  \<open>parseNextReadfileLineAsCharStar\<close> returns a pointer into its own stack buffer, and its callers read
  the buffer after it is gone. The result is therefore a \<open>dead_pointer\<close>, and what a read through
  it finds is a parameter of the parsers: the \<open>frame\<close> gives, for the call (told apart by the text
  left to read) and the text the buffer held, the text that is found there, or \<open>None\<close> when the
  read has no meaning, which is the exit \<open>Undefined\<close>. The compiler may choose any frame. The
  theorems hold for every one of them; \<open>frame_intact\<close> is the frame where the stack was not reused.

  The results: what any of the closing operations wrote is read back as the same addresses and
  the same choices of threads whatever the frame, and as the same decisions when the dead buffers
  are intact (the lists of enabled and of waiting threads are written for the human
  reader and dropped by the parser), and a recorded list of enabled threads that does not fit
  in one read of \<open>MAX_READ_SIZE\<close> bytes makes the next run die in the parser.
\<close>

section \<open>Parsers\<close>

definition isReadfileEnd_token :: "string \<Rightarrow> bool" where
  "isReadfileEnd_token tok =
     (strncmp_eq tok ''end_log'' 7 \<or> strncmp_eq tok ''thrille assert'' 14 \<or>
      strncmp_eq tok ''program deadlock'' 16 \<or> strncmp_eq tok ''segfault'' 8 \<or>
      strncmp_eq tok ''program assert'' 14)"

text \<open>The pair is the function's result and what it leaves in \<open>read_result\<close>.\<close>

definition isReadfileEnd :: "(string, bool \<times> string) tm" where
  "isReadfileEnd f =
     (case fgets MAX_READ_SIZE f of
        None \<Rightarrow> Inr ((True, []), f)
      | Some (tok, r) \<Rightarrow> Inr ((isReadfileEnd_token tok, tok), r))"

text \<open>\<open>fgets\<close> into a fresh buffer whose content is then used.\<close>

definition read_buffer :: "(string, string) tm" where
  "read_buffer f =
     (case fgets MAX_READ_SIZE f of
        None \<Rightarrow> Inl (Undefined ''buffer not written by fgets'', f)
      | Some (tok, r) \<Rightarrow> Inr (tok, r))"

definition setWhitespaceToColon :: "string \<Rightarrow> string option" where
  "setWhitespaceToColon s =
     (if CHR '':'' \<in> set s
      then Some (replicate (length (takeWhile (\<lambda>c. c \<noteq> CHR '':'') s) + 1) (CHR '' '')
                 @ tl (dropWhile (\<lambda>c. c \<noteq> CHR '':'') s))
      else None)"

definition trimWhitespace :: "string \<Rightarrow> string" where
  "trimWhitespace s = rev (dropWhile isspace (rev (dropWhile isspace s)))"

definition read_value :: "(string, string) tm" where
  "read_value =
     bnd read_buffer (\<lambda>tok.
       case setWhitespaceToColon tok of
         None \<Rightarrow> exit_with (Undefined ''no colon in the line'')
       | Some v \<Rightarrow> ret v)"

definition parseNextReadfileLineAsThrID :: "(string, thrID) tm" where
  "parseNextReadfileLineAsThrID = bnd read_value (\<lambda>v. ret (atoi v))"

text \<open>
  The pointer that \<open>parseNextReadfileLineAsCharStar\<close> returns points into its local \<open>in\<close>, with the
  text that the buffer held; reading it goes through the frame.
\<close>

datatype dead_pointer = Dead string

type_synonym stack_frame = "string \<Rightarrow> string \<Rightarrow> string option"

abbreviation dead_read :: exit_reason where "dead_read \<equiv> Undefined ''read of a dead stack buffer''"

fun read_dead :: "stack_frame \<Rightarrow> dead_pointer \<Rightarrow> (string, string) tm" where
  "read_dead frame (Dead s) f =
     (case frame f s of None \<Rightarrow> Inl (dead_read, f) | Some x \<Rightarrow> Inr (x, f))"

definition frame_intact :: "stack_frame \<Rightarrow> bool" where
  "frame_intact frame \<longleftrightarrow> (\<forall>f s. frame f s = Some s)"

definition parseNextReadfileLineAsCharStar :: "(string, dead_pointer) tm" where
  "parseNextReadfileLineAsCharStar = bnd read_value (\<lambda>v. ret (Dead (trimWhitespace v)))"

definition getAddress :: "string \<Rightarrow> addr" where
  "getAddress s = strtoul16 s"

definition parseNextReadfileLineAsVoidStar :: "stack_frame \<Rightarrow> (string, addr) tm" where
  "parseNextReadfileLineAsVoidStar frame =
     bnd parseNextReadfileLineAsCharStar (\<lambda>p. bnd (read_dead frame p) (\<lambda>s. ret (getAddress s)))"

definition parseNextReadfileLineAsString :: "stack_frame \<Rightarrow> (string, string) tm" where
  "parseNextReadfileLineAsString frame = bnd parseNextReadfileLineAsCharStar (read_dead frame)"

fun clearLinesFromReadfile :: "nat \<Rightarrow> (string, unit) tm" where
  "clearLinesFromReadfile 0 f = Inr ((), f)"
| "clearLinesFromReadfile (Suc n) f =
     (case fgets MAX_READ_SIZE f of
        None \<Rightarrow> clearLinesFromReadfile n f
      | Some (tok, r) \<Rightarrow> clearLinesFromReadfile n r)"

text \<open>The body of the loop of \<open>reconstituteSchedule\<close>: one decision, after its first line.\<close>

definition parse_decision :: "stack_frame \<Rightarrow> string \<Rightarrow> (string, DecisionInfo) tm" where
  "parse_decision frame tok =
     (if strncmp_eq tok ''SCHED'' 5 then
        bnd parseNextReadfileLineAsThrID (\<lambda>ch.
        bnd parseNextReadfileLineAsThrID (\<lambda>ca.
        bnd (parseNextReadfileLineAsString frame) (\<lambda>desc.
        bnd (parseNextReadfileLineAsVoidStar frame) (\<lambda>i.
        bnd (clearLinesFromReadfile 1) (\<lambda>_. ret (new_ScheduleDecisionInfo ch ca desc i))))))
      else if strncmp_eq tok ''SIGNAL'' 6 then
        bnd parseNextReadfileLineAsThrID (\<lambda>ch.
        bnd parseNextReadfileLineAsThrID (\<lambda>ca.
        bnd (parseNextReadfileLineAsVoidStar frame) (\<lambda>i.
        bnd (parseNextReadfileLineAsVoidStar frame) (\<lambda>c.
        bnd (clearLinesFromReadfile 1) (\<lambda>_. ret (new_SignalDecisionInfo ch ca i c))))))
      else exit_with (SafeAssert ''strncmp(in, SIGNAL, 6) == 0''))"

subsection \<open>Every parser consumes the text\<close>

definition shrinking :: "(string, 'a) tm \<Rightarrow> bool" where
  "shrinking p \<longleftrightarrow> (\<forall>f x r. p f = Inr (x, r) \<longrightarrow> length r \<le> length f)"

lemma shrinking_bnd [intro]: "shrinking p \<Longrightarrow> (\<And>x. shrinking (k x)) \<Longrightarrow> shrinking (bnd p k)"
  unfolding shrinking_def bnd_eq_Inr by (meson order_trans)

lemma shrinking_basic [simp, intro]: "shrinking (ret x)" "shrinking (exit_with e)"
  by (simp_all add: shrinking_def)

lemma MAX_READ_SIZE_bounds [simp]: "2 \<le> MAX_READ_SIZE" "MAX_READ_SIZE - Suc 0 = 255"
  by (simp_all add: MAX_READ_SIZE_def)

lemma fgets_shrinks_max: "fgets MAX_READ_SIZE f = Some (l, r) \<Longrightarrow> length r < length f"
  by (rule fgets_shrinks [where n = MAX_READ_SIZE]) simp_all

lemma shrinking_read_buffer [simp, intro]: "shrinking read_buffer"
  by (auto simp: shrinking_def read_buffer_def split: option.splits dest: fgets_shrinks_max)

lemma clearLines_shrinks: "clearLinesFromReadfile n f = Inr (x, r) \<Longrightarrow> length r \<le> length f"
proof (induction n arbitrary: f)
  case (Suc n)
  show ?case
  proof (cases "fgets MAX_READ_SIZE f")
    case None
    with Suc show ?thesis by simp
  next
    case (Some a)
    obtain tok g where a: "a = (tok, g)" by (cases a)
    with Some Suc have "length r \<le> length g" by simp
    with fgets_shrinks_max [OF Some [unfolded a]] show ?thesis by simp
  qed
qed auto

lemma shrinking_clearLines [simp, intro]: "shrinking (clearLinesFromReadfile n)"
  by (auto simp: shrinking_def dest: clearLines_shrinks)

lemma shrinking_read_value [simp, intro]: "shrinking read_value"
  by (auto simp: read_value_def split: option.split intro!: shrinking_bnd)

lemma shrinking_parsers [simp, intro]:
  "shrinking parseNextReadfileLineAsThrID" "shrinking parseNextReadfileLineAsCharStar"
  by (auto simp: parseNextReadfileLineAsThrID_def parseNextReadfileLineAsCharStar_def intro!: shrinking_bnd)

lemma shrinking_read_dead [simp, intro]: "shrinking (read_dead frame p)"
  by (cases p) (auto simp: shrinking_def split: option.splits)

lemma shrinking_parsers' [simp, intro]:
  "shrinking (parseNextReadfileLineAsVoidStar frame)" "shrinking (parseNextReadfileLineAsString frame)"
  by (auto simp: parseNextReadfileLineAsVoidStar_def parseNextReadfileLineAsString_def intro!: shrinking_bnd)

lemma parse_decision_shrinks: "parse_decision frame tok f = Inr (d, r) \<Longrightarrow> length r \<le> length f"
proof -
  have sched: "shrinking (parse_decision frame tok)" if "strncmp_eq tok ''SCHED'' 5"
    using that unfolding parse_decision_def
    by (simp only: if_True) (intro shrinking_bnd shrinking_basic shrinking_parsers shrinking_parsers'
        shrinking_clearLines)
  have signal: "shrinking (parse_decision frame tok)" if "\<not> strncmp_eq tok ''SCHED'' 5" "strncmp_eq tok ''SIGNAL'' 6"
    using that unfolding parse_decision_def
    by (simp only: if_True if_False) (intro shrinking_bnd shrinking_basic shrinking_parsers
        shrinking_parsers' shrinking_clearLines)
  have "shrinking (parse_decision frame tok)"
    using sched signal by (cases "strncmp_eq tok ''SCHED'' 5"; cases "strncmp_eq tok ''SIGNAL'' 6")
      (simp_all add: parse_decision_def)
  then show "parse_decision frame tok f = Inr (d, r) \<Longrightarrow> length r \<le> length f"
    by (simp add: shrinking_def)
qed

section \<open>The loops\<close>

function reconstitute_loop :: "stack_frame \<Rightarrow> DecisionInfo list \<Rightarrow> (string, DecisionInfo list) tm" where
  "reconstitute_loop frame acc f =
     (case fgets MAX_READ_SIZE f of
        None \<Rightarrow> Inr (acc, f)
      | Some (tok, r) \<Rightarrow>
          if isReadfileEnd_token tok then Inr (acc, r)
          else (case parse_decision frame tok r of
                  Inl e \<Rightarrow> Inl e
                | Inr (d, r') \<Rightarrow> reconstitute_loop frame (acc @ [d]) r'))"
  by pat_completeness auto

termination
  by (relation "measure (\<lambda>(frame, acc, f). length f)")
    (auto dest!: fgets_shrinks_max parse_decision_shrinks)

declare reconstitute_loop.simps [simp del]

text \<open>The arguments: the text, the buffer \<open>in\<close>, and the logger; the result: the buffer at the end of the loop.\<close>

function address_loop :: "string \<Rightarrow> string \<Rightarrow> 'a Logger_scheme \<Rightarrow> string \<times> 'a Logger_scheme" where
  "address_loop f buf l =
     (case fgets MAX_READ_SIZE f of
        None \<Rightarrow> (buf, l\<lparr>readfile := Some f\<rparr>)
      | Some (tok, r) \<Rightarrow>
          if strncmp_eq tok ''end_addr_list'' 13 then (tok, l\<lparr>readfile := Some r\<rparr>)
          else if strncmp_eq tok ''all'' 3 then
            (case fgets MAX_READ_SIZE r of
               None \<Rightarrow> (tok, l\<lparr>readfile := Some r, scheduleAll := True\<rparr>)
             | Some (tok', r') \<Rightarrow> (tok', l\<lparr>readfile := Some r', scheduleAll := True\<rparr>))
          else address_loop r tok (addAddressToSchedule (getAddress tok) l))"
  by pat_completeness auto

termination
  by (relation "measure (\<lambda>(f, buf, l). length f)") (auto dest: fgets_shrinks_max)

declare address_loop.simps [simp del]

definition setSchedulableAddresses :: "('a Logger_scheme, unit) tm" where
  "setSchedulableAddresses l =
     (case readfile l of
        None \<Rightarrow> Inr ((), l)
      | Some f \<Rightarrow>
          (case fgets MAX_READ_SIZE f of
             None \<Rightarrow> Inl (Undefined ''buffer not written by fgets'', l)
           | Some (tok, r) \<Rightarrow>
               if \<not> strncmp_eq tok ''begin_addr_list'' 15
               then Inl (SafeAssert ''strncmp(in, begin_addr_list, 15) == 0'', l\<lparr>readfile := Some r\<rparr>)
               else (case address_loop r tok l of (buf, l') \<Rightarrow>
                       if strncmp_eq buf ''end_addr_list'' 13 then Inr ((), l')
                       else Inl (SafeAssert ''strncmp(in, end_addr_list, 13) == 0'', l'))))"

definition reconstituteSchedule :: "stack_frame \<Rightarrow> ('a Logger_scheme, unit) tm" where
  "reconstituteSchedule frame l =
     (case readfile l of
        None \<Rightarrow> Inr ((), l)
      | Some f \<Rightarrow>
          (case reconstitute_loop frame (read_schedule l) f of
             Inl (e, r) \<Rightarrow> Inl (e, l\<lparr>readfile := Some r\<rparr>)
           | Inr (ds, r) \<Rightarrow> Inr ((), l\<lparr>read_schedule := ds, readfile := None\<rparr>)))"

text \<open>\<open>setPrint\<close> reads one line of a configuration file, \<open>None\<close> when it cannot be opened.\<close>

definition setPrint :: "string option \<Rightarrow> ('a Logger_scheme, unit) tm" where
  "setPrint cfg l =
     (case cfg of
        None \<Rightarrow> Inr ((), l\<lparr>print := False\<rparr>)
      | Some f \<Rightarrow>
          (case fgets MAX_READ_SIZE f of
             None \<Rightarrow> Inl (Undefined ''buffer not written by fgets'', l)
           | Some (tok, _) \<Rightarrow> Inr ((), l\<lparr>print := (atoi tok \<noteq> 0)\<rparr>)))"

text \<open>
  \<open>allocateObjects\<close>; the generator is seeded from the environment, so the generator it gets is
  an argument.
\<close>

definition allocateObjects :: "MTRand \<Rightarrow> 'a Logger_scheme \<Rightarrow> 'a Logger_scheme" where
  "allocateObjects r l = l\<lparr>myrand := r, scheduleAll := False, schedulefile := None, readfile := None\<rparr>"

definition Logger_raw :: Logger where
  "Logger_raw = \<lparr>schedule = [], read_schedule = [], print = False, addressToSchedule = [],
     schedulefile = None, scheduleAll = False, lastID = '''',
     myrand = \<lparr>state = [], pNext = 0, left = 0\<rparr>, infile_name = [], readfile = None,
     schedulePointsToSkip = 0, pointsLeftToSkip = 0\<rparr>"

text \<open>
  \<open>fopen(name, "r")\<close>: the files are given by their contents. The empty name names no file (POSIX
  path resolution fails with \<open>ENOENT\<close>).
\<close>

type_synonym files = "string \<Rightarrow> string option"

definition fopen_r :: "files \<Rightarrow> string \<Rightarrow> string option" where
  "fopen_r fs name = (if name = [] then None else fs name)"

text \<open>
  The constructor: \<open>cfg\<close> is the print configuration, \<open>r\<close> the generator, \<open>can_write\<close> whether the
  output file opens, \<open>fs\<close> the files, \<open>infile\<close> the name of the input file.
\<close>

definition new_Logger :: "stack_frame \<Rightarrow> string option \<Rightarrow> MTRand \<Rightarrow> bool \<Rightarrow> files \<Rightarrow> string \<Rightarrow> (Logger, unit) tm" where
  "new_Logger frame cfg r can_write fs infile =
     bnd (upd (\<lambda>l. l\<lparr>infile_name := infile\<rparr>)) (\<lambda>_.
     bnd (setPrint cfg) (\<lambda>_.
     bnd (upd (allocateObjects r)) (\<lambda>_.
     if \<not> can_write then exit_with (SafeAssert ''schedulefile != NULL'')
     else bnd (upd (\<lambda>l. l\<lparr>schedulefile := Some [], readfile := fopen_r fs infile\<rparr>)) (\<lambda>_.
     bnd setSchedulableAddresses (\<lambda>_.
     bnd (reconstituteSchedule frame) (\<lambda>_.
     upd (\<lambda>l. l\<lparr>schedulePointsToSkip := 0, pointsLeftToSkip := 0\<rparr>)))))))"

section \<open>One line\<close>

lemma newline_space [simp]: "isspace newline"
  by (simp add: isspace_def newline_def)

lemma fgets_ln: "newline \<notin> set l \<Longrightarrow> length l < 255 \<Longrightarrow> fgets MAX_READ_SIZE (ln l @ r) = Some (ln l, r)"
  using fgets_line [of l MAX_READ_SIZE r] by (simp add: ln_def MAX_READ_SIZE_def)

lemma fgets_ln' [simp]: "newline \<notin> set l \<Longrightarrow> length l < 255 \<Longrightarrow> fgets MAX_READ_SIZE (ln l) = Some (ln l, [])"
  using fgets_ln [of l "[]"] by simp

text \<open>A tag ends with the only colon in it.\<close>

definition tag_ok :: "string \<Rightarrow> bool" where
  "tag_ok tag \<longleftrightarrow> (\<exists>t. tag = t @ '':'' \<and> CHR '':'' \<notin> set t \<and> newline \<notin> set t)"

lemma tag_okI: "tag = t @ '':'' \<Longrightarrow> CHR '':'' \<notin> set t \<Longrightarrow> newline \<notin> set t \<Longrightarrow> tag_ok tag"
  by (auto simp: tag_ok_def)

lemma tags_ok:
  "tag_ok ''chosen:''" "tag_ok ''caller:''" "tag_ok ''typstr:''" "tag_ok ''idaddr:''" "tag_ok ''enable:''"
  "tag_ok ''signalled:''" "tag_ok ''cond:''" "tag_ok ''oncond:''"
  by (rule tag_okI [of _ "''chosen''"] tag_okI [of _ "''caller''"] tag_okI [of _ "''typstr''"]
      tag_okI [of _ "''idaddr''"] tag_okI [of _ "''enable''"] tag_okI [of _ "''signalled''"]
      tag_okI [of _ "''cond''"] tag_okI [of _ "''oncond''"]; simp add: newline_def)+

lemma setWhitespaceToColon_tag:
  assumes "tag_ok tag"
  shows "setWhitespaceToColon (tag @ v) = Some (replicate (length tag) (CHR '' '') @ v)"
proof -
  obtain t where t: "tag = t @ '':''" "CHR '':'' \<notin> set t" using assms by (auto simp: tag_ok_def)
  then have "takeWhile (\<lambda>c. c \<noteq> CHR '':'') (t @ CHR '':'' # v) = t"
    "dropWhile (\<lambda>c. c \<noteq> CHR '':'') (t @ CHR '':'' # v) = CHR '':'' # v"
    by (simp_all add: takeWhile_tail dropWhile_append3) (auto intro: takeWhile_stop dropWhile_stop)
  with t show ?thesis by (simp add: setWhitespaceToColon_def)
qed

lemma read_value_tag:
  assumes "tag_ok tag" and "newline \<notin> set v" and "length (tag @ v) < 255"
  shows "read_value (ln (tag @ v) @ r) = Inr (replicate (length tag) (CHR '' '') @ ln v, r)"
proof -
  have "newline \<notin> set (tag @ v)" using assms(1,2) by (auto simp: tag_ok_def newline_def)
  then have "read_buffer (ln (tag @ v) @ r) = Inr (tag @ ln v, r)"
    using fgets_ln [of "tag @ v" r] assms(3) by (simp add: read_buffer_def) (simp add: ln_def)
  with assms(1) show ?thesis by (simp add: read_value_def setWhitespaceToColon_tag)
qed

lemma trimWhitespace_spaces:
  assumes "\<forall>c \<in> set v. \<not> isspace c"
  shows "trimWhitespace (replicate n (CHR '' '') @ ln v) = v"
proof -
  have sp: "isspace (CHR '' '')" by (simp add: isspace_def)
  have "dropWhile isspace (replicate n (CHR '' '') @ w) = dropWhile isspace w" for w
    using sp by (induction n) auto
  then have "dropWhile isspace (replicate n (CHR '' '') @ ln v) = (if v = [] then [] else ln v)"
    using assms by (cases v) (auto simp: ln_def)
  then have "trimWhitespace (replicate n (CHR '' '') @ ln v) = rev (dropWhile isspace (rev (if v = [] then [] else ln v)))"
    by (simp only: trimWhitespace_def)
  also have "\<dots> = v" using assms by (cases "rev v") (auto simp: ln_def rev_swap)
  finally show ?thesis .
qed

subsection \<open>The length of numbers\<close>

lemma length_dec_digits: "0 < k \<Longrightarrow> n < 10 ^ k \<Longrightarrow> length (dec_digits n) \<le> k"
proof (induction n arbitrary: k rule: dec_digits.induct)
  case (1 n)
  show ?case
  proof (cases "n < 10")
    case True
    with 1 show ?thesis by (subst dec_digits.simps) simp
  next
    case False
    then have "1 < k" using 1(2,3) by (cases "k = 1") auto
    then obtain j where j: "k = Suc j" "0 < j" by (cases k) auto
    with 1 False have "length (dec_digits (n div 10)) \<le> j" by (simp add: less_mult_imp_div_less)
    with j False show ?thesis by (subst dec_digits.simps) simp
  qed
qed

lemma length_hex_digits: "0 < k \<Longrightarrow> n < 16 ^ k \<Longrightarrow> length (hex_digits n) \<le> k"
proof (induction n arbitrary: k rule: hex_digits.induct)
  case (1 n)
  show ?case
  proof (cases "n < 16")
    case True
    with 1 show ?thesis by (subst hex_digits.simps) simp
  next
    case False
    then have "1 < k" using 1(2,3) by (cases "k = 1") auto
    then obtain j where j: "k = Suc j" "0 < j" by (cases k) auto
    with 1 False have "length (hex_digits (n div 16)) \<le> j" by (simp add: less_mult_imp_div_less)
    with j False show ?thesis by (subst hex_digits.simps) simp
  qed
qed

definition int_range :: "int \<Rightarrow> bool" where
  "int_range i \<longleftrightarrow> - (2 ^ 31) \<le> i \<and> i < 2 ^ 31"

lemma length_printf_d: "int_range i \<Longrightarrow> length (printf_d i) \<le> 11"
  by (auto simp: printf_d_def int_range_def intro!: le_SucI [of _ 10, simplified] length_dec_digits)

lemma length_printf_p: "length (printf_p a) \<le> 18"
  using length_hex_digits [of 16 "unat a"] unsigned_less [of a] by (auto simp: printf_p_def)

lemma printf_d_no_space: "c \<in> set (printf_d i) \<Longrightarrow> \<not> isspace c"
  using dec_digits_all digit_not_space minus_not_space by (auto simp: printf_d_def split: if_splits)

lemma printf_p_no_space: "c \<in> set (printf_p a) \<Longrightarrow> \<not> isspace c"
  using hex_digits_all hex_not_space by (auto simp: printf_p_def isspace_def split: if_splits)

lemma no_space_newline: "(\<And>c. c \<in> set v \<Longrightarrow> \<not> isspace c) \<Longrightarrow> newline \<notin> set v"
  using newline_space by blast

subsection \<open>Parsers on printed values\<close>

lemma parse_thrID:
  assumes "tag_ok tag" and "length tag < 100" and "int_range i"
  shows "parseNextReadfileLineAsThrID (ln (tag @ printf_d i) @ r) = Inr (i, r)"
proof -
  have "read_value (ln (tag @ printf_d i) @ r) = Inr (replicate (length tag) (CHR '' '') @ ln (printf_d i), r)"
    using assms length_printf_d [OF assms(3)]
    by (intro read_value_tag) (auto dest: printf_d_no_space)
  moreover have "atoi (replicate (length tag) (CHR '' '') @ ln (printf_d i)) = i"
    unfolding ln_def using assms(3)
    by (intro atoi_printf_d) (auto simp: int_range_def isspace_def is_digit_def newline_def)
  ultimately show ?thesis by (simp add: parseNextReadfileLineAsThrID_def)
qed

lemma parse_charStar:
  assumes "tag_ok tag" and "length (tag @ v) < 255" and "\<And>c. c \<in> set v \<Longrightarrow> \<not> isspace c"
  shows "parseNextReadfileLineAsCharStar (ln (tag @ v) @ r) = Inr (Dead v, r)"
  using assms read_value_tag [OF assms(1) no_space_newline [OF assms(3)] assms(2)]
  by (simp add: parseNextReadfileLineAsCharStar_def trimWhitespace_spaces)

text \<open>What the rest of a parser gets from a field that is read through the frame.\<close>

lemma string_field:
  assumes "tag_ok tag" and "length (tag @ v) < 255" and "\<And>c. c \<in> set v \<Longrightarrow> \<not> isspace c"
  shows "bnd (parseNextReadfileLineAsString frame) k (ln (tag @ v) @ r) =
     (case frame r v of None \<Rightarrow> Inl (dead_read, r) | Some x \<Rightarrow> k x r)"
  using parse_charStar [OF assms, of r]
  by (simp add: parseNextReadfileLineAsString_def bnd_def split: option.split)

lemma address_field:
  assumes "tag_ok tag" and "length tag < 100"
  shows "bnd (parseNextReadfileLineAsVoidStar frame) k (ln (tag @ printf_p a) @ r) =
     (case frame r (printf_p a) of None \<Rightarrow> Inl (dead_read, r) | Some x \<Rightarrow> k (getAddress x) r)"
  using assms parse_charStar [of tag "printf_p a" r] length_printf_p [of a] printf_p_no_space [of _ a]
  by (simp add: parseNextReadfileLineAsVoidStar_def bnd_def split: option.split)

lemma getAddress_printf_p [simp]: "getAddress (printf_p a) = a"
  using strtoul16_printf_p [of "[]" "[]" a] by (simp add: getAddress_def)

lemma clear_one_line:
  "newline \<notin> set l \<Longrightarrow> length l < 255 \<Longrightarrow> clearLinesFromReadfile 1 (ln l @ r) = Inr ((), r)"
  by (simp add: fgets_ln)

section \<open>One decision\<close>

fun printable :: "DecisionInfo \<Rightarrow> bool" where
  "printable (ScheduleDecisionInfo ch ca de i en) \<longleftrightarrow>
     int_range ch \<and> int_range ca \<and> (\<forall>c \<in> set de. \<not> isspace c) \<and> length de < 248 \<and>
     length (print_ids en) < 248"
| "printable (SignalDecisionInfo ch ca i c oc) \<longleftrightarrow>
     int_range ch \<and> int_range ca \<and> length (print_ids oc) < 248"

fun stripped :: "DecisionInfo \<Rightarrow> DecisionInfo" where
  "stripped (ScheduleDecisionInfo ch ca de i en) = ScheduleDecisionInfo ch ca de i []"
| "stripped (SignalDecisionInfo ch ca i c oc) = SignalDecisionInfo ch ca i c []"

lemma no_space_changeSpaces: "\<forall>c \<in> set de. \<not> isspace c \<Longrightarrow> changeSpacesToUnderscores de = de"
  by (rule changeSpaces_id) (auto simp: isspace_def)

lemma print_ids_no_newline: "newline \<notin> set (print_ids ts)"
proof -
  have "newline \<notin> set (printf_d t)" for t by (rule no_space_newline) (rule printf_d_no_space)
  moreover have "newline \<noteq> CHR '',''" by (simp add: newline_def)
  ultimately show ?thesis by (auto simp: print_ids_def)
qed

text \<open>The part of a decision that never goes through a dead pointer.\<close>

fun same_choice :: "DecisionInfo \<Rightarrow> DecisionInfo \<Rightarrow> bool" where
  "same_choice (ScheduleDecisionInfo ch ca de i en) (ScheduleDecisionInfo ch' ca' de' i' en') \<longleftrightarrow>
     ch = ch' \<and> ca = ca' \<and> en = []"
| "same_choice (SignalDecisionInfo ch ca i c oc) (SignalDecisionInfo ch' ca' i' c' oc') \<longleftrightarrow>
     ch = ch' \<and> ca = ca' \<and> oc = []"
| "same_choice _ _ \<longleftrightarrow> False"

lemma parse_sched_fields:
  assumes "printable (ScheduleDecisionInfo ch ca de i en)"
  shows "parse_decision frame (ln ''SCHED'')
           (ln (''chosen:'' @ printf_d ch) @ ln (''caller:'' @ printf_d ca) @ ln (''typstr:'' @ de) @
            ln (''idaddr:'' @ printf_p i) @ r)
         = (case frame (ln (''idaddr:'' @ printf_p i) @ r) de of
              None \<Rightarrow> Inl (dead_read, ln (''idaddr:'' @ printf_p i) @ r)
            | Some de' \<Rightarrow> (case frame r (printf_p i) of
                None \<Rightarrow> Inl (dead_read, r)
              | Some x \<Rightarrow> bnd (clearLinesFromReadfile 1) (\<lambda>_. ret (new_ScheduleDecisionInfo ch ca de' (getAddress x))) r))"
proof -
  have p: "parseNextReadfileLineAsThrID (ln (''chosen:'' @ printf_d ch) @ q) = Inr (ch, q)"
    "parseNextReadfileLineAsThrID (ln (''caller:'' @ printf_d ca) @ q) = Inr (ca, q)"
    "bnd (parseNextReadfileLineAsString frame) k (ln (''typstr:'' @ de) @ q) =
      (case frame q de of None \<Rightarrow> Inl (dead_read, q) | Some x \<Rightarrow> k x q)"
    "bnd (parseNextReadfileLineAsVoidStar frame) k' (ln (''idaddr:'' @ printf_p i) @ q) =
      (case frame q (printf_p i) of None \<Rightarrow> Inl (dead_read, q) | Some x \<Rightarrow> k' (getAddress x) q)" for q and k k' :: "_ \<Rightarrow> (string, DecisionInfo) tm"
    using assms by (intro parse_thrID string_field address_field tags_ok; simp)+
  have t: "strncmp_eq (ln ''SCHED'') ''SCHED'' 5" by (simp add: strncmp_eq_def ln_def)
  show ?thesis
    using t by (simp only: parse_decision_def if_True p bnd_Inr)
qed

lemma parse_signal_fields:
  assumes "int_range ch" and "int_range ca"
  shows "parse_decision frame (ln ''SIGNAL'')
           (ln (''signalled:'' @ printf_d ch) @ ln (''caller:'' @ printf_d ca) @
            ln (''idaddr:'' @ printf_p i) @ ln (''cond:'' @ printf_p c) @ r)
         = (case frame (ln (''cond:'' @ printf_p c) @ r) (printf_p i) of
              None \<Rightarrow> Inl (dead_read, ln (''cond:'' @ printf_p c) @ r)
            | Some x \<Rightarrow> (case frame r (printf_p c) of
                None \<Rightarrow> Inl (dead_read, r)
              | Some y \<Rightarrow> bnd (clearLinesFromReadfile 1)
                  (\<lambda>_. ret (new_SignalDecisionInfo ch ca (getAddress x) (getAddress y))) r))"
proof -
  have p: "parseNextReadfileLineAsThrID (ln (''signalled:'' @ printf_d ch) @ q) = Inr (ch, q)"
    "parseNextReadfileLineAsThrID (ln (''caller:'' @ printf_d ca) @ q) = Inr (ca, q)"
    "bnd (parseNextReadfileLineAsVoidStar frame) k (ln (''idaddr:'' @ printf_p i) @ q) =
      (case frame q (printf_p i) of None \<Rightarrow> Inl (dead_read, q) | Some x \<Rightarrow> k (getAddress x) q)"
    "bnd (parseNextReadfileLineAsVoidStar frame) k (ln (''cond:'' @ printf_p c) @ q) =
      (case frame q (printf_p c) of None \<Rightarrow> Inl (dead_read, q) | Some x \<Rightarrow> k (getAddress x) q)" for q and k :: "_ \<Rightarrow> (string, DecisionInfo) tm"
    using assms by (intro parse_thrID address_field tags_ok; simp)+
  have t: "\<not> strncmp_eq (ln ''SIGNAL'') ''SCHED'' 5" "strncmp_eq (ln ''SIGNAL'') ''SIGNAL'' 6"
    by (simp_all add: strncmp_eq_def ln_def)
  show ?thesis
    using t by (simp only: parse_decision_def if_True if_False p bnd_Inr)
qed

definition decision_head :: "DecisionInfo \<Rightarrow> string" where
  "decision_head d = hd (decision_lines d)"

definition decision_body :: "DecisionInfo \<Rightarrow> string" where
  "decision_body d = concat (map ln (tl (decision_lines d)))"

lemma printToFile_split: "printToFile d = ln (decision_head d) @ decision_body d"
  by (cases d) (simp_all add: printToFile_def decision_head_def decision_body_def)

text \<open>
  A printed decision is read back up to what goes through the dead pointers, unless one of these
  reads has no meaning.
\<close>

lemma parse_printed:
  assumes "printable d"
  obtains (read) d' where "parse_decision frame (ln (decision_head d)) (decision_body d @ r) = Inr (d', r)"
      "same_choice d' d" "frame_intact frame \<Longrightarrow> d' = stripped d"
  | (undefined) f g s where "parse_decision frame (ln (decision_head d)) (decision_body d @ r) = Inl (dead_read, f)"
      "frame g s = None"
proof (cases d)
  case (ScheduleDecisionInfo ch ca de i en)
  let ?q = "ln (''enable:'' @ print_ids en) @ r"
  have clear: "clearLinesFromReadfile 1 ?q = Inr ((), r)"
    using assms print_ids_no_newline ScheduleDecisionInfo
    by (intro clear_one_line) (auto simp: newline_def)
  have shape: "decision_head d = ''SCHED''" "decision_body d @ r = ln (''chosen:'' @ printf_d ch) @ ln (''caller:'' @ printf_d ca) @
      ln (''typstr:'' @ de) @ ln (''idaddr:'' @ printf_p i) @ ?q"
    using ScheduleDecisionInfo assms by (simp_all add: decision_head_def decision_body_def no_space_changeSpaces)
  note eq = parse_sched_fields [OF assms [unfolded ScheduleDecisionInfo], of frame ?q, unfolded bnd_Inr [where m = "clearLinesFromReadfile 1", OF clear],
      folded shape]
  show ?thesis
  proof (cases "frame (ln (''idaddr:'' @ printf_p i) @ ?q) de")
    case None
    with eq show ?thesis by (intro undefined [OF _ None]) simp
  next
    case s: (Some de')
    show ?thesis
    proof (cases "frame ?q (printf_p i)")
      case None
      with eq s show ?thesis by (intro undefined [OF _ None]) (simp only: option.case)
    next
      case (Some x)
      show ?thesis
      proof (rule read)
        show "parse_decision frame (ln (decision_head d)) (decision_body d @ r) =
            Inr (new_ScheduleDecisionInfo ch ca de' (getAddress x), r)"
          using eq by (simp only: s Some option.case tm_run)
      qed (use assms s Some ScheduleDecisionInfo in \<open>auto simp: new_ScheduleDecisionInfo_def frame_intact_def no_space_changeSpaces\<close>)
    qed
  qed
next
  case (SignalDecisionInfo ch ca i c oc)
  let ?q = "ln (''oncond:'' @ print_ids oc) @ r"
  have clear: "clearLinesFromReadfile 1 ?q = Inr ((), r)"
    using assms print_ids_no_newline SignalDecisionInfo
    by (intro clear_one_line) (auto simp: newline_def)
  have shape: "decision_head d = ''SIGNAL''" "decision_body d @ r = ln (''signalled:'' @ printf_d ch) @ ln (''caller:'' @ printf_d ca) @
      ln (''idaddr:'' @ printf_p i) @ ln (''cond:'' @ printf_p c) @ ?q"
    using SignalDecisionInfo by (simp_all add: decision_head_def decision_body_def)
  have "int_range ch" "int_range ca" using assms SignalDecisionInfo by simp_all
  note eq = parse_signal_fields [OF this, of frame i c ?q, unfolded bnd_Inr [where m = "clearLinesFromReadfile 1", OF clear], folded shape]
  show ?thesis
  proof (cases "frame (ln (''cond:'' @ printf_p c) @ ?q) (printf_p i)")
    case None
    with eq show ?thesis by (intro undefined [OF _ None]) simp
  next
    case s: (Some x)
    show ?thesis
    proof (cases "frame ?q (printf_p c)")
      case None
      with eq s show ?thesis by (intro undefined [OF _ None]) (simp only: option.case)
    next
      case (Some y)
      show ?thesis
      proof (rule read)
        show "parse_decision frame (ln (decision_head d)) (decision_body d @ r) =
            Inr (new_SignalDecisionInfo ch ca (getAddress x) (getAddress y), r)"
          using eq by (simp only: s Some option.case tm_run)
      qed (use s Some SignalDecisionInfo in \<open>auto simp: new_SignalDecisionInfo_def frame_intact_def\<close>)
    qed
  qed
qed

lemma fgets_head: "fgets MAX_READ_SIZE (ln (decision_head d) @ r) = Some (ln (decision_head d), r)"
  by (cases d; intro fgets_ln) (simp_all add: decision_head_def newline_def)

lemma head_not_end: "\<not> isReadfileEnd_token (ln (decision_head d))"
  by (cases d) (simp_all add: decision_head_def isReadfileEnd_token_def strncmp_eq_def ln_def newline_def)

lemma reconstitute_decisions:
  assumes "\<forall>d \<in> set ds. printable d"
  obtains (read) ds' where "reconstitute_loop frame acc (concat (map printToFile ds) @ r) = reconstitute_loop frame (acc @ ds') r"
      "list_all2 same_choice ds' ds" "frame_intact frame \<Longrightarrow> ds' = map stripped ds"
  | (undefined) f g s where "reconstitute_loop frame acc (concat (map printToFile ds) @ r) = Inl (dead_read, f)" "frame g s = None"
  using assms
proof (induction ds arbitrary: acc thesis)
  case Nil
  show ?case by (rule Nil.prems(1) [of "[]"]) simp_all
next
  case (Cons d ds)
  let ?r = "concat (map printToFile ds) @ r"
  have split: "reconstitute_loop frame acc (concat (map printToFile (d # ds)) @ r) =
      (case parse_decision frame (ln (decision_head d)) (decision_body d @ ?r) of
         Inl e \<Rightarrow> Inl e | Inr (d', r') \<Rightarrow> reconstitute_loop frame (acc @ [d']) r')"
    by (subst reconstitute_loop.simps) (simp add: printToFile_split fgets_head head_not_end)
  from Cons.prems(3) have d: "printable d" "\<forall>d \<in> set ds. printable d" by auto
  show ?case
  proof (cases rule: parse_printed [OF d(1), of frame ?r])
    case 1: (1 d')
    show ?thesis
    proof (rule Cons.IH [of "acc @ [d']", OF _ _ d(2)])
      fix ds' assume "reconstitute_loop frame (acc @ [d']) ?r = reconstitute_loop frame ((acc @ [d']) @ ds') r"
        "list_all2 same_choice ds' ds" "frame_intact frame \<Longrightarrow> ds' = map stripped ds"
      with 1 split show thesis by (intro Cons.prems(1) [of "d' # ds'"]) auto
    next
      fix f g s assume "reconstitute_loop frame (acc @ [d']) ?r = Inl (dead_read, f)" "frame g s = None"
      with 1 split show thesis by (intro Cons.prems(2) [of f g s]) auto
    qed
  next
    case (2 f g s)
    with split show ?thesis by (intro Cons.prems(2) [of f g s]) auto
  qed
qed

section \<open>The list of addresses\<close>

lemma printf_p_not_keyword:
  "\<not> strncmp_eq (ln (printf_p a)) ''end_addr_list'' 13" "\<not> strncmp_eq (ln (printf_p a)) ''all'' 3"
  by (auto simp: printf_p_def strncmp_eq_def ln_def)

lemma getAddress_ln: "getAddress (ln (printf_p a)) = a"
  using strtoul16_printf_p [of "[newline]" "[]" a] by (simp add: getAddress_def ln_def)

lemma fgets_address: "fgets MAX_READ_SIZE (ln (printf_p a) @ r) = Some (ln (printf_p a), r)"
  using length_printf_p [of a] no_space_newline [of "printf_p a"] printf_p_no_space [of _ a]
  by (intro fgets_ln) auto

lemma address_loop_address:
  "address_loop (ln (printf_p a) @ r) buf l = address_loop r (ln (printf_p a)) (addAddressToSchedule a l)"
  by (subst address_loop.simps) (simp add: fgets_address printf_p_not_keyword getAddress_ln)

lemma fgets_end_addr: "fgets MAX_READ_SIZE (ln ''end_addr_list'' @ r) = Some (ln ''end_addr_list'', r)"
  by (intro fgets_ln) (simp_all add: newline_def)

lemma end_addr_token: "strncmp_eq (ln ''end_addr_list'') ''end_addr_list'' 13"
  by (simp add: strncmp_eq_def ln_def)

lemma address_loop_end:
  "address_loop (ln ''end_addr_list'' @ r) buf l = (ln ''end_addr_list'', l\<lparr>readfile := Some r\<rparr>)"
  by (subst address_loop.simps) (simp add: fgets_end_addr end_addr_token)

lemma address_loop_all:
  "address_loop (ln ''all'' @ ln ''end_addr_list'' @ r) buf l
   = (ln ''end_addr_list'', l\<lparr>readfile := Some r, scheduleAll := True\<rparr>)"
proof -
  have "fgets MAX_READ_SIZE (ln ''all'' @ q) = Some (ln ''all'', q)" for q
    by (intro fgets_ln) (simp_all add: newline_def)
  moreover have "\<not> strncmp_eq (ln ''all'') ''end_addr_list'' 13" "strncmp_eq (ln ''all'') ''all'' 3"
    by (simp_all add: strncmp_eq_def ln_def)
  ultimately show ?thesis by (subst address_loop.simps) (simp add: fgets_end_addr)
qed

lemma address_loop_addresses:
  "address_loop (concat (map (\<lambda>a. ln (printf_p a)) as) @ ln ''end_addr_list'' @ r) buf l
   = (ln ''end_addr_list'', (foldl (\<lambda>l a. addAddressToSchedule a l) l as)\<lparr>readfile := Some r\<rparr>)"
  by (induction as arbitrary: buf l) (simp_all add: address_loop_address address_loop_end)

lemma foldl_addAddress:
  "foldl (\<lambda>l a. addAddressToSchedule a l) l as
   = l\<lparr>addressToSchedule :=
        foldl (\<lambda>s a. if a \<in> set s then s else insort a s) (addressToSchedule l) as\<rparr>"
  by (induction as arbitrary: l) (simp_all add: addAddressToSchedule_def)

lemma insort_snoc: "\<forall>x \<in> set xs. x \<le> a \<Longrightarrow> a \<notin> set xs \<Longrightarrow> insort a xs = xs @ [a]"
  for a :: "'a::linorder"
  by (induction xs) (auto simp: not_le [symmetric] dest: order_antisym)

lemma foldl_insert_sorted:
  assumes "sorted_wrt (<) (xs @ as)"
  shows "foldl (\<lambda>s a. if a \<in> set s then s else insort a s) xs as = xs @ as"
  using assms
proof (induction as arbitrary: xs)
  case (Cons a as)
  then have "a \<notin> set xs" "\<forall>x \<in> set xs. x \<le> a" by (auto simp: sorted_wrt_append)
  then have "insort a xs = xs @ [a]" by (intro insort_snoc)
  with Cons \<open>a \<notin> set xs\<close> show ?case by simp
qed simp

lemma setSchedulableAddresses_text:
  assumes "readfile l = Some (addr_list_text all as @ r)" and "addressToSchedule l = []"
    and "sorted_wrt (<) as"
  shows "setSchedulableAddresses l =
     Inr ((), l\<lparr>readfile := Some r, scheduleAll := (all \<or> scheduleAll l),
                addressToSchedule := (if all then [] else as)\<rparr>)"
proof -
  have b: "fgets MAX_READ_SIZE (ln ''begin_addr_list'' @ q) = Some (ln ''begin_addr_list'', q)" for q
    by (intro fgets_ln) (simp_all add: newline_def)
  have t: "strncmp_eq (ln ''begin_addr_list'') ''begin_addr_list'' 15" by (simp add: strncmp_eq_def ln_def)
  have al: "foldl (\<lambda>l a. addAddressToSchedule a l) l as = l\<lparr>addressToSchedule := as\<rparr>"
    using foldl_insert_sorted [of "[]" as] assms(2,3) by (simp add: foldl_addAddress)
  show ?thesis
    using assms(1,2) al
    by (simp add: setSchedulableAddresses_def addr_list_text_def b t address_loop_all
        address_loop_addresses end_addr_token)
qed

section \<open>The file as a whole\<close>

text \<open>
  The ways a run closes its file: destruction of the logger, or one of the four fatal reports.
\<close>

datatype closing =
    CloseClean | CloseDeadlock | CloseSegfault thrID | CloseProgramAssert thrID addr
  | CloseAssert string string

fun close_log :: "closing \<Rightarrow> Logger \<Rightarrow> Logger" where
  "close_log CloseClean l = Logger_destroy l"
| "close_log CloseDeadlock l = programDeadlock l"
| "close_log (CloseSegfault t) l = segfault t l"
| "close_log (CloseProgramAssert t a) l = programAssertFail t a l"
| "close_log (CloseAssert file cond) l = assertFail file cond l"

fun closing_line :: "closing \<Rightarrow> string" where
  "closing_line CloseClean = ''end_log''"
| "closing_line CloseDeadlock = ''program deadlock''"
| "closing_line (CloseSegfault t) = ''segfault thread '' @ printf_d t"
| "closing_line (CloseProgramAssert t a) = ''program assert fail ['' @ printf_d t @ '']'' @ '' '' @ printf_p a"
| "closing_line (CloseAssert file cond) = ''thrille assert fail '' @ base_name file @ '' '' @ cond"

lemma close_log_text:
  assumes "schedulefile l = Some []"
  shows "schedulefile (close_log k l) =
     Some (addr_list_text (scheduleAll l) (addressToSchedule l) @
           concat (map printToFile (schedule l)) @ ln (closing_line k))"
  using assms
  by (cases k) (simp_all add: Logger_destroy_def cleanClose_def programDeadlock_def segfault_def
      programAssertFail_def assertFail_def printCurrentScheduleToFile_def
      recordAddrSchedulingPoints_def fprint_def ln_def)

lemma fgets_take_prefix:
  "newline \<notin> set p \<Longrightarrow> length p \<le> n \<Longrightarrow> \<exists>q. fst (fgets_take n (p @ r)) = p @ q"
proof (induction p arbitrary: n)
  case (Cons c p)
  then obtain m where m: "n = Suc m" by (cases n) auto
  with Cons have "\<exists>q. fst (fgets_take m (p @ r)) = p @ q" by simp
  with m Cons.prems show ?case by (auto split: prod.splits)
qed simp

lemma fgets_prefix:
  assumes "newline \<notin> set p" and "length p \<le> 255" and "p \<noteq> []"
  shows "\<exists>q f. fgets MAX_READ_SIZE (p @ r) = Some (p @ q, f)"
  using fgets_take_prefix [OF assms(1,2), of r] assms(3)
  by (cases "fgets_take 255 (p @ r)") (auto simp: fgets_def)

definition closing_token :: "closing \<Rightarrow> string" where
  "closing_token k = (case k of CloseClean \<Rightarrow> ''end_log'' | CloseDeadlock \<Rightarrow> ''program deadlock''
     | CloseSegfault _ \<Rightarrow> ''segfault'' | CloseProgramAssert _ _ \<Rightarrow> ''program assert''
     | CloseAssert _ _ \<Rightarrow> ''thrille assert'')"

lemma closing_line_token: "\<exists>q. closing_line k = closing_token k @ q"
  by (cases k) (simp_all add: closing_token_def)

lemma closing_token_end: "isReadfileEnd_token (closing_token k @ q)"
  by (cases k) (simp_all add: closing_token_def isReadfileEnd_token_def strncmp_eq_def)

lemma reconstitute_closing: "\<exists>f. reconstitute_loop frame acc (ln (closing_line k)) = Inr (acc, f)"
proof -
  obtain q where q: "closing_line k = closing_token k @ q" using closing_line_token by blast
  have "newline \<notin> set (closing_token k)" "length (closing_token k) \<le> 255" "closing_token k \<noteq> []"
    by (cases k; simp add: closing_token_def newline_def)+
  then obtain q' f where "fgets MAX_READ_SIZE (closing_token k @ (q @ [newline])) = Some (closing_token k @ q', f)"
    using fgets_prefix by blast
  then show ?thesis
    by (subst reconstitute_loop.simps) (simp add: q ln_def closing_token_end)
qed

definition new_log :: "MTRand \<Rightarrow> string \<Rightarrow> string \<Rightarrow> Logger" where
  "new_log r infile txt = \<lparr>schedule = [], read_schedule = [], print = False, addressToSchedule = [],
     schedulefile = Some [], scheduleAll = False, lastID = '''', myrand = r, infile_name = infile, readfile = Some txt,
     schedulePointsToSkip = 0, pointsLeftToSkip = 0\<rparr>"

lemma new_Logger_eq:
  assumes "fopen_r fs infile = Some txt"
  shows "new_Logger frame None r True fs infile Logger_raw =
     bnd setSchedulableAddresses (\<lambda>_. bnd (reconstituteSchedule frame)
       (\<lambda>_. upd (\<lambda>l. l\<lparr>schedulePointsToSkip := 0, pointsLeftToSkip := 0\<rparr>))) (new_log r infile txt)"
  by (simp add: new_Logger_def setPrint_def allocateObjects_def Logger_raw_def new_log_def assms)

lemma new_Logger_text:
  assumes "schedulefile l = Some []" and "sorted_wrt (<) (addressToSchedule l)"
    and "fopen_r fs infile = schedulefile (close_log k l)"
  shows "new_Logger frame None r True fs infile Logger_raw =
     bnd (reconstituteSchedule frame) (\<lambda>_. upd (\<lambda>l. l\<lparr>schedulePointsToSkip := 0, pointsLeftToSkip := 0\<rparr>))
       ((new_log r infile [])\<lparr>readfile := Some (concat (map printToFile (schedule l)) @ ln (closing_line k)),
         scheduleAll := scheduleAll l,
         addressToSchedule := (if scheduleAll l then [] else addressToSchedule l)\<rparr>)"
  unfolding new_Logger_eq [OF assms(3) [unfolded close_log_text [OF assms(1)]]]
  by (subst bnd_Inr [OF setSchedulableAddresses_text]) (auto simp: new_log_def assms(2))

text \<open>
  C6: The schedule file round trip. Let a run's logger hold decisions that are printable (thread
  ids in the range of \<open>int\<close>, descriptions without white space, lines shorter than
  \<open>MAX_READ_SIZE\<close>), with an output file not yet written to, and let the run end in any of the
  ways a run can end: destruction of the logger, deadlock, segmentation fault, failed program
  assertion, failed internal assertion. Let the constructor of the next run's logger be given
  that file. Whatever its dead stack buffers hold when they are read, it schedules at the same
  addresses and will hand out the same choices, of the same callers, in the same order, or it has
  left at a read through a dead pointer that has no meaning. If the dead buffers are intact it
  returns, with the very decisions that were recorded, addresses included.
\<close>

theorem schedule_file_round_trip:
  assumes "schedulefile l = Some []" and "\<forall>d \<in> set (schedule l). printable d"
    and "sorted_wrt (<) (addressToSchedule l)" and "fopen_r fs infile = schedulefile (close_log k l)"
  shows "case new_Logger frame None r True fs infile Logger_raw of
     Inl (e, _) \<Rightarrow> e = dead_read \<and> (\<exists>f s. frame f s = None)
   | Inr (_, l') \<Rightarrow>
       list_all2 same_choice (read_schedule l') (schedule l) \<and>
       (frame_intact frame \<longrightarrow> read_schedule l' = map stripped (schedule l)) \<and> schedule l' = [] \<and>
       scheduleAll l' = scheduleAll l \<and>
       addressToSchedule l' = (if scheduleAll l then [] else addressToSchedule l) \<and>
       (\<forall>a. isSchedulingPoint a l' = isSchedulingPoint a l) \<and> readfile l' = None"
proof (cases rule: reconstitute_decisions [OF assms(2), of frame "[]" "ln (closing_line k)"])
  case (1 ds)
  then obtain f where "reconstitute_loop frame [] (concat (map printToFile (schedule l)) @ ln (closing_line k)) = Inr (ds, f)"
    using reconstitute_closing [of frame ds k] by auto
  with 1(2,3) show ?thesis
    unfolding new_Logger_text [OF assms(1,3,4)]
    by (simp add: reconstituteSchedule_def new_log_def isSchedulingPoint_def)
next
  case (2 f g s)
  then show ?thesis
    unfolding new_Logger_text [OF assms(1,3,4)] by (auto simp: reconstituteSchedule_def new_log_def)
qed

definition example_log :: Logger where
  "example_log = (new_log zero_mt ''thrille-sched'' [])\<lparr>readfile := None, addressToSchedule := [0x10, 0x2a0],
     schedule := [ScheduleDecisionInfo 1 0 ''Before_Lock'' 0x4005 [0, 1], SignalDecisionInfo 2 1 0x77 0x99 [2]]\<rparr>"

text \<open>The file system with one file, and a frame whose dead buffers were all overwritten.\<close>

definition one_file :: "string \<Rightarrow> string option \<Rightarrow> files" where
  "one_file name txt = (\<lambda>n. if n = name then txt else None)"

definition reused_stack :: stack_frame where
  "reused_stack f s = Some ''0x2a''"

theorem schedule_file_round_trip_witness:
  "(\<exists>l'. new_Logger (\<lambda>f s. Some s) None zero_mt True
      (one_file ''thrille-sched'' (schedulefile (close_log CloseDeadlock example_log))) ''thrille-sched'' Logger_raw = Inr ((), l') \<and>
     read_schedule l' = [ScheduleDecisionInfo 1 0 ''Before_Lock'' 0x4005 [], SignalDecisionInfo 2 1 0x77 0x99 []]) \<and>
   (\<exists>l'. new_Logger reused_stack None zero_mt True
      (one_file ''thrille-sched'' (schedulefile (close_log CloseDeadlock example_log))) ''thrille-sched'' Logger_raw = Inr ((), l') \<and>
     list_all2 same_choice (read_schedule l') (schedule example_log))"
proof -
  have en: "length (print_ids [0, 1]) = 4" "length (print_ids [2]) = 2"
    by (simp_all add: print_ids_def printf_d_def dec_digits.simps)
  have h: "schedulefile example_log = Some []" "\<forall>d \<in> set (schedule example_log). printable d"
    "sorted_wrt (<) (addressToSchedule example_log)"
    by (simp_all add: example_log_def new_log_def en int_range_def isspace_def)
  let ?fs = "one_file ''thrille-sched'' (schedulefile (close_log CloseDeadlock example_log))"
  have fs: "fopen_r ?fs ''thrille-sched'' = schedulefile (close_log CloseDeadlock example_log)"
    by (simp add: fopen_r_def one_file_def)
  have sched: "schedule example_log = [ScheduleDecisionInfo 1 0 ''Before_Lock'' 0x4005 [0, 1], SignalDecisionInfo 2 1 0x77 0x99 [2]]"
    by (simp add: example_log_def)
  have intact: "frame_intact (\<lambda>f s. Some s)" by (simp add: frame_intact_def)
  show ?thesis
    using schedule_file_round_trip [OF h fs, of "\<lambda>f s. Some s" zero_mt] schedule_file_round_trip [OF h fs, of reused_stack zero_mt] intact
    by (auto simp: sched reused_stack_def split: sum.splits)
qed

subsection \<open>Lines that do not fit\<close>

lemma fgets_take_long: "newline \<notin> set (take n f) \<Longrightarrow> n \<le> length f \<Longrightarrow> fgets_take n f = (take n f, drop n f)"
  by (induction n f rule: fgets_take.induct) auto

lemma fgets_first: "\<exists>q f. fgets MAX_READ_SIZE (c # cs) = Some (c # q, f)"
proof -
  have "fgets_take (Suc 254) (c # cs) = (if c = newline then ([c], cs) else let (l, r) = fgets_take 254 cs in (c # l, r))"
    by (rule fgets_take.simps)
  then have "\<exists>q f. fgets_take (Suc 254) (c # cs) = (c # q, f)" by (auto split: prod.splits)
  then show ?thesis by (simp add: fgets_def)
qed

lemma print_ids_chars: "c \<in> set (print_ids ts) \<Longrightarrow> c = CHR '','' \<or> c = CHR ''-'' \<or> is_digit c"
  using dec_digits_all by (auto simp: print_ids_def printf_d_def split: if_splits)

lemma id_char_token:
  assumes "c = newline \<or> c = CHR '','' \<or> c = CHR ''-'' \<or> is_digit c"
  shows "\<not> isReadfileEnd_token (c # q)"
    "parse_decision frame (c # q) = exit_with (SafeAssert ''strncmp(in, SIGNAL, 6) == 0'')"
  using assms
  by (auto simp: isReadfileEnd_token_def parse_decision_def strncmp_eq_def newline_def is_digit_def)

lemma reconstitute_id_rest:
  assumes "set w \<subseteq> set (print_ids en)"
  shows "\<exists>f. reconstitute_loop frame acc (w @ newline # r) = Inl (SafeAssert ''strncmp(in, SIGNAL, 6) == 0'', f)"
proof -
  obtain c cs where c: "w @ newline # r = c # cs" "c = newline \<or> c \<in> set (print_ids en)"
    using assms by (cases w) auto
  obtain q f where "fgets MAX_READ_SIZE (w @ newline # r) = Some (c # q, f)"
    using fgets_first c(1) by metis
  moreover have "c = newline \<or> c = CHR '','' \<or> c = CHR ''-'' \<or> is_digit c"
    using c(2) print_ids_chars by blast
  note id_char_token [OF this, where q = q]
  ultimately show ?thesis by (subst reconstitute_loop.simps) simp
qed

lemma clear_long_line:
  assumes "248 \<le> length (print_ids en)"
  shows "clearLinesFromReadfile 1 (ln (''enable:'' @ print_ids en) @ r)
         = Inr ((), drop 248 (print_ids en) @ newline # r)"
proof -
  let ?f = "ln (''enable:'' @ print_ids en) @ r"
  have "newline \<notin> set (take 248 (print_ids en))"
    using print_ids_no_newline by (meson in_set_takeD)
  then have "fgets_take 255 ?f = (take 255 ?f, drop 255 ?f)"
    using assms by (intro fgets_take_long) (auto simp: ln_def newline_def)
  moreover have "drop 255 ?f = drop 248 (print_ids en) @ newline # r"
    using assms by (simp add: ln_def)
  moreover have "?f \<noteq> []" by (simp add: ln_def)
  ultimately show ?thesis by (simp add: fgets_def)
qed

lemma long_decision:
  assumes "printable (ScheduleDecisionInfo ch ca de i [])" and "248 \<le> length (print_ids en)"
  shows "\<exists>e f. reconstitute_loop frame acc (printToFile (ScheduleDecisionInfo ch ca de i en) @ tail) = Inl (e, f) \<and>
     (e = SafeAssert ''strncmp(in, SIGNAL, 6) == 0'' \<or> (\<exists>f s. frame f s = None) \<and> e = dead_read)"
proof -
  let ?d = "ScheduleDecisionInfo ch ca de i en" and ?q = "ln (''enable:'' @ print_ids en) @ tail"
  have split: "reconstitute_loop frame acc (printToFile ?d @ tail) =
      (case parse_decision frame (ln (decision_head ?d)) (decision_body ?d @ tail) of
         Inl e \<Rightarrow> Inl e | Inr (d', r') \<Rightarrow> reconstitute_loop frame (acc @ [d']) r')"
    by (subst reconstitute_loop.simps) (simp add: printToFile_split fgets_head head_not_end)
  have shape: "decision_head ?d = ''SCHED''" "decision_body ?d @ tail = ln (''chosen:'' @ printf_d ch) @ ln (''caller:'' @ printf_d ca) @
      ln (''typstr:'' @ de) @ ln (''idaddr:'' @ printf_p i) @ ?q"
    using assms(1) by (simp_all add: decision_head_def decision_body_def no_space_changeSpaces)
  note eq = parse_sched_fields [OF assms(1), of frame ?q, unfolded bnd_Inr [where m = "clearLinesFromReadfile 1", OF clear_long_line [OF assms(2)]],
      folded shape]
  have "\<exists>f. reconstitute_loop frame acc' (drop 248 (print_ids en) @ newline # tail) = Inl (SafeAssert ''strncmp(in, SIGNAL, 6) == 0'', f)" for acc'
    by (rule reconstitute_id_rest [OF set_drop_subset])
  then obtain g where "reconstitute_loop frame acc' (drop 248 (print_ids en) @ newline # tail) = Inl (SafeAssert ''strncmp(in, SIGNAL, 6) == 0'', g acc')" for acc'
    by metis
  then show ?thesis
    unfolding split eq by (auto split: option.splits)
qed

text \<open>
  C28: A recorded decision whose list of enabled threads is longer than the read buffer makes the
  log unreadable: whatever printable decisions come before it and whatever is recorded after
  it, the next run dies in \<open>reconstituteSchedule\<close>, in the assertion that expects \<open>SIGNAL\<close> (or
  earlier, at a read through a dead pointer, where such a read has no meaning). The
  writer bounds nothing, the reader skips one buffer.
\<close>

theorem long_enable_line_breaks_replay:
  assumes "schedulefile l = Some []"
    and "schedule l = ds @ ScheduleDecisionInfo ch ca de i en # ds'"
    and "\<forall>d \<in> set ds. printable d" and "printable (ScheduleDecisionInfo ch ca de i [])"
    and "sorted_wrt (<) (addressToSchedule l)" and "248 \<le> length (print_ids en)"
    and "fopen_r fs infile = schedulefile (close_log k l)"
  shows "\<exists>e l'. new_Logger frame None r True fs infile Logger_raw = Inl (e, l') \<and>
     (e = SafeAssert ''strncmp(in, SIGNAL, 6) == 0'' \<or> (\<exists>f s. frame f s = None) \<and> e = dead_read)"
proof -
  let ?d = "ScheduleDecisionInfo ch ca de i en"
  let ?tl = "concat (map printToFile ds') @ ln (closing_line k)"
  have "\<exists>e f. reconstitute_loop frame [] (concat (map printToFile (schedule l)) @ ln (closing_line k)) = Inl (e, f) \<and>
      (e = SafeAssert ''strncmp(in, SIGNAL, 6) == 0'' \<or> (\<exists>f s. frame f s = None) \<and> e = dead_read)"
  proof (cases rule: reconstitute_decisions [OF assms(3), of frame "[]" "printToFile ?d @ ?tl"])
    case (1 es)
    from long_decision [OF assms(4,6), of frame es ?tl] show ?thesis
      by (elim exE conjE) (simp add: assms(2) 1(1))
  qed (auto simp: assms(2))
  then obtain e f where run: "reconstitute_loop frame [] (concat (map printToFile (schedule l)) @ ln (closing_line k)) = Inl (e, f)"
    and e: "e = SafeAssert ''strncmp(in, SIGNAL, 6) == 0'' \<or> (\<exists>f s. frame f s = None) \<and> e = dead_read" by blast
  from run have "\<exists>l'. new_Logger frame None r True fs infile Logger_raw = Inl (e, l')"
    unfolding new_Logger_text [OF assms(1,5,7)] by (simp add: reconstituteSchedule_def new_log_def)
  with e show ?thesis by blast
qed

definition crowded_log :: Logger where
  "crowded_log = example_log\<lparr>schedule := [ScheduleDecisionInfo 1 0 ''Yield'' 0x4005 (replicate 124 1)]\<rparr>"

theorem long_enable_line_breaks_replay_witness:
  "\<exists>l'. new_Logger reused_stack None zero_mt True
      (one_file ''thrille-sched'' (schedulefile (close_log CloseClean crowded_log))) ''thrille-sched'' Logger_raw
        = Inl (SafeAssert ''strncmp(in, SIGNAL, 6) == 0'', l')"
proof -
  have one: "length (printf_d 1) = 1" by (simp add: printf_d_def dec_digits.simps digit_char_def)
  have "length (print_ids (replicate n 1)) = 2 * n" for n
    by (induction n) (simp_all add: print_ids_def one)
  then have len: "248 \<le> length (print_ids (replicate 124 1))" by simp
  have fs: "fopen_r (one_file ''thrille-sched'' (schedulefile (close_log CloseClean crowded_log))) ''thrille-sched'' =
      schedulefile (close_log CloseClean crowded_log)" by (simp add: fopen_r_def one_file_def)
  have "\<exists>e l'. new_Logger reused_stack None zero_mt True
      (one_file ''thrille-sched'' (schedulefile (close_log CloseClean crowded_log))) ''thrille-sched'' Logger_raw = Inl (e, l') \<and>
      (e = SafeAssert ''strncmp(in, SIGNAL, 6) == 0'' \<or> (\<exists>f s. reused_stack f s = None) \<and> e = dead_read)"
    by (rule long_enable_line_breaks_replay [where ds = "[]" and ds' = "[]" and ch = 1 and ca = 0
        and de = "''Yield''" and i = "0x4005", OF _ _ _ _ _ len fs])
      (simp_all add: crowded_log_def example_log_def new_log_def int_range_def isspace_def print_ids_def)
  then show ?thesis by (simp add: reused_stack_def)
qed

end
