(* ===== verification/Thread_Tracker.thy ===== *)
theory Thread_Tracker
  imports Prelude
begin

text \<open>
  \<open>src/thrille-core/threadtracker.cpp\<close>: thread identifiers. \<open>getNextTID\<close> hands out identifiers
  in order, \<open>setTID\<close> records the \<open>pthread_t\<close> handle of a started thread, and
  \<open>translateHandleToTID\<close> maps a handle back to its thread. The operating system may reuse a handle
  once its thread is gone; the comment in the source claims that taking the highest matching
  identifier resolves this.

  The increment of \<open>curr_id\<close> is protected by \<open>threadtracker_mutex\<close>, the read of the result is
  not: \<open>getNextTID\<close> is also split in these two steps (\<open>tid_inc\<close>, \<open>tid_read\<close>) to state what this
  means for two threads that create a thread at the same time.
\<close>

type_synonym pthread_t = "64 word"

record ThreadTracker =
  curr_id :: thrID
  pthreadHandleMap :: "(thrID, pthread_t) cmap"

definition ThreadTracker_init :: ThreadTracker where
  "ThreadTracker_init = \<lparr>curr_id = -1, pthreadHandleMap = []\<rparr>"

definition translateHandleToTID :: "pthread_t \<Rightarrow> (ThreadTracker, thrID) tm" where
  "translateHandleToTID h tt =
     (let result = foldl (\<lambda>result (t, tmp). if tmp = h then max t result else result)
                     (-1) (pthreadHandleMap tt)
      in if result = -1
         then Inl (ErrorExit ''ThreadTracker: ERROR: could not find TID -> handle map'', tt)
         else Inr (result, tt))"

definition tid_inc :: "ThreadTracker \<Rightarrow> ThreadTracker" where
  "tid_inc tt = tt\<lparr>curr_id := curr_id tt + 1\<rparr>"

definition tid_read :: "ThreadTracker \<Rightarrow> thrID" where
  "tid_read tt = curr_id tt"

definition getNextTID :: "(ThreadTracker, thrID) tm" where
  "getNextTID tt = (let tt = tid_inc tt in Inr (tid_read tt, tt))"

definition setTID :: "thrID \<Rightarrow> pthread_t \<Rightarrow> (ThreadTracker, unit) tm" where
  "setTID t h tt = Inr ((), tt\<lparr>pthreadHandleMap := cm_put t h (pthreadHandleMap tt)\<rparr>)"

text \<open>
  What happens to the tracker over a run: a thread is created (\<open>Handler::thrille_create\<close> takes an
  identifier) and its start routine registers its handle (\<open>my_start_routine\<close>).
\<close>

definition start_thread :: "pthread_t \<Rightarrow> (ThreadTracker, thrID) tm" where
  "start_thread h = bnd getNextTID (\<lambda>t. bnd (setTID t h) (\<lambda>_. ret t))"

fun start_threads :: "pthread_t list \<Rightarrow> (ThreadTracker, thrID list) tm" where
  "start_threads [] = ret []"
| "start_threads (h # hs) = bnd (start_thread h) (\<lambda>t. bnd (start_threads hs) (\<lambda>ts. ret (t # ts)))"

definition tt_inv :: "ThreadTracker \<Rightarrow> bool" where
  "tt_inv tt \<longleftrightarrow> cm_ok (pthreadHandleMap tt) \<and> -1 \<le> curr_id tt
     \<and> dom (map_of (pthreadHandleMap tt)) \<subseteq> {0..curr_id tt}"

lemma tt_inv_init: "tt_inv ThreadTracker_init"
  by (simp add: tt_inv_def ThreadTracker_init_def)

lemma start_thread_run:
  "start_thread h tt =
     Inr (curr_id tt + 1,
          tt\<lparr>curr_id := curr_id tt + 1,
             pthreadHandleMap := cm_put (curr_id tt + 1) h (pthreadHandleMap tt)\<rparr>)"
  by (simp add: start_thread_def getNextTID_def setTID_def tid_inc_def tid_read_def bnd_def Let_def)

lemma tt_inv_start_thread: "tt_inv tt \<Longrightarrow> start_thread h tt = Inr (t, tt') \<Longrightarrow> tt_inv tt'"
  by (fastforce simp: start_thread_run tt_inv_def)

lemma start_threads_length: "start_threads hs tt = Inr (ts, tt') \<Longrightarrow> length ts = length hs"
  by (induction hs arbitrary: tt ts) (auto simp: bnd_eq_Inr)

lemma fold_max_key:
  fixes m :: "(thrID \<times> 'v) list"
  shows "foldl (\<lambda>result (t, tmp). if tmp = h then max t result else result) r m
       = Max (insert r {t. (t, h) \<in> set m})"
proof (induction m arbitrary: r)
  case (Cons e m)
  obtain t h' where e: "e = (t, h')" by (cases e)
  have fin: "finite {t. (t, h) \<in> set m}"
    by (rule finite_subset [of _ "fst ` set m"]) force+
  show ?case
  proof (cases "h' = h")
    case True
    then have "{u. (u, h) \<in> set (e # m)} = insert t {u. (u, h) \<in> set m}" by (auto simp: e)
    with Cons fin True show ?thesis
      by (cases "{u. (u, h) \<in> set m} = {}") (simp_all add: e max.assoc max.commute max.left_commute)
  next
    case False
    then have "{u. (u, h) \<in> set (e # m)} = {u. (u, h) \<in> set m}" by (auto simp: e)
    then show ?thesis using Cons False by (simp add: e)
  qed
qed simp

lemma translate_highest:
  assumes inv: "tt_inv tt" and t: "map_of (pthreadHandleMap tt) t = Some h"
    and hi: "\<And>u. map_of (pthreadHandleMap tt) u = Some h \<Longrightarrow> u \<le> t"
  shows "translateHandleToTID h tt = Inr (t, tt)"
proof -
  let ?T = "{u. (u, h) \<in> set (pthreadHandleMap tt)}"
  have ok: "cm_ok (pthreadHandleMap tt)" using inv by (simp add: tt_inv_def)
  have fin: "finite ?T" by (rule finite_subset [of _ "fst ` set (pthreadHandleMap tt)"]) force+
  have "0 \<le> t" using inv t by (force simp: tt_inv_def)
  then have "Max (insert (-1) ?T) = t"
    using fin t hi ok by (intro Max_eqI) (auto simp: in_set_cm_iff)
  with \<open>0 \<le> t\<close> show ?thesis
    by (simp add: translateHandleToTID_def fold_max_key)
qed

text \<open>One start: the new handle translates to the new thread, every other handle to what it was translated to before.\<close>

lemma translate_start:
  assumes "tt_inv tt" and "start_thread h0 tt = Inr (t, tt')"
  shows "translateHandleToTID h tt' =
     (if h = h0 then Inr (t, tt')
      else case translateHandleToTID h tt of Inl (e, _) \<Rightarrow> Inl (e, tt') | Inr (u, _) \<Rightarrow> Inr (u, tt'))"
proof (cases "h = h0")
  case True
  have "translateHandleToTID h0 tt' = Inr (t, tt')"
  proof (rule translate_highest)
    show "tt_inv tt'" using assms by (rule tt_inv_start_thread)
    show "map_of (pthreadHandleMap tt') t = Some h0"
      using assms(2) by (auto simp: start_thread_run)
    show "u \<le> t" if "map_of (pthreadHandleMap tt') u = Some h0" for u
      using assms that by (fastforce simp: start_thread_run tt_inv_def split: if_splits)
  qed
  with True show ?thesis by simp
next
  case False
  have ok: "cm_ok (pthreadHandleMap tt)" "cm_ok (pthreadHandleMap tt')"
    using assms(1) tt_inv_start_thread [OF assms] by (auto simp: tt_inv_def)
  have t: "t = curr_id tt + 1" "pthreadHandleMap tt' = cm_put t h0 (pthreadHandleMap tt)"
    using assms(2) by (auto simp: start_thread_run)
  have "map_of (pthreadHandleMap tt) t = None" using assms(1) t(1) by (fastforce simp: tt_inv_def)
  then have "{u. (u, h) \<in> set (pthreadHandleMap tt')} = {u. (u, h) \<in> set (pthreadHandleMap tt)}"
    using False ok t(2) by (auto simp: in_set_cm_iff split: if_splits)
  with False show ?thesis by (simp add: translateHandleToTID_def fold_max_key Let_def)
qed

text \<open>
  C29: Handles are translated back. Let any number of threads be started one at a time, with the handles \<open>hs\<close> in
  this order, and let them get the identifiers \<open>ts\<close>. Then every handle among \<open>hs\<close> translates to the thread that was started
  last with it, which settles the reuse of handles as the comment of \<open>translateHandleToTID\<close> claims, and every other handle translates to what it
  translated to before: to an earlier thread, or, in particular when no thread was ever started with it, to the
  error exit.
\<close>

theorem translate_after_start:
  assumes "tt_inv tt" and "start_threads hs tt = Inr (ts, tt')"
  shows "translateHandleToTID h tt' =
     (if h \<in> set hs then Inr (last (map fst (filter (\<lambda>(t, h'). h' = h) (zip ts hs))), tt')
      else case translateHandleToTID h tt of Inl (e, _) \<Rightarrow> Inl (e, tt') | Inr (t, _) \<Rightarrow> Inr (t, tt'))"
  using assms
proof (induction hs arbitrary: tt ts)
  case Nil
  then show ?case by (auto simp: translateHandleToTID_def Let_def)
next
  case (Cons h0 hs)
  obtain t tt1 us where s: "start_thread h0 tt = Inr (t, tt1)" "start_threads hs tt1 = Inr (us, tt')" "ts = t # us"
    using Cons.prems(2) by (auto simp: bnd_eq_Inr)
  note IH = Cons.IH [OF tt_inv_start_thread [OF Cons.prems(1) s(1)] s(2)]
  note one = translate_start [OF Cons.prems(1) s(1), of h]
  have "length us = length hs" using s(2) by (rule start_threads_length)
  then have "filter (\<lambda>(t, h'). h' = h) (zip us hs) = [] \<longleftrightarrow> h \<notin> set hs"
    by (force simp: filter_empty_conv set_zip in_set_conv_nth)
  then show ?case unfolding IH one s(3) by (auto split: sum.splits)
qed

theorem translate_after_start_witness:
  "\<exists>tt'. start_threads [9, 7, 7, 5] ThreadTracker_init = Inr ([0, 1, 2, 3], tt') \<and>
     translateHandleToTID 9 tt' = Inr (0, tt') \<and> translateHandleToTID 7 tt' = Inr (2, tt') \<and>
     translateHandleToTID 4 tt' = Inl (ErrorExit ''ThreadTracker: ERROR: could not find TID -> handle map'', tt')"
proof -
  obtain tt' where tt': "start_threads [9, 7, 7, 5] ThreadTracker_init = Inr ([0, 1, 2, 3], tt')"
    by (simp add: start_thread_run ThreadTracker_init_def bnd_def)
  have "translateHandleToTID 4 ThreadTracker_init = Inl (ErrorExit ''ThreadTracker: ERROR: could not find TID -> handle map'', ThreadTracker_init)"
    by (simp add: translateHandleToTID_def ThreadTracker_init_def)
  with translate_after_start [OF tt_inv_init tt'] tt' show ?thesis by (intro exI [of _ tt']) simp
qed

section \<open>Concurrent allocation\<close>

datatype tid_pc = AtEntry | AfterUnlock | Returned thrID

text \<open>Any number of threads inside \<open>getNextTID\<close>; a step is one thread taking its next half.\<close>

inductive tid_step :: "ThreadTracker \<times> (nat \<Rightarrow> tid_pc) \<Rightarrow> ThreadTracker \<times> (nat \<Rightarrow> tid_pc) \<Rightarrow> bool" where
  tid_step_inc: "pcs i = AtEntry \<Longrightarrow> tid_step (tt, pcs) (tid_inc tt, pcs(i := AfterUnlock))"
| tid_step_read: "pcs i = AfterUnlock \<Longrightarrow> tid_step (tt, pcs) (tt, pcs(i := Returned (tid_read tt)))"

lemma getNextTID_distinct:
  "bnd getNextTID (\<lambda>a. bnd getNextTID (\<lambda>b. ret (a, b))) tt = Inr ((a, b), tt') \<Longrightarrow> a \<noteq> b"
  by (auto simp: getNextTID_def tid_inc_def tid_read_def Let_def)

text \<open>
  C30: \<open>getNextTID\<close> reads \<open>curr_id\<close> after it has released the mutex, so identifiers are not unique
  when two threads create a thread at the same time: from any tracker there is an interleaving
  of two calls in which both return the same identifier. (One after the other they return
  different ones, \<open>getNextTID_distinct\<close>.)
\<close>

theorem getNextTID_race:
  "\<exists>tt' pcs t. tid_step\<^sup>*\<^sup>* (tt, \<lambda>_. AtEntry) (tt', pcs) \<and> pcs 0 = Returned t \<and> pcs 1 = Returned t"
proof -
  define p1 where "p1 = (\<lambda>_ :: nat. AtEntry)(0 := AfterUnlock)"
  define p2 where "p2 = p1(1 := AfterUnlock)"
  define tt' where "tt' = tid_inc (tid_inc tt)"
  define p3 where "p3 = p2(0 := Returned (tid_read tt'))"
  define p4 where "p4 = p3(1 := Returned (tid_read tt'))"
  have "tid_step (tt, \<lambda>_. AtEntry) (tid_inc tt, p1)" unfolding p1_def by (rule tid_step_inc) simp
  moreover have "tid_step (tid_inc tt, p1) (tt', p2)"
    unfolding p2_def tt'_def by (rule tid_step_inc) (simp add: p1_def)
  moreover have "tid_step (tt', p2) (tt', p3)" unfolding p3_def
    by (rule tid_step_read) (simp add: p2_def p1_def)
  moreover have "tid_step (tt', p3) (tt', p4)" unfolding p4_def
    by (rule tid_step_read) (simp add: p3_def p2_def)
  ultimately have "tid_step\<^sup>*\<^sup>* (tt, \<lambda>_. AtEntry) (tt', p4)"
    by (blast intro: converse_rtranclp_into_rtranclp)
  moreover have "p4 0 = Returned (tid_read tt')" and "p4 1 = Returned (tid_read tt')"
    by (simp_all add: p4_def p3_def)
  ultimately show ?thesis by blast
qed

end
