(* ===== verification/Barrier_Tracker.thy ===== *)
theory Barrier_Tracker
  imports C_String
begin

text \<open>
  \<open>src/serializer/barriertracker.cpp\<close>: the arrival counts of barriers and which thread waits at
  which barrier. The counts are a vector searched from the front, the waiting threads a map in
  which \<open>NULL\<close> means "not waiting". The client (\<open>ExecutionTracker::BeforeBarrierWait\<close>) relies on
  the contract stated as the locale \<open>barrier_tracker\<close>.
\<close>

record BarrierInfo =
  bi_count :: "32 word"      \<comment> \<open>\<open>unsigned count\<close>\<close>
  bi_barrier :: addr

record BarrierTracker =
  thread_map :: "(thrID, addr) cmap"
  bar_info :: "BarrierInfo list"

definition BarrierTracker_init :: BarrierTracker where
  "BarrierTracker_init = \<lparr>thread_map = [], bar_info = []\<rparr>"

fun set_count :: "addr \<Rightarrow> 32 word \<Rightarrow> BarrierInfo list \<Rightarrow> BarrierInfo list" where
  "set_count bar n [] = [\<lparr>bi_count = n, bi_barrier = bar\<rparr>]"
| "set_count bar n (b # bs) =
     (if bi_barrier b = bar then b\<lparr>bi_count := n\<rparr> # bs else b # set_count bar n bs)"

definition initBarrier :: "addr \<Rightarrow> 32 word \<Rightarrow> BarrierTracker \<Rightarrow> BarrierTracker" where
  "initBarrier bar n bt = bt\<lparr>bar_info := set_count bar n (bar_info bt)\<rparr>"

fun find_count :: "addr \<Rightarrow> BarrierInfo list \<Rightarrow> 32 word option" where
  "find_count bar [] = None"
| "find_count bar (b # bs) = (if bi_barrier b = bar then Some (bi_count b) else find_count bar bs)"

definition getBarrierCount :: "addr \<Rightarrow> (BarrierTracker, 32 word) tm" where
  "getBarrierCount bar bt =
     (case find_count bar (bar_info bt) of
        Some n \<Rightarrow> Inr (n, bt)
      | None \<Rightarrow> Inl (ErrorExit ''BarrierTracker: ERROR: could not find barrier count'', bt))"

definition threadWaitingOnBarrier :: "thrID \<Rightarrow> addr \<Rightarrow> BarrierTracker \<Rightarrow> BarrierTracker" where
  "threadWaitingOnBarrier t bar bt = bt\<lparr>thread_map := cm_put t bar (thread_map bt)\<rparr>"

definition getNumberThreadsWaitingOnBarrier :: "addr \<Rightarrow> BarrierTracker \<Rightarrow> int" where
  "getNumberThreadsWaitingOnBarrier bar bt =
     foldl (\<lambda>number e. if snd e = bar then number + 1 else number) 0 (thread_map bt)"

definition getThreadsWaitingOnBarrier :: "addr \<Rightarrow> BarrierTracker \<Rightarrow> thrID list" where
  "getThreadsWaitingOnBarrier bar bt = keys_with (\<lambda>b. b = bar) (thread_map bt)"

definition clearThreadsWaitingOnBarrier :: "addr \<Rightarrow> BarrierTracker \<Rightarrow> BarrierTracker" where
  "clearThreadsWaitingOnBarrier bar bt =
     bt\<lparr>thread_map := map (\<lambda>e. if snd e = bar then (fst e, NULL) else e) (thread_map bt)\<rparr>"

text \<open>Arrivals of several threads at one barrier, in order.\<close>

definition arrivals :: "addr \<Rightarrow> thrID list \<Rightarrow> BarrierTracker \<Rightarrow> BarrierTracker" where
  "arrivals b ts bt = foldl (\<lambda>x t. threadWaitingOnBarrier t b x) bt ts"

definition bt_inv :: "BarrierTracker \<Rightarrow> bool" where
  "bt_inv bt \<longleftrightarrow> cm_ok (thread_map bt)"

section \<open>Contract\<close>

text \<open>
  What the execution tracker relies on: counts are read back as set, and the waiting set of a
  barrier grows by arrivals, is emptied by \<open>clear\<close>, and is not touched by other barriers.
\<close>

locale barrier_tracker =
  fixes init :: "addr \<Rightarrow> 32 word \<Rightarrow> 'b \<Rightarrow> 'b"
    and count :: "addr \<Rightarrow> 'b \<Rightarrow> 32 word option"
    and arrive :: "thrID \<Rightarrow> addr \<Rightarrow> 'b \<Rightarrow> 'b"
    and waiting :: "addr \<Rightarrow> 'b \<Rightarrow> thrID set"
    and clear :: "addr \<Rightarrow> 'b \<Rightarrow> 'b"
    and ok :: "'b \<Rightarrow> bool"
  assumes count_init: "count c (init b n bt) = (if c = b then Some n else count c bt)"
    and waiting_init: "waiting c (init b n bt) = waiting c bt"
    and count_arrive: "count c (arrive t b bt) = count c bt"
    and waiting_arrive: "ok bt \<Longrightarrow> waiting c (arrive t b bt) = (if c = b then insert t (waiting c bt) else waiting c bt - {t})"
    and count_clear: "count c (clear b bt) = count c bt"
    and waiting_clear: "ok bt \<Longrightarrow> c \<noteq> NULL \<Longrightarrow> waiting c (clear b bt) = (if c = b then {} else waiting c bt)"
    and finite_waiting: "finite (waiting c bt)"
    and ok_init: "ok bt \<Longrightarrow> ok (init b n bt)"
    and ok_arrive: "ok bt \<Longrightarrow> ok (arrive t b bt)"
    and ok_clear: "ok bt \<Longrightarrow> ok (clear b bt)"
begin

lemma ok_arrivals: "ok bt \<Longrightarrow> ok (foldl (\<lambda>x t. arrive t b x) bt ts)"
  by (induction ts arbitrary: bt) (auto simp: ok_arrive)

lemma waiting_arrivals: "ok bt \<Longrightarrow> waiting b (foldl (\<lambda>x t. arrive t b x) bt ts) = waiting b bt \<union> set ts"
  by (induction ts arbitrary: bt) (auto simp: ok_arrive waiting_arrive)

text \<open>A round: after \<open>init\<close>, distinct arrivals are counted exactly, and \<open>clear\<close> starts a new round.\<close>

lemma round_card:
  assumes "ok bt" and "waiting b bt = {}" and "distinct ts"
  shows "card (waiting b (foldl (\<lambda>x t. arrive t b x) (init b n bt) ts)) = length ts"
  using assms by (simp add: waiting_arrivals ok_init waiting_init distinct_card)

lemma round_again:
  "ok bt \<Longrightarrow> b \<noteq> NULL \<Longrightarrow> waiting b (clear b (foldl (\<lambda>x t. arrive t b x) bt ts)) = {}"
  by (simp add: ok_arrivals waiting_clear)

end

section \<open>The tracker meets the contract\<close>

lemma find_set_count: "find_count c (set_count b n bs) = (if c = b then Some n else find_count c bs)"
  by (induction bs) auto

lemma map_of_clear:
  "map_of (map (\<lambda>e. if snd e = bar then (fst e, v) else e) m) k
     = map_option (\<lambda>b. if b = bar then v else b) (map_of m k)"
  by (induction m) auto

lemma keys_clear: "map fst (map (\<lambda>e. if snd e = bar then (fst e, v) else e) m) = map fst m"
  by (induction m) auto

lemma number_eq_length:
  "getNumberThreadsWaitingOnBarrier bar bt = int (length (getThreadsWaitingOnBarrier bar bt))"
proof -
  have "foldl (\<lambda>number e. if snd e = bar then number + 1 else number) n m
      = n + int (length (filter (\<lambda>e. snd e = bar) m))" for n and m :: "(thrID, addr) cmap"
    by (induction m arbitrary: n) auto
  then show ?thesis
    by (simp add: getNumberThreadsWaitingOnBarrier_def getThreadsWaitingOnBarrier_def keys_with_def)
qed

lemma distinct_waiting: "bt_inv bt \<Longrightarrow> distinct (getThreadsWaitingOnBarrier bar bt)"
  using sorted_keys_with [of "thread_map bt" "\<lambda>b. b = bar"]
  by (simp add: bt_inv_def getThreadsWaitingOnBarrier_def strict_sorted_iff)

interpretation bt: barrier_tracker initBarrier "\<lambda>b bt. find_count b (bar_info bt)" threadWaitingOnBarrier
  "\<lambda>b bt. set (getThreadsWaitingOnBarrier b bt)" clearThreadsWaitingOnBarrier bt_inv
proof
  fix c b :: addr and t :: thrID and bt :: BarrierTracker and n :: "32 word"
  let ?w = "\<lambda>b bt. set (getThreadsWaitingOnBarrier b bt)"
  show "find_count c (bar_info (initBarrier b n bt)) = (if c = b then Some n else find_count c (bar_info bt))"
    by (simp add: initBarrier_def find_set_count)
  show "?w c (initBarrier b n bt) = ?w c bt" "bt_inv bt \<Longrightarrow> bt_inv (initBarrier b n bt)"
    by (simp_all add: initBarrier_def getThreadsWaitingOnBarrier_def bt_inv_def)
  show "find_count c (bar_info (threadWaitingOnBarrier t b bt)) = find_count c (bar_info bt)"
    "bt_inv bt \<Longrightarrow> bt_inv (threadWaitingOnBarrier t b bt)"
    by (simp_all add: threadWaitingOnBarrier_def bt_inv_def)
  show "bt_inv bt \<Longrightarrow> ?w c (threadWaitingOnBarrier t b bt) = (if c = b then insert t (?w c bt) else ?w c bt - {t})"
    by (auto simp: threadWaitingOnBarrier_def getThreadsWaitingOnBarrier_def bt_inv_def set_keys_with)
  show "find_count c (bar_info (clearThreadsWaitingOnBarrier b bt)) = find_count c (bar_info bt)"
    by (simp add: clearThreadsWaitingOnBarrier_def)
  have ok: "cm_ok (map (\<lambda>e. if snd e = b then (fst e, NULL) else e) (thread_map bt)) = cm_ok (thread_map bt)"
    by (simp only: cm_ok_def keys_clear)
  then show "bt_inv bt \<Longrightarrow> bt_inv (clearThreadsWaitingOnBarrier b bt)"
    by (simp add: clearThreadsWaitingOnBarrier_def bt_inv_def)
  show "bt_inv bt \<Longrightarrow> c \<noteq> NULL \<Longrightarrow>
      ?w c (clearThreadsWaitingOnBarrier b bt) = (if c = b then {} else ?w c bt)"
    using ok by (auto simp: clearThreadsWaitingOnBarrier_def getThreadsWaitingOnBarrier_def bt_inv_def
        set_keys_with map_of_clear)
  show "finite (?w c bt)" by simp
qed

text \<open>
  A barrier round is counted exactly. After \<open>initBarrier\<close>, when distinct threads arrive one
  after the other at a barrier nobody waits at, \<open>getNumberThreadsWaitingOnBarrier\<close> is their number
  and \<open>getBarrierCount\<close> still returns the count that was set; after \<open>clearThreadsWaitingOnBarrier\<close>
  nobody waits at it.
\<close>

lemma barrier_round:
  assumes "bt_inv bt" and "getThreadsWaitingOnBarrier b bt = []" and "distinct ts" and "b \<noteq> NULL"
  shows "let bt' = arrivals b ts (initBarrier b n bt)
         in getNumberThreadsWaitingOnBarrier b bt' = int (length ts)
          \<and> getBarrierCount b bt' = Inr (n, bt')
          \<and> getThreadsWaitingOnBarrier b (clearThreadsWaitingOnBarrier b bt') = []"
proof -
  let ?bt = "arrivals b ts (initBarrier b n bt)"
  have ok: "bt_inv ?bt"
    using assms(1) unfolding arrivals_def by (intro bt.ok_arrivals bt.ok_init)
  have "length (getThreadsWaitingOnBarrier b ?bt) = length ts"
    using bt.round_card [of bt b ts n] assms distinct_card [OF distinct_waiting [OF ok, of b]]
    by (simp add: arrivals_def)
  moreover have "find_count b (bar_info ?bt) = Some n"
  proof -
    have "find_count b (bar_info (arrivals b ts x)) = find_count b (bar_info x)" for x
      by (induction ts arbitrary: x) (auto simp: arrivals_def bt.count_arrive)
    then show ?thesis by (simp add: bt.count_init)
  qed
  moreover have "getThreadsWaitingOnBarrier b (clearThreadsWaitingOnBarrier b ?bt) = []"
    using bt.round_again [of "initBarrier b n bt" b ts] assms by (simp add: bt.ok_init arrivals_def)
  ultimately show ?thesis by (simp add: number_eq_length getBarrierCount_def Let_def)
qed

end
