(* ===== verification/Tracker_State.thy ===== *)
theory Tracker_State
  imports Schedule_File Barrier_Tracker
begin

text \<open>
  The state of \<open>ExecutionTracker\<close> (\<open>src/serializer/executiontracker.h\<close>) and its elementary operations
  (\<open>executiontracker.cpp\<close>): which threads are enabled, what each waits for, the semaphores that
  hold the one token of the serializer, the destroyed objects.

  The real pthread objects of the program that the tracker probes through \<open>Originals\<close> are part
  of the state: a mutex of type \<open>PTHREAD_MUTEX_NORMAL\<close> is free, held or destroyed, a semaphore
  has a value or is destroyed. An address that was never initialised is a statically
  initialised mutex, or not a semaphore.

  A field \<open>sem_t *\<close> of the tracker points to a semaphore that is its own, so the maps \<open>sem_map\<close>
  and \<open>wait_sem_map\<close> hold the values themselves; \<open>None\<close> is the null pointer.
\<close>

section \<open>State\<close>

datatype mutex_state = MFree | MHeld | MInvalid

record ExecutionTracker =
  mutexes :: "(addr, mutex_state) cmap"          \<comment> \<open>the program's mutexes\<close>
  sems :: "(addr, nat option) cmap"              \<comment> \<open>the program's semaphores\<close>
  sem_map :: "(thrID, nat option) cmap"
  finish_map :: "(thrID, bool) cmap"
  exit_map :: "(thrID, bool) cmap"
  join_map :: "(thrID, thrID) cmap"
  lock_ready_map :: "(thrID, addr) cmap"
  lock_wait_map :: "(thrID, addr) cmap"
  sem_ready_map :: "(thrID, addr) cmap"
  sem_wait_map :: "(thrID, addr) cmap"
  main_thread_id :: thrID
  global_lock :: bool                            \<comment> \<open>whether it is held\<close>
  mutex_destroy :: "addr list"
  wait_sem_map :: "(thrID, nat option) cmap"
  wait_ready_map :: "(thrID, bool) cmap"
  cond_destroy :: "addr list"
  sem_destroy :: "addr list"
  barrier_destroy :: "addr list"
  preemptions :: int
  nonpreemptions :: int
  contextswitch :: int
  log :: Logger
  bt :: BarrierTracker
  was_signalled_map :: "(thrID, bool) cmap"
  lock_count :: int
  enable_map :: "(thrID, bool) cmap"
  cond_map :: "(thrID, addr) cmap"

section \<open>The pthread objects of the program\<close>

definition EBUSY :: int where "EBUSY = 16"
definition EINVAL :: int where "EINVAL = 22"
definition ETIMEDOUT :: int where "ETIMEDOUT = 110"
definition SEM_VALUE_MAX :: nat where "SEM_VALUE_MAX = 2147483647"

definition mutex_at :: "addr \<Rightarrow> 'a ExecutionTracker_scheme \<Rightarrow> mutex_state" where
  "mutex_at l s = cm_get MFree (mutexes s) l"

definition set_mutex :: "addr \<Rightarrow> mutex_state \<Rightarrow> 'a ExecutionTracker_scheme \<Rightarrow> 'a ExecutionTracker_scheme" where
  "set_mutex l m s = s\<lparr>mutexes := cm_put l m (mutexes s)\<rparr>"

definition pthread_mutex_trylock :: "addr \<Rightarrow> ('a ExecutionTracker_scheme, int) tm" where
  "pthread_mutex_trylock l s =
     (case mutex_at l s of
        MFree \<Rightarrow> Inr (OPERATION_SUCCESSFUL, set_mutex l MHeld s)
      | MHeld \<Rightarrow> Inr (EBUSY, s)
      | MInvalid \<Rightarrow> Inr (EINVAL, s))"

definition pthread_mutex_unlock :: "addr \<Rightarrow> ('a ExecutionTracker_scheme, int) tm" where
  "pthread_mutex_unlock l s =
     (case mutex_at l s of
        MInvalid \<Rightarrow> Inr (EINVAL, s)
      | _ \<Rightarrow> Inr (OPERATION_SUCCESSFUL, set_mutex l MFree s))"

definition pthread_mutex_destroy :: "addr \<Rightarrow> ('a ExecutionTracker_scheme, int) tm" where
  "pthread_mutex_destroy l s =
     (case mutex_at l s of
        MFree \<Rightarrow> Inr (OPERATION_SUCCESSFUL, set_mutex l MInvalid s)
      | MHeld \<Rightarrow> Inr (EBUSY, s)
      | MInvalid \<Rightarrow> Inr (EINVAL, s))"

definition pthread_mutex_init :: "addr \<Rightarrow> ('a ExecutionTracker_scheme, int) tm" where
  "pthread_mutex_init l s = Inr (OPERATION_SUCCESSFUL, set_mutex l MFree s)"

definition sem_at :: "addr \<Rightarrow> 'a ExecutionTracker_scheme \<Rightarrow> nat option" where
  "sem_at a s = cm_get None (sems s) a"

definition set_sem :: "addr \<Rightarrow> nat option \<Rightarrow> 'a ExecutionTracker_scheme \<Rightarrow> 'a ExecutionTracker_scheme" where
  "set_sem a v s = s\<lparr>sems := cm_put a v (sems s)\<rparr>"

text \<open>The result of \<open>sem_getvalue\<close> and the value stored, if any.\<close>

definition os_sem_getvalue :: "addr \<Rightarrow> ('a ExecutionTracker_scheme, int \<times> int option) tm" where
  "os_sem_getvalue a s =
     (case sem_at a s of None \<Rightarrow> Inr ((-1, None), s) | Some v \<Rightarrow> Inr ((OPERATION_SUCCESSFUL, Some (int v)), s))"

text \<open>\<open>sem_wait\<close> on a positive value; the tracker calls it only there.\<close>

definition os_sem_wait :: "addr \<Rightarrow> ('a ExecutionTracker_scheme, int) tm" where
  "os_sem_wait a s =
     (case sem_at a s of
        None \<Rightarrow> Inr (-1, s)
      | Some v \<Rightarrow> if 0 < v then Inr (OPERATION_SUCCESSFUL, set_sem a (Some (v - 1)) s)
                  else Inl (Undefined ''sem_wait blocks while global_lock is held'', s))"

definition os_sem_post :: "addr \<Rightarrow> ('a ExecutionTracker_scheme, int) tm" where
  "os_sem_post a s =
     (case sem_at a s of
        None \<Rightarrow> Inr (-1, s)
      | Some v \<Rightarrow> if v < SEM_VALUE_MAX then Inr (OPERATION_SUCCESSFUL, set_sem a (Some (v + 1)) s)
                  else Inr (-1, s))"

definition os_sem_destroy :: "addr \<Rightarrow> ('a ExecutionTracker_scheme, int) tm" where
  "os_sem_destroy a s =
     (case sem_at a s of None \<Rightarrow> Inr (-1, s) | Some _ \<Rightarrow> Inr (OPERATION_SUCCESSFUL, set_sem a None s))"

definition os_sem_init :: "addr \<Rightarrow> nat \<Rightarrow> ('a ExecutionTracker_scheme, int) tm" where
  "os_sem_init a v s =
     (if v \<le> SEM_VALUE_MAX then Inr (OPERATION_SUCCESSFUL, set_sem a (Some v) s) else Inr (-1, s))"

section \<open>Assertions and the global lock\<close>

text \<open>\<open>safe_assert\<close> with \<open>UNLOCKASSERT\<close> writes the schedule before it leaves.\<close>

definition safe_assert :: "bool \<Rightarrow> string \<Rightarrow> ('a ExecutionTracker_scheme, unit) tm" where
  "safe_assert c txt s =
     (if c then Inr ((), s)
      else Inl (SafeAssert txt, s\<lparr>log := assertFail ''executiontracker.cpp'' txt (log s)\<rparr>))"

text \<open>
  A thread takes the global lock for a section that no other thread interleaves with; taking
  it twice would block the thread for ever.
\<close>

definition glock :: "('a ExecutionTracker_scheme, unit) tm" where
  "glock s =
     (if global_lock s then Inl (Undefined ''global_lock taken twice'', s)
      else Inr ((), s\<lparr>global_lock := True, lock_count := lock_count s + 1\<rparr>))"

definition gunlock :: "('a ExecutionTracker_scheme, unit) tm" where
  "gunlock =
     bnd (gets global_lock) (\<lambda>held.
     bnd (safe_assert held ''Originals::pthread_mutex_trylock(global_lock) != OPERATION_SUCCESSFUL'') (\<lambda>_.
     upd (\<lambda>s. s\<lparr>lock_count := lock_count s - 1, global_lock := False\<rparr>)))"

definition with_log :: "(Logger \<Rightarrow> Logger) \<Rightarrow> 'a ExecutionTracker_scheme \<Rightarrow> 'a ExecutionTracker_scheme" where
  "with_log f s = s\<lparr>log := f (log s)\<rparr>"

definition from_log :: "(Logger, 'b) tm \<Rightarrow> ('a ExecutionTracker_scheme, 'b) tm" where
  "from_log m s =
     (case m (log s) of
        Inl (e, l) \<Rightarrow> Inl (e, s\<lparr>log := l\<rparr>)
      | Inr (x, l) \<Rightarrow> Inr (x, s\<lparr>log := l\<rparr>))"

section \<open>Enabled threads\<close>

definition enableThread :: "thrID \<Rightarrow> 'a ExecutionTracker_scheme \<Rightarrow> 'a ExecutionTracker_scheme" where
  "enableThread t s = s\<lparr>enable_map := cm_put t True (enable_map s)\<rparr>"

definition disableThread :: "thrID \<Rightarrow> 'a ExecutionTracker_scheme \<Rightarrow> 'a ExecutionTracker_scheme" where
  "disableThread t s = s\<lparr>enable_map := cm_put t False (enable_map s)\<rparr>"

text \<open>The read \<open>enable_map[t]\<close>.\<close>

definition read_enable :: "thrID \<Rightarrow> ('a ExecutionTracker_scheme, bool) tm" where
  "read_enable t s = Inr (cm_get False (enable_map s) t, s\<lparr>enable_map := cm_touch False t (enable_map s)\<rparr>)"

definition isEnabled :: "thrID \<Rightarrow> ('a ExecutionTracker_scheme, bool) tm" where
  "isEnabled t = (if t = INVALID_THREAD then ret False else read_enable t)"

definition isDisabled :: "thrID \<Rightarrow> ('a ExecutionTracker_scheme, bool) tm" where
  "isDisabled t = bnd (isEnabled t) (\<lambda>b. ret (\<not> b))"

definition threadIsFinished :: "thrID \<Rightarrow> ('a ExecutionTracker_scheme, bool) tm" where
  "threadIsFinished t s =
     Inr (cm_get False (finish_map s) t, s\<lparr>finish_map := cm_touch False t (finish_map s)\<rparr>)"

section \<open>Joins\<close>

definition read_join :: "thrID \<Rightarrow> ('a ExecutionTracker_scheme, thrID) tm" where
  "read_join t s = Inr (cm_get 0 (join_map s) t, s\<lparr>join_map := cm_touch 0 t (join_map s)\<rparr>)"

definition registerThreadJoin :: "thrID \<Rightarrow> thrID \<Rightarrow> ('a ExecutionTracker_scheme, unit) tm" where
  "registerThreadJoin target joiner =
     bnd (read_join target) (\<lambda>j.
     bnd (safe_assert (j = UNJOINED) ''join_map[target] == UNJOINED'') (\<lambda>_.
     upd (\<lambda>s. s\<lparr>join_map := cm_put target joiner (join_map s)\<rparr>)))"

definition enableJoiningThread :: "thrID \<Rightarrow> ('a ExecutionTracker_scheme, unit) tm" where
  "enableJoiningThread myself =
     bnd (read_join myself) (\<lambda>j. if j \<noteq> UNJOINED then upd (enableThread j) else ret ())"

section \<open>The token\<close>

definition sem_up :: "nat option \<Rightarrow> nat option" where
  "sem_up v = map_option Suc v"

definition read_sem_map :: "thrID \<Rightarrow> ('a ExecutionTracker_scheme, nat option) tm" where
  "read_sem_map t s = Inr (cm_get None (sem_map s) t, s\<lparr>sem_map := cm_touch None t (sem_map s)\<rparr>)"

definition read_wait_sem_map :: "thrID \<Rightarrow> ('a ExecutionTracker_scheme, nat option) tm" where
  "read_wait_sem_map t s =
     Inr (cm_get None (wait_sem_map s) t, s\<lparr>wait_sem_map := cm_touch None t (wait_sem_map s)\<rparr>)"

definition wakeThread :: "thrID \<Rightarrow> ('a ExecutionTracker_scheme, unit) tm" where
  "wakeThread t =
     bnd (read_sem_map t) (\<lambda>p.
     bnd (safe_assert (p \<noteq> None) ''pause != NULL'') (\<lambda>_.
     bnd (safe_assert (the p < SEM_VALUE_MAX) ''Originals::sem_post(pause) == OPERATION_SUCCESSFUL'') (\<lambda>_.
     upd (\<lambda>s. s\<lparr>sem_map := cm_put t (Some (the p + 1)) (sem_map s)\<rparr>))))"

definition waitWakeThread :: "thrID \<Rightarrow> ('a ExecutionTracker_scheme, unit) tm" where
  "waitWakeThread t =
     bnd (read_wait_sem_map t) (\<lambda>p.
     bnd (safe_assert (p \<noteq> None) ''pause != NULL'') (\<lambda>_.
     bnd (safe_assert (the p < SEM_VALUE_MAX) ''Originals::sem_post(pause) == OPERATION_SUCCESSFUL'') (\<lambda>_.
     upd (\<lambda>s. s\<lparr>wait_sem_map := cm_put t (Some (the p + 1)) (wait_sem_map s)\<rparr>))))"

text \<open>
  \<open>pauseThread\<close> and \<open>waitPauseThread\<close> up to the call of \<open>sem_wait\<close>, which is where the thread
  blocks; \<open>sem_take\<close> and \<open>wait_sem_take\<close> are that call when it returns.
\<close>

definition pauseThread :: "thrID \<Rightarrow> ('a ExecutionTracker_scheme, unit) tm" where
  "pauseThread t =
     bnd glock (\<lambda>_.
     bnd (read_sem_map t) (\<lambda>p.
     bnd (safe_assert (p \<noteq> None) ''pause != NULL'') (\<lambda>_.
     gunlock)))"

definition waitPauseThread :: "thrID \<Rightarrow> ('a ExecutionTracker_scheme, unit) tm" where
  "waitPauseThread t =
     bnd glock (\<lambda>_.
     bnd (read_wait_sem_map t) (\<lambda>p.
     bnd (safe_assert (p \<noteq> None) ''pause != NULL'') (\<lambda>_.
     gunlock)))"

definition can_take :: "thrID \<Rightarrow> 'a ExecutionTracker_scheme \<Rightarrow> bool" where
  "can_take t s = (case cm_get None (sem_map s) t of None \<Rightarrow> False | Some v \<Rightarrow> 0 < v)"

definition sem_take :: "thrID \<Rightarrow> 'a ExecutionTracker_scheme \<Rightarrow> 'a ExecutionTracker_scheme" where
  "sem_take t s = s\<lparr>sem_map := cm_put t (map_option (\<lambda>v. v - 1) (cm_get None (sem_map s) t)) (sem_map s)\<rparr>"

definition can_wait_take :: "thrID \<Rightarrow> 'a ExecutionTracker_scheme \<Rightarrow> bool" where
  "can_wait_take t s = (case cm_get None (wait_sem_map s) t of None \<Rightarrow> False | Some v \<Rightarrow> 0 < v)"

definition wait_sem_take :: "thrID \<Rightarrow> 'a ExecutionTracker_scheme \<Rightarrow> 'a ExecutionTracker_scheme" where
  "wait_sem_take t s =
     s\<lparr>wait_sem_map := cm_put t (map_option (\<lambda>v. v - 1) (cm_get None (wait_sem_map s) t)) (wait_sem_map s)\<rparr>"

section \<open>Locks\<close>

definition addThreadWaitingOnLock :: "thrID \<Rightarrow> addr \<Rightarrow> 'a ExecutionTracker_scheme \<Rightarrow> 'a ExecutionTracker_scheme" where
  "addThreadWaitingOnLock t l s = s\<lparr>lock_wait_map := cm_put t l (lock_wait_map s)\<rparr>"

definition addThreadReadyOnLock :: "thrID \<Rightarrow> addr \<Rightarrow> 'a ExecutionTracker_scheme \<Rightarrow> 'a ExecutionTracker_scheme" where
  "addThreadReadyOnLock t l s = s\<lparr>lock_ready_map := cm_put t l (lock_ready_map s)\<rparr>"

text \<open>
  The loops change the entry they stand on and no other entry of the map they run over, so
  they visit the keys that match when they start.
\<close>

definition block_on_lock :: "addr \<Rightarrow> 'a ExecutionTracker_scheme \<Rightarrow> thrID \<Rightarrow> 'a ExecutionTracker_scheme" where
  "block_on_lock l s t =
     (let s1 = disableThread t s;
          s2 = s1\<lparr>lock_wait_map := cm_put t l (lock_wait_map s1)\<rparr>
      in s2\<lparr>lock_ready_map := cm_put t NULL (lock_ready_map s2)\<rparr>)"

definition threadHasAcquiredLock :: "thrID \<Rightarrow> addr \<Rightarrow> 'a ExecutionTracker_scheme \<Rightarrow> 'a ExecutionTracker_scheme" where
  "threadHasAcquiredLock t l s =
     (let s1 = s\<lparr>lock_ready_map := cm_put t NULL (lock_ready_map s)\<rparr>
      in foldl (block_on_lock l) s1 (keys_with (\<lambda>x. x = l) (lock_ready_map s1)))"

definition release_on_lock :: "addr \<Rightarrow> 'a ExecutionTracker_scheme \<Rightarrow> thrID \<Rightarrow> 'a ExecutionTracker_scheme" where
  "release_on_lock l s t =
     (let s1 = enableThread t s;
          s2 = s1\<lparr>lock_ready_map := cm_put t l (lock_ready_map s1)\<rparr>
      in s2\<lparr>lock_wait_map := cm_put t NULL (lock_wait_map s2)\<rparr>)"

definition threadHasReleasedLock :: "thrID \<Rightarrow> addr \<Rightarrow> 'a ExecutionTracker_scheme \<Rightarrow> 'a ExecutionTracker_scheme" where
  "threadHasReleasedLock myself l s =
     foldl (release_on_lock l) s (keys_with (\<lambda>x. x = l) (lock_wait_map s))"

definition determineLockStatus :: "thrID \<Rightarrow> addr \<Rightarrow> ('a ExecutionTracker_scheme, unit) tm" where
  "determineLockStatus myself l =
     bnd (pthread_mutex_trylock l) (\<lambda>result.
       if result = EBUSY then
         upd (\<lambda>s. addThreadWaitingOnLock myself l (disableThread myself s))
       else
         bnd (pthread_mutex_unlock l) (\<lambda>_.
         upd (\<lambda>s. addThreadReadyOnLock myself l (enableThread myself s))))"

section \<open>Semaphores\<close>

definition addThreadReadyOnSemaphore :: "thrID \<Rightarrow> addr \<Rightarrow> 'a ExecutionTracker_scheme \<Rightarrow> 'a ExecutionTracker_scheme" where
  "addThreadReadyOnSemaphore t a s = s\<lparr>sem_ready_map := cm_put t a (sem_ready_map s)\<rparr>"

definition addThreadWaitingOnSemaphore :: "thrID \<Rightarrow> addr \<Rightarrow> 'a ExecutionTracker_scheme \<Rightarrow> 'a ExecutionTracker_scheme" where
  "addThreadWaitingOnSemaphore t a s = s\<lparr>sem_wait_map := cm_put t a (sem_wait_map s)\<rparr>"

definition checkSemaphoreValue :: "addr \<Rightarrow> ('a ExecutionTracker_scheme, int) tm" where
  "checkSemaphoreValue a =
     bnd (os_sem_getvalue a) (\<lambda>(r, v).
     bnd (safe_assert (r = OPERATION_SUCCESSFUL) ''Originals::sem_getvalue(sem, semval) == OPERATION_SUCCESSFUL'') (\<lambda>_.
     ret (case v of None \<Rightarrow> -1 | Some x \<Rightarrow> x)))"

definition determineSemaphoreStatus :: "thrID \<Rightarrow> addr \<Rightarrow> ('a ExecutionTracker_scheme, unit) tm" where
  "determineSemaphoreStatus myself a =
     bnd (checkSemaphoreValue a) (\<lambda>val.
       if val > 0 then upd (\<lambda>s. addThreadReadyOnSemaphore myself a (enableThread myself s))
       else upd (\<lambda>s. addThreadWaitingOnSemaphore myself a (disableThread myself s)))"

definition block_on_sem :: "addr \<Rightarrow> 'a ExecutionTracker_scheme \<Rightarrow> thrID \<Rightarrow> 'a ExecutionTracker_scheme" where
  "block_on_sem a s t =
     (let s1 = s\<lparr>sem_ready_map := cm_put t NULL (sem_ready_map s)\<rparr>;
          s2 = s1\<lparr>sem_wait_map := cm_put t a (sem_wait_map s1)\<rparr>
      in disableThread t s2)"

definition threadHasPassedSemaphore :: "thrID \<Rightarrow> addr \<Rightarrow> ('a ExecutionTracker_scheme, unit) tm" where
  "threadHasPassedSemaphore myself a =
     bnd (\<lambda>s. Inr (cm_get NULL (sem_ready_map s) myself,
                    s\<lparr>sem_ready_map := cm_touch NULL myself (sem_ready_map s)\<rparr>)) (\<lambda>r.
     bnd (safe_assert (r = a) ''sem_ready_map[myself] == sem'') (\<lambda>_.
     bnd (upd (\<lambda>s. s\<lparr>sem_ready_map := cm_put myself NULL (sem_ready_map s)\<rparr>)) (\<lambda>_.
     bnd (checkSemaphoreValue a) (\<lambda>val.
       if val \<le> 0 then
         upd (\<lambda>s. foldl (block_on_sem a) s (keys_with (\<lambda>x. x = a) (sem_ready_map s)))
       else ret ()))))"

definition release_on_sem :: "addr \<Rightarrow> 'a ExecutionTracker_scheme \<Rightarrow> thrID \<Rightarrow> 'a ExecutionTracker_scheme" where
  "release_on_sem a s t =
     (let s1 = enableThread t s;
          s2 = s1\<lparr>sem_ready_map := cm_put t a (sem_ready_map s1)\<rparr>
      in s2\<lparr>sem_wait_map := cm_put t NULL (sem_wait_map s2)\<rparr>)"

definition semaphoreIsPosted :: "thrID \<Rightarrow> addr \<Rightarrow> 'a ExecutionTracker_scheme \<Rightarrow> 'a ExecutionTracker_scheme" where
  "semaphoreIsPosted myself a s =
     foldl (release_on_sem a) s (keys_with (\<lambda>x. x = a) (sem_wait_map s))"

section \<open>Destroyed objects\<close>

definition checkCondValidity :: "addr \<Rightarrow> ('a ExecutionTracker_scheme, unit) tm" where
  "checkCondValidity c =
     bnd (gets cond_destroy) (\<lambda>ds. safe_assert (c \<notin> set ds) ''condHasNotBeenDestroyed'')"

definition condIsValid :: "addr \<Rightarrow> 'a ExecutionTracker_scheme \<Rightarrow> 'a ExecutionTracker_scheme" where
  "condIsValid c s = s\<lparr>cond_destroy := removeAll c (cond_destroy s)\<rparr>"

definition lockIsValid :: "addr \<Rightarrow> 'a ExecutionTracker_scheme \<Rightarrow> 'a ExecutionTracker_scheme" where
  "lockIsValid l s = s\<lparr>mutex_destroy := removeAll l (mutex_destroy s)\<rparr>"

definition checkSemValidity :: "addr \<Rightarrow> ('a ExecutionTracker_scheme, unit) tm" where
  "checkSemValidity a =
     bnd (gets sem_destroy) (\<lambda>ds. safe_assert (a \<notin> set ds) ''semHasNotBeenDestroyed'')"

definition semIsValid :: "addr \<Rightarrow> 'a ExecutionTracker_scheme \<Rightarrow> 'a ExecutionTracker_scheme" where
  "semIsValid a s = s\<lparr>sem_destroy := removeAll a (sem_destroy s)\<rparr>"

definition checkBarrierValidity :: "addr \<Rightarrow> ('a ExecutionTracker_scheme, unit) tm" where
  "checkBarrierValidity b =
     bnd (gets barrier_destroy) (\<lambda>ds. safe_assert (b \<notin> set ds) ''barrierHasNotBeenDestroyed'')"

definition barrierIsValid :: "addr \<Rightarrow> 'a ExecutionTracker_scheme \<Rightarrow> 'a ExecutionTracker_scheme" where
  "barrierIsValid b s = s\<lparr>barrier_destroy := removeAll b (barrier_destroy s)\<rparr>"

section \<open>Thread data\<close>

definition initializeThreadData :: "thrID \<Rightarrow> 'a ExecutionTracker_scheme \<Rightarrow> 'a ExecutionTracker_scheme" where
  "initializeThreadData t s =
     (enableThread t (s\<lparr>sem_map := cm_put t (Some 0) (sem_map s),
                        wait_sem_map := cm_put t (Some 0) (wait_sem_map s)\<rparr>))
       \<lparr>finish_map := cm_put t False (finish_map s), exit_map := cm_put t False (exit_map s),
        join_map := cm_put t UNJOINED (join_map s),
        lock_wait_map := cm_put t NULL (lock_wait_map s), lock_ready_map := cm_put t NULL (lock_ready_map s),
        sem_wait_map := cm_put t NULL (sem_wait_map s), sem_ready_map := cm_put t NULL (sem_ready_map s),
        cond_map := cm_put t NULL (cond_map s), wait_ready_map := cm_put t True (wait_ready_map s),
        was_signalled_map := cm_put t True (was_signalled_map s)\<rparr>"

text \<open>The loop over \<open>finish_map\<close>; the warnings go to standard output.\<close>

definition checkForDanglingThreads :: "('a ExecutionTracker_scheme, unit) tm" where
  "checkForDanglingThreads =
     bnd (gets (\<lambda>s. (main_thread_id s, finish_map s))) (\<lambda>(m, fm).
       for_each (\<lambda>(t, fin). if t = m then safe_assert (\<not> fin) ''mainThreadIsNotFinished'' else ret ()) fm)"

end
