(* ===== verification/Tracker_Schedule.thy ===== *)
theory Tracker_Schedule
  imports Tracker_State
begin

text \<open>
  \<open>ExecutionTracker::schedule\<close> and what it calls, and the virtual methods of the class. The
  subclasses of the tracker override some of \<open>pickNextSchedulingChoice\<close>, \<open>followingChoiceFromLog\<close>,
  \<open>compareScheduleSynchronization\<close>, \<open>launchThread\<close> (the record \<open>policy\<close>, the arguments of \<open>schedule\<close>)
  and of \<open>schedule\<close>, \<open>selectThreadWaitingOnCond\<close>, \<open>scheduleThreadWaitingOnCond\<close>, the \<open>handle...\<close>
  hooks and the logger's \<open>getNextSignalChoice\<close> (the record \<open>methods\<close>, the argument of the
  interposition handlers). A method that changes the point it is given by pointer returns it.
\<close>

section \<open>Virtual methods\<close>

datatype hook =
    HandleAfterCreate thrID addr
  | HandleBeforeJoin thrID thrID addr
  | HandleBeforeMutexLock thrID addr addr bool
  | HandleAfterMutexUnlock thrID addr addr bool
  | HandleSimulateCondWait thrID addr addr addr
  | HandleSimulateCondTimedwait thrID addr addr addr
  | HandleSimulateCondSignal thrID addr addr
  | HandleSimulateCondBroadcast thrID addr addr
  | HandleMyMemoryRead thrID addr addr
  | HandleMyMemoryWrite thrID addr addr
  | HandleThreadStart thrID
  | HandleThreadFinish thrID
  | HandleMyUsleep thrID addr
  | HandleMySleep thrID addr

record 's policy =
  p_pick :: "SchedPointInfo \<Rightarrow> ('s, thrID \<times> SchedPointInfo) tm"
  p_follow :: "SchedPointInfo \<Rightarrow> ('s, SchedPointInfo) tm"
  p_compare :: "string \<Rightarrow> string \<Rightarrow> ('s, unit) tm"
  p_launch :: "thrID \<Rightarrow> SchedPointInfo \<Rightarrow> ('s, unit) tm"

record 's methods =
  m_schedule :: "SchedPointInfo \<Rightarrow> ('s, thrID) tm"
  m_nextSignal :: "('s, thrID) tm"
  m_select :: "SignalPointInfo \<Rightarrow> ('s, thrID) tm"
  m_scheduleCond :: "thrID \<Rightarrow> SignalPointInfo \<Rightarrow> ('s, thrID option \<times> SignalPointInfo) tm"
  m_handle :: "hook \<Rightarrow> ('s, unit) tm"

section \<open>Choosing\<close>

definition deadlockCheck :: "('a ExecutionTracker_scheme, unit) tm" where
  "deadlockCheck s =
     (if \<exists>e \<in> set (enable_map s). snd e then Inr ((), s)
      else Inl (ProgramDeadlock, with_log programDeadlock s))"

definition pickNextSchedulingChoice :: "SchedPointInfo \<Rightarrow> ('a ExecutionTracker_scheme, thrID \<times> SchedPointInfo) tm" where
  "pickNextSchedulingChoice p s =
     Inr ((case keys_with (\<lambda>b. b) (enable_map s) of [] \<Rightarrow> INVALID_THREAD | t # _ \<Rightarrow> t, p), s)"

definition followingChoiceFromLog :: "SchedPointInfo \<Rightarrow> ('a ExecutionTracker_scheme, SchedPointInfo) tm" where
  "followingChoiceFromLog p = ret p"

definition compareScheduleSynchronization :: "string \<Rightarrow> string \<Rightarrow> ('a ExecutionTracker_scheme, unit) tm" where
  "compareScheduleSynchronization s1 s2 = ret ()"

definition recordScheduleInfo :: "thrID \<Rightarrow> thrID \<Rightarrow> ('a ExecutionTracker_scheme, unit) tm" where
  "recordScheduleInfo myself scheduled =
     (if scheduled \<noteq> myself then
        bnd (upd (\<lambda>s. s\<lparr>contextswitch := contextswitch s + 1\<rparr>)) (\<lambda>_.
        bnd (read_enable myself) (\<lambda>en.
          if en then upd (\<lambda>s. s\<lparr>preemptions := preemptions s + 1\<rparr>)
          else upd (\<lambda>s. s\<lparr>nonpreemptions := nonpreemptions s + 1\<rparr>)))
      else ret ())"

section \<open>Launching\<close>

definition read_cond :: "thrID \<Rightarrow> ('a ExecutionTracker_scheme, addr) tm" where
  "read_cond t s = Inr (cm_get NULL (cond_map s) t, s\<lparr>cond_map := cm_touch NULL t (cond_map s)\<rparr>)"

definition wake_target :: "thrID \<Rightarrow> ('a ExecutionTracker_scheme, unit) tm" where
  "wake_target t =
     bnd (read_cond t) (\<lambda>c.
       if c \<noteq> NULL then
         bnd (upd (\<lambda>s. s\<lparr>was_signalled_map := cm_put t False (was_signalled_map s)\<rparr>)) (\<lambda>_.
         waitWakeThread t)
       else wakeThread t)"

definition launchThread :: "thrID \<Rightarrow> SchedPointInfo \<Rightarrow> ('a ExecutionTracker_scheme, unit) tm" where
  "launchThread t p =
     bnd (upd (with_log (scheduling t p))) (\<lambda>_.
     bnd (isEnabled t) (\<lambda>en.
     bnd (safe_assert en ''isEnabled(target)'') (\<lambda>_.
     wake_target t)))"

section \<open>The scheduling point\<close>

definition launch_choice :: "'a ExecutionTracker_scheme policy \<Rightarrow> thrID \<Rightarrow> SchedPointInfo \<Rightarrow> ('a ExecutionTracker_scheme, thrID) tm" where
  "launch_choice pol t p =
     bnd (gets enable_map) (\<lambda>en.
     bnd (p_launch pol t (p\<lparr>sp_enabled := en\<rparr>)) (\<lambda>_.
     ret t))"

definition schedule_new :: "'a ExecutionTracker_scheme policy \<Rightarrow> SchedPointInfo \<Rightarrow> ('a ExecutionTracker_scheme, thrID) tm" where
  "schedule_new pol p =
     bnd (p_pick pol (p\<lparr>sp_fromLog := False\<rparr>)) (\<lambda>(t, p1).
     bnd (if t = INVALID_THREAD
          then bnd deadlockCheck (\<lambda>_. safe_assert False ''notThrilleInternalError'')
          else ret ()) (\<lambda>_.
     bnd (recordScheduleInfo (sp_thread p) t) (\<lambda>_.
     launch_choice pol t p1)))"

definition schedule_logged :: "'a ExecutionTracker_scheme policy \<Rightarrow> thrID \<Rightarrow> SchedPointInfo \<Rightarrow> ('a ExecutionTracker_scheme, thrID) tm" where
  "schedule_logged pol t p =
     bnd (p_follow pol p) (\<lambda>p1.
     bnd (gets (\<lambda>s. lastID (log s))) (\<lambda>then_id.
     bnd (p_compare pol (printf_p (sp_ret_addr p)) then_id) (\<lambda>_.
     bnd (recordScheduleInfo (sp_thread p) t) (\<lambda>_.
     launch_choice pol t (p1\<lparr>sp_fromLog := True\<rparr>)))))"

definition schedule_point :: "'a ExecutionTracker_scheme policy \<Rightarrow> SchedPointInfo \<Rightarrow> ('a ExecutionTracker_scheme, thrID) tm" where
  "schedule_point pol p =
     bnd (from_log (getNextScheduleChoice p)) (\<lambda>t.
       if t = INVALID_THREAD then schedule_new pol p else schedule_logged pol t p)"

section \<open>Signals\<close>

definition isSignalMissed :: "SignalPointInfo \<Rightarrow> bool" where
  "isSignalMissed g = (\<forall>e \<in> set (sg_cond_map g). snd e \<noteq> sg_cond g)"

definition selectThreadWaitingOnCond :: "SignalPointInfo \<Rightarrow> ('a ExecutionTracker_scheme, thrID) tm" where
  "selectThreadWaitingOnCond g =
     ret (case keys_with (\<lambda>c. c = sg_cond g) (sg_cond_map g) of [] \<Rightarrow> INVALID_THREAD | t # _ \<Rightarrow> t)"

text \<open>The read \<open>s->cond_map[t]\<close>.\<close>

definition touch_point :: "thrID \<Rightarrow> SignalPointInfo \<Rightarrow> SignalPointInfo" where
  "touch_point t g = g\<lparr>sg_cond_map := cm_touch NULL t (sg_cond_map g)\<rparr>"

text \<open>
  \<open>scheduleThreadWaitingOnCond\<close> up to its call of \<open>waitThreadReady\<close>; the first component of the
  result is the thread that call waits for.
\<close>

definition scheduleThreadWaitingOnCond :: "thrID \<Rightarrow> SignalPointInfo \<Rightarrow> ('a ExecutionTracker_scheme, thrID option \<times> SignalPointInfo) tm" where
  "scheduleThreadWaitingOnCond t g =
     bnd glock (\<lambda>_.
     bnd (safe_assert (cm_get NULL (sg_cond_map g) t = sg_cond g) ''s->cond_map[target] == s->cond'') (\<lambda>_.
     bnd (upd (with_log (signalScheduling t (touch_point t g)))) (\<lambda>_.
     bnd (upd (\<lambda>s. s\<lparr>wait_ready_map := cm_put t False (wait_ready_map s)\<rparr>)) (\<lambda>_.
     bnd (waitWakeThread t) (\<lambda>_.
     bnd gunlock (\<lambda>_.
     ret (Some t, touch_point t g)))))))"

section \<open>The hooks and the methods of the base class\<close>

definition handle :: "hook \<Rightarrow> ('a ExecutionTracker_scheme, unit) tm" where
  "handle h = ret ()"

definition base_policy :: "'a ExecutionTracker_scheme policy" where
  "base_policy = \<lparr>p_pick = pickNextSchedulingChoice, p_follow = followingChoiceFromLog,
     p_compare = compareScheduleSynchronization, p_launch = launchThread\<rparr>"

definition methods_of :: "'a ExecutionTracker_scheme policy \<Rightarrow> 'a ExecutionTracker_scheme methods" where
  "methods_of pol = \<lparr>m_schedule = schedule_point pol, m_nextSignal = from_log getNextSignalChoice,
     m_select = selectThreadWaitingOnCond, m_scheduleCond = scheduleThreadWaitingOnCond, m_handle = handle\<rparr>"

definition base_methods :: "'a ExecutionTracker_scheme methods" where
  "base_methods = methods_of base_policy"

end
