(* ===== verification/Tracker_Ops.thy ===== *)
theory Tracker_Ops
  imports Tracker_Schedule
begin

text \<open>
  The interposition handlers of \<open>ExecutionTracker\<close>, in the order of the file. A handler that
  blocks in the middle (in \<open>sem_wait\<close> on a semaphore of the tracker, or in \<open>waitThreadReady\<close>) is
  one definition per piece of code between two blocking calls; every piece runs to its end
  before another thread touches the tracker. The methods record \<open>M\<close> is the dynamic class of the
  object.
\<close>

section \<open>Scheduling from a handler\<close>

text \<open>\<open>SchedPointInfo tmp(...); schedule(&tmp);\<close>\<close>

definition sched_at :: "'a ExecutionTracker_scheme methods \<Rightarrow> addr \<Rightarrow> string \<Rightarrow> thrID \<Rightarrow> bool \<Rightarrow> ('a ExecutionTracker_scheme, unit) tm" where
  "sched_at M r ty t yld =
     bnd (gets enable_map) (\<lambda>en.
     bnd (m_schedule M (mk_SchedPointInfo r ty t en yld)) (\<lambda>_. ret ()))"

text \<open>The same, then \<open>gunlock(); pauseThread(myself);\<close>\<close>

definition sched_pause :: "'a ExecutionTracker_scheme methods \<Rightarrow> addr \<Rightarrow> string \<Rightarrow> thrID \<Rightarrow> bool \<Rightarrow> ('a ExecutionTracker_scheme, unit) tm" where
  "sched_pause M r ty t yld = steps [sched_at M r ty t yld, gunlock, pauseThread t]"

section \<open>Construction, destruction, failures\<close>

definition constructorHelper :: "Logger \<Rightarrow> ExecutionTracker \<Rightarrow> ExecutionTracker" where
  "constructorHelper l s =
     s\<lparr>log := l, bt := BarrierTracker_init, global_lock := False, lock_count := 0,
       preemptions := 0, nonpreemptions := 0, contextswitch := 0\<rparr>"

definition ExecutionTracker_raw :: "Logger \<Rightarrow> ExecutionTracker" where
  "ExecutionTracker_raw l =
     \<lparr>mutexes = [], sems = [], sem_map = [], finish_map = [], exit_map = [], join_map = [],
      lock_ready_map = [], lock_wait_map = [], sem_ready_map = [], sem_wait_map = [],
      main_thread_id = 0, global_lock = False, mutex_destroy = [], wait_sem_map = [],
      wait_ready_map = [], cond_destroy = [], sem_destroy = [], barrier_destroy = [],
      preemptions = 0, nonpreemptions = 0, contextswitch = 0, log = l, bt = BarrierTracker_init,
      was_signalled_map = [], lock_count = 0, enable_map = [], cond_map = []\<rparr>"

definition new_ExecutionTracker :: "Logger \<Rightarrow> thrID \<Rightarrow> ExecutionTracker" where
  "new_ExecutionTracker l myself =
     initializeThreadData myself ((constructorHelper l (ExecutionTracker_raw l))\<lparr>main_thread_id := myself\<rparr>)"

definition tracker_segfault :: "thrID \<Rightarrow> 'a ExecutionTracker_scheme \<Rightarrow> 'a ExecutionTracker_scheme" where
  "tracker_segfault myself = with_log (segfault myself)"

definition ExecutionTracker_destroy :: "('a ExecutionTracker_scheme, unit) tm" where
  "ExecutionTracker_destroy = steps [checkForDanglingThreads, upd (with_log Logger_destroy)]"

section \<open>Calls that go straight through\<close>

definition BeforeGetschedparam :: "thrID \<Rightarrow> addr \<Rightarrow> ('a ExecutionTracker_scheme, bool) tm" where
  "BeforeGetschedparam myself r = ret True"

definition BeforeKeyCreate :: "thrID \<Rightarrow> addr \<Rightarrow> ('a ExecutionTracker_scheme, bool) tm" where
  "BeforeKeyCreate myself r = ret True"

definition BeforeSetspecific :: "thrID \<Rightarrow> addr \<Rightarrow> ('a ExecutionTracker_scheme, bool) tm" where
  "BeforeSetspecific myself r = ret True"

definition BeforeGetspecific :: "thrID \<Rightarrow> addr \<Rightarrow> ('a ExecutionTracker_scheme, bool) tm" where
  "BeforeGetspecific myself r = ret True"

definition BeforeAttrSetstacksize :: "thrID \<Rightarrow> addr \<Rightarrow> ('a ExecutionTracker_scheme, bool) tm" where
  "BeforeAttrSetstacksize myself r = ret True"

definition BeforeAttrSetdetachstate :: "thrID \<Rightarrow> addr \<Rightarrow> ('a ExecutionTracker_scheme, bool) tm" where
  "BeforeAttrSetdetachstate myself r = ret True"

definition BeforeAttrGetschedparam :: "thrID \<Rightarrow> addr \<Rightarrow> ('a ExecutionTracker_scheme, bool) tm" where
  "BeforeAttrGetschedparam myself r = ret True"

definition SCHED_FIFO :: int where "SCHED_FIFO = 1"
definition SCHED_RR :: int where "SCHED_RR = 2"

definition BeforeAttrSetschedparam :: "thrID \<Rightarrow> addr \<Rightarrow> int \<Rightarrow> ('a ExecutionTracker_scheme, bool) tm" where
  "BeforeAttrSetschedparam myself r priority =
     bnd (if priority = SCHED_FIFO then safe_assert False ''isNormalSchedulingPriority''
          else if priority = SCHED_RR then safe_assert False ''isNormalSchedulingPriority''
          else ret ()) (\<lambda>_. ret True)"

definition BeforeEqual :: "thrID \<Rightarrow> addr \<Rightarrow> ('a ExecutionTracker_scheme, bool) tm" where
  "BeforeEqual myself r = ret True"

definition BeforeAttrDestroy :: "thrID \<Rightarrow> addr \<Rightarrow> ('a ExecutionTracker_scheme, bool) tm" where
  "BeforeAttrDestroy myself r = ret True"

definition BeforeOnce :: "thrID \<Rightarrow> addr \<Rightarrow> ('a ExecutionTracker_scheme, bool) tm" where
  "BeforeOnce myself r = ret True"

definition PTHREAD_MUTEX_NORMAL :: int where "PTHREAD_MUTEX_NORMAL = 0"

definition BeforeMutexattrSettype :: "thrID \<Rightarrow> addr \<Rightarrow> int \<Rightarrow> ('a ExecutionTracker_scheme, bool) tm" where
  "BeforeMutexattrSettype myself r ty =
     (if ty = PTHREAD_MUTEX_NORMAL then ret True
      else bnd (safe_assert False ''goodMutexattr'') (\<lambda>_. ret False))"

definition BeforeMutexattrInit :: "thrID \<Rightarrow> addr \<Rightarrow> ('a ExecutionTracker_scheme, bool) tm" where
  "BeforeMutexattrInit myself r = ret True"

definition BeforeSelf :: "thrID \<Rightarrow> addr \<Rightarrow> ('a ExecutionTracker_scheme, bool) tm" where
  "BeforeSelf myself r = ret True"

definition BeforeAttrInit :: "thrID \<Rightarrow> addr \<Rightarrow> ('a ExecutionTracker_scheme, bool) tm" where
  "BeforeAttrInit myself r = ret True"

definition BeforeAttrSetscope :: "thrID \<Rightarrow> addr \<Rightarrow> ('a ExecutionTracker_scheme, bool) tm" where
  "BeforeAttrSetscope myself r = ret True"

definition BeforeSetcanceltype :: "thrID \<Rightarrow> addr \<Rightarrow> ('a ExecutionTracker_scheme, bool) tm" where
  "BeforeSetcanceltype myself r = ret True"

section \<open>Scheduling points without an object\<close>

definition thrilleCheckpoint :: "'a ExecutionTracker_scheme methods \<Rightarrow> thrID \<Rightarrow> addr \<Rightarrow> ('a ExecutionTracker_scheme, unit) tm" where
  "thrilleCheckpoint M myself r = steps [glock, sched_pause M r ''Thrille Checkpoint'' myself False]"

definition thrilleAssert :: "thrID \<Rightarrow> addr \<Rightarrow> bool \<Rightarrow> ('a ExecutionTracker_scheme, unit) tm" where
  "thrilleAssert myself r c =
     (if c then ret ()
      else steps [upd (with_log (programAssertFail myself r)), exit_with ProgramAssertFail])"

definition thrilleSchedPoint :: "'a ExecutionTracker_scheme methods \<Rightarrow> thrID \<Rightarrow> addr \<Rightarrow> ('a ExecutionTracker_scheme, unit) tm" where
  "thrilleSchedPoint M myself r =
     steps [glock,
       bnd (isEnabled myself) (\<lambda>en. safe_assert en ''isEnabled(myself)''),
       sched_pause M r ''Before Generic Schedule Point'' myself False]"

definition tracker_tryToSchedule :: "('a ExecutionTracker_scheme, bool) tm" where
  "tracker_tryToSchedule = from_log tryToSchedule"

definition tracker_isSchedulingPoint :: "addr \<Rightarrow> ('a ExecutionTracker_scheme, bool) tm" where
  "tracker_isSchedulingPoint r = gets (\<lambda>s. isSchedulingPoint r (log s))"

definition myMemoryRead :: "'a ExecutionTracker_scheme methods \<Rightarrow> thrID \<Rightarrow> addr \<Rightarrow> addr \<Rightarrow> ('a ExecutionTracker_scheme, unit) tm" where
  "myMemoryRead M myself r a =
     steps [glock, m_handle M (HandleMyMemoryRead myself r a), sched_pause M r ''Memory Read'' myself False]"

definition myMemoryWrite :: "'a ExecutionTracker_scheme methods \<Rightarrow> thrID \<Rightarrow> addr \<Rightarrow> addr \<Rightarrow> ('a ExecutionTracker_scheme, unit) tm" where
  "myMemoryWrite M myself r a =
     steps [glock, m_handle M (HandleMyMemoryWrite myself r a), sched_pause M r ''Memory Write'' myself False]"

definition BeforeSleep :: "thrID \<Rightarrow> addr \<Rightarrow> ('a ExecutionTracker_scheme, bool) tm" where
  "BeforeSleep myself r = ret False"

definition SimulateSleep :: "'a ExecutionTracker_scheme methods \<Rightarrow> thrID \<Rightarrow> addr \<Rightarrow> ('a ExecutionTracker_scheme, unit) tm" where
  "SimulateSleep M myself r =
     steps [glock, m_handle M (HandleMySleep myself r), sched_pause M r ''Simulate Sleep'' myself True]"

definition BeforeUsleep :: "thrID \<Rightarrow> addr \<Rightarrow> ('a ExecutionTracker_scheme, bool) tm" where
  "BeforeUsleep myself r = ret False"

definition SimulateUsleep :: "'a ExecutionTracker_scheme methods \<Rightarrow> thrID \<Rightarrow> addr \<Rightarrow> ('a ExecutionTracker_scheme, unit) tm" where
  "SimulateUsleep M myself r =
     steps [glock, m_handle M (HandleMyUsleep myself r), sched_pause M r ''Simulate Usleep'' myself True]"

text \<open>The empty section after the pause of a memory access and of a join.\<close>

definition glock_gunlock :: "('a ExecutionTracker_scheme, unit) tm" where
  "glock_gunlock = steps [glock, gunlock]"

definition BeforeSigwait :: "'a ExecutionTracker_scheme methods \<Rightarrow> thrID \<Rightarrow> addr \<Rightarrow> ('a ExecutionTracker_scheme, unit) tm" where
  "BeforeSigwait M myself r =
     steps [glock, upd (disableThread myself), sched_at M r ''Before Sig Wait'' myself False, gunlock,
       safe_assert False ''sigwait_is_implemented'']"

section \<open>Threads\<close>

definition finalizeThread :: "'a ExecutionTracker_scheme methods \<Rightarrow> thrID \<Rightarrow> addr \<Rightarrow> ('a ExecutionTracker_scheme, unit) tm" where
  "finalizeThread M myself r =
     steps [upd (disableThread myself),
       upd (\<lambda>s. s\<lparr>finish_map := cm_put myself True (finish_map s)\<rparr>),
       enableJoiningThread myself,
       m_handle M (HandleThreadFinish myself),
       sched_at M r ''Thread Finish'' myself False]"

definition ThreadStart :: "'a ExecutionTracker_scheme methods \<Rightarrow> thrID \<Rightarrow> ('a ExecutionTracker_scheme, unit) tm" where
  "ThreadStart M myself = steps [glock, m_handle M (HandleThreadStart myself), gunlock, pauseThread myself]"

definition ThreadFinish :: "'a ExecutionTracker_scheme methods \<Rightarrow> thrID \<Rightarrow> addr \<Rightarrow> ('a ExecutionTracker_scheme, unit) tm" where
  "ThreadFinish M myself start =
     steps [glock, finalizeThread M myself start,
       upd (\<lambda>s. s\<lparr>lock_count := lock_count s - 1, global_lock := False\<rparr>)]"

definition BeforeExit :: "thrID \<Rightarrow> addr \<Rightarrow> ('a ExecutionTracker_scheme, bool) tm" where
  "BeforeExit myself r = bnd glock_gunlock (\<lambda>_. ret False)"

definition SimulateExit :: "'a ExecutionTracker_scheme methods \<Rightarrow> thrID \<Rightarrow> addr \<Rightarrow> ('a ExecutionTracker_scheme, unit) tm" where
  "SimulateExit M myself r = steps [glock, finalizeThread M myself r, gunlock]"

definition BeforeCreate :: "thrID \<Rightarrow> thrID \<Rightarrow> ('a ExecutionTracker_scheme, bool) tm" where
  "BeforeCreate myself child =
     bnd (steps [glock, upd (initializeThreadData child), gunlock]) (\<lambda>_. ret True)"

definition AfterCreate :: "'a ExecutionTracker_scheme methods \<Rightarrow> thrID \<Rightarrow> addr \<Rightarrow> ('a ExecutionTracker_scheme, unit) tm" where
  "AfterCreate M myself r =
     steps [glock, m_handle M (HandleAfterCreate myself r), sched_pause M r ''After Create'' myself False]"

definition BeforeJoin :: "'a ExecutionTracker_scheme methods \<Rightarrow> thrID \<Rightarrow> thrID \<Rightarrow> addr \<Rightarrow> ('a ExecutionTracker_scheme, unit) tm" where
  "BeforeJoin M myself target r =
     steps [glock, safe_assert (target \<noteq> INVALID_THREAD) ''target != INVALID_THREAD'',
       bnd (threadIsFinished target) (\<lambda>fin.
         if fin then upd (enableThread myself)
         else steps [upd (disableThread myself), registerThreadJoin target myself]),
       m_handle M (HandleBeforeJoin myself target r),
       sched_pause M r ''Before Join'' myself False]"

section \<open>Mutexes\<close>

definition BeforeMutexTrylock :: "'a ExecutionTracker_scheme methods \<Rightarrow> thrID \<Rightarrow> addr \<Rightarrow> addr \<Rightarrow> ('a ExecutionTracker_scheme, unit) tm" where
  "BeforeMutexTrylock M myself r l =
     steps [glock, upd (enableThread myself), m_handle M (HandleBeforeMutexLock myself r l False),
       sched_pause M r ''Before Mutex Try Lock'' myself False]"

definition SimulateMutexTrylock :: "thrID \<Rightarrow> addr \<Rightarrow> ('a ExecutionTracker_scheme, int) tm" where
  "SimulateMutexTrylock myself l =
     bnd glock (\<lambda>_.
     bnd (pthread_mutex_trylock l) (\<lambda>result.
     bnd (if result = OPERATION_SUCCESSFUL then upd (threadHasAcquiredLock myself l) else ret ()) (\<lambda>_.
     bnd gunlock (\<lambda>_. ret result))))"

definition AfterMutexTrylock :: "thrID \<Rightarrow> addr \<Rightarrow> int \<Rightarrow> addr \<Rightarrow> ('a ExecutionTracker_scheme, unit) tm" where
  "AfterMutexTrylock myself r ret_val l = ret ()"

text \<open>
  The result is the function's: \<open>True\<close> means that the original \<open>pthread_mutex_lock\<close> is called.
  With \<open>isWait\<close> the function neither takes the global lock nor schedules.
\<close>

definition BeforeMutexLock :: "'a ExecutionTracker_scheme methods \<Rightarrow> thrID \<Rightarrow> addr \<Rightarrow> addr \<Rightarrow> bool \<Rightarrow> ('a ExecutionTracker_scheme, bool) tm" where
  "BeforeMutexLock M myself r l isWait =
     bnd (if isWait then ret () else glock) (\<lambda>_.
     bnd (threadIsFinished myself) (\<lambda>fin.
       if fin then bnd (if isWait then ret () else gunlock) (\<lambda>_. ret True)
       else
         bnd (determineLockStatus myself l) (\<lambda>_.
         bnd (m_handle M (HandleBeforeMutexLock myself r l isWait)) (\<lambda>_.
         bnd (if isWait then ret () else sched_pause M r ''Before Mutex Lock'' myself False) (\<lambda>_.
         ret False)))))"

definition SimulateMutexLock :: "thrID \<Rightarrow> addr \<Rightarrow> bool \<Rightarrow> ('a ExecutionTracker_scheme, int) tm" where
  "SimulateMutexLock myself l isWait =
     bnd (if isWait then ret () else glock) (\<lambda>_.
     bnd (upd (threadHasAcquiredLock myself l)) (\<lambda>_.
     bnd (pthread_mutex_trylock l) (\<lambda>result.
     bnd (if isWait then ret () else gunlock) (\<lambda>_. ret result))))"

definition BeforeMutexUnlock :: "thrID \<Rightarrow> addr \<Rightarrow> addr \<Rightarrow> bool \<Rightarrow> ('a ExecutionTracker_scheme, bool) tm" where
  "BeforeMutexUnlock myself r l isWait = ret True"

definition AfterMutexUnlock :: "'a ExecutionTracker_scheme methods \<Rightarrow> thrID \<Rightarrow> addr \<Rightarrow> addr \<Rightarrow> bool \<Rightarrow> ('a ExecutionTracker_scheme, unit) tm" where
  "AfterMutexUnlock M myself r l isWait =
     bnd (if isWait then ret () else glock) (\<lambda>_.
     bnd (threadIsFinished myself) (\<lambda>fin.
       if fin then (if isWait then ret () else gunlock)
       else
         steps [upd (threadHasReleasedLock myself l),
           m_handle M (HandleAfterMutexUnlock myself r l isWait),
           if isWait then ret () else sched_pause M r ''After Mutex Unlock'' myself False]))"

definition BeforeMutexInit :: "thrID \<Rightarrow> addr \<Rightarrow> addr \<Rightarrow> ('a ExecutionTracker_scheme, bool) tm" where
  "BeforeMutexInit myself r l = bnd (upd (lockIsValid l)) (\<lambda>_. ret True)"

definition BeforeMutexDestroy :: "thrID \<Rightarrow> addr \<Rightarrow> addr \<Rightarrow> ('a ExecutionTracker_scheme, bool) tm" where
  "BeforeMutexDestroy myself r l = ret False"

definition SimulateMutexDestroy :: "thrID \<Rightarrow> addr \<Rightarrow> addr \<Rightarrow> ('a ExecutionTracker_scheme, int) tm" where
  "SimulateMutexDestroy myself r l =
     bnd glock (\<lambda>_.
     bnd (upd (\<lambda>s. s\<lparr>mutex_destroy := mutex_destroy s @ [l]\<rparr>)) (\<lambda>_.
     bnd (pthread_mutex_destroy l) (\<lambda>v.
     bnd gunlock (\<lambda>_. ret v))))"

section \<open>Condition variables\<close>

definition BeforeCondInit :: "thrID \<Rightarrow> addr \<Rightarrow> addr \<Rightarrow> bool \<Rightarrow> ('a ExecutionTracker_scheme, bool) tm" where
  "BeforeCondInit myself r c attr_is_null =
     bnd (safe_assert attr_is_null ''condAttrIsNull'') (\<lambda>_.
     bnd (upd (condIsValid c)) (\<lambda>_. ret True))"

definition BeforeCondDestroy :: "thrID \<Rightarrow> addr \<Rightarrow> addr \<Rightarrow> ('a ExecutionTracker_scheme, bool) tm" where
  "BeforeCondDestroy myself r c = ret False"

text \<open>The result of the original \<open>pthread_cond_destroy\<close> is an argument: the tracker only returns it.\<close>

definition SimulateCondDestroy :: "thrID \<Rightarrow> addr \<Rightarrow> int \<Rightarrow> addr \<Rightarrow> ('a ExecutionTracker_scheme, int) tm" where
  "SimulateCondDestroy myself r os_result c =
     bnd (steps [glock, upd (\<lambda>s. s\<lparr>cond_destroy := cond_destroy s @ [c]\<rparr>), gunlock]) (\<lambda>_. ret os_result)"

definition BeforeCondWait :: "thrID \<Rightarrow> ('a ExecutionTracker_scheme, bool) tm" where
  "BeforeCondWait myself = bnd (steps [glock, upd (disableThread myself), gunlock]) (\<lambda>_. ret False)"

definition BeforeCondTimedwait :: "thrID \<Rightarrow> ('a ExecutionTracker_scheme, bool) tm" where
  "BeforeCondTimedwait myself = bnd (steps [glock, upd (enableThread myself), gunlock]) (\<lambda>_. ret False)"

text \<open>
  \<open>SimulateCondWait\<close> and \<open>SimulateCondTimedwait\<close> release the mutex in the same way, and from there
  to \<open>waitPauseThread\<close> differ in the hook and in the point.
\<close>

definition release_for_wait :: "'a ExecutionTracker_scheme methods \<Rightarrow> thrID \<Rightarrow> addr \<Rightarrow> addr \<Rightarrow> addr \<Rightarrow> ('a ExecutionTracker_scheme, unit) tm" where
  "release_for_wait M myself r c l =
     steps [checkCondValidity c,
       bnd (BeforeMutexUnlock myself r l True) (\<lambda>proceed. safe_assert proceed ''proceed''),
       bnd (pthread_mutex_unlock l) (\<lambda>result.
         safe_assert (result = OPERATION_SUCCESSFUL)
           ''Originals::pthread_mutex_unlock(lock) == OPERATION_SUCCESSFUL''),
       AfterMutexUnlock M myself r l True,
       upd (\<lambda>s. s\<lparr>cond_map := cm_put myself c (cond_map s)\<rparr>)]"

definition SimulateCondWait :: "'a ExecutionTracker_scheme methods \<Rightarrow> thrID \<Rightarrow> addr \<Rightarrow> addr \<Rightarrow> addr \<Rightarrow> ('a ExecutionTracker_scheme, unit) tm" where
  "SimulateCondWait M myself r c l =
     steps [glock, release_for_wait M myself r c l,
       m_handle M (HandleSimulateCondWait myself r c l),
       sched_at M r ''Simulate Cond Wait'' myself False, gunlock, waitPauseThread myself]"

text \<open>\<open>signalThreadReady\<close> takes and releases the global lock itself.\<close>

definition signalThreadReady :: "thrID \<Rightarrow> ('a ExecutionTracker_scheme, unit) tm" where
  "signalThreadReady myself =
     steps [glock, upd (\<lambda>s. s\<lparr>wait_ready_map := cm_put myself True (wait_ready_map s)\<rparr>),
       upd (\<lambda>s. s\<lparr>lock_count := lock_count s - 1, global_lock := False\<rparr>)]"

definition leave_cond :: "'a ExecutionTracker_scheme methods \<Rightarrow> thrID \<Rightarrow> addr \<Rightarrow> addr \<Rightarrow> ('a ExecutionTracker_scheme, unit) tm" where
  "leave_cond M myself r l =
     steps [glock, upd (\<lambda>s. s\<lparr>cond_map := cm_put myself NULL (cond_map s)\<rparr>), gunlock,
       bnd (BeforeMutexLock M myself r l True) (\<lambda>proceed. safe_assert (\<not> proceed) ''proceed == false''),
       signalThreadReady myself]"

text \<open>\<open>SimulateCondWait\<close> after \<open>waitPauseThread\<close>, and after the \<open>pauseThread\<close> that follows.\<close>

definition SimulateCondWait_woken :: "'a ExecutionTracker_scheme methods \<Rightarrow> thrID \<Rightarrow> addr \<Rightarrow> addr \<Rightarrow> ('a ExecutionTracker_scheme, unit) tm" where
  "SimulateCondWait_woken M myself r l = steps [leave_cond M myself r l, pauseThread myself]"

definition SimulateCondWait_relock :: "thrID \<Rightarrow> addr \<Rightarrow> ('a ExecutionTracker_scheme, int) tm" where
  "SimulateCondWait_relock myself l =
     bnd (SimulateMutexLock myself l True) (\<lambda>_.
     bnd glock_gunlock (\<lambda>_. ret OPERATION_SUCCESSFUL))"

definition SimulateCondTimedwait :: "'a ExecutionTracker_scheme methods \<Rightarrow> thrID \<Rightarrow> addr \<Rightarrow> addr \<Rightarrow> addr \<Rightarrow> ('a ExecutionTracker_scheme, unit) tm" where
  "SimulateCondTimedwait M myself r c l =
     steps [glock, release_for_wait M myself r c l,
       m_handle M (HandleSimulateCondTimedwait myself r c l),
       sched_at M r ''Simulate Timed Wait (s)'' myself True, gunlock, waitPauseThread myself]"

definition read_was_signalled :: "thrID \<Rightarrow> ('a ExecutionTracker_scheme, bool) tm" where
  "read_was_signalled t s =
     Inr (cm_get False (was_signalled_map s) t, s\<lparr>was_signalled_map := cm_touch False t (was_signalled_map s)\<rparr>)"

definition SimulateCondTimedwait_woken :: "'a ExecutionTracker_scheme methods \<Rightarrow> thrID \<Rightarrow> addr \<Rightarrow> addr \<Rightarrow> ('a ExecutionTracker_scheme, bool) tm" where
  "SimulateCondTimedwait_woken M myself r l =
     bnd (leave_cond M myself r l) (\<lambda>_.
     bnd glock (\<lambda>_.
     bnd (read_was_signalled myself) (\<lambda>was_signalled.
     bnd (if was_signalled then ret ()
          else steps [sched_at M r ''Simulate Timed Wait (e)'' myself False,
                      upd (\<lambda>s. s\<lparr>was_signalled_map := cm_put myself True (was_signalled_map s)\<rparr>)]) (\<lambda>_.
     bnd gunlock (\<lambda>_.
     bnd (pauseThread myself) (\<lambda>_.
     ret was_signalled))))))"

definition SimulateCondTimedwait_relock :: "thrID \<Rightarrow> addr \<Rightarrow> bool \<Rightarrow> ('a ExecutionTracker_scheme, int) tm" where
  "SimulateCondTimedwait_relock myself l was_signalled =
     bnd (SimulateMutexLock myself l True) (\<lambda>_.
     bnd glock_gunlock (\<lambda>_.
     ret (if was_signalled then OPERATION_SUCCESSFUL else ETIMEDOUT)))"

definition BeforeCondSignal :: "thrID \<Rightarrow> addr \<Rightarrow> addr \<Rightarrow> ('a ExecutionTracker_scheme, bool) tm" where
  "BeforeCondSignal myself r c = bnd (steps [glock, checkCondValidity c, gunlock]) (\<lambda>_. ret False)"

definition BeforeCondBroadcast :: "thrID \<Rightarrow> addr \<Rightarrow> addr \<Rightarrow> ('a ExecutionTracker_scheme, bool) tm" where
  "BeforeCondBroadcast myself r c = bnd (steps [glock, checkCondValidity c, gunlock]) (\<lambda>_. ret False)"

text \<open>\<open>waitThreadReady\<close> returns when its target has set \<open>wait_ready_map\<close>.\<close>

definition waitThreadReady :: "thrID \<Rightarrow> 'a ExecutionTracker_scheme \<Rightarrow> bool" where
  "waitThreadReady target s = cm_get False (wait_ready_map s) target"

text \<open>
  \<open>wakeThreadWaitingOnCond\<close>: the result is the thread the caller waits for, if any, with the
  point as it is then; for a broadcast \<open>wake_another\<close> is what follows that wait.
\<close>

definition wake_chosen :: "'a ExecutionTracker_scheme methods \<Rightarrow> thrID \<Rightarrow> SignalPointInfo \<Rightarrow> ('a ExecutionTracker_scheme, thrID option \<times> SignalPointInfo) tm" where
  "wake_chosen M t g =
     bnd (safe_assert (cm_get NULL (sg_cond_map g) t = sg_cond g) ''s->cond_map[newchoice] == s->cond'') (\<lambda>_.
     m_scheduleCond M t (touch_point t g))"

definition wake_another :: "'a ExecutionTracker_scheme methods \<Rightarrow> SignalPointInfo \<Rightarrow> ('a ExecutionTracker_scheme, thrID option \<times> SignalPointInfo) tm" where
  "wake_another M g =
     bnd (gets cond_map) (\<lambda>cm.
     bnd (m_select M (g\<lparr>sg_cond_map := cm\<rparr>)) (\<lambda>t.
       if t = INVALID_THREAD then ret (None, g\<lparr>sg_cond_map := cm\<rparr>)
       else wake_chosen M t (g\<lparr>sg_cond_map := cm\<rparr>)))"

definition wakeThreadWaitingOnCond :: "'a ExecutionTracker_scheme methods \<Rightarrow> SignalPointInfo \<Rightarrow> ('a ExecutionTracker_scheme, thrID option \<times> SignalPointInfo) tm" where
  "wakeThreadWaitingOnCond M g =
     (if isSignalMissed g then ret (None, g)
      else if sg_isBroadcast g then
        bnd (m_select M g) (\<lambda>t.
        bnd (safe_assert (t \<noteq> INVALID_THREAD) ''newchoice != INVALID_THREAD'') (\<lambda>_.
        wake_chosen M t g))
      else
        bnd (m_nextSignal M) (\<lambda>next.
          if next = INVALID_THREAD then
            bnd (m_select M g) (\<lambda>t.
            bnd (safe_assert (t \<noteq> INVALID_THREAD) ''newchoice != INVALID_THREAD'') (\<lambda>_.
            m_scheduleCond M t g))
          else m_scheduleCond M next g))"

definition SimulateCondSignal :: "'a ExecutionTracker_scheme methods \<Rightarrow> thrID \<Rightarrow> addr \<Rightarrow> addr \<Rightarrow> ('a ExecutionTracker_scheme, thrID option \<times> SignalPointInfo) tm" where
  "SimulateCondSignal M myself r c =
     bnd (gets cond_map) (\<lambda>cm. wakeThreadWaitingOnCond M (mk_SignalPointInfo r False myself c cm))"

definition SimulateCondSignal_end :: "'a ExecutionTracker_scheme methods \<Rightarrow> thrID \<Rightarrow> addr \<Rightarrow> addr \<Rightarrow> ('a ExecutionTracker_scheme, unit) tm" where
  "SimulateCondSignal_end M myself r c =
     steps [glock, upd (enableThread myself), m_handle M (HandleSimulateCondSignal myself r c),
       sched_pause M r ''Simulate Signal'' myself False]"

definition SimulateCondBroadcast :: "'a ExecutionTracker_scheme methods \<Rightarrow> thrID \<Rightarrow> addr \<Rightarrow> addr \<Rightarrow> ('a ExecutionTracker_scheme, thrID option \<times> SignalPointInfo) tm" where
  "SimulateCondBroadcast M myself r c =
     bnd (gets cond_map) (\<lambda>cm. wakeThreadWaitingOnCond M (mk_SignalPointInfo r True myself c cm))"

definition SimulateCondBroadcast_end :: "'a ExecutionTracker_scheme methods \<Rightarrow> thrID \<Rightarrow> addr \<Rightarrow> addr \<Rightarrow> ('a ExecutionTracker_scheme, unit) tm" where
  "SimulateCondBroadcast_end M myself r c =
     steps [glock, upd (enableThread myself), m_handle M (HandleSimulateCondBroadcast myself r c),
       sched_pause M r ''Simulate Broadcast'' myself False]"

section \<open>Semaphores\<close>

definition BeforeSemWait :: "'a ExecutionTracker_scheme methods \<Rightarrow> thrID \<Rightarrow> addr \<Rightarrow> addr \<Rightarrow> ('a ExecutionTracker_scheme, unit) tm" where
  "BeforeSemWait M myself r a =
     steps [glock, safe_assert (a \<noteq> NULL) ''sem != NULL'', checkSemValidity a,
       determineSemaphoreStatus myself a, sched_pause M r ''Before Sem Wait'' myself False]"

definition SimulateSemWait :: "thrID \<Rightarrow> addr \<Rightarrow> ('a ExecutionTracker_scheme, int) tm" where
  "SimulateSemWait myself a =
     bnd glock (\<lambda>_.
     bnd (checkSemaphoreValue a) (\<lambda>v.
     bnd (safe_assert (v > 0) ''checkSemaphoreValue(sem) > 0'') (\<lambda>_.
     bnd (checkSemValidity a) (\<lambda>_.
     bnd (os_sem_wait a) (\<lambda>result.
     bnd (threadHasPassedSemaphore myself a) (\<lambda>_.
     bnd gunlock (\<lambda>_. ret result)))))))"

definition BeforeSemPost :: "thrID \<Rightarrow> addr \<Rightarrow> addr \<Rightarrow> ('a ExecutionTracker_scheme, bool) tm" where
  "BeforeSemPost myself r a = ret False"

definition SimulateSemPost :: "'a ExecutionTracker_scheme methods \<Rightarrow> thrID \<Rightarrow> addr \<Rightarrow> addr \<Rightarrow> ('a ExecutionTracker_scheme, int) tm" where
  "SimulateSemPost M myself r a =
     bnd glock (\<lambda>_.
     bnd (checkSemValidity a) (\<lambda>_.
     bnd (os_sem_post a) (\<lambda>result.
     bnd (upd (semaphoreIsPosted myself a)) (\<lambda>_.
     bnd (sched_pause M r ''Simulate Sem Post'' myself False) (\<lambda>_.
     ret result)))))"

definition BeforeSemInit :: "thrID \<Rightarrow> addr \<Rightarrow> addr \<Rightarrow> ('a ExecutionTracker_scheme, bool) tm" where
  "BeforeSemInit myself r a = bnd (upd (semIsValid a)) (\<lambda>_. ret True)"

definition BeforeSemDestroy :: "thrID \<Rightarrow> addr \<Rightarrow> addr \<Rightarrow> ('a ExecutionTracker_scheme, bool) tm" where
  "BeforeSemDestroy myself r a = ret False"

definition SimulateSemDestroy :: "thrID \<Rightarrow> addr \<Rightarrow> addr \<Rightarrow> ('a ExecutionTracker_scheme, int) tm" where
  "SimulateSemDestroy myself r a =
     bnd glock (\<lambda>_.
     bnd (upd (\<lambda>s. s\<lparr>sem_destroy := sem_destroy s @ [a]\<rparr>)) (\<lambda>_.
     bnd (os_sem_destroy a) (\<lambda>v.
     bnd gunlock (\<lambda>_. ret v))))"

section \<open>Barriers\<close>

definition BeforeBarrierDestroy :: "thrID \<Rightarrow> addr \<Rightarrow> addr \<Rightarrow> ('a ExecutionTracker_scheme, bool) tm" where
  "BeforeBarrierDestroy myself r b = ret False"

definition SimulateBarrierDestroy :: "thrID \<Rightarrow> addr \<Rightarrow> int \<Rightarrow> addr \<Rightarrow> ('a ExecutionTracker_scheme, int) tm" where
  "SimulateBarrierDestroy myself r os_result b =
     bnd (steps [glock, upd (\<lambda>s. s\<lparr>barrier_destroy := barrier_destroy s @ [b]\<rparr>), gunlock]) (\<lambda>_. ret os_result)"

definition BeforeBarrierInit :: "thrID \<Rightarrow> addr \<Rightarrow> addr \<Rightarrow> 32 word \<Rightarrow> ('a ExecutionTracker_scheme, bool) tm" where
  "BeforeBarrierInit myself r b n =
     bnd (steps [glock, upd (\<lambda>s. s\<lparr>bt := initBarrier b n (bt s)\<rparr>), upd (barrierIsValid b), gunlock]) (\<lambda>_.
     ret True)"

definition from_bt :: "(BarrierTracker, 'b) tm \<Rightarrow> ('a ExecutionTracker_scheme, 'b) tm" where
  "from_bt m s =
     (case m (bt s) of
        Inl (e, b) \<Rightarrow> Inl (e, s\<lparr>bt := b\<rparr>)
      | Inr (x, b) \<Rightarrow> Inr (x, s\<lparr>bt := b\<rparr>))"

text \<open>The branch in which the last thread has arrived.\<close>

definition open_barrier :: "thrID \<Rightarrow> addr \<Rightarrow> ('a ExecutionTracker_scheme, unit) tm" where
  "open_barrier myself b =
     bnd (gets (\<lambda>s. getThreadsWaitingOnBarrier b (bt s))) (\<lambda>my_thr.
     bnd (from_bt (getBarrierCount b)) (\<lambda>n.
     steps [safe_assert (word_of_nat (length my_thr + 1) = n)
              ''((unsigned) (my_thr.size() + 1)) == (bt->getBarrierCount(barrier))'',
       for_each (\<lambda>t. steps [bnd (isDisabled t) (\<lambda>d. safe_assert d ''isDisabled((*itr))''),
                             upd (enableThread t)]) my_thr,
       upd (enableThread myself),
       upd (\<lambda>s. s\<lparr>bt := clearThreadsWaitingOnBarrier b (bt s)\<rparr>)]))"

definition BeforeBarrierWait :: "'a ExecutionTracker_scheme methods \<Rightarrow> thrID \<Rightarrow> addr \<Rightarrow> addr \<Rightarrow> ('a ExecutionTracker_scheme, bool) tm" where
  "BeforeBarrierWait M myself r b =
     bnd (steps [glock, checkBarrierValidity b]) (\<lambda>_.
     bnd (from_bt (getBarrierCount b)) (\<lambda>target_count.
     bnd (gets (\<lambda>s. getNumberThreadsWaitingOnBarrier b (bt s))) (\<lambda>n.
     bnd (if n + 1 \<ge> sint target_count then open_barrier myself b
          else steps [upd (\<lambda>s. s\<lparr>bt := threadWaitingOnBarrier myself b (bt s)\<rparr>),
                      upd (disableThread myself)]) (\<lambda>_.
     bnd (sched_pause M r ''Before Barrier Wait'' myself False) (\<lambda>_.
     ret False)))))"

end
