(* ===== verification/Serial_Machine.thy ===== *)
theory Serial_Machine
  imports Tracker_Ops
begin

text \<open>
  The program under the serializer as a state machine. Every intercepted call is a wrapper of
  \<open>src/thrille-core/libpth.cpp\<close> around the handlers of the tracker (Before, then the original or
  Simulate, then After); it runs until its thread blocks, and the machine keeps, per thread,
  where it blocks: paused on its semaphore with what remains to be done, waiting on a
  condition variable, or waiting for the thread it has signalled to reach its pause. A step
  is one piece of handler code run by one thread.
\<close>

section \<open>Where a thread stands\<close>

datatype kont =
    KReturn                    \<comment> \<open>return to the program\<close>
  | KSection                   \<comment> \<open>an empty section, then return (memory accesses)\<close>
  | KJoin thrID                \<comment> \<open>an empty section, then the original \<open>pthread_join\<close>\<close>
  | KBarrier addr
  | KLock addr                 \<comment> \<open>\<open>SimulateMutexLock\<close>\<close>
  | KTrylock addr              \<comment> \<open>\<open>SimulateMutexTrylock\<close>\<close>
  | KRelock addr               \<comment> \<open>the end of \<open>SimulateCondWait\<close>\<close>
  | KTimedRelock addr bool     \<comment> \<open>the end of \<open>SimulateCondTimedwait\<close>\<close>
  | KSemWait addr              \<comment> \<open>\<open>SimulateSemWait\<close>\<close>

datatype pc =
    Absent                               \<comment> \<open>not created\<close>
  | Born                                 \<comment> \<open>created, before \<open>ThreadStart\<close>\<close>
  | Running                              \<comment> \<open>in the program\<close>
  | Paused kont                          \<comment> \<open>in \<open>pauseThread\<close>\<close>
  | OnCond addr addr addr bool           \<comment> \<open>in \<open>waitPauseThread\<close>: point, condition, mutex, timed\<close>
  | Awaiting thrID SignalPointInfo       \<comment> \<open>in \<open>waitThreadReady\<close>\<close>
  | Gone                                 \<comment> \<open>finished\<close>

fun kont_lock :: "kont \<Rightarrow> addr option" where
  "kont_lock (KLock l) = Some l"
| "kont_lock (KRelock l) = Some l"
| "kont_lock (KTimedRelock l w) = Some l"
| "kont_lock _ = None"

section \<open>The wrappers\<close>

definition thrille_mutex_lock :: "'a ExecutionTracker_scheme methods \<Rightarrow> thrID \<Rightarrow> addr \<Rightarrow> addr \<Rightarrow> ('a ExecutionTracker_scheme, pc) tm" where
  "thrille_mutex_lock M t r l =
     bnd (BeforeMutexLock M t r l False) (\<lambda>call_original.
       if call_original then exit_with (Undefined ''call of a finished thread'')
       else ret (Paused (KLock l)))"

definition thrille_mutex_trylock :: "'a ExecutionTracker_scheme methods \<Rightarrow> thrID \<Rightarrow> addr \<Rightarrow> addr \<Rightarrow> ('a ExecutionTracker_scheme, pc) tm" where
  "thrille_mutex_trylock M t r l = bnd (BeforeMutexTrylock M t r l) (\<lambda>_. ret (Paused (KTrylock l)))"

definition thrille_mutex_unlock :: "'a ExecutionTracker_scheme methods \<Rightarrow> thrID \<Rightarrow> addr \<Rightarrow> addr \<Rightarrow> ('a ExecutionTracker_scheme, pc) tm" where
  "thrille_mutex_unlock M t r l =
     bnd (BeforeMutexUnlock t r l False) (\<lambda>_.
     bnd (pthread_mutex_unlock l) (\<lambda>_.
     bnd (AfterMutexUnlock M t r l False) (\<lambda>_.
     ret (Paused KReturn))))"

definition thrille_mutex_init :: "thrID \<Rightarrow> addr \<Rightarrow> addr \<Rightarrow> ('a ExecutionTracker_scheme, pc) tm" where
  "thrille_mutex_init t r l =
     bnd (BeforeMutexInit t r l) (\<lambda>_.
     bnd (pthread_mutex_init l) (\<lambda>_. ret Running))"

definition thrille_mutex_destroy :: "thrID \<Rightarrow> addr \<Rightarrow> addr \<Rightarrow> ('a ExecutionTracker_scheme, pc) tm" where
  "thrille_mutex_destroy t r l = bnd (SimulateMutexDestroy t r l) (\<lambda>_. ret Running)"

definition thrille_cond_wait :: "'a ExecutionTracker_scheme methods \<Rightarrow> thrID \<Rightarrow> addr \<Rightarrow> addr \<Rightarrow> addr \<Rightarrow> ('a ExecutionTracker_scheme, pc) tm" where
  "thrille_cond_wait M t r c l =
     bnd (BeforeCondWait t) (\<lambda>_.
     bnd (SimulateCondWait M t r c l) (\<lambda>_. ret (OnCond r c l False)))"

definition thrille_cond_timedwait :: "'a ExecutionTracker_scheme methods \<Rightarrow> thrID \<Rightarrow> addr \<Rightarrow> addr \<Rightarrow> addr \<Rightarrow> ('a ExecutionTracker_scheme, pc) tm" where
  "thrille_cond_timedwait M t r c l =
     bnd (BeforeCondTimedwait t) (\<lambda>_.
     bnd (SimulateCondTimedwait M t r c l) (\<lambda>_. ret (OnCond r c l True)))"

text \<open>What a signaller does when nobody is left to wait for.\<close>

definition signal_end :: "'a ExecutionTracker_scheme methods \<Rightarrow> thrID \<Rightarrow> SignalPointInfo \<Rightarrow> ('a ExecutionTracker_scheme, pc) tm" where
  "signal_end M t g =
     bnd (if sg_isBroadcast g then SimulateCondBroadcast_end M t (sg_ret_addr g) (sg_cond g)
          else SimulateCondSignal_end M t (sg_ret_addr g) (sg_cond g)) (\<lambda>_.
     ret (Paused KReturn))"

definition await_or_end :: "'a ExecutionTracker_scheme methods \<Rightarrow> thrID \<Rightarrow> thrID option \<times> SignalPointInfo \<Rightarrow> ('a ExecutionTracker_scheme, pc) tm" where
  "await_or_end M t x = (case x of (Some u, g) \<Rightarrow> ret (Awaiting u g) | (None, g) \<Rightarrow> signal_end M t g)"

definition thrille_cond_signal :: "'a ExecutionTracker_scheme methods \<Rightarrow> thrID \<Rightarrow> addr \<Rightarrow> addr \<Rightarrow> ('a ExecutionTracker_scheme, pc) tm" where
  "thrille_cond_signal M t r c =
     bnd (BeforeCondSignal t r c) (\<lambda>_.
     bnd (SimulateCondSignal M t r c) (await_or_end M t))"

definition thrille_cond_broadcast :: "'a ExecutionTracker_scheme methods \<Rightarrow> thrID \<Rightarrow> addr \<Rightarrow> addr \<Rightarrow> ('a ExecutionTracker_scheme, pc) tm" where
  "thrille_cond_broadcast M t r c =
     bnd (BeforeCondBroadcast t r c) (\<lambda>_.
     bnd (SimulateCondBroadcast M t r c) (await_or_end M t))"

definition thrille_sem_wait :: "'a ExecutionTracker_scheme methods \<Rightarrow> thrID \<Rightarrow> addr \<Rightarrow> addr \<Rightarrow> ('a ExecutionTracker_scheme, pc) tm" where
  "thrille_sem_wait M t r a = bnd (BeforeSemWait M t r a) (\<lambda>_. ret (Paused (KSemWait a)))"

definition thrille_sem_post :: "'a ExecutionTracker_scheme methods \<Rightarrow> thrID \<Rightarrow> addr \<Rightarrow> addr \<Rightarrow> ('a ExecutionTracker_scheme, pc) tm" where
  "thrille_sem_post M t r a = bnd (SimulateSemPost M t r a) (\<lambda>_. ret (Paused KReturn))"

definition thrille_sem_init :: "thrID \<Rightarrow> addr \<Rightarrow> addr \<Rightarrow> nat \<Rightarrow> ('a ExecutionTracker_scheme, pc) tm" where
  "thrille_sem_init t r a v =
     bnd (BeforeSemInit t r a) (\<lambda>_.
     bnd (os_sem_init a v) (\<lambda>_. ret Running))"

definition thrille_sem_destroy :: "thrID \<Rightarrow> addr \<Rightarrow> addr \<Rightarrow> ('a ExecutionTracker_scheme, pc) tm" where
  "thrille_sem_destroy t r a = bnd (SimulateSemDestroy t r a) (\<lambda>_. ret Running)"

definition thrille_barrier_init :: "thrID \<Rightarrow> addr \<Rightarrow> addr \<Rightarrow> 32 word \<Rightarrow> ('a ExecutionTracker_scheme, pc) tm" where
  "thrille_barrier_init t r b n = bnd (BeforeBarrierInit t r b n) (\<lambda>_. ret Running)"

definition thrille_barrier_wait :: "'a ExecutionTracker_scheme methods \<Rightarrow> thrID \<Rightarrow> addr \<Rightarrow> addr \<Rightarrow> ('a ExecutionTracker_scheme, pc) tm" where
  "thrille_barrier_wait M t r b = bnd (BeforeBarrierWait M t r b) (\<lambda>_. ret (Paused (KBarrier b)))"

definition thrille_join :: "'a ExecutionTracker_scheme methods \<Rightarrow> thrID \<Rightarrow> addr \<Rightarrow> thrID \<Rightarrow> ('a ExecutionTracker_scheme, pc) tm" where
  "thrille_join M t r target = bnd (BeforeJoin M t target r) (\<lambda>_. ret (Paused (KJoin target)))"

definition thrille_exit :: "'a ExecutionTracker_scheme methods \<Rightarrow> thrID \<Rightarrow> addr \<Rightarrow> ('a ExecutionTracker_scheme, pc) tm" where
  "thrille_exit M t r = bnd (BeforeExit t r) (\<lambda>_. bnd (SimulateExit M t r) (\<lambda>_. ret Gone))"

definition thrille_sleep :: "'a ExecutionTracker_scheme methods \<Rightarrow> thrID \<Rightarrow> addr \<Rightarrow> ('a ExecutionTracker_scheme, pc) tm" where
  "thrille_sleep M t r = bnd (BeforeSleep t r) (\<lambda>_. bnd (SimulateSleep M t r) (\<lambda>_. ret (Paused KReturn)))"

definition thrille_usleep :: "'a ExecutionTracker_scheme methods \<Rightarrow> thrID \<Rightarrow> addr \<Rightarrow> ('a ExecutionTracker_scheme, pc) tm" where
  "thrille_usleep M t r = bnd (BeforeUsleep t r) (\<lambda>_. bnd (SimulateUsleep M t r) (\<lambda>_. ret (Paused KReturn)))"

definition thrille_create :: "'a ExecutionTracker_scheme methods \<Rightarrow> thrID \<Rightarrow> addr \<Rightarrow> thrID \<Rightarrow> ('a ExecutionTracker_scheme, pc) tm" where
  "thrille_create M t r child =
     bnd (BeforeCreate t child) (\<lambda>_.
     bnd (AfterCreate M t r) (\<lambda>_. ret (Paused KReturn)))"

text \<open>The end of \<open>my_start_routine\<close>.\<close>

definition routine_end :: "'a ExecutionTracker_scheme methods \<Rightarrow> thrID \<Rightarrow> addr \<Rightarrow> ('a ExecutionTracker_scheme, pc) tm" where
  "routine_end M t start = bnd (ThreadFinish M t start) (\<lambda>_. ret Gone)"

text \<open>A memory access of the program: scheduled only at the chosen addresses.\<close>

definition memory_access :: "'a ExecutionTracker_scheme methods \<Rightarrow> thrID \<Rightarrow> addr \<Rightarrow> addr \<Rightarrow> bool \<Rightarrow> ('a ExecutionTracker_scheme, pc) tm" where
  "memory_access M t r a iswrite =
     bnd tracker_tryToSchedule (\<lambda>try.
     bnd (tracker_isSchedulingPoint r) (\<lambda>here.
       if try \<and> here then
         bnd (if iswrite then myMemoryWrite M t r a else myMemoryRead M t r a) (\<lambda>_. ret (Paused KSection))
       else ret Running))"

section \<open>Calls and resumptions\<close>

datatype call =
    CLock addr | CTrylock addr | CUnlock addr | CMutexInit addr | CMutexDestroy addr
  | CCondWait addr addr | CTimedwait addr addr | CSignal addr | CBroadcast addr
  | CSemWait addr | CSemPost addr | CSemInit addr nat | CSemDestroy addr
  | CBarrierInit addr "32 word" | CBarrierWait addr
  | CCreate thrID | CJoin thrID | CExit | CReturn
  | CRead addr | CWrite addr | CSleep | CUsleep | CSchedPoint | CCheckpoint | CAssert bool

text \<open>A call of thread \<open>t\<close> from the return address \<open>r\<close>.\<close>

fun do_call :: "'a ExecutionTracker_scheme methods \<Rightarrow> thrID \<Rightarrow> addr \<Rightarrow> call \<Rightarrow> ('a ExecutionTracker_scheme, pc) tm" where
  "do_call M t r (CLock l) = thrille_mutex_lock M t r l"
| "do_call M t r (CTrylock l) = thrille_mutex_trylock M t r l"
| "do_call M t r (CUnlock l) = thrille_mutex_unlock M t r l"
| "do_call M t r (CMutexInit l) = thrille_mutex_init t r l"
| "do_call M t r (CMutexDestroy l) = thrille_mutex_destroy t r l"
| "do_call M t r (CCondWait c l) = thrille_cond_wait M t r c l"
| "do_call M t r (CTimedwait c l) = thrille_cond_timedwait M t r c l"
| "do_call M t r (CSignal c) = thrille_cond_signal M t r c"
| "do_call M t r (CBroadcast c) = thrille_cond_broadcast M t r c"
| "do_call M t r (CSemWait a) = thrille_sem_wait M t r a"
| "do_call M t r (CSemPost a) = thrille_sem_post M t r a"
| "do_call M t r (CSemInit a v) = thrille_sem_init t r a v"
| "do_call M t r (CSemDestroy a) = thrille_sem_destroy t r a"
| "do_call M t r (CBarrierInit b n) = thrille_barrier_init t r b n"
| "do_call M t r (CBarrierWait b) = thrille_barrier_wait M t r b"
| "do_call M t r (CCreate u) = thrille_create M t r u"
| "do_call M t r (CJoin u) = thrille_join M t r u"
| "do_call M t r CExit = thrille_exit M t r"
| "do_call M t r CReturn = routine_end M t r"
| "do_call M t r (CRead a) = memory_access M t r a False"
| "do_call M t r (CWrite a) = memory_access M t r a True"
| "do_call M t r CSleep = thrille_sleep M t r"
| "do_call M t r CUsleep = thrille_usleep M t r"
| "do_call M t r CSchedPoint = bnd (thrilleSchedPoint M t r) (\<lambda>_. ret (Paused KReturn))"
| "do_call M t r CCheckpoint = bnd (thrilleCheckpoint M t r) (\<lambda>_. ret (Paused KReturn))"
| "do_call M t r (CAssert b) = bnd (thrilleAssert t r b) (\<lambda>_. ret Running)"

text \<open>What a thread does when it gets the token back, and what the call returns to the program.\<close>

fun do_resume :: "thrID \<Rightarrow> kont \<Rightarrow> ('a ExecutionTracker_scheme, int) tm" where
  "do_resume t KReturn = ret OPERATION_SUCCESSFUL"
| "do_resume t KSection = bnd glock_gunlock (\<lambda>_. ret OPERATION_SUCCESSFUL)"
| "do_resume t (KJoin u) = bnd glock_gunlock (\<lambda>_. ret OPERATION_SUCCESSFUL)"
| "do_resume t (KBarrier b) = ret OPERATION_SUCCESSFUL"
| "do_resume t (KLock l) = SimulateMutexLock t l False"
| "do_resume t (KTrylock l) = SimulateMutexTrylock t l"
| "do_resume t (KRelock l) = SimulateCondWait_relock t l"
| "do_resume t (KTimedRelock l w) = SimulateCondTimedwait_relock t l w"
| "do_resume t (KSemWait a) = SimulateSemWait t a"

definition do_woken :: "'a ExecutionTracker_scheme methods \<Rightarrow> thrID \<Rightarrow> addr \<Rightarrow> addr \<Rightarrow> bool \<Rightarrow> ('a ExecutionTracker_scheme, pc) tm" where
  "do_woken M t r l timed =
     (if timed then bnd (SimulateCondTimedwait_woken M t r l) (\<lambda>w. ret (Paused (KTimedRelock l w)))
      else bnd (SimulateCondWait_woken M t r l) (\<lambda>_. ret (Paused (KRelock l))))"

definition do_ready :: "'a ExecutionTracker_scheme methods \<Rightarrow> thrID \<Rightarrow> SignalPointInfo \<Rightarrow> ('a ExecutionTracker_scheme, pc) tm" where
  "do_ready M t g =
     (if sg_isBroadcast g then bnd (wake_another M g) (await_or_end M t) else signal_end M t g)"

section \<open>Steps\<close>

type_synonym 's config = "'s \<times> (thrID \<Rightarrow> pc)"

text \<open>
  What the program may not do, because POSIX leaves it undefined or because no such object
  exists: pass a null pointer, initialise a mutex that a thread is about to lock, initialise or
  destroy a semaphore that threads wait for, create a thread id twice, join oneself or a thread that was
  not created, wait on a barrier twice at once.
\<close>

fun call_ok :: "'a ExecutionTracker_scheme \<Rightarrow> (thrID \<Rightarrow> pc) \<Rightarrow> thrID \<Rightarrow> call \<Rightarrow> bool" where
  "call_ok s pcs t (CLock l) = (l \<noteq> NULL)"
| "call_ok s pcs t (CTrylock l) = (l \<noteq> NULL)"
| "call_ok s pcs t (CUnlock l) = (l \<noteq> NULL)"
| "call_ok s pcs t (CMutexInit l) = (\<forall>u k. pcs u = Paused k \<longrightarrow> kont_lock k \<noteq> Some l)"
| "call_ok s pcs t (CCondWait c l) = (c \<noteq> NULL \<and> l \<noteq> NULL)"
| "call_ok s pcs t (CTimedwait c l) = (c \<noteq> NULL \<and> l \<noteq> NULL)"
| "call_ok s pcs t (CSignal c) = (c \<noteq> NULL)"
| "call_ok s pcs t (CBroadcast c) = (c \<noteq> NULL)"
| "call_ok s pcs t (CSemPost a) = (a \<noteq> NULL)"
| "call_ok s pcs t (CSemInit a v) = (\<forall>u. pcs u \<noteq> Paused (KSemWait a))"
| "call_ok s pcs t (CSemDestroy a) = (\<forall>u. pcs u \<noteq> Paused (KSemWait a))"
| "call_ok s pcs t (CBarrierWait b) = (b \<noteq> NULL)"
| "call_ok s pcs t (CCreate u) = (pcs u = Absent \<and> u \<noteq> INVALID_THREAD)"
| "call_ok s pcs t (CJoin u) = (pcs u \<noteq> Absent \<and> u \<noteq> t)"
| "call_ok s pcs t _ = True"

definition spawn :: "call \<Rightarrow> (thrID \<Rightarrow> pc) \<Rightarrow> (thrID \<Rightarrow> pc)" where
  "spawn c pcs = (case c of CCreate u \<Rightarrow> pcs(u := Born) | _ \<Rightarrow> pcs)"

inductive serial_step :: "'a ExecutionTracker_scheme methods \<Rightarrow> 'a ExecutionTracker_scheme config \<Rightarrow> 'a ExecutionTracker_scheme config \<Rightarrow> bool"
  for M where
  step_call: "pcs t = Running \<Longrightarrow> call_ok s pcs t c \<Longrightarrow> do_call M t r c s = Inr (p, s') \<Longrightarrow>
     serial_step M (s, pcs) (s', (spawn c pcs)(t := p))"
| step_start: "pcs t = Born \<Longrightarrow> ThreadStart M t s = Inr ((), s') \<Longrightarrow>
     serial_step M (s, pcs) (s', pcs(t := Paused KReturn))"
| step_resume: "pcs t = Paused k \<Longrightarrow> can_take t s \<Longrightarrow> do_resume t k (sem_take t s) = Inr (v, s') \<Longrightarrow>
     serial_step M (s, pcs) (s', pcs(t := Running))"
| step_woken: "pcs t = OnCond r c l timed \<Longrightarrow> can_wait_take t s \<Longrightarrow>
     do_woken M t r l timed (wait_sem_take t s) = Inr (p, s') \<Longrightarrow>
     serial_step M (s, pcs) (s', pcs(t := p))"
| step_ready: "pcs t = Awaiting u g \<Longrightarrow> waitThreadReady u s \<Longrightarrow> do_ready M t g s = Inr (p, s') \<Longrightarrow>
     serial_step M (s, pcs) (s', pcs(t := p))"

text \<open>A run starts with the main thread in the program.\<close>

definition initial :: "'a ExecutionTracker_scheme \<Rightarrow> thrID \<Rightarrow> 'a ExecutionTracker_scheme config" where
  "initial s main = (s, (\<lambda>_. Absent)(main := Running))"

inductive reachable :: "'a ExecutionTracker_scheme methods \<Rightarrow> 'a ExecutionTracker_scheme config \<Rightarrow> 'a ExecutionTracker_scheme config \<Rightarrow> bool"
  for M c0 where
  reach_init: "reachable M c0 c0"
| reach_step: "reachable M c0 c \<Longrightarrow> serial_step M c c' \<Longrightarrow> reachable M c0 c'"

end
