(* ===== verification/Tracker_View.thy ===== *)
theory Tracker_View
  imports Serial_Machine
begin

text \<open>
  The abstract state of the tracker: the same information as the maps of \<open>ExecutionTracker\<close>, as
  functions of threads and addresses, without the order of the maps, without the entries
  that a read inserts, without the log and the counters. \<open>view\<close> is the abstraction, \<open>wf\<close> the
  representation invariant (every map in key order), and \<open>refines m F\<close> says that the
  computation \<open>m\<close> keeps \<open>wf\<close> and, when it returns, its effect on the abstract state is \<open>F\<close>. The
  handlers are proved against the abstract operations once; the invariant of the serializer is
  about abstract states only.
\<close>

section \<open>Abstract state\<close>

record view =
  v_mutex :: "addr \<Rightarrow> mutex_state"
  v_sem :: "addr \<Rightarrow> nat option"
  v_tok :: "thrID \<Rightarrow> nat option"
  v_wtok :: "thrID \<Rightarrow> nat option"
  v_en :: "thrID \<Rightarrow> bool"
  v_fin :: "thrID \<Rightarrow> bool"
  v_join :: "thrID \<Rightarrow> thrID"
  v_lr :: "thrID \<Rightarrow> addr"
  v_lw :: "thrID \<Rightarrow> addr"
  v_sr :: "thrID \<Rightarrow> addr"
  v_sw :: "thrID \<Rightarrow> addr"
  v_cond :: "thrID \<Rightarrow> addr"
  v_ready :: "thrID \<Rightarrow> bool"
  v_sig :: "thrID \<Rightarrow> bool"
  v_bar :: "thrID \<Rightarrow> addr"
  v_count :: "addr \<Rightarrow> 32 word option"
  v_glock :: bool

definition view :: "'a ExecutionTracker_scheme \<Rightarrow> view" where
  "view s =
     \<lparr>v_mutex = cm_get MFree (mutexes s), v_sem = cm_get None (sems s),
      v_tok = cm_get None (sem_map s), v_wtok = cm_get None (wait_sem_map s),
      v_en = cm_get False (enable_map s), v_fin = cm_get False (finish_map s),
      v_join = cm_get 0 (join_map s),
      v_lr = cm_get NULL (lock_ready_map s), v_lw = cm_get NULL (lock_wait_map s),
      v_sr = cm_get NULL (sem_ready_map s), v_sw = cm_get NULL (sem_wait_map s),
      v_cond = cm_get NULL (cond_map s), v_ready = cm_get False (wait_ready_map s),
      v_sig = cm_get False (was_signalled_map s),
      v_bar = cm_get NULL (thread_map (bt s)),
      v_count = (\<lambda>b. find_count b (bar_info (bt s))), v_glock = global_lock s\<rparr>"

definition wf :: "'a ExecutionTracker_scheme \<Rightarrow> bool" where
  "wf s \<longleftrightarrow> cm_ok (enable_map s) \<and> cm_ok (lock_ready_map s) \<and> cm_ok (lock_wait_map s) \<and>
     cm_ok (sem_ready_map s) \<and> cm_ok (sem_wait_map s) \<and> cm_ok (cond_map s) \<and> cm_ok (thread_map (bt s))"

text \<open>Views only depend on lookups, so \<open>simp\<close> computes the view of an updated state.\<close>

lemma cm_get_put_fun [simp]: "cm_get d (cm_put k v m) = (cm_get d m)(k := v)"
  by (rule ext) simp

lemma cm_get_touch_fun [simp]: "cm_get d (cm_touch d k m) = cm_get d m"
  by (rule ext) simp

lemma view_sel [simp]:
  "v_mutex (view s) = cm_get MFree (mutexes s)" "v_sem (view s) = cm_get None (sems s)"
  "v_tok (view s) = cm_get None (sem_map s)" "v_wtok (view s) = cm_get None (wait_sem_map s)"
  "v_en (view s) = cm_get False (enable_map s)" "v_fin (view s) = cm_get False (finish_map s)"
  "v_join (view s) = cm_get 0 (join_map s)"
  "v_lr (view s) = cm_get NULL (lock_ready_map s)" "v_lw (view s) = cm_get NULL (lock_wait_map s)"
  "v_sr (view s) = cm_get NULL (sem_ready_map s)" "v_sw (view s) = cm_get NULL (sem_wait_map s)"
  "v_cond (view s) = cm_get NULL (cond_map s)" "v_ready (view s) = cm_get False (wait_ready_map s)"
  "v_sig (view s) = cm_get False (was_signalled_map s)"
  "v_bar (view s) = cm_get NULL (thread_map (bt s))"
  "v_count (view s) = (\<lambda>b. find_count b (bar_info (bt s)))" "v_glock (view s) = global_lock s"
  by (simp_all add: view_def)

section \<open>Refinement\<close>

definition refines :: "('a ExecutionTracker_scheme, 'x) tm \<Rightarrow> (view \<Rightarrow> 'x \<Rightarrow> view \<Rightarrow> bool) \<Rightarrow> bool" where
  "refines m F \<longleftrightarrow> (\<forall>s x s'. wf s \<longrightarrow> m s = Inr (x, s') \<longrightarrow> wf s' \<and> F (view s) x (view s'))"

named_theorems refine_rules \<open>the effect of operations on abstract states\<close>

lemma refinesD: "refines m F \<Longrightarrow> m s = Inr (x, s') \<Longrightarrow> wf s \<Longrightarrow> wf s' \<and> F (view s) x (view s')"
  by (auto simp: refines_def)

lemma refinesI:
  "(\<And>s x s'. wf s \<Longrightarrow> m s = Inr (x, s') \<Longrightarrow> wf s' \<and> F (view s) x (view s')) \<Longrightarrow> refines m F"
  by (auto simp: refines_def)

lemma refines_weaken: "refines m F \<Longrightarrow> (\<And>v x v'. F v x v' \<Longrightarrow> G v x v') \<Longrightarrow> refines m G"
  by (auto simp: refines_def)

lemma refines_bnd:
  assumes "refines m F" and "\<And>x. refines (k x) (G x)"
    and "\<And>v x v' y v''. F v x v' \<Longrightarrow> G x v' y v'' \<Longrightarrow> H v y v''"
  shows "refines (bnd m k) H"
proof (rule refinesI)
  fix s y s''
  assume "wf s" and "bnd m k s = Inr (y, s'')"
  then obtain x s' where "m s = Inr (x, s')" "k x s' = Inr (y, s'')" by (auto simp: bnd_eq_Inr)
  with \<open>wf s\<close> assms show "wf s'' \<and> H (view s) y (view s'')" by (meson refinesD)
qed

lemma refines_ret [refine_rules]: "refines (ret x) (\<lambda>v y v'. y = x \<and> v' = v)"
  by (auto simp: refines_def)

text \<open>
  The rules below follow the structure of a program, so that \<open>(rule refine_rules)+\<close> computes an
  abstract effect of it; \<open>refines_weaken\<close> then puts it in the form wanted.
\<close>

lemma refines_seq [refine_rules]:
  "refines m F \<Longrightarrow> (\<And>x. refines (k x) (G x)) \<Longrightarrow>
   refines (bnd m k) (\<lambda>v y v''. \<exists>x v'. F v x v' \<and> G x v' y v'')"
  by (rule refines_bnd) blast+

lemma refines_if [refine_rules]:
  "refines m F \<Longrightarrow> refines n G \<Longrightarrow>
   refines (if b then m else n) (\<lambda>v x v'. if b then F v x v' else G v x v')"
  by simp

lemma refines_steps_one [refine_rules]: "refines m F \<Longrightarrow> refines (steps [m]) F"
  by (simp add: refines_def bnd_eq_Inr)

lemma refines_steps_more [refine_rules]:
  "refines m F \<Longrightarrow> refines (steps (n # ms)) G \<Longrightarrow>
   refines (steps (m # n # ms)) (\<lambda>v x v''. \<exists>v'. F v () v' \<and> G v' x v'')"
  unfolding steps.simps(2) [of m] by (rule refines_bnd [of m F _ "\<lambda>_. G"]) auto

text \<open>An update that is a function of the abstract state.\<close>

lemma refines_upd:
  "(\<And>s. wf s \<Longrightarrow> wf (f s) \<and> view (f s) = g (view s)) \<Longrightarrow> refines (upd f) (\<lambda>v _ v'. v' = g v)"
  by (auto simp: refines_def)

lemma refines_safe_assert [refine_rules]: "refines (safe_assert c txt) (\<lambda>v _ v'. c \<and> v' = v)"
  by (auto simp: refines_def safe_assert_def split: if_splits)

lemma refines_gets: "refines (gets f) (\<lambda>v x v'. v' = v)"
  by (auto simp: refines_def)

lemma refines_exit [refine_rules]: "refines (exit_with e) (\<lambda>v x v'. False)"
  by (auto simp: refines_def)

section \<open>Elementary operations\<close>

lemma refines_plain_updates [refine_rules]:
  "refines (upd (enableThread t)) (\<lambda>v _ v'. v' = v\<lparr>v_en := (v_en v)(t := True)\<rparr>)"
  "refines (upd (disableThread t)) (\<lambda>v _ v'. v' = v\<lparr>v_en := (v_en v)(t := False)\<rparr>)"
  "refines (upd (with_log f)) (\<lambda>v _ v'. v' = v)"
  "refines (upd (\<lambda>s. s\<lparr>finish_map := cm_put t b (finish_map s)\<rparr>)) (\<lambda>v _ v'. v' = v\<lparr>v_fin := (v_fin v)(t := b)\<rparr>)"
  "refines (upd (\<lambda>s. s\<lparr>was_signalled_map := cm_put t b (was_signalled_map s)\<rparr>))
     (\<lambda>v _ v'. v' = v\<lparr>v_sig := (v_sig v)(t := b)\<rparr>)"
  "refines (upd (\<lambda>s. s\<lparr>wait_ready_map := cm_put t b (wait_ready_map s)\<rparr>))
     (\<lambda>v _ v'. v' = v\<lparr>v_ready := (v_ready v)(t := b)\<rparr>)"
  "refines (upd (\<lambda>s. s\<lparr>cond_map := cm_put t c (cond_map s)\<rparr>)) (\<lambda>v _ v'. v' = v\<lparr>v_cond := (v_cond v)(t := c)\<rparr>)"
  "refines (upd (\<lambda>s. s\<lparr>lock_count := lock_count s - 1, global_lock := False\<rparr>))
     (\<lambda>v _ v'. v' = v\<lparr>v_glock := False\<rparr>)"
  "refines (upd (\<lambda>s. s\<lparr>mutex_destroy := mutex_destroy s @ [l]\<rparr>)) (\<lambda>v _ v'. v' = v)"
  "refines (upd (\<lambda>s. s\<lparr>sem_destroy := sem_destroy s @ [l]\<rparr>)) (\<lambda>v _ v'. v' = v)"
  "refines (upd (\<lambda>s. s\<lparr>contextswitch := contextswitch s + 1\<rparr>)) (\<lambda>v _ v'. v' = v)"
  "refines (upd (\<lambda>s. s\<lparr>preemptions := preemptions s + 1\<rparr>)) (\<lambda>v _ v'. v' = v)"
  "refines (upd (\<lambda>s. s\<lparr>nonpreemptions := nonpreemptions s + 1\<rparr>)) (\<lambda>v _ v'. v' = v)"
  "refines (upd (lockIsValid l)) (\<lambda>v _ v'. v' = v)"
  "refines (upd (semIsValid l)) (\<lambda>v _ v'. v' = v)"
  "refines (upd (barrierIsValid l)) (\<lambda>v _ v'. v' = v)"
  "refines (upd (\<lambda>s. s\<lparr>bt := threadWaitingOnBarrier t l (bt s)\<rparr>)) (\<lambda>v _ v'. v' = v\<lparr>v_bar := (v_bar v)(t := l)\<rparr>)"
  "refines (upd (\<lambda>s. s\<lparr>bt := initBarrier l n (bt s)\<rparr>)) (\<lambda>v _ v'. v' = v\<lparr>v_count := (v_count v)(l := Some n)\<rparr>)"
  by (auto simp: refines_def wf_def view_def enableThread_def disableThread_def with_log_def lockIsValid_def
      semIsValid_def barrierIsValid_def threadWaitingOnBarrier_def initBarrier_def find_set_count fun_eq_iff)

lemma wf_view_basic:
  "wf s \<Longrightarrow> wf (enableThread t s)" "view (enableThread t s) = (view s)\<lparr>v_en := (v_en (view s))(t := True)\<rparr>"
  "wf s \<Longrightarrow> wf (disableThread t s)" "view (disableThread t s) = (view s)\<lparr>v_en := (v_en (view s))(t := False)\<rparr>"
  "wf s \<Longrightarrow> wf (with_log f s)" "view (with_log f s) = view s"
  by (simp_all add: wf_def view_def enableThread_def disableThread_def with_log_def)

declare wf_view_basic [simp]

lemma refines_glock [refine_rules]: "refines glock (\<lambda>v _ v'. \<not> v_glock v \<and> v' = v\<lparr>v_glock := True\<rparr>)"
  by (rule refinesI) (auto simp: glock_def wf_def view_def split: if_splits)

lemma refines_gunlock [refine_rules]: "refines gunlock (\<lambda>v _ v'. v_glock v \<and> v' = v\<lparr>v_glock := False\<rparr>)"
  by (rule refinesI) (auto simp: gunlock_def safe_assert_def bnd_eq_Inr wf_def view_def split: if_splits)

lemma refines_isEnabled [refine_rules]:
  "refines (isEnabled t) (\<lambda>v b v'. v' = v \<and> b = (t \<noteq> INVALID_THREAD \<and> v_en v t))"
  by (rule refinesI) (auto simp: isEnabled_def read_enable_def wf_def view_def split: if_splits)

lemma refines_read_enable [refine_rules]: "refines (read_enable t) (\<lambda>v b v'. v' = v \<and> b = v_en v t)"
  by (rule refinesI) (auto simp: read_enable_def wf_def view_def)

lemma refines_threadIsFinished [refine_rules]:
  "refines (threadIsFinished t) (\<lambda>v b v'. v' = v \<and> b = v_fin v t)"
  by (rule refinesI) (auto simp: threadIsFinished_def wf_def view_def)

lemma refines_read_join [refine_rules]: "refines (read_join t) (\<lambda>v j v'. v' = v \<and> j = v_join v t)"
  by (rule refinesI) (auto simp: read_join_def wf_def view_def)

lemma refines_read_cond [refine_rules]: "refines (read_cond t) (\<lambda>v c v'. v' = v \<and> c = v_cond v t)"
  by (rule refinesI) (auto simp: read_cond_def wf_def view_def)

lemma refines_read_was_signalled [refine_rules]:
  "refines (read_was_signalled t) (\<lambda>v b v'. v' = v \<and> b = v_sig v t)"
  by (rule refinesI) (auto simp: read_was_signalled_def wf_def view_def)

lemma refines_wakeThread [refine_rules]:
  "refines (wakeThread t) (\<lambda>v _ v'. \<exists>n. v_tok v t = Some n \<and> v' = v\<lparr>v_tok := (v_tok v)(t := Some (Suc n))\<rparr>)"
  by (rule refinesI)
    (auto simp: wakeThread_def read_sem_map_def safe_assert_def bnd_eq_Inr wf_def view_def split: if_splits)

lemma refines_waitWakeThread [refine_rules]:
  "refines (waitWakeThread t) (\<lambda>v _ v'. \<exists>n. v_wtok v t = Some n \<and> v' = v\<lparr>v_wtok := (v_wtok v)(t := Some (Suc n))\<rparr>)"
  by (rule refinesI)
    (auto simp: waitWakeThread_def read_wait_sem_map_def safe_assert_def bnd_eq_Inr wf_def view_def split: if_splits)

lemma refines_pauseThread [refine_rules]:
  "refines (pauseThread t) (\<lambda>v _ v'. \<not> v_glock v \<and> v' = v \<and> v_tok v t \<noteq> None)"
  by (rule refinesI)
    (auto simp: pauseThread_def glock_def gunlock_def read_sem_map_def safe_assert_def bnd_eq_Inr wf_def view_def
      split: if_splits)

lemma refines_waitPauseThread [refine_rules]:
  "refines (waitPauseThread t) (\<lambda>v _ v'. \<not> v_glock v \<and> v' = v \<and> v_wtok v t \<noteq> None)"
  by (rule refinesI)
    (auto simp: waitPauseThread_def glock_def gunlock_def read_wait_sem_map_def safe_assert_def bnd_eq_Inr wf_def
      view_def split: if_splits)

lemma refines_trylock [refine_rules]:
  "refines (pthread_mutex_trylock l) (\<lambda>v x v'.
     (v_mutex v l = MFree \<and> x = 0 \<and> v' = v\<lparr>v_mutex := (v_mutex v)(l := MHeld)\<rparr>) \<or>
     (v_mutex v l = MHeld \<and> x = EBUSY \<and> v' = v) \<or> (v_mutex v l = MInvalid \<and> x = EINVAL \<and> v' = v))"
  by (rule refinesI)
    (auto simp: pthread_mutex_trylock_def mutex_at_def set_mutex_def wf_def view_def split: mutex_state.splits)

lemma refines_unlock [refine_rules]:
  "refines (pthread_mutex_unlock l) (\<lambda>v x v'.
     (v_mutex v l \<noteq> MInvalid \<and> x = 0 \<and> v' = v\<lparr>v_mutex := (v_mutex v)(l := MFree)\<rparr>) \<or>
     (v_mutex v l = MInvalid \<and> x = EINVAL \<and> v' = v))"
  by (rule refinesI)
    (auto simp: pthread_mutex_unlock_def mutex_at_def set_mutex_def wf_def view_def split: mutex_state.splits)

section \<open>Locks\<close>

text \<open>
  \<open>a_acquire\<close>: the thread no longer waits, and whoever was ready for the lock waits for it.
  \<open>a_release\<close>: whoever waits for the lock is ready for it.
\<close>

definition a_acquire :: "thrID \<Rightarrow> addr \<Rightarrow> view \<Rightarrow> view" where
  "a_acquire t l v =
     v\<lparr>v_en := (\<lambda>u. v_en v u \<and> \<not> (u \<noteq> t \<and> v_lr v u = l)),
       v_lw := (\<lambda>u. if u \<noteq> t \<and> v_lr v u = l then l else v_lw v u),
       v_lr := (\<lambda>u. if u = t \<or> v_lr v u = l then NULL else v_lr v u)\<rparr>"

definition a_release :: "addr \<Rightarrow> view \<Rightarrow> view" where
  "a_release l v =
     v\<lparr>v_en := (\<lambda>u. v_en v u \<or> v_lw v u = l),
       v_lr := (\<lambda>u. if v_lw v u = l then l else v_lr v u),
       v_lw := (\<lambda>u. if v_lw v u = l then NULL else v_lw v u)\<rparr>"

lemma set_keys_with_value:
  "cm_ok m \<Longrightarrow> l \<noteq> d \<Longrightarrow> u \<in> set (keys_with (\<lambda>x. x = l) m) \<longleftrightarrow> cm_get d m u = l"
  by (auto simp: set_keys_with cm_get_def split: option.splits)

lemma foldl_view:
  assumes "\<And>s k. wf s \<Longrightarrow> wf (f s k) \<and> view (f s k) = g (view s) k" and "wf s"
  shows "wf (foldl f s ks) \<and> view (foldl f s ks) = foldl g (view s) ks"
  using assms(2)
proof (induction ks arbitrary: s)
  case (Cons k ks)
  then show ?case using assms(1) [of s k] Cons.IH [of "f s k"] by simp
qed simp

lemma foldl_block_on_lock:
  assumes "wf s"
  shows "wf (foldl (block_on_lock l) s ks) \<and> view (foldl (block_on_lock l) s ks) = (view s)
       \<lparr>v_en := (\<lambda>u. v_en (view s) u \<and> u \<notin> set ks), v_lw := (\<lambda>u. if u \<in> set ks then l else v_lw (view s) u),
        v_lr := (\<lambda>u. if u \<in> set ks then NULL else v_lr (view s) u)\<rparr>"
proof -
  let ?g = "\<lambda>v k. v\<lparr>v_en := (v_en v)(k := False), v_lw := (v_lw v)(k := l), v_lr := (v_lr v)(k := NULL)\<rparr>"
  have "foldl ?g v ks = v\<lparr>v_en := (\<lambda>u. v_en v u \<and> u \<notin> set ks),
      v_lw := (\<lambda>u. if u \<in> set ks then l else v_lw v u), v_lr := (\<lambda>u. if u \<in> set ks then NULL else v_lr v u)\<rparr>" for v :: view
    by (induction ks arbitrary: v) (auto simp: fun_eq_iff)
  moreover have "wf (foldl (block_on_lock l) s ks) \<and> view (foldl (block_on_lock l) s ks) = foldl ?g (view s) ks"
    using assms by (intro foldl_view) (auto simp: block_on_lock_def disableThread_def Let_def wf_def view_def)
  ultimately show ?thesis by simp
qed

lemma foldl_release_on_lock:
  assumes "wf s"
  shows "wf (foldl (release_on_lock l) s ks) \<and> view (foldl (release_on_lock l) s ks) = (view s)
       \<lparr>v_en := (\<lambda>u. v_en (view s) u \<or> u \<in> set ks), v_lw := (\<lambda>u. if u \<in> set ks then NULL else v_lw (view s) u),
        v_lr := (\<lambda>u. if u \<in> set ks then l else v_lr (view s) u)\<rparr>"
proof -
  let ?g = "\<lambda>v k. v\<lparr>v_en := (v_en v)(k := True), v_lr := (v_lr v)(k := l), v_lw := (v_lw v)(k := NULL)\<rparr>"
  have "foldl ?g v ks = v\<lparr>v_en := (\<lambda>u. v_en v u \<or> u \<in> set ks), v_lw := (\<lambda>u. if u \<in> set ks then NULL else v_lw v u),
        v_lr := (\<lambda>u. if u \<in> set ks then l else v_lr v u)\<rparr>" for v :: view
    by (induction ks arbitrary: v) (auto simp: fun_eq_iff)
  moreover have "wf (foldl (release_on_lock l) s ks) \<and> view (foldl (release_on_lock l) s ks) = foldl ?g (view s) ks"
    using assms by (intro foldl_view)
      (auto simp: release_on_lock_def enableThread_def disableThread_def Let_def wf_def view_def)
  ultimately show ?thesis by simp
qed

lemma refines_acquire:
  assumes "l \<noteq> NULL"
  shows "refines (upd (threadHasAcquiredLock t l)) (\<lambda>v _ v'. v' = a_acquire t l v)"
proof (rule refines_upd, intro conjI)
  fix s :: "'a ExecutionTracker_scheme"
  assume "wf s"
  let ?s1 = "s\<lparr>lock_ready_map := cm_put t NULL (lock_ready_map s)\<rparr>"
  have w: "wf ?s1" using \<open>wf s\<close> by (simp add: wf_def)
  have k: "u \<in> set (keys_with (\<lambda>x. x = l) (lock_ready_map ?s1)) \<longleftrightarrow> u \<noteq> t \<and> v_lr (view s) u = l" for u
    using \<open>wf s\<close> assms by (subst set_keys_with_value [where d = NULL]) (auto simp: wf_def)
  show "wf (threadHasAcquiredLock t l s)"
    unfolding threadHasAcquiredLock_def Let_def by (rule foldl_block_on_lock [OF w, THEN conjunct1])
  show "view (threadHasAcquiredLock t l s) = a_acquire t l (view s)"
    unfolding threadHasAcquiredLock_def Let_def foldl_block_on_lock [OF w, THEN conjunct2] k a_acquire_def
    by (auto simp: view_def fun_eq_iff)
qed

lemma refines_release:
  assumes "l \<noteq> NULL"
  shows "refines (upd (threadHasReleasedLock t l)) (\<lambda>v _ v'. v' = a_release l v)"
proof (rule refines_upd, intro conjI)
  fix s :: "'a ExecutionTracker_scheme"
  assume "wf s"
  then have k: "u \<in> set (keys_with (\<lambda>x. x = l) (lock_wait_map s)) \<longleftrightarrow> v_lw (view s) u = l" for u
    using assms by (subst set_keys_with_value [where d = NULL]) (auto simp: wf_def)
  show "wf (threadHasReleasedLock t l s)"
    unfolding threadHasReleasedLock_def by (rule foldl_release_on_lock [OF \<open>wf s\<close>, THEN conjunct1])
  show "view (threadHasReleasedLock t l s) = a_release l (view s)"
    unfolding threadHasReleasedLock_def foldl_release_on_lock [OF \<open>wf s\<close>, THEN conjunct2] k a_release_def
    by (auto simp: view_def fun_eq_iff)
qed

text \<open>A thread that is about to lock: ready if the lock is not held, waiting otherwise.\<close>

definition a_want_lock :: "thrID \<Rightarrow> addr \<Rightarrow> view \<Rightarrow> view" where
  "a_want_lock t l v =
     (if v_mutex v l = MHeld then v\<lparr>v_en := (v_en v)(t := False), v_lw := (v_lw v)(t := l)\<rparr>
      else v\<lparr>v_en := (v_en v)(t := True), v_lr := (v_lr v)(t := l)\<rparr>)"

lemma refines_determineLockStatus [refine_rules]:
  "refines (determineLockStatus t l) (\<lambda>v _ v'. v' = a_want_lock t l v)"
  by (rule refinesI)
    (auto simp: determineLockStatus_def pthread_mutex_trylock_def pthread_mutex_unlock_def bnd_eq_Inr
      mutex_at_def set_mutex_def a_want_lock_def EBUSY_def EINVAL_def addThreadWaitingOnLock_def
      addThreadReadyOnLock_def enableThread_def disableThread_def wf_def view_def
      split: mutex_state.splits if_splits)

section \<open>Semaphores\<close>

definition a_block_sem :: "addr \<Rightarrow> view \<Rightarrow> view" where
  "a_block_sem a v =
     v\<lparr>v_en := (\<lambda>u. v_en v u \<and> v_sr v u \<noteq> a),
       v_sw := (\<lambda>u. if v_sr v u = a then a else v_sw v u),
       v_sr := (\<lambda>u. if v_sr v u = a then NULL else v_sr v u)\<rparr>"

definition a_post_sem :: "addr \<Rightarrow> view \<Rightarrow> view" where
  "a_post_sem a v =
     v\<lparr>v_en := (\<lambda>u. v_en v u \<or> v_sw v u = a),
       v_sr := (\<lambda>u. if v_sw v u = a then a else v_sr v u),
       v_sw := (\<lambda>u. if v_sw v u = a then NULL else v_sw v u)\<rparr>"

definition a_want_sem :: "thrID \<Rightarrow> addr \<Rightarrow> view \<Rightarrow> view" where
  "a_want_sem t a v =
     (if v_sem v a = Some 0 then v\<lparr>v_en := (v_en v)(t := False), v_sw := (v_sw v)(t := a)\<rparr>
      else v\<lparr>v_en := (v_en v)(t := True), v_sr := (v_sr v)(t := a)\<rparr>)"

lemma foldl_block_on_sem:
  assumes "wf s"
  shows "wf (foldl (block_on_sem a) s ks) \<and> view (foldl (block_on_sem a) s ks) = (view s)
       \<lparr>v_en := (\<lambda>u. v_en (view s) u \<and> u \<notin> set ks), v_sw := (\<lambda>u. if u \<in> set ks then a else v_sw (view s) u),
        v_sr := (\<lambda>u. if u \<in> set ks then NULL else v_sr (view s) u)\<rparr>"
proof -
  let ?g = "\<lambda>v k. v\<lparr>v_en := (v_en v)(k := False), v_sw := (v_sw v)(k := a), v_sr := (v_sr v)(k := NULL)\<rparr>"
  have "foldl ?g v ks = v\<lparr>v_en := (\<lambda>u. v_en v u \<and> u \<notin> set ks), v_sw := (\<lambda>u. if u \<in> set ks then a else v_sw v u),
        v_sr := (\<lambda>u. if u \<in> set ks then NULL else v_sr v u)\<rparr>" for v :: view
    by (induction ks arbitrary: v) (auto simp: fun_eq_iff)
  moreover have "wf (foldl (block_on_sem a) s ks) \<and> view (foldl (block_on_sem a) s ks) = foldl ?g (view s) ks"
    using assms by (intro foldl_view)
      (auto simp: block_on_sem_def enableThread_def disableThread_def Let_def wf_def view_def)
  ultimately show ?thesis by simp
qed

lemma foldl_release_on_sem:
  assumes "wf s"
  shows "wf (foldl (release_on_sem a) s ks) \<and> view (foldl (release_on_sem a) s ks) = (view s)
       \<lparr>v_en := (\<lambda>u. v_en (view s) u \<or> u \<in> set ks), v_sw := (\<lambda>u. if u \<in> set ks then NULL else v_sw (view s) u),
        v_sr := (\<lambda>u. if u \<in> set ks then a else v_sr (view s) u)\<rparr>"
proof -
  let ?g = "\<lambda>v k. v\<lparr>v_en := (v_en v)(k := True), v_sr := (v_sr v)(k := a), v_sw := (v_sw v)(k := NULL)\<rparr>"
  have "foldl ?g v ks = v\<lparr>v_en := (\<lambda>u. v_en v u \<or> u \<in> set ks), v_sw := (\<lambda>u. if u \<in> set ks then NULL else v_sw v u),
        v_sr := (\<lambda>u. if u \<in> set ks then a else v_sr v u)\<rparr>" for v :: view
    by (induction ks arbitrary: v) (auto simp: fun_eq_iff)
  moreover have "wf (foldl (release_on_sem a) s ks) \<and> view (foldl (release_on_sem a) s ks) = foldl ?g (view s) ks"
    using assms by (intro foldl_view)
      (auto simp: release_on_sem_def enableThread_def disableThread_def Let_def wf_def view_def)
  ultimately show ?thesis by simp
qed

lemma refines_semaphoreIsPosted:
  assumes "a \<noteq> NULL"
  shows "refines (upd (semaphoreIsPosted t a)) (\<lambda>v _ v'. v' = a_post_sem a v)"
proof (rule refines_upd, intro conjI)
  fix s :: "'a ExecutionTracker_scheme"
  assume "wf s"
  then have k: "u \<in> set (keys_with (\<lambda>x. x = a) (sem_wait_map s)) \<longleftrightarrow> v_sw (view s) u = a" for u
    using assms by (subst set_keys_with_value [where d = NULL]) (auto simp: wf_def)
  show "wf (semaphoreIsPosted t a s)"
    unfolding semaphoreIsPosted_def by (rule foldl_release_on_sem [OF \<open>wf s\<close>, THEN conjunct1])
  show "view (semaphoreIsPosted t a s) = a_post_sem a (view s)"
    unfolding semaphoreIsPosted_def foldl_release_on_sem [OF \<open>wf s\<close>, THEN conjunct2] k a_post_sem_def
    by (auto simp: view_def fun_eq_iff)
qed

lemma refines_block_sem:
  assumes "a \<noteq> NULL"
  shows "refines (upd (\<lambda>s. foldl (block_on_sem a) s (keys_with (\<lambda>x. x = a) (sem_ready_map s))))
     (\<lambda>v _ v'. v' = a_block_sem a v)"
proof (rule refines_upd, intro conjI)
  fix s :: "'a ExecutionTracker_scheme"
  assume "wf s"
  then have k: "u \<in> set (keys_with (\<lambda>x. x = a) (sem_ready_map s)) \<longleftrightarrow> v_sr (view s) u = a" for u
    using assms by (subst set_keys_with_value [where d = NULL]) (auto simp: wf_def)
  show "wf (foldl (block_on_sem a) s (keys_with (\<lambda>x. x = a) (sem_ready_map s)))"
    by (rule foldl_block_on_sem [OF \<open>wf s\<close>, THEN conjunct1])
  show "view (foldl (block_on_sem a) s (keys_with (\<lambda>x. x = a) (sem_ready_map s))) = a_block_sem a (view s)"
    unfolding foldl_block_on_sem [OF \<open>wf s\<close>, THEN conjunct2] k a_block_sem_def by (auto simp: view_def fun_eq_iff)
qed

lemma refines_checkSemaphoreValue [refine_rules]:
  "refines (checkSemaphoreValue a) (\<lambda>v x v'. v' = v \<and> (\<exists>n. v_sem v a = Some n \<and> x = int n))"
  by (rule refinesI)
    (auto simp: checkSemaphoreValue_def os_sem_getvalue_def sem_at_def safe_assert_def bnd_eq_Inr
      split: option.splits if_splits)

lemma refines_determineSemaphoreStatus [refine_rules]:
  "refines (determineSemaphoreStatus t a) (\<lambda>v _ v'. v_sem v a \<noteq> None \<and> v' = a_want_sem t a v)"
  by (rule refinesI)
    (auto simp: determineSemaphoreStatus_def checkSemaphoreValue_def os_sem_getvalue_def sem_at_def safe_assert_def
      a_want_sem_def bnd_eq_Inr addThreadReadyOnSemaphore_def addThreadWaitingOnSemaphore_def enableThread_def
      disableThread_def wf_def view_def split: option.splits if_splits)

lemma refines_os_sem_wait [refine_rules]:
  "refines (os_sem_wait a) (\<lambda>v x v'. (v_sem v a = None \<and> x = -1 \<and> v' = v) \<or>
     (\<exists>n. v_sem v a = Some (Suc n) \<and> x = 0 \<and> v' = v\<lparr>v_sem := (v_sem v)(a := Some n)\<rparr>))"
  by (rule refinesI)
    (auto simp: os_sem_wait_def sem_at_def set_sem_def wf_def view_def gr0_conv_Suc split: option.splits if_splits)

lemma refines_os_sem_post [refine_rules]:
  "refines (os_sem_post a) (\<lambda>v x v'. (v' = v \<and> v_sem v a \<noteq> Some 0) \<or>
     (\<exists>n. v_sem v a = Some n \<and> x = 0 \<and> v' = v\<lparr>v_sem := (v_sem v)(a := Some (Suc n))\<rparr>))"
  by (rule refinesI)
    (auto simp: os_sem_post_def sem_at_def set_sem_def wf_def view_def SEM_VALUE_MAX_def split: option.splits if_splits)

lemma refines_os_sem_init [refine_rules]:
  "refines (os_sem_init a n) (\<lambda>v x v'. v' = v \<or> v' = v\<lparr>v_sem := (v_sem v)(a := Some n)\<rparr>)"
  by (rule refinesI) (auto simp: os_sem_init_def set_sem_def wf_def view_def split: if_splits)

lemma refines_os_sem_destroy [refine_rules]:
  "refines (os_sem_destroy a) (\<lambda>v x v'. v' = v\<lparr>v_sem := (v_sem v)(a := None)\<rparr>)"
  by (rule refinesI)
    (auto simp: os_sem_destroy_def sem_at_def set_sem_def wf_def view_def fun_eq_iff split: option.splits)

lemma refines_threadHasPassedSemaphore:
  assumes "a \<noteq> NULL"
  shows "refines (threadHasPassedSemaphore t a) (\<lambda>v _ v'. \<exists>n. v_sr v t = a \<and> v_sem v a = Some n \<and>
     v' = (let v1 = v\<lparr>v_sr := (v_sr v)(t := NULL)\<rparr> in if n = 0 then a_block_sem a v1 else v1))"
proof -
  let ?read = "\<lambda>s. Inr (cm_get NULL (sem_ready_map s) t, s\<lparr>sem_ready_map := cm_touch NULL t (sem_ready_map s)\<rparr>)"
  have read: "refines ?read (\<lambda>v x v'. v' = v \<and> x = v_sr v t)"
    by (auto simp: refines_def wf_def view_def)
  have clear: "refines (upd (\<lambda>s. s\<lparr>sem_ready_map := cm_put t NULL (sem_ready_map s)\<rparr>))
      (\<lambda>v _ v'. v' = v\<lparr>v_sr := (v_sr v)(t := NULL)\<rparr>)"
    by (auto simp: refines_def wf_def view_def)
  have tail: "refines (if val \<le> 0 then upd (\<lambda>s. foldl (block_on_sem a) s (keys_with (\<lambda>x. x = a) (sem_ready_map s)))
      else ret ()) (\<lambda>v _ v'. v' = (if val \<le> 0 then a_block_sem a v else v))" for val :: int
    using refines_block_sem [OF assms] by (auto simp: refines_def)
  show ?thesis
    unfolding threadHasPassedSemaphore_def
    by (rule refines_weaken, rule refines_seq, rule read, rule refines_seq, rule refines_safe_assert,
        rule refines_seq, rule clear, rule refines_seq, rule refines_checkSemaphoreValue, rule tail)
      (elim exE conjE, simp add: Let_def)
qed

section \<open>Joins, new threads, validity\<close>

lemma refines_registerThreadJoin [refine_rules]:
  "refines (registerThreadJoin target joiner)
     (\<lambda>v _ v'. v_join v target = UNJOINED \<and> v' = v\<lparr>v_join := (v_join v)(target := joiner)\<rparr>)"
  by (rule refinesI)
    (auto simp: registerThreadJoin_def read_join_def safe_assert_def bnd_eq_Inr wf_def view_def split: if_splits)

lemma refines_enableJoiningThread [refine_rules]:
  "refines (enableJoiningThread t)
     (\<lambda>v _ v'. v' = (if v_join v t \<noteq> UNJOINED then v\<lparr>v_en := (v_en v)(v_join v t := True)\<rparr> else v))"
  by (rule refinesI)
    (auto simp: enableJoiningThread_def read_join_def enableThread_def bnd_eq_Inr wf_def view_def split: if_splits)

definition a_new_thread :: "thrID \<Rightarrow> view \<Rightarrow> view" where
  "a_new_thread t v =
     v\<lparr>v_tok := (v_tok v)(t := Some 0), v_wtok := (v_wtok v)(t := Some 0), v_en := (v_en v)(t := True),
       v_fin := (v_fin v)(t := False), v_join := (v_join v)(t := UNJOINED),
       v_lw := (v_lw v)(t := NULL), v_lr := (v_lr v)(t := NULL), v_sw := (v_sw v)(t := NULL),
       v_sr := (v_sr v)(t := NULL), v_cond := (v_cond v)(t := NULL), v_ready := (v_ready v)(t := True),
       v_sig := (v_sig v)(t := True)\<rparr>"

lemma wf_new_thread [simp]: "wf s \<Longrightarrow> wf (initializeThreadData t s)"
  by (simp add: initializeThreadData_def enableThread_def wf_def)

lemma view_new_thread [simp]: "view (initializeThreadData t s) = a_new_thread t (view s)"
  by (simp add: initializeThreadData_def a_new_thread_def enableThread_def view_def)

lemma refines_checkCondValidity [refine_rules]: "refines (checkCondValidity c) (\<lambda>v _ v'. v' = v)"
  by (rule refinesI) (auto simp: checkCondValidity_def safe_assert_def bnd_eq_Inr split: if_splits)

lemma refines_checkSemValidity [refine_rules]: "refines (checkSemValidity c) (\<lambda>v _ v'. v' = v)"
  by (rule refinesI) (auto simp: checkSemValidity_def safe_assert_def bnd_eq_Inr split: if_splits)

lemma refines_checkBarrierValidity [refine_rules]: "refines (checkBarrierValidity c) (\<lambda>v _ v'. v' = v)"
  by (rule refinesI) (auto simp: checkBarrierValidity_def safe_assert_def bnd_eq_Inr split: if_splits)

section \<open>Barriers\<close>

definition a_open_barrier :: "thrID \<Rightarrow> addr \<Rightarrow> view \<Rightarrow> view" where
  "a_open_barrier t b v =
     v\<lparr>v_en := (\<lambda>u. u = t \<or> v_en v u \<or> v_bar v u = b),
       v_bar := (\<lambda>u. if v_bar v u = b then NULL else v_bar v u)\<rparr>"

lemma refines_getBarrierCount [refine_rules]:
  "refines (from_bt (getBarrierCount b)) (\<lambda>v n v'. v' = v \<and> v_count v b = Some n)"
  by (rule refinesI) (auto simp: from_bt_def getBarrierCount_def wf_def view_def split: option.splits sum.splits)

lemma cm_get_clear:
  "cm_get NULL (map (\<lambda>e. if snd e = b then (fst e, NULL) else e) m) u
   = (if cm_get NULL m u = b then NULL else cm_get NULL m u)"
  by (auto simp: cm_get_def map_of_clear split: option.splits)

lemma wf_view_clear_barrier:
  assumes "wf s"
  shows "wf (s\<lparr>bt := clearThreadsWaitingOnBarrier b (bt s)\<rparr>) \<and>
    view (s\<lparr>bt := clearThreadsWaitingOnBarrier b (bt s)\<rparr>)
      = (view s)\<lparr>v_bar := (\<lambda>u. if v_bar (view s) u = b then NULL else v_bar (view s) u)\<rparr>"
proof -
  have "cm_ok (map (\<lambda>e. if snd e = b then (fst e, NULL) else e) (thread_map (bt s)))"
    using assms unfolding wf_def cm_ok_def keys_clear by blast
  then show ?thesis
    using assms by (simp add: wf_def view_def clearThreadsWaitingOnBarrier_def cm_get_clear fun_eq_iff)
qed

lemma refines_enable_all:
  "refines (for_each (\<lambda>t. steps [bnd (isDisabled t) (\<lambda>d. safe_assert d txt), upd (enableThread t)]) ts)
     (\<lambda>v _ v'. v' = v\<lparr>v_en := (\<lambda>u. v_en v u \<or> u \<in> set ts)\<rparr>)"
proof (induction ts)
  case Nil
  show ?case by (auto simp: refines_def)
next
  case (Cons t ts)
  have "refines (steps [bnd (isDisabled t) (\<lambda>d. safe_assert d txt), upd (enableThread t)])
      (\<lambda>v _ v'. v' = v\<lparr>v_en := (v_en v)(t := True)\<rparr>)"
    by (rule refinesI)
      (auto simp: isDisabled_def isEnabled_def read_enable_def safe_assert_def enableThread_def bnd_eq_Inr wf_def
        view_def split: if_splits)
  then show ?case
    unfolding for_each.simps by (rule refines_bnd [OF _ Cons.IH]) (auto simp: fun_eq_iff)
qed

end
