(* ===== verification/Serial_Invariant.thy ===== *)
theory Serial_Invariant
  imports Tracker_View
begin

text \<open>
  The invariant of the serializer. There is one token: it is with the thread that runs the
  program, or in the semaphore of the thread that was launched, or it has been handed to a
  thread that waits on a condition variable. What the maps say about a thread is what its
  program counter says: a thread paused in front of a lock is either enabled and ready for it, and
  the lock is not held, or disabled and waiting for it, and the lock is not free; and so on for
  semaphores, joins, barriers and condition variables.
\<close>

section \<open>Threads\<close>

definition idle :: "view \<Rightarrow> thrID \<Rightarrow> bool" where
  "idle v t \<longleftrightarrow> v_lr v t = NULL \<and> v_lw v t = NULL \<and> v_sr v t = NULL \<and> v_sw v t = NULL \<and>
     v_cond v t = NULL \<and> v_bar v t = NULL"

definition live :: "view \<Rightarrow> thrID \<Rightarrow> bool" where
  "live v t \<longleftrightarrow> v_en v t \<and> \<not> v_fin v t \<and> idle v t"

definition at_lock :: "view \<Rightarrow> thrID \<Rightarrow> addr \<Rightarrow> bool" where
  "at_lock v t l \<longleftrightarrow> l \<noteq> NULL \<and> \<not> v_fin v t \<and> v_sr v t = NULL \<and> v_sw v t = NULL \<and>
     v_cond v t = NULL \<and> v_bar v t = NULL \<and>
     (if v_en v t then v_lr v t = l \<and> v_lw v t = NULL else v_lw v t = l \<and> v_lr v t = NULL)"

definition at_sem :: "view \<Rightarrow> thrID \<Rightarrow> addr \<Rightarrow> bool" where
  "at_sem v t a \<longleftrightarrow> a \<noteq> NULL \<and> \<not> v_fin v t \<and> v_lr v t = NULL \<and> v_lw v t = NULL \<and>
     v_cond v t = NULL \<and> v_bar v t = NULL \<and>
     (if v_en v t then v_sr v t = a \<and> v_sw v t = NULL else v_sw v t = a \<and> v_sr v t = NULL)"

definition at_join :: "view \<Rightarrow> thrID \<Rightarrow> thrID \<Rightarrow> bool" where
  "at_join v t u \<longleftrightarrow> \<not> v_fin v t \<and> idle v t \<and> (if v_en v t then v_fin v u else \<not> v_fin v u \<and> v_join v u = t)"

definition at_barrier :: "view \<Rightarrow> thrID \<Rightarrow> addr \<Rightarrow> bool" where
  "at_barrier v t b \<longleftrightarrow> b \<noteq> NULL \<and> \<not> v_fin v t \<and> v_lr v t = NULL \<and> v_lw v t = NULL \<and> v_sr v t = NULL \<and>
     v_sw v t = NULL \<and> v_cond v t = NULL \<and> v_bar v t = (if v_en v t then NULL else b)"

definition at_cond :: "view \<Rightarrow> thrID \<Rightarrow> addr \<Rightarrow> addr \<Rightarrow> bool \<Rightarrow> bool" where
  "at_cond v t c l timed \<longleftrightarrow> c \<noteq> NULL \<and> l \<noteq> NULL \<and> \<not> v_fin v t \<and> v_lr v t = NULL \<and> v_lw v t = NULL \<and>
     v_sr v t = NULL \<and> v_sw v t = NULL \<and> v_bar v t = NULL \<and> v_cond v t = c \<and> v_en v t = timed"

fun kont_ok :: "view \<Rightarrow> thrID \<Rightarrow> kont \<Rightarrow> bool" where
  "kont_ok v t KReturn = live v t"
| "kont_ok v t KSection = live v t"
| "kont_ok v t (KTrylock l) = (live v t \<and> l \<noteq> NULL)"
| "kont_ok v t (KJoin u) = at_join v t u"
| "kont_ok v t (KBarrier b) = at_barrier v t b"
| "kont_ok v t (KLock l) = at_lock v t l"
| "kont_ok v t (KRelock l) = at_lock v t l"
| "kont_ok v t (KTimedRelock l w) = at_lock v t l"
| "kont_ok v t (KSemWait a) = at_sem v t a"

fun thread_ok :: "view \<Rightarrow> thrID \<Rightarrow> pc \<Rightarrow> bool" where
  "thread_ok v t Absent = (\<not> v_en v t \<and> idle v t)"
| "thread_ok v t Born = live v t"
| "thread_ok v t Running = live v t"
| "thread_ok v t (Awaiting u g) = (live v t \<and> sg_cond g \<noteq> NULL)"
| "thread_ok v t (Paused k) = kont_ok v t k"
| "thread_ok v t (OnCond r c l timed) = at_cond v t c l timed"
| "thread_ok v t Gone = (\<not> v_en v t \<and> v_fin v t \<and> idle v t)"

lemmas thread_defs = idle_def live_def at_lock_def at_sem_def at_join_def at_barrier_def at_cond_def

section \<open>Objects and joins\<close>

definition obj_ok :: "view \<Rightarrow> bool" where
  "obj_ok v \<longleftrightarrow>
     (\<forall>t. v_lw v t \<noteq> NULL \<longrightarrow> v_mutex v (v_lw v t) \<noteq> MFree) \<and>
     (\<forall>t. v_lr v t \<noteq> NULL \<longrightarrow> v_mutex v (v_lr v t) \<noteq> MHeld) \<and>
     (\<forall>t. v_sw v t \<noteq> NULL \<longrightarrow> v_sem v (v_sw v t) = Some 0) \<and>
     (\<forall>t. v_sr v t \<noteq> NULL \<longrightarrow> (\<exists>n. v_sem v (v_sr v t) = Some (Suc n)))"

definition join_ok :: "view \<Rightarrow> (thrID \<Rightarrow> pc) \<Rightarrow> bool" where
  "join_ok v pcs \<longleftrightarrow>
     (\<forall>u. pcs u \<noteq> Absent \<and> \<not> v_fin v u \<and> v_join v u \<noteq> UNJOINED \<longrightarrow>
        pcs (v_join v u) = Paused (KJoin u) \<and> \<not> v_en v (v_join v u))"

section \<open>The token\<close>

datatype token =
    Held thrID              \<comment> \<open>the thread runs the program\<close>
  | InSem thrID             \<comment> \<open>the thread has been launched\<close>
  | TimedOut thrID          \<comment> \<open>a timed wait has been launched\<close>
  | Signalled thrID thrID   \<comment> \<open>the first has woken the second and waits for it\<close>
  | Relocked thrID thrID    \<comment> \<open>the second has reached its pause\<close>

text \<open>\<open>None\<close>: a handler is running between giving up the token and launching a thread.\<close>

definition tok_ok :: "token option \<Rightarrow> view \<Rightarrow> (thrID \<Rightarrow> pc) \<Rightarrow> bool" where
  "tok_ok tok v pcs \<longleftrightarrow>
     (\<forall>t. pcs t \<noteq> Absent \<longrightarrow>
        v_tok v t = Some (if tok = Some (InSem t) then 1 else 0) \<and>
        v_wtok v t = Some (if tok = Some (TimedOut t) \<or> (\<exists>h. tok = Some (Signalled h t)) then 1 else 0) \<and>
        v_sig v t = (tok \<noteq> Some (TimedOut t)) \<and>
        v_ready v t = (\<forall>h. tok \<noteq> Some (Signalled h t))) \<and>
     (\<forall>t. pcs t = Running \<longleftrightarrow> tok = Some (Held t)) \<and>
     (\<forall>t u g. pcs t = Awaiting u g \<longrightarrow> tok = Some (Signalled t u) \<or> tok = Some (Relocked t u)) \<and>
     (\<forall>t u. tok = Some (Signalled t u) \<longrightarrow>
        (\<exists>g. pcs t = Awaiting u g) \<and> (\<exists>r c l b. pcs u = OnCond r c l b)) \<and>
     (\<forall>t u. tok = Some (Relocked t u) \<longrightarrow> (\<exists>g. pcs t = Awaiting u g) \<and> pcs u \<noteq> Absent) \<and>
     (\<forall>t. tok = Some (InSem t) \<longrightarrow> v_en v t \<and> (pcs t = Born \<or> (\<exists>k. pcs t = Paused k))) \<and>
     (\<forall>t. tok = Some (TimedOut t) \<longrightarrow> (\<exists>r c l. pcs t = OnCond r c l True))"

definition targets_ok :: "(thrID \<Rightarrow> pc) \<Rightarrow> bool" where
  "targets_ok pcs \<longleftrightarrow> (\<forall>t u. pcs t = Paused (KJoin u) \<longrightarrow> pcs u \<noteq> Absent)"

definition inv :: "bool \<Rightarrow> token option \<Rightarrow> view \<Rightarrow> (thrID \<Rightarrow> pc) \<Rightarrow> bool" where
  "inv g tok v pcs \<longleftrightarrow> v_glock v = g \<and> pcs INVALID_THREAD = Absent \<and>
     (\<forall>t. thread_ok v t (pcs t)) \<and> obj_ok v \<and> join_ok v pcs \<and> targets_ok pcs \<and> tok_ok tok v pcs"

definition serial_inv :: "'a ExecutionTracker_scheme config \<Rightarrow> bool" where
  "serial_inv c \<longleftrightarrow> wf (fst c) \<and> (\<exists>tok. inv False (Some tok) (view (fst c)) (snd c))"

section \<open>Launching\<close>

definition a_launch :: "thrID \<Rightarrow> view \<Rightarrow> view" where
  "a_launch t v =
     (if v_cond v t \<noteq> NULL
      then v\<lparr>v_sig := (v_sig v)(t := False), v_wtok := (v_wtok v)(t := map_option Suc (v_wtok v t))\<rparr>
      else v\<lparr>v_tok := (v_tok v)(t := map_option Suc (v_tok v t))\<rparr>)"

text \<open>Changes that a part of the invariant does not see.\<close>

lemma thread_ok_cong:
  assumes "v_en v' = v_en v" "v_fin v' = v_fin v" "v_join v' = v_join v" "v_lr v' = v_lr v" "v_lw v' = v_lw v"
    "v_sr v' = v_sr v" "v_sw v' = v_sw v" "v_cond v' = v_cond v" "v_bar v' = v_bar v"
  shows "thread_ok v' t p = thread_ok v t p"
proof (cases p)
  case (Paused k)
  then show ?thesis using assms by (cases k) (simp_all add: thread_defs)
qed (use assms in \<open>simp_all add: thread_defs\<close>)

lemma obj_ok_cong:
  "v_lr v' = v_lr v \<Longrightarrow> v_lw v' = v_lw v \<Longrightarrow> v_sr v' = v_sr v \<Longrightarrow> v_sw v' = v_sw v \<Longrightarrow>
   v_mutex v' = v_mutex v \<Longrightarrow> v_sem v' = v_sem v \<Longrightarrow> obj_ok v' = obj_ok v"
  by (simp add: obj_ok_def)

lemma join_ok_cong:
  "v_fin v' = v_fin v \<Longrightarrow> v_join v' = v_join v \<Longrightarrow> v_en v' = v_en v \<Longrightarrow> join_ok v' pcs = join_ok v pcs"
  by (simp add: join_ok_def)

lemma inv_glock: "inv g tok v pcs \<Longrightarrow> inv g' tok (v\<lparr>v_glock := g'\<rparr>) pcs"
  by (simp add: inv_def obj_ok_def join_ok_def tok_ok_def thread_ok_cong [of "v\<lparr>v_glock := g'\<rparr>" v])

lemma inv_launch:
  assumes "inv g None v pcs" and "x \<noteq> INVALID_THREAD" and "v_en v x"
  shows "\<exists>tok. inv g (Some tok) (a_launch x v) pcs \<and> (tok = InSem x \<or> tok = TimedOut x)"
proof -
  have th: "thread_ok v x (pcs x)" and tk: "tok_ok None v pcs" using assms(1) by (simp_all add: inv_def)
  have rest: "v_glock (a_launch x v) = g" "pcs INVALID_THREAD = Absent" "\<forall>t. thread_ok (a_launch x v) t (pcs t)"
    "obj_ok (a_launch x v)" "join_ok (a_launch x v) pcs" "targets_ok pcs"
    using assms(1) thread_ok_cong [of "a_launch x v" v] obj_ok_cong [of "a_launch x v" v]
      join_ok_cong [of "a_launch x v" v pcs]
    by (simp_all add: inv_def a_launch_def)
  show ?thesis
  proof (cases "v_cond v x = NULL")
    case True
    have "pcs x = Born \<or> (\<exists>k. pcs x = Paused k)"
      using th tk assms(3) True by (cases "pcs x") (auto simp: tok_ok_def thread_defs)
    then have "tok_ok (Some (InSem x)) (a_launch x v) pcs"
      using tk assms(3) True by (auto simp: tok_ok_def a_launch_def)
    with rest show ?thesis unfolding inv_def by blast
  next
    case False
    have "\<exists>r c l. pcs x = OnCond r c l True"
    proof (cases "pcs x")
      case (Paused k)
      then show ?thesis using th False by (cases k) (auto simp: thread_defs)
    qed (use th tk assms(3) False in \<open>auto simp: tok_ok_def thread_defs\<close>)
    then have "tok_ok (Some (TimedOut x)) (a_launch x v) pcs"
      using tk assms(3) False by (auto simp: tok_ok_def a_launch_def)
    with rest show ?thesis unfolding inv_def by blast
  qed
qed

section \<open>Giving up the token\<close>

fun quiet :: "pc \<Rightarrow> bool" where
  "quiet (Paused k) = True"
| "quiet (OnCond r c l b) = True"
| "quiet Gone = True"
| "quiet p = False"

lemma quiet_not: "quiet p \<Longrightarrow> p \<noteq> Absent \<and> p \<noteq> Running \<and> (\<forall>u g. p \<noteq> Awaiting u g)"
  by (cases p) auto

lemma tok_counts:
  assumes "tok_ok tok v pcs" and "pcs t \<noteq> Absent"
  shows "v_tok v t = Some (if tok = Some (InSem t) then 1 else 0)"
    "v_wtok v t = Some (if tok = Some (TimedOut t) \<or> (\<exists>h. tok = Some (Signalled h t)) then 1 else 0)"
    "v_sig v t = (tok \<noteq> Some (TimedOut t))" "v_ready v t = (\<forall>h. tok \<noteq> Some (Signalled h t))"
  using assms unfolding tok_ok_def by blast+

lemma tok_awaiting:
  "tok_ok tok v pcs \<Longrightarrow> pcs t = Awaiting u g \<Longrightarrow> tok = Some (Signalled t u) \<or> tok = Some (Relocked t u)"
  unfolding tok_ok_def by blast

lemma tok_held:
  "tok_ok (Some (Held t)) v pcs \<Longrightarrow>
   pcs t = Running \<and> v_tok v t = Some 0 \<and> v_wtok v t = Some 0 \<and> v_sig v t \<and> v_ready v t"
proof -
  assume tk: "tok_ok (Some (Held t)) v pcs"
  then have "pcs t = Running" by (simp add: tok_ok_def)
  with tok_counts [OF tk, of t] show ?thesis by simp
qed

lemma tok_leave:
  assumes "tok_ok (Some (Held t)) v pcs" and "quiet p"
    and "v_tok v' = v_tok v" "v_wtok v' = v_wtok v" "v_sig v' = v_sig v" "v_ready v' = v_ready v"
  shows "tok_ok None v' (pcs(t := p))"
proof -
  have "pcs t \<noteq> Absent" using assms(1) unfolding tok_ok_def by (metis pc.distinct(3))
  then show ?thesis using assms(1,3-) quiet_not [OF assms(2)] by (auto simp: tok_ok_def)
qed

lemma join_keep:
  assumes "join_ok v pcs" and "pcs t = Running" and "v_fin v' = v_fin v" and "v_join v' = v_join v"
    and "\<And>u w. pcs u = Paused (KJoin w) \<Longrightarrow> \<not> v_en v u \<Longrightarrow> \<not> v_en v' u"
  shows "join_ok v' (pcs(t := p))"
  unfolding join_ok_def
proof (intro allI impI)
  fix u
  assume "(pcs(t := p)) u \<noteq> Absent \<and> \<not> v_fin v' u \<and> v_join v' u \<noteq> UNJOINED"
  then have "pcs u \<noteq> Absent \<and> \<not> v_fin v u \<and> v_join v u \<noteq> UNJOINED"
    using assms(2-4) by (auto split: if_splits)
  then have "pcs (v_join v u) = Paused (KJoin u) \<and> \<not> v_en v (v_join v u)"
    using assms(1) by (simp add: join_ok_def)
  with assms(2,4,5) show "(pcs(t := p)) (v_join v' u) = Paused (KJoin u) \<and> \<not> v_en v' (v_join v' u)" by auto
qed

lemma inv_running: "inv g (Some (Held t)) v pcs \<Longrightarrow> pcs t = Running \<and> live v t"
  unfolding inv_def tok_ok_def by (metis thread_ok.simps(3))

lemma inv_leave:
  assumes "inv g (Some (Held t)) v pcs" and "quiet p"
    and "v_tok v' = v_tok v" "v_wtok v' = v_wtok v" "v_sig v' = v_sig v" "v_ready v' = v_ready v"
    and "thread_ok v' t p" and "\<And>u. u \<noteq> t \<Longrightarrow> thread_ok v u (pcs u) \<Longrightarrow> thread_ok v' u (pcs u)"
    and "obj_ok v \<Longrightarrow> obj_ok v'" and "join_ok v pcs \<Longrightarrow> join_ok v' (pcs(t := p))" and "v_glock v' = g'"
    and "\<And>u. p = Paused (KJoin u) \<Longrightarrow> pcs u \<noteq> Absent"
  shows "inv g' None v' (pcs(t := p))"
proof -
  have "INVALID_THREAD \<noteq> t" using inv_running [OF assms(1)] assms(1) by (auto simp: inv_def)
  moreover have "targets_ok (pcs(t := p))"
    using assms(1,12) quiet_not [OF assms(2)] by (auto simp: inv_def targets_ok_def)
  ultimately show ?thesis
    using assms(1,7-) tok_leave [OF _ assms(2-6), of t pcs] unfolding inv_def by auto
qed

text \<open>A thread that goes on enabled.\<close>

lemma inv_pause:
  assumes "inv g (Some (Held t)) v pcs" and "k \<in> {KReturn, KSection} \<or> (\<exists>l. k = KTrylock l \<and> l \<noteq> NULL)"
  shows "inv g None v (pcs(t := Paused k))"
  using assms inv_running [OF assms(1)]
  by (intro inv_leave [OF assms(1)] join_keep) (auto simp: inv_def)

subsection \<open>Locks\<close>

lemma kont_ok_release: "l \<noteq> NULL \<Longrightarrow> kont_ok v u k \<Longrightarrow> kont_ok (a_release l v) u k"
  by (cases k) (auto simp: thread_defs a_release_def split: if_splits)

lemma thread_ok_release: "l \<noteq> NULL \<Longrightarrow> thread_ok v u p \<Longrightarrow> thread_ok (a_release l v) u p"
  using kont_ok_release by (cases p) (auto simp: thread_defs a_release_def split: if_splits)

lemma kont_ok_acquire: "l \<noteq> NULL \<Longrightarrow> u \<noteq> t \<Longrightarrow> kont_ok v u k \<Longrightarrow> kont_ok (a_acquire t l v) u k"
  by (cases k) (auto simp: thread_defs a_acquire_def split: if_splits)

lemma thread_ok_acquire: "l \<noteq> NULL \<Longrightarrow> u \<noteq> t \<Longrightarrow> thread_ok v u p \<Longrightarrow> thread_ok (a_acquire t l v) u p"
  using kont_ok_acquire by (cases p) (auto simp: thread_defs a_acquire_def split: if_splits)

lemma obj_ok_release:
  "l \<noteq> NULL \<Longrightarrow> obj_ok v \<Longrightarrow> m \<noteq> MHeld \<Longrightarrow> obj_ok (a_release l (v\<lparr>v_mutex := (v_mutex v)(l := m)\<rparr>))"
  by (auto simp: obj_ok_def a_release_def)

lemma obj_ok_acquire:
  "l \<noteq> NULL \<Longrightarrow> obj_ok v \<Longrightarrow> obj_ok ((a_acquire t l v)\<lparr>v_mutex := (v_mutex v)(l := MHeld)\<rparr>)"
  by (auto simp: obj_ok_def a_acquire_def)

lemma join_ok_release:
  assumes "inv g tok v pcs" and "l \<noteq> NULL"
  shows "\<And>u w. pcs u = Paused (KJoin w) \<Longrightarrow> \<not> v_en v u \<Longrightarrow> \<not> v_en (a_release l v) u"
proof -
  fix u w
  assume "pcs u = Paused (KJoin w)" "\<not> v_en v u"
  with assms have "at_join v u w" by (metis inv_def kont_ok.simps(4) thread_ok.simps(5))
  with assms \<open>\<not> v_en v u\<close> show "\<not> v_en (a_release l v) u" by (auto simp: thread_defs a_release_def split: if_splits)
qed

lemma inv_want_lock:
  assumes "inv g (Some (Held t)) v pcs" and "l \<noteq> NULL" and "k \<in> {KLock l, KRelock l} \<or> (\<exists>w. k = KTimedRelock l w)"
  shows "inv g None (a_want_lock t l v) (pcs(t := Paused k))"
proof (rule inv_leave [OF assms(1)])
  have "at_lock (a_want_lock t l v) t l"
    using inv_running [OF assms(1)] assms(2) by (auto simp: a_want_lock_def thread_defs)
  then show "thread_ok (a_want_lock t l v) t (Paused k)" using assms(3) by auto
  show "thread_ok (a_want_lock t l v) u (pcs u)" if "u \<noteq> t" "thread_ok v u (pcs u)" for u
  proof (cases "pcs u")
    case (Paused j)
    with that show ?thesis by (cases j) (auto simp: thread_defs a_want_lock_def)
  qed (use that in \<open>auto simp: thread_defs a_want_lock_def\<close>)
  show "obj_ok (a_want_lock t l v)" if "obj_ok v"
    using that by (auto simp: obj_ok_def a_want_lock_def)
  show "join_ok (a_want_lock t l v) (pcs(t := Paused k))" if "join_ok v pcs"
    using that inv_running [OF assms(1)]
    by (intro join_keep [OF that]) (auto simp: a_want_lock_def)
qed (use assms(1,3) in \<open>auto simp: a_want_lock_def inv_def\<close>)

lemma inv_unlock:
  assumes "inv g (Some (Held t)) v pcs" and "l \<noteq> NULL"
    and "v' = v\<lparr>v_mutex := (v_mutex v)(l := MFree)\<rparr> \<or> (v' = v \<and> v_mutex v l \<noteq> MHeld)"
    and "quiet p" and "thread_ok (a_release l v') t p" and "\<And>u. p \<noteq> Paused (KJoin u)"
  shows "inv g None (a_release l v') (pcs(t := p))"
proof (rule inv_leave [OF assms(1,4)])
  have eq: "v' = v\<lparr>v_mutex := (v_mutex v)(l := v_mutex v' l)\<rparr>" "v_mutex v' l \<noteq> MHeld" using assms(3) by auto
  show "thread_ok (a_release l v') u (pcs u)" if "u \<noteq> t" "thread_ok v u (pcs u)" for u
  proof -
    have "thread_ok v' u (pcs u)" using that(2) by (subst eq(1), subst thread_ok_cong) auto
    then show ?thesis by (rule thread_ok_release [OF assms(2)])
  qed
  show "obj_ok (a_release l v')" if "obj_ok v"
    using obj_ok_release [OF assms(2) that eq(2)] eq(1) by simp
  have "v_en (a_release l v') = v_en (a_release l v)" using assms(3) by (auto simp: a_release_def)
  then show "join_ok (a_release l v') (pcs(t := p))" if "join_ok v pcs"
    using inv_running [OF assms(1)] join_ok_release [OF assms(1,2)] assms(3)
    by (intro join_keep [OF that]) (auto simp: a_release_def)
qed (use assms(1,3,5,6) in \<open>auto simp: a_release_def inv_def\<close>)

subsection \<open>Semaphores\<close>

lemma thread_ok_post: "a \<noteq> NULL \<Longrightarrow> thread_ok v u p \<Longrightarrow> thread_ok (a_post_sem a v) u p"
proof (cases p)
  case (Paused k)
  then show "a \<noteq> NULL \<Longrightarrow> thread_ok v u p \<Longrightarrow> thread_ok (a_post_sem a v) u p"
    by (cases k) (auto simp: thread_defs a_post_sem_def split: if_splits)
qed (auto simp: thread_defs a_post_sem_def)

lemma thread_ok_block: "a \<noteq> NULL \<Longrightarrow> thread_ok v u p \<Longrightarrow> thread_ok (a_block_sem a v) u p"
proof (cases p)
  case (Paused k)
  then show "a \<noteq> NULL \<Longrightarrow> thread_ok v u p \<Longrightarrow> thread_ok (a_block_sem a v) u p"
    by (cases k) (auto simp: thread_defs a_block_sem_def split: if_splits)
qed (auto simp: thread_defs a_block_sem_def)

lemma inv_want_sem:
  assumes "inv g (Some (Held t)) v pcs" and "a \<noteq> NULL" and "v_sem v a \<noteq> None"
  shows "inv g None (a_want_sem t a v) (pcs(t := Paused (KSemWait a)))"
proof (rule inv_leave [OF assms(1)])
  show "thread_ok (a_want_sem t a v) t (Paused (KSemWait a))"
    using inv_running [OF assms(1)] assms(2) by (auto simp: a_want_sem_def thread_defs)
  show "thread_ok (a_want_sem t a v) u (pcs u)" if "u \<noteq> t" "thread_ok v u (pcs u)" for u
  proof (cases "pcs u")
    case (Paused j)
    with that show ?thesis by (cases j) (auto simp: thread_defs a_want_sem_def)
  qed (use that in \<open>auto simp: thread_defs a_want_sem_def\<close>)
  show "obj_ok (a_want_sem t a v)" if "obj_ok v"
    using that assms(3) by (auto simp: obj_ok_def a_want_sem_def gr0_conv_Suc)
  show "join_ok (a_want_sem t a v) (pcs(t := Paused (KSemWait a)))" if "join_ok v pcs"
    using that inv_running [OF assms(1)] by (intro join_keep [OF that]) (auto simp: a_want_sem_def)
qed (use assms(1) in \<open>auto simp: a_want_sem_def inv_def\<close>)

lemma inv_post:
  assumes "inv g (Some (Held t)) v pcs" and "a \<noteq> NULL"
    and "(v' = v \<and> v_sem v a \<noteq> Some 0) \<or> (\<exists>n. v_sem v a = Some n \<and> v' = v\<lparr>v_sem := (v_sem v)(a := Some (Suc n))\<rparr>)"
  shows "inv g None (a_post_sem a v') (pcs(t := Paused KReturn))"
proof (rule inv_leave [OF assms(1)])
  have sel: "v_en v' = v_en v" "v_fin v' = v_fin v" "v_join v' = v_join v" "v_lr v' = v_lr v" "v_lw v' = v_lw v"
    "v_sr v' = v_sr v" "v_sw v' = v_sw v" "v_cond v' = v_cond v" "v_bar v' = v_bar v"
    using assms(3) by auto
  have th: "thread_ok v' u p = thread_ok v u p" for u p by (rule thread_ok_cong) (rule sel)+
  show "thread_ok (a_post_sem a v') u (pcs u)" if "u \<noteq> t" "thread_ok v u (pcs u)" for u
    using that(2) by (intro thread_ok_post [OF assms(2)]) (simp add: th)
  have "thread_ok v t (Paused KReturn)" using inv_running [OF assms(1)] by simp
  then show "thread_ok (a_post_sem a v') t (Paused KReturn)"
    by (intro thread_ok_post [OF assms(2)]) (simp only: th)
  show "obj_ok (a_post_sem a v')" if "obj_ok v"
  proof -
    have "v_sw v u = a \<Longrightarrow> v_sem v a = Some 0" for u
      using that assms(2) by (auto simp: obj_ok_def)
    then show ?thesis
      using that assms(2,3) by (elim disjE exE conjE) (auto simp: obj_ok_def a_post_sem_def)
  qed
  have en: "\<not> v_en (a_post_sem a v') u" if "pcs u = Paused (KJoin w)" "\<not> v_en v u" for u w
  proof -
    have "at_join v u w" using assms(1) that(1) by (metis inv_def kont_ok.simps(4) thread_ok.simps(5))
    with that(2) assms(2) sel show ?thesis by (auto simp: thread_defs a_post_sem_def)
  qed
  show "join_ok (a_post_sem a v') (pcs(t := Paused KReturn))" if "join_ok v pcs"
    using inv_running [OF assms(1)] en sel by (intro join_keep [OF that]) (auto simp: a_post_sem_def)
qed (use assms(1,3) in \<open>auto simp: a_post_sem_def inv_def\<close>)

subsection \<open>Joins\<close>

lemma inv_join_finished:
  assumes "inv g (Some (Held t)) v pcs" and "v_fin v u" and "pcs u \<noteq> Absent"
  shows "inv g None v (pcs(t := Paused (KJoin u)))"
  using assms inv_running [OF assms(1)]
  by (intro inv_leave [OF assms(1)] join_keep) (auto simp: inv_def thread_defs)

lemma inv_join_wait:
  assumes "inv g (Some (Held t)) v pcs" and "\<not> v_fin v u" and "v_join v u = UNJOINED" and "pcs u \<noteq> Absent" and "u \<noteq> t"
  shows "inv g None (v\<lparr>v_en := (v_en v)(t := False), v_join := (v_join v)(u := t)\<rparr>) (pcs(t := Paused (KJoin u)))"
    (is "inv g None ?v ?pcs")
proof (rule inv_leave [OF assms(1)])
  have run: "pcs t = Running" "live v t" using inv_running [OF assms(1)] by auto
  have t: "t \<noteq> INVALID_THREAD" using assms(1) run by (auto simp: inv_def)
  show "thread_ok ?v t (Paused (KJoin u))" using run assms(2) by (auto simp: thread_defs)
  show "thread_ok ?v w (pcs w)" if "w \<noteq> t" "thread_ok v w (pcs w)" for w
  proof (cases "pcs w")
    case (Paused j)
    show ?thesis
    proof (cases j)
      case (KJoin x)
      with that Paused assms(1,3,4) show ?thesis
        by (cases "v_en v w") (auto simp: thread_defs inv_def)
    qed (use that Paused in \<open>auto simp: thread_defs\<close>)
  qed (use that in \<open>auto simp: thread_defs\<close>)
  show "obj_ok ?v" if "obj_ok v" using that by (simp add: obj_ok_def)
  show "join_ok ?v ?pcs" if "join_ok v pcs"
    unfolding join_ok_def
  proof (intro allI impI)
    fix w
    assume w: "?pcs w \<noteq> Absent \<and> \<not> v_fin ?v w \<and> v_join ?v w \<noteq> UNJOINED"
    show "?pcs (v_join ?v w) = Paused (KJoin w) \<and> \<not> v_en ?v (v_join ?v w)"
    proof (cases "w = u")
      case False
      with w run have "pcs w \<noteq> Absent \<and> \<not> v_fin v w \<and> v_join v w \<noteq> UNJOINED" by (auto split: if_splits)
      with that have "pcs (v_join v w) = Paused (KJoin w) \<and> \<not> v_en v (v_join v w)" by (simp add: join_ok_def)
      with False run show ?thesis by auto
    qed simp
  qed
qed (use assms(1,4) in \<open>auto simp: inv_def\<close>)

subsection \<open>Finishing\<close>

definition a_finish :: "thrID \<Rightarrow> view \<Rightarrow> view" where
  "a_finish t v =
     v\<lparr>v_fin := (v_fin v)(t := True),
       v_en := (if v_join v t \<noteq> UNJOINED then ((v_en v)(t := False))(v_join v t := True)
                else (v_en v)(t := False))\<rparr>"

lemma inv_finish:
  assumes "inv g (Some (Held t)) v pcs"
  shows "inv g None (a_finish t v) (pcs(t := Gone))"
proof (rule inv_leave [OF assms])
  have run: "pcs t = Running" "live v t" using inv_running [OF assms] by auto
  have j: "v_join v t \<noteq> UNJOINED \<Longrightarrow> pcs (v_join v t) = Paused (KJoin t) \<and> \<not> v_en v (v_join v t)"
    using assms run by (auto simp: inv_def join_ok_def live_def)
  have "t \<noteq> INVALID_THREAD" using assms run by (auto simp: inv_def)
  then show "thread_ok (a_finish t v) t Gone"
    using run j by (cases "v_join v t = t") (auto simp: thread_defs a_finish_def)
  show "thread_ok (a_finish t v) u (pcs u)" if "u \<noteq> t" "thread_ok v u (pcs u)" for u
  proof (cases "v_join v t = u \<and> v_join v t \<noteq> UNJOINED")
    case True
    with that j show ?thesis by (auto simp: thread_defs a_finish_def)
  next
    case False
    then have en: "v_en (a_finish t v) u = v_en v u" using that(1) by (auto simp: a_finish_def)
    show ?thesis
    proof (cases "pcs u")
      case (Paused k)
      show ?thesis
      proof (cases k)
        case (KJoin w)
        have "v_join v t = u \<Longrightarrow> u \<noteq> UNJOINED" using Paused assms by (auto simp: inv_def)
        with that en KJoin Paused False show ?thesis
          by (auto simp: thread_defs a_finish_def split: if_splits)
      qed (use that en Paused in \<open>auto simp: thread_defs a_finish_def\<close>)
    qed (use that en in \<open>auto simp: thread_defs a_finish_def\<close>)
  qed
  show "obj_ok (a_finish t v)" if "obj_ok v" using that by (simp add: obj_ok_def a_finish_def)
  show "join_ok (a_finish t v) (pcs(t := Gone))" if "join_ok v pcs"
    unfolding join_ok_def
  proof (intro allI impI)
    fix w
    assume w: "(pcs(t := Gone)) w \<noteq> Absent \<and> \<not> v_fin (a_finish t v) w \<and> v_join (a_finish t v) w \<noteq> UNJOINED"
    then have "w \<noteq> t" by (auto simp: a_finish_def)
    with w that have jw: "pcs (v_join v w) = Paused (KJoin w) \<and> \<not> v_en v (v_join v w)"
      by (auto simp: join_ok_def a_finish_def)
    then have "v_join v w \<noteq> t" "v_join v t \<noteq> UNJOINED \<Longrightarrow> v_join v w \<noteq> v_join v t" using run j \<open>w \<noteq> t\<close> by auto
    with jw show "(pcs(t := Gone)) (v_join (a_finish t v) w) = Paused (KJoin w) \<and>
        \<not> v_en (a_finish t v) (v_join (a_finish t v) w)" by (auto simp: a_finish_def)
  qed
qed (use assms in \<open>auto simp: a_finish_def inv_def\<close>)

subsection \<open>Barriers\<close>

lemma thread_ok_frame:
  assumes "v_en v' u = v_en v u" "v_lr v' u = v_lr v u" "v_lw v' u = v_lw v u" "v_sr v' u = v_sr v u"
    "v_sw v' u = v_sw v u" "v_cond v' u = v_cond v u" "v_bar v' u = v_bar v u" "v_fin v' = v_fin v" "v_join v' = v_join v"
  shows "thread_ok v' u p = thread_ok v u p"
proof (cases p)
  case (Paused k)
  then show ?thesis using assms by (cases k) (simp_all add: thread_defs)
qed (use assms in \<open>simp_all add: thread_defs\<close>)

lemma inv_barrier_wait:
  assumes "inv g (Some (Held t)) v pcs" and "b \<noteq> NULL"
  shows "inv g None (v\<lparr>v_bar := (v_bar v)(t := b), v_en := (v_en v)(t := False)\<rparr>) (pcs(t := Paused (KBarrier b)))"
    (is "inv g None ?v ?pcs")
proof (rule inv_leave [OF assms(1)])
  show "thread_ok ?v t (Paused (KBarrier b))"
    using inv_running [OF assms(1)] assms(2) by (auto simp: thread_defs)
  show "thread_ok ?v u (pcs u)" if "u \<noteq> t" "thread_ok v u (pcs u)" for u
    using that by (subst thread_ok_frame) auto
  show "join_ok ?v ?pcs" if "join_ok v pcs"
    using inv_running [OF assms(1)] by (intro join_keep [OF that]) auto
qed (use assms(1) in \<open>auto simp: inv_def obj_ok_def\<close>)

lemma thread_ok_open:
  assumes "b \<noteq> NULL" and "u \<noteq> t" and "thread_ok v u p"
  shows "thread_ok (a_open_barrier t b v) u p"
proof (cases p)
  case (Paused k)
  with assms show ?thesis by (cases k) (auto simp: thread_defs a_open_barrier_def split: if_splits)
qed (use assms in \<open>auto simp: thread_defs a_open_barrier_def\<close>)

lemma inv_barrier_open:
  assumes "inv g (Some (Held t)) v pcs" and "b \<noteq> NULL"
  shows "inv g None (a_open_barrier t b v) (pcs(t := Paused (KBarrier b)))"
proof (rule inv_leave [OF assms(1)])
  show "thread_ok (a_open_barrier t b v) t (Paused (KBarrier b))"
    using inv_running [OF assms(1)] assms(2) by (auto simp: thread_defs a_open_barrier_def)
  show "thread_ok (a_open_barrier t b v) u (pcs u)" if "u \<noteq> t" "thread_ok v u (pcs u)" for u
    using that by (rule thread_ok_open [OF assms(2)])
  have en: "\<not> v_en (a_open_barrier t b v) u" if "pcs u = Paused (KJoin w)" "\<not> v_en v u" for u w
  proof -
    have "at_join v u w" using assms(1) that(1) by (metis inv_def kont_ok.simps(4) thread_ok.simps(5))
    with that(2) assms(2) inv_running [OF assms(1)] that(1) show ?thesis
      by (auto simp: thread_defs a_open_barrier_def)
  qed
  show "join_ok (a_open_barrier t b v) (pcs(t := Paused (KBarrier b)))" if "join_ok v pcs"
    using inv_running [OF assms(1)] en by (intro join_keep [OF that]) (auto simp: a_open_barrier_def)
qed (use assms(1) in \<open>auto simp: inv_def obj_ok_def a_open_barrier_def\<close>)

subsection \<open>Waiting on a condition\<close>

definition a_cond_wait :: "thrID \<Rightarrow> addr \<Rightarrow> addr \<Rightarrow> bool \<Rightarrow> view \<Rightarrow> view" where
  "a_cond_wait t c l timed v =
     (a_release l (v\<lparr>v_en := (v_en v)(t := timed), v_mutex := (v_mutex v)(l := MFree)\<rparr>))
       \<lparr>v_cond := (v_cond v)(t := c)\<rparr>"

lemma inv_cond_wait:
  assumes "inv g (Some (Held t)) v pcs" and "c \<noteq> NULL" and "l \<noteq> NULL"
  shows "inv g None (a_cond_wait t c l timed v) (pcs(t := OnCond r c l timed))"
proof (rule inv_leave [OF assms(1)])
  have run: "pcs t = Running" "live v t" using inv_running [OF assms(1)] by auto
  show "thread_ok (a_cond_wait t c l timed v) t (OnCond r c l timed)"
    using run(2) assms(2,3) by (auto simp: thread_defs a_cond_wait_def a_release_def)
  show "thread_ok (a_cond_wait t c l timed v) u (pcs u)" if "u \<noteq> t" "thread_ok v u (pcs u)" for u
  proof -
    have "thread_ok (a_release l v) u (pcs u)" using that(2) by (rule thread_ok_release [OF assms(3)])
    with that(1) show ?thesis by (subst thread_ok_frame [of _ _ "a_release l v"]) (auto simp: a_cond_wait_def a_release_def)
  qed
  show "obj_ok (a_cond_wait t c l timed v)" if "obj_ok v"
    using that assms(3) by (auto simp: obj_ok_def a_cond_wait_def a_release_def)
  show "join_ok (a_cond_wait t c l timed v) (pcs(t := OnCond r c l timed))" if "join_ok v pcs"
  proof (rule join_keep [OF that run(1)])
    show "\<not> v_en (a_cond_wait t c l timed v) u" if "pcs u = Paused (KJoin w)" "\<not> v_en v u" for u w
      using join_ok_release [OF assms(1,3), of u w] that run(1) by (auto simp: a_cond_wait_def a_release_def)
  qed (auto simp: a_cond_wait_def a_release_def)
qed (use assms(1) in \<open>auto simp: inv_def a_cond_wait_def a_release_def\<close>)

subsection \<open>Creating\<close>

lemma inv_create:
  assumes "inv g (Some (Held t)) v pcs" and "pcs u = Absent" and "u \<noteq> INVALID_THREAD"
  shows "inv g (Some (Held t)) (a_new_thread u v) (pcs(u := Born))"
proof -
  have ut: "u \<noteq> t" using inv_running [OF assms(1)] assms(2) by auto
  have au: "idle v u" using assms(1,2) by (metis inv_def thread_ok.simps(1))
  have "thread_ok (a_new_thread u v) w ((pcs(u := Born)) w)" for w
  proof (cases "w = u")
    case True
    with au show ?thesis by (simp add: thread_defs a_new_thread_def)
  next
    case False
    have th: "thread_ok v w (pcs w)" using assms(1) by (simp add: inv_def)
    show ?thesis
    proof (cases "pcs w")
      case (Paused k)
      show ?thesis
      proof (cases k)
        case (KJoin x)
        then have "x \<noteq> u" using assms(1,2) Paused by (auto simp: inv_def targets_ok_def)
        then show ?thesis using th False Paused KJoin by (simp add: thread_defs a_new_thread_def)
      qed (use th False Paused in \<open>auto simp: thread_defs a_new_thread_def\<close>)
    qed (use th False in \<open>auto simp: thread_defs a_new_thread_def\<close>)
  qed
  moreover have "obj_ok (a_new_thread u v)" using assms(1) by (auto simp: inv_def obj_ok_def a_new_thread_def)
  moreover have "join_ok (a_new_thread u v) (pcs(u := Born))"
    using assms(1,2) by (auto simp: inv_def join_ok_def a_new_thread_def)
  moreover have "tok_ok (Some (Held t)) (a_new_thread u v) (pcs(u := Born))"
    using assms(1,2) ut by (auto simp: inv_def tok_ok_def a_new_thread_def)
  moreover have "targets_ok (pcs(u := Born))" using assms(1) by (auto simp: inv_def targets_ok_def)
  ultimately show ?thesis using assms(1,3) by (simp add: inv_def a_new_thread_def)
qed

section \<open>Getting the token\<close>

lemma join_enter:
  assumes "join_ok v pcs" and "v_en v t" and "pcs t \<noteq> Absent" and "v_fin v' = v_fin v" and "v_join v' = v_join v"
    and "\<And>u w. u \<noteq> t \<Longrightarrow> pcs u = Paused (KJoin w) \<Longrightarrow> \<not> v_en v u \<Longrightarrow> \<not> v_en v' u"
  shows "join_ok v' (pcs(t := p))"
  unfolding join_ok_def
proof (intro allI impI)
  fix u
  assume "(pcs(t := p)) u \<noteq> Absent \<and> \<not> v_fin v' u \<and> v_join v' u \<noteq> UNJOINED"
  then have "pcs u \<noteq> Absent \<and> \<not> v_fin v u \<and> v_join v u \<noteq> UNJOINED"
    using assms(3-5) by (auto split: if_splits)
  then have j: "pcs (v_join v u) = Paused (KJoin u) \<and> \<not> v_en v (v_join v u)"
    using assms(1) by (simp add: join_ok_def)
  then have "v_join v u \<noteq> t" using assms(2) by auto
  with j assms(5,6) show "(pcs(t := p)) (v_join v' u) = Paused (KJoin u) \<and> \<not> v_en v' (v_join v' u)" by auto
qed

definition a_take :: "thrID \<Rightarrow> view \<Rightarrow> view" where
  "a_take t v = v\<lparr>v_tok := (v_tok v)(t := map_option (\<lambda>n. n - 1) (v_tok v t))\<rparr>"

lemma inv_enter:
  assumes "inv g (Some (InSem t)) v pcs"
    and "v_tok v' = (v_tok v)(t := Some 0)" "v_wtok v' = v_wtok v" "v_sig v' = v_sig v" "v_ready v' = v_ready v"
    and "live v' t" and "\<And>u. u \<noteq> t \<Longrightarrow> thread_ok v u (pcs u) \<Longrightarrow> thread_ok v' u (pcs u)"
    and "obj_ok v \<Longrightarrow> obj_ok v'" and "join_ok v pcs \<Longrightarrow> join_ok v' (pcs(t := Running))" and "v_glock v' = g'"
  shows "inv g' (Some (Held t)) v' (pcs(t := Running))"
proof -
  have tk: "tok_ok (Some (InSem t)) v pcs" using assms(1) by (simp add: inv_def)
  then have t: "pcs t = Born \<or> (\<exists>k. pcs t = Paused k)" by (auto simp: tok_ok_def)
  then have "INVALID_THREAD \<noteq> t" using assms(1) by (auto simp: inv_def)
  moreover have "tok_ok (Some (Held t)) v' (pcs(t := Running))"
    using tk t assms(2-5) by (auto simp: tok_ok_def)
  moreover have "targets_ok (pcs(t := Running))" using assms(1) by (auto simp: inv_def targets_ok_def)
  ultimately show ?thesis using assms(1,6-) by (auto simp: inv_def)
qed

lemma inv_insem: "inv g (Some (InSem t)) v pcs \<Longrightarrow> v_en v t \<and> v_tok v t = Some 1 \<and> pcs t \<noteq> Absent"
  by (auto simp: inv_def tok_ok_def)

lemma can_take_insem:
  assumes "inv g (Some tok) v pcs" and "v_tok v t = Some n" and "0 < n" and "pcs t \<noteq> Absent"
  shows "tok = InSem t"
  using assms by (auto simp: inv_def tok_ok_def split: if_splits)

text \<open>Resumptions that change nothing but the place of the token.\<close>

lemma inv_resume_plain:
  assumes "inv g (Some (InSem t)) v pcs" and "pcs t = Paused k" and "k \<in> {KReturn, KSection} \<or> (\<exists>u. k = KJoin u) \<or>
      (\<exists>b. k = KBarrier b) \<or> (\<exists>l. k = KTrylock l)"
  shows "inv g (Some (Held t)) (a_take t v) (pcs(t := Running))"
proof (rule inv_enter [OF assms(1)])
  have th: "thread_ok v t (Paused k)" using assms(1,2) by (metis inv_def)
  have "live v t" using th assms(3) inv_insem [OF assms(1)] by (auto simp: thread_defs)
  then show "live (a_take t v) t" by (simp add: thread_defs a_take_def)
  show "thread_ok (a_take t v) u (pcs u)" if "u \<noteq> t" "thread_ok v u (pcs u)" for u
    using that(2) by (subst thread_ok_frame) (auto simp: a_take_def)
  show "join_ok (a_take t v) (pcs(t := Running))" if "join_ok v pcs"
    using inv_insem [OF assms(1)] by (intro join_enter [OF that]) (auto simp: a_take_def)
qed (use assms(1) inv_insem [OF assms(1)] in \<open>auto simp: a_take_def obj_ok_def inv_def\<close>)

lemma inv_resume_lock:
  assumes "inv g (Some (InSem t)) v pcs" and "pcs t = Paused k"
    and "k \<in> {KLock l, KRelock l} \<or> (\<exists>w. k = KTimedRelock l w)"
    and "v' = a_acquire t l (a_take t v) \<and> v_mutex v l = MInvalid \<or>
         v' = (a_acquire t l (a_take t v))\<lparr>v_mutex := (v_mutex v)(l := MHeld)\<rparr>"
  shows "inv g (Some (Held t)) v' (pcs(t := Running))"
proof (rule inv_enter [OF assms(1)])
  have "thread_ok v t (Paused k)" using assms(1,2) by (metis inv_def)
  then have at: "at_lock v t l" using assms(3) by auto
  then have l: "l \<noteq> NULL" and en: "v_en v t" "v_lr v t = l" "v_lw v t = NULL"
    using inv_insem [OF assms(1)] by (auto simp: thread_defs)
  then show "live v' t" using at assms(4) by (auto simp: thread_defs a_acquire_def a_take_def)
  show "thread_ok v' u (pcs u)" if "u \<noteq> t" "thread_ok v u (pcs u)" for u
  proof -
    have "thread_ok (a_acquire t l v) u (pcs u)" using thread_ok_acquire [OF l that] .
    then show ?thesis
      using assms(4) by (subst thread_ok_frame [of _ _ "a_acquire t l v"]) (auto simp: a_acquire_def a_take_def)
  qed
  show "obj_ok v'" if "obj_ok v"
    using assms(4)
  proof
    assume "v' = (a_acquire t l (a_take t v))\<lparr>v_mutex := (v_mutex v)(l := MHeld)\<rparr>"
    moreover have "obj_ok (a_take t v)" using that by (simp add: obj_ok_def a_take_def)
    ultimately show ?thesis using obj_ok_acquire [OF l, of "a_take t v" t] by (simp add: a_take_def)
  next
    assume "v' = a_acquire t l (a_take t v) \<and> v_mutex v l = MInvalid"
    with that l show ?thesis by (auto simp: obj_ok_def a_acquire_def a_take_def)
  qed
  show "join_ok v' (pcs(t := Running))" if "join_ok v pcs"
    using inv_insem [OF assms(1)] assms(4) by (intro join_enter [OF that]) (auto simp: a_take_def a_acquire_def)
qed (use assms(1,4) inv_insem [OF assms(1)] in \<open>auto simp: a_take_def a_acquire_def inv_def\<close>)

lemma inv_resume_sem:
  assumes "inv g (Some (InSem t)) v pcs" and "pcs t = Paused (KSemWait a)" and "v_sem v a = Some (Suc n)"
    and "v' = (let v1 = (a_take t v)\<lparr>v_sem := (v_sem v)(a := Some n), v_sr := (v_sr v)(t := NULL)\<rparr>
               in if n = 0 then a_block_sem a v1 else v1)"
  shows "inv g (Some (Held t)) v' (pcs(t := Running))"
proof (rule inv_enter [OF assms(1)])
  let ?v1 = "(a_take t v)\<lparr>v_sem := (v_sem v)(a := Some n), v_sr := (v_sr v)(t := NULL)\<rparr>"
  have "thread_ok v t (Paused (KSemWait a))" using assms(1,2) by (metis inv_def)
  then have at: "at_sem v t a" by simp
  then have a: "a \<noteq> NULL" and en: "v_en v t" "v_sr v t = a" "v_sw v t = NULL"
    using inv_insem [OF assms(1)] by (auto simp: thread_defs)
  then show "live v' t" using at assms(4) by (auto simp: thread_defs a_take_def a_block_sem_def Let_def)
  show "thread_ok v' u (pcs u)" if "u \<noteq> t" "thread_ok v u (pcs u)" for u
  proof -
    have "thread_ok ?v1 u (pcs u)" using that by (subst thread_ok_frame) (auto simp: a_take_def)
    then have "thread_ok (a_block_sem a ?v1) u (pcs u)" "thread_ok ?v1 u (pcs u)"
      using thread_ok_block [OF a] by blast+
    moreover have "v' = a_block_sem a ?v1 \<or> v' = ?v1" using assms(4) by (simp add: Let_def split: if_splits)
    ultimately show ?thesis by metis
  qed
  show "obj_ok v'" if "obj_ok v"
  proof (cases "n = 0")
    case True
    have "v_sw v u = a \<Longrightarrow> False" for u using that a assms(3) by (auto simp: obj_ok_def)
    then show ?thesis
      using that a assms(4) True by (auto simp: obj_ok_def a_take_def a_block_sem_def Let_def)
  next
    case False
    then obtain m where "n = Suc m" by (cases n) auto
    moreover have "v_sw v u = a \<Longrightarrow> False" for u using that a assms(3) by (auto simp: obj_ok_def)
    ultimately show ?thesis using that a assms(4) by (auto simp: obj_ok_def a_take_def Let_def)
  qed
  show "join_ok v' (pcs(t := Running))" if "join_ok v pcs"
    using inv_insem [OF assms(1)] assms(4)
    by (intro join_enter [OF that]) (auto simp: a_take_def a_block_sem_def Let_def)
qed (use assms(1,4) inv_insem [OF assms(1)] in \<open>auto simp: a_take_def a_block_sem_def inv_def Let_def\<close>)

lemma inv_ready:
  assumes "inv g (Some (Relocked t u)) v pcs"
  shows "inv g (Some (Held t)) v (pcs(t := Running))"
proof -
  obtain w where t: "pcs t = Awaiting u w" using assms by (auto simp: inv_def tok_ok_def)
  have "thread_ok v t Running" using assms t by (metis inv_def thread_ok.simps(3,4))
  moreover from this have "join_ok v (pcs(t := Running))"
    using assms t by (intro join_enter [of v]) (auto simp: inv_def live_def)
  moreover have "tok_ok (Some (Held t)) v (pcs(t := Running))"
  proof -
    have tk: "tok_ok (Some (Relocked t u)) v pcs" using assms by (simp add: inv_def)
    then have "pcs x = Awaiting y z \<Longrightarrow> x = t" for x y z
      using tok_awaiting [OF tk] by auto
    moreover have "pcs t \<noteq> Absent" using t by simp
    ultimately show ?thesis using tk tok_counts [OF tk, of t] by (auto simp: tok_ok_def)
  qed
  moreover have "targets_ok (pcs(t := Running))" using assms by (auto simp: inv_def targets_ok_def)
  ultimately show ?thesis using assms t by (auto simp: inv_def)
qed

section \<open>While the token stays\<close>

lemma lock_owner:
  assumes "inv g tok v pcs" and "l \<noteq> NULL" and "v_lw v u = l \<or> v_lr v u = l"
  shows "\<exists>k. pcs u = Paused k \<and> kont_lock k = Some l"
proof -
  have th: "thread_ok v u (pcs u)" using assms(1) by (simp add: inv_def)
  show ?thesis
  proof (cases "pcs u")
    case (Paused k)
    then show ?thesis using th assms(2,3) by (cases k) (auto simp: thread_defs split: if_splits)
  qed (use th assms(2,3) in \<open>auto simp: thread_defs\<close>)
qed

lemma sem_owner:
  assumes "inv g tok v pcs" and "a \<noteq> NULL" and "v_sw v u = a \<or> v_sr v u = a"
  shows "pcs u = Paused (KSemWait a)"
proof -
  have th: "thread_ok v u (pcs u)" using assms(1) by (simp add: inv_def)
  show ?thesis
  proof (cases "pcs u")
    case (Paused k)
    then show ?thesis using th assms(2,3) by (cases k) (auto simp: thread_defs split: if_splits)
  qed (use th assms(2,3) in \<open>auto simp: thread_defs\<close>)
qed

lemma inv_obj_change:
  assumes "inv g tok v pcs" and "obj_ok (v\<lparr>v_mutex := m, v_sem := s, v_count := c\<rparr>)"
  shows "inv g tok (v\<lparr>v_mutex := m, v_sem := s, v_count := c\<rparr>) pcs"
proof -
  have "thread_ok (v\<lparr>v_mutex := m, v_sem := s, v_count := c\<rparr>) u p = thread_ok v u p" for u p
    by (rule thread_ok_frame) simp_all
  with assms show ?thesis by (simp add: inv_def join_ok_def tok_ok_def)
qed

lemma inv_mutex_init:
  assumes "inv g tok v pcs" and "\<And>u k. pcs u = Paused k \<Longrightarrow> kont_lock k \<noteq> Some l"
  shows "inv g tok (v\<lparr>v_mutex := (v_mutex v)(l := MFree)\<rparr>) pcs"
proof -
  have "l \<noteq> NULL \<Longrightarrow> v_lw v u \<noteq> l" for u using lock_owner [OF assms(1), of l u] assms(2) by auto
  then have "obj_ok (v\<lparr>v_mutex := (v_mutex v)(l := MFree), v_sem := v_sem v, v_count := v_count v\<rparr>)"
    using assms(1) by (auto simp: inv_def obj_ok_def)
  from inv_obj_change [OF assms(1) this] show ?thesis by simp
qed

lemma inv_mutex_destroy:
  assumes "inv g tok v pcs" and "v_mutex v l = MFree"
  shows "inv g tok (v\<lparr>v_mutex := (v_mutex v)(l := MInvalid)\<rparr>) pcs"
proof -
  have "obj_ok (v\<lparr>v_mutex := (v_mutex v)(l := MInvalid), v_sem := v_sem v, v_count := v_count v\<rparr>)"
    using assms by (auto simp: inv_def obj_ok_def)
  from inv_obj_change [OF assms(1) this] show ?thesis by simp
qed

lemma inv_sem_change:
  assumes "inv g tok v pcs" and "\<And>u. pcs u \<noteq> Paused (KSemWait a)"
  shows "inv g tok (v\<lparr>v_sem := (v_sem v)(a := x)\<rparr>) pcs"
proof -
  have "a \<noteq> NULL \<Longrightarrow> v_sw v u \<noteq> a \<and> v_sr v u \<noteq> a" for u using sem_owner [OF assms(1), of a u] assms(2) by auto
  then have "obj_ok (v\<lparr>v_mutex := v_mutex v, v_sem := (v_sem v)(a := x), v_count := v_count v\<rparr>)"
    using assms(1) by (auto simp: inv_def obj_ok_def)
  from inv_obj_change [OF assms(1) this] show ?thesis by simp
qed

lemma inv_count_change: "inv g tok v pcs \<Longrightarrow> inv g tok (v\<lparr>v_count := c\<rparr>) pcs"
  using inv_obj_change [where g = g and tok = tok and v = v and pcs = pcs and m = "v_mutex v" and s = "v_sem v" and c = c] by (simp add: inv_def obj_ok_def)

lemma inv_trylock:
  assumes "inv g (Some (Held t)) v pcs" and "l \<noteq> NULL"
  shows "inv g (Some (Held t)) ((a_acquire t l v)\<lparr>v_mutex := (v_mutex v)(l := MHeld)\<rparr>) pcs"
    (is "inv g _ ?v pcs")
proof -
  have run: "pcs t = Running" "live v t" using inv_running [OF assms(1)] by auto
  have "thread_ok ?v u (pcs u)" for u
  proof (cases "u = t")
    case True
    then show ?thesis using run by (simp add: thread_defs a_acquire_def)
  next
    case False
    have "thread_ok (a_acquire t l v) u (pcs u)"
      using assms(1) False by (intro thread_ok_acquire [OF assms(2)]) (auto simp: inv_def)
    then show ?thesis by (subst thread_ok_frame [of _ _ "a_acquire t l v"]) auto
  qed
  moreover have "obj_ok ?v" using obj_ok_acquire [OF assms(2)] assms(1) by (simp add: inv_def)
  moreover have "join_ok ?v pcs" using assms(1) by (auto simp: inv_def join_ok_def a_acquire_def)
  moreover have "tok_ok (Some (Held t)) ?v pcs" using assms(1) by (simp add: inv_def tok_ok_def a_acquire_def)
  ultimately show ?thesis using assms(1) by (simp add: inv_def a_acquire_def)
qed

lemma inv_start:
  assumes "inv g tok v pcs" and "pcs t = Born"
  shows "inv g tok v (pcs(t := Paused KReturn))"
proof -
  have "live v t" using assms by (metis inv_def thread_ok.simps(2))
  then have "join_ok v (pcs(t := Paused KReturn))"
    using assms by (intro join_enter [of v]) (auto simp: inv_def live_def)
  moreover have "tok_ok tok v (pcs(t := Paused KReturn))"
  proof -
    have tk: "tok_ok tok v pcs" using assms(1) by (simp add: inv_def)
    have nh: "tok \<noteq> Some (Held t)" using tok_held [of t v pcs] tk assms(2) by auto
    show ?thesis
    proof (cases tok)
      case None
      then show ?thesis using tk assms(2) by (auto simp: tok_ok_def)
    next
      case (Some k)
      then show ?thesis using tk assms(2) nh tok_counts [OF tk, of t] by (cases k; auto simp: tok_ok_def; blast)
    qed
  qed
  moreover have "targets_ok (pcs(t := Paused KReturn))" using assms by (auto simp: inv_def targets_ok_def)
  moreover have "t \<noteq> INVALID_THREAD" using assms by (auto simp: inv_def)
  ultimately show ?thesis using assms \<open>live v t\<close> by (auto simp: inv_def)
qed

section \<open>Signals\<close>

definition a_signal :: "thrID \<Rightarrow> view \<Rightarrow> view" where
  "a_signal u v = v\<lparr>v_ready := (v_ready v)(u := False), v_wtok := (v_wtok v)(u := map_option Suc (v_wtok v u))\<rparr>"

lemma cond_owner:
  assumes "inv g tok v pcs" and "v_cond v u \<noteq> NULL"
  shows "\<exists>r l b. pcs u = OnCond r (v_cond v u) l b"
proof -
  have th: "thread_ok v u (pcs u)" using assms(1) by (simp add: inv_def)
  show ?thesis
  proof (cases "pcs u")
    case (Paused k)
    then show ?thesis using th assms(2) by (cases k) (auto simp: thread_defs)
  qed (use th assms(2) in \<open>auto simp: thread_defs\<close>)
qed

lemma inv_signal:
  assumes "inv g (Some (Held t)) v pcs" and "v_cond v u \<noteq> NULL" and "sg_cond w \<noteq> NULL"
  shows "inv g (Some (Signalled t u)) (a_signal u v) (pcs(t := Awaiting u w))"
proof -
  have run: "pcs t = Running" "live v t" using inv_running [OF assms(1)] by auto
  obtain r l b where u: "pcs u = OnCond r (v_cond v u) l b" using cond_owner [OF assms(1,2)] by auto
  have ut: "u \<noteq> t" using u run by auto
  have "thread_ok (a_signal u v) x ((pcs(t := Awaiting u w)) x)" for x
  proof (cases "x = t")
    case True
    then show ?thesis using run assms(3) by (simp add: a_signal_def thread_defs)
  next
    case False
    then show ?thesis using assms(1) by (subst thread_ok_frame [of _ _ v]) (simp_all add: inv_def a_signal_def)
  qed
  moreover have "obj_ok (a_signal u v)" using assms(1) by (simp add: inv_def obj_ok_def a_signal_def)
  moreover have "join_ok (a_signal u v) (pcs(t := Awaiting u w))"
    using assms(1) run by (intro join_enter [of v]) (auto simp: inv_def live_def a_signal_def)
  moreover have "tok_ok (Some (Signalled t u)) (a_signal u v) (pcs(t := Awaiting u w))"
  proof -
    have tk: "tok_ok (Some (Held t)) v pcs" using assms(1) by (simp add: inv_def)
    show ?thesis using tk tok_held [OF tk] u ut by (auto simp: tok_ok_def a_signal_def)
  qed
  moreover have "targets_ok (pcs(t := Awaiting u w))" using assms(1) by (auto simp: inv_def targets_ok_def)
  ultimately show ?thesis using assms(1) run by (auto simp: inv_def a_signal_def)
qed

subsection \<open>A woken thread\<close>

definition a_wait_take :: "thrID \<Rightarrow> view \<Rightarrow> view" where
  "a_wait_take t v = v\<lparr>v_wtok := (v_wtok v)(t := map_option (\<lambda>n. n - 1) (v_wtok v t))\<rparr>"

definition a_leave_cond :: "thrID \<Rightarrow> addr \<Rightarrow> view \<Rightarrow> view" where
  "a_leave_cond t l v = (a_want_lock t l (v\<lparr>v_cond := (v_cond v)(t := NULL)\<rparr>))\<lparr>v_ready := (v_ready v)(t := True)\<rparr>"

lemma leave_cond_sel:
  "v_tok (a_leave_cond t l v) = v_tok v" "v_wtok (a_leave_cond t l v) = v_wtok v"
  "v_sig (a_leave_cond t l v) = v_sig v" "v_ready (a_leave_cond t l v) = (v_ready v)(t := True)"
  "v_glock (a_leave_cond t l v) = v_glock v"
  by (simp_all add: a_leave_cond_def a_want_lock_def)

lemma inv_leave_cond:
  assumes "inv g tok v pcs" and "pcs t = OnCond r c l timed" and "kont_lock k = Some l"
    and v': "v' = (a_leave_cond t l (a_wait_take t v))\<lparr>v_sig := sig\<rparr>"
    and tk: "tok_ok tok' v' (pcs(t := Paused k))"
  shows "inv g tok' v' (pcs(t := Paused k))"
proof -
  have at: "at_cond v t c l timed" using assms(1,2) by (metis inv_def thread_ok.simps(6))
  have "at_lock v' t l"
    using at by (auto simp: v' thread_defs a_leave_cond_def a_want_lock_def a_wait_take_def)
  then have "thread_ok v' t (Paused k)" using assms(3) by (cases k) auto
  moreover have "thread_ok v' u (pcs u)" if "u \<noteq> t" for u
    using assms(1) that
    by (subst thread_ok_frame [of _ _ v]) (auto simp: inv_def v' a_leave_cond_def a_want_lock_def a_wait_take_def)
  moreover have "obj_ok v'"
    using assms(1) by (auto simp: inv_def obj_ok_def v' a_leave_cond_def a_want_lock_def a_wait_take_def)
  moreover have "join_ok v' (pcs(t := Paused k))"
    unfolding join_ok_def
  proof (intro allI impI)
    fix u
    assume u: "(pcs(t := Paused k)) u \<noteq> Absent \<and> \<not> v_fin v' u \<and> v_join v' u \<noteq> UNJOINED"
    have eq: "v_fin v' = v_fin v" "v_join v' = v_join v" "\<And>x. x \<noteq> t \<Longrightarrow> v_en v' x = v_en v x"
      by (auto simp: v' a_leave_cond_def a_want_lock_def a_wait_take_def)
    have "pcs (v_join v u) = Paused (KJoin u) \<and> \<not> v_en v (v_join v u)"
      using assms(1,2) u eq by (auto simp: inv_def join_ok_def split: if_splits)
    then show "(pcs(t := Paused k)) (v_join v' u) = Paused (KJoin u) \<and> \<not> v_en v' (v_join v' u)"
      using assms(2) eq by auto
  qed
  moreover have "targets_ok (pcs(t := Paused k))"
    using assms(1,3) by (auto simp: inv_def targets_ok_def)
  moreover have "t \<noteq> INVALID_THREAD" using assms(1,2) by (auto simp: inv_def)
  ultimately show ?thesis
    using assms(1) tk by (auto simp: inv_def v' leave_cond_sel a_wait_take_def)
qed

lemma inv_woken_signalled:
  assumes "inv g (Some (Signalled h t)) v pcs" and "pcs t = OnCond r c l timed" and "kont_lock k = Some l"
  shows "inv g (Some (Relocked h t)) (a_leave_cond t l (a_wait_take t v)) (pcs(t := Paused k))"
proof (rule inv_leave_cond [OF assms, where sig = "v_sig v"])
  show "a_leave_cond t l (a_wait_take t v) = (a_leave_cond t l (a_wait_take t v))\<lparr>v_sig := v_sig v\<rparr>"
    by (simp add: a_leave_cond_def a_want_lock_def a_wait_take_def)
  have tk: "tok_ok (Some (Signalled h t)) v pcs" using assms(1) by (simp add: inv_def)
  have "h \<noteq> t" using tk assms(2) by (auto simp: tok_ok_def)
  have aw: "\<And>x y z. pcs x = Awaiting y z \<Longrightarrow> x = h \<and> y = t" using tok_awaiting [OF tk] by auto
  show "tok_ok (Some (Relocked h t)) (a_leave_cond t l (a_wait_take t v)) (pcs(t := Paused k))"
    using tk tok_counts [OF tk, of t] assms(2) \<open>h \<noteq> t\<close> aw
    by (auto simp: tok_ok_def leave_cond_sel a_wait_take_def)
qed

lemma inv_woken_timeout:
  assumes "inv g (Some (TimedOut t)) v pcs" and "pcs t = OnCond r c l timed" and "kont_lock k = Some l"
  shows "inv g None ((a_leave_cond t l (a_wait_take t v))\<lparr>v_sig := (v_sig v)(t := True)\<rparr>) (pcs(t := Paused k))"
proof (rule inv_leave_cond [OF assms])
  have tk: "tok_ok (Some (TimedOut t)) v pcs" using assms(1) by (simp add: inv_def)
  show "tok_ok None ((a_leave_cond t l (a_wait_take t v))\<lparr>v_sig := (v_sig v)(t := True)\<rparr>) (pcs(t := Paused k))"
    using tk tok_counts [OF tk, of t] assms(2)
    by (auto simp: tok_ok_def leave_cond_sel a_wait_take_def)
qed simp

lemma can_wait_take_tok:
  assumes "inv g (Some tok) v pcs" and "v_wtok v t = Some n" and "0 < n" and "pcs t \<noteq> Absent"
  shows "tok = TimedOut t \<or> (\<exists>h. tok = Signalled h t)"
  using assms by (auto simp: inv_def tok_ok_def split: if_splits)

lemma ready_relocked:
  assumes "inv g (Some tok) v pcs" and "pcs t = Awaiting u w" and "v_ready v u"
  shows "tok = Relocked t u"
proof -
  have tk: "tok_ok (Some tok) v pcs" using assms(1) by (simp add: inv_def)
  have "tok = Signalled t u \<or> tok = Relocked t u" using tok_awaiting [OF tk assms(2)] by simp
  moreover have "tok = Signalled t u \<Longrightarrow> pcs u \<noteq> Absent" using tk by (auto simp: tok_ok_def)
  ultimately show ?thesis using tok_counts(4) [OF tk, of u] assms(3) by auto
qed

text \<open>Launching from a timed wait that ran out: the flag is reset after the launch.\<close>

lemma launch_then_flag:
  "v_cond v t = NULL \<Longrightarrow>
   (a_launch x v)\<lparr>v_sig := (v_sig (a_launch x v))(t := True)\<rparr> = a_launch x (v\<lparr>v_sig := (v_sig v)(t := True)\<rparr>)"
  by (cases "x = t") (auto simp: a_launch_def fun_upd_twist [of x t])

end
