(* ===== verification/Serial_Safety.thy ===== *)
theory Serial_Safety
  imports Serial_Invariant
begin

text \<open>
  Every step of the machine keeps the invariant, for every class of tracker that keeps the
  contract \<open>serial_methods\<close>: \<open>schedule\<close> launches one enabled thread and changes nothing else,
  signals go to threads that wait on the condition. The base class is shown to keep it; the
  other schedulers do so in their theories.
\<close>

section \<open>The contract of a scheduler\<close>

locale serial_methods =
  fixes M :: "'a ExecutionTracker_scheme methods"
  assumes schedule_law:
      "refines (m_schedule M p) (\<lambda>v x v'. x \<noteq> INVALID_THREAD \<and> v_en v x \<and> v' = a_launch x v)"
    and next_signal_law: "refines (m_nextSignal M) (\<lambda>v x v'. v' = v)"
    and select_law:
      "refines (m_select M g) (\<lambda>v x v'. v' = v \<and>
         (cm_ok (sg_cond_map g) \<and> x \<noteq> INVALID_THREAD \<longrightarrow> cm_get NULL (sg_cond_map g) x = sg_cond g))"
    and schedule_cond_law:
      "refines (m_scheduleCond M t g) (\<lambda>v x v'. \<not> v_glock v \<and> sg_cond (snd x) = sg_cond g \<and>
         (case fst x of None \<Rightarrow> v' = v
          | Some u \<Rightarrow> cm_get NULL (sg_cond_map g) u = sg_cond g \<and> v' = a_signal u v))"
    and handle_law: "m_handle M h = ret ()"

section \<open>The base class\<close>

lemma refines_wake_target:
  "refines (wake_target t) (\<lambda>v _ v'. v' = a_launch t v)"
  unfolding wake_target_def
  by (rule refines_weaken, (rule refine_rules)+) (auto simp: a_launch_def split: if_splits)

lemma refines_launchThread:
  "refines (launchThread t p) (\<lambda>v _ v'. t \<noteq> INVALID_THREAD \<and> v_en v t \<and> v' = a_launch t v)"
  unfolding launchThread_def
  by (rule refines_weaken, (rule refine_rules refines_wake_target)+) auto

lemma refines_recordScheduleInfo [refine_rules]: "refines (recordScheduleInfo t x) (\<lambda>v _ v'. v' = v)"
  unfolding recordScheduleInfo_def
  by (rule refines_weaken, (rule refine_rules)+) (auto split: if_splits)

lemma refines_from_log [refine_rules]: "refines (from_log m) (\<lambda>v _ v'. v' = v)"
  by (rule refinesI) (auto simp: from_log_def wf_def view_def split: sum.splits)

lemma refines_deadlockCheck [refine_rules]: "refines deadlockCheck (\<lambda>v _ v'. v' = v)"
  by (rule refinesI) (auto simp: deadlockCheck_def split: if_splits)

text \<open>A policy whose methods only look at the state and whose launch is as in the base class.\<close>

definition policy_ok :: "'a ExecutionTracker_scheme policy \<Rightarrow> bool" where
  "policy_ok pol \<longleftrightarrow>
     (\<forall>p. refines (p_pick pol p) (\<lambda>v x v'. v' = v)) \<and>
     (\<forall>p. refines (p_follow pol p) (\<lambda>v x v'. v' = v)) \<and>
     (\<forall>a b. refines (p_compare pol a b) (\<lambda>v x v'. v' = v)) \<and>
     (\<forall>t p. refines (p_launch pol t p) (\<lambda>v _ v'.
        (cm_get False (sp_enabled p) = v_en v \<longrightarrow> v_en v t) \<and> v' = a_launch t v))"

lemma refines_gets_enable:
  "refines (gets enable_map) (\<lambda>v x v'. v' = v \<and> cm_get False x = v_en v)"
  by (rule refinesI) auto

lemma refines_launch_choice:
  assumes "policy_ok pol"
  shows "refines (launch_choice pol t p)
     (\<lambda>v x v'. x = t \<and> v_en v t \<and> v' = a_launch t v)"
proof -
  have l: "refines (p_launch pol t p) (\<lambda>v _ v'.
      (cm_get False (sp_enabled p) = v_en v \<longrightarrow> v_en v t) \<and> v' = a_launch t v)" for p
    using assms by (simp add: policy_ok_def)
  show ?thesis
    unfolding launch_choice_def
    by (rule refines_weaken, (rule refines_seq refines_gets_enable l refines_ret)+) auto
qed

lemma refines_schedule_point:
  assumes "policy_ok pol"
  shows "refines (schedule_point pol p) (\<lambda>v x v'. x \<noteq> INVALID_THREAD \<and> v_en v x \<and> v' = a_launch x v)"
proof -
  have pick: "refines (p_pick pol p) (\<lambda>v x v'. v' = v)" and follow: "refines (p_follow pol p) (\<lambda>v x v'. v' = v)"
    and compare: "refines (p_compare pol a b) (\<lambda>v x v'. v' = v)" for p a b
    using assms by (simp_all add: policy_ok_def)
  note launch = refines_launch_choice [OF assms]
  have new: "refines (schedule_new pol p) (\<lambda>v x v'. x \<noteq> INVALID_THREAD \<and> v_en v x \<and> v' = a_launch x v)"
    unfolding schedule_new_def split_beta
    by (rule refines_weaken, (rule refines_seq pick refines_if refines_deadlockCheck refines_safe_assert
          refines_ret refines_recordScheduleInfo launch)+) (auto split: if_splits)
  have logged: "refines (schedule_logged pol t p) (\<lambda>v x v'. x = t \<and> v_en v x \<and> v' = a_launch x v)" for t
    unfolding schedule_logged_def
    by (rule refines_weaken, (rule refines_seq follow refines_gets compare refines_recordScheduleInfo launch)+) auto
  show ?thesis
    unfolding schedule_point_def
    by (rule refines_weaken, (rule refines_seq refines_from_log refines_if new logged)+) (auto split: if_splits)
qed

lemma refines_select:
  "refines (selectThreadWaitingOnCond g) (\<lambda>v x v'. v' = v \<and>
     (cm_ok (sg_cond_map g) \<and> x \<noteq> INVALID_THREAD \<longrightarrow> cm_get NULL (sg_cond_map g) x = sg_cond g))"
proof (rule refinesI)
  fix s x and s' :: "'a ExecutionTracker_scheme"
  assume "wf s" "selectThreadWaitingOnCond g s = Inr (x, s')"
  then have x: "s' = s" "x = (case keys_with (\<lambda>c. c = sg_cond g) (sg_cond_map g) of [] \<Rightarrow> INVALID_THREAD | t # _ \<Rightarrow> t)"
    by (simp_all add: selectThreadWaitingOnCond_def)
  have "cm_get NULL (sg_cond_map g) x = sg_cond g" if "cm_ok (sg_cond_map g)" "x \<noteq> INVALID_THREAD"
  proof -
    have "x \<in> set (keys_with (\<lambda>c. c = sg_cond g) (sg_cond_map g))" using that x by (auto split: list.splits)
    with that(1) show ?thesis by (auto simp: set_keys_with cm_get_def)
  qed
  with x \<open>wf s\<close> show "wf s' \<and> view s' = view s \<and>
      (cm_ok (sg_cond_map g) \<and> x \<noteq> INVALID_THREAD \<longrightarrow> cm_get NULL (sg_cond_map g) x = sg_cond g)" by blast
qed

lemma refines_scheduleThreadWaitingOnCond:
  "refines (scheduleThreadWaitingOnCond t g) (\<lambda>v x v'. \<not> v_glock v \<and> sg_cond (snd x) = sg_cond g \<and>
     (case fst x of None \<Rightarrow> v' = v
      | Some u \<Rightarrow> cm_get NULL (sg_cond_map g) u = sg_cond g \<and> v' = a_signal u v))"
  unfolding scheduleThreadWaitingOnCond_def
  by (rule refines_weaken, (rule refine_rules)+) (auto simp: a_signal_def touch_point_def)

lemma policy_ok_base: "policy_ok base_policy"
  unfolding policy_ok_def base_policy_def policy.simps
  by (auto simp: pickNextSchedulingChoice_def followingChoiceFromLog_def compareScheduleSynchronization_def
      intro: refines_weaken [OF refines_launchThread] refines_weaken [OF refines_ret]) (simp add: refines_def pickNextSchedulingChoice_def)

lemma serial_methods_of:
  assumes "policy_ok pol"
  shows "serial_methods (methods_of pol)"
  by unfold_locales
    (auto simp: methods_of_def handle_def
      intro: refines_schedule_point [OF assms] refines_from_log refines_select refines_scheduleThreadWaitingOnCond)

interpretation base: serial_methods "base_methods :: 'a ExecutionTracker_scheme methods"
  unfolding base_methods_def by (rule serial_methods_of [OF policy_ok_base])

section \<open>The effect of the handlers\<close>

text \<open>The end of most handlers: the token goes to an enabled thread.\<close>

definition launched :: "view \<Rightarrow> view \<Rightarrow> bool" where
  "launched v v' \<longleftrightarrow> (\<exists>x. x \<noteq> INVALID_THREAD \<and> v_en v x \<and> v' = a_launch x v)"

definition handed :: "view \<Rightarrow> view \<Rightarrow> bool" where
  "handed v v' \<longleftrightarrow> (\<exists>v1. launched v v1 \<and> v' = v1\<lparr>v_glock := False\<rparr>)"

lemma handedI [intro]: "launched v v1 \<Longrightarrow> handed v (v1\<lparr>v_glock := False\<rparr>)"
  unfolding handed_def by blast

lemma launched_glock: "launched v v' \<Longrightarrow> v_glock v' = v_glock v"
  by (auto simp: launched_def a_launch_def split: if_splits)

lemma inv_launched:
  assumes "inv g None v pcs" and "launched v v'"
  obtains x tok where "inv g (Some tok) v' pcs" "tok = InSem x \<or> tok = TimedOut x"
proof -
  obtain x where x: "x \<noteq> INVALID_THREAD" "v_en v x" "v' = a_launch x v" using assms(2) by (auto simp: launched_def)
  from inv_launch [OF assms(1) x(1,2)] x(3) that show thesis by blast
qed

lemma inv_handed:
  assumes "inv g None v pcs" and "handed v v'"
  shows "\<exists>tok. inv False (Some tok) v' pcs"
proof -
  obtain v1 where "launched v v1" and v': "v' = v1\<lparr>v_glock := False\<rparr>" using assms(2) unfolding handed_def by blast
  then obtain tok where "inv g (Some tok) v1 pcs" using inv_launched [OF assms(1)] by metis
  from inv_glock [OF this] v' show ?thesis by blast
qed

lemma a_finish_eq:
  "a_finish t v = (if v_join v t = UNJOINED
     then v\<lparr>v_en := (v_en v)(t := False), v_fin := (v_fin v)(t := True)\<rparr>
     else v\<lparr>v_fin := (v_fin v)(t := True), v_en := (v_en v)(t := False, v_join v t := True)\<rparr>)"
  by (simp add: a_finish_def)

lemma a_new_thread_glock: "a_new_thread u (v\<lparr>v_glock := g\<rparr>) = (a_new_thread u v)\<lparr>v_glock := g\<rparr>"
  by (simp add: a_new_thread_def)

context serial_methods
begin

lemma refines_sched_at: "refines (sched_at M r ty t y) (\<lambda>v _ v'. launched v v')"
  unfolding sched_at_def launched_def
  by (rule refines_weaken, (rule refines_seq refines_gets_enable schedule_law refines_ret)+) auto

lemma refines_sched_pause: "refines (sched_pause M r ty t y) (\<lambda>v _ v'. v_glock v \<and> handed v v')"
  unfolding sched_pause_def
  by (rule refines_weaken, (rule refines_sched_at refine_rules)+) (auto simp: launched_glock)

lemma refines_handle: "refines (m_handle M h) (\<lambda>v _ v'. v' = v)"
  unfolding handle_law by (rule refines_weaken [OF refines_ret]) auto

lemmas call_rules = refine_rules refines_sched_pause refines_sched_at refines_handle

lemma effect_lock:
  assumes "l \<noteq> NULL"
  shows "refines (thrille_mutex_lock M t r l) (\<lambda>v p v'. \<not> v_glock v \<and> p = Paused (KLock l) \<and>
     handed (a_want_lock t l (v\<lparr>v_glock := True\<rparr>)) v')"
  unfolding thrille_mutex_lock_def BeforeMutexLock_def
  by (rule refines_weaken, (rule call_rules)+) (auto split: if_splits)

lemma effect_trylock:
  "refines (thrille_mutex_trylock M t r l) (\<lambda>v p v'. \<not> v_glock v \<and> p = Paused (KTrylock l) \<and>
     handed (v\<lparr>v_glock := True, v_en := (v_en v)(t := True)\<rparr>) v')"
  unfolding thrille_mutex_trylock_def BeforeMutexTrylock_def
  by (rule refines_weaken, (rule call_rules)+) (auto split: if_splits)

lemma effect_unlock:
  assumes "l \<noteq> NULL"
  shows "refines (thrille_mutex_unlock M t r l) (\<lambda>v p v'. \<not> v_glock v \<and> p = Paused KReturn \<and>
     (v_fin v t \<or> (\<exists>v1. (v1 = v\<lparr>v_mutex := (v_mutex v)(l := MFree)\<rparr> \<or> (v1 = v \<and> v_mutex v l \<noteq> MHeld)) \<and>
        handed (a_release l (v1\<lparr>v_glock := True\<rparr>)) v')))"
  unfolding thrille_mutex_unlock_def BeforeMutexUnlock_def AfterMutexUnlock_def
  by (rule refines_weaken, (rule call_rules refines_release [OF assms])+) (auto split: if_splits)

lemma effect_sem_wait:
  "refines (thrille_sem_wait M t r a) (\<lambda>v p v'. \<not> v_glock v \<and> p = Paused (KSemWait a) \<and> a \<noteq> NULL \<and>
     v_sem v a \<noteq> None \<and> handed (a_want_sem t a (v\<lparr>v_glock := True\<rparr>)) v')"
  unfolding thrille_sem_wait_def BeforeSemWait_def
  by (rule refines_weaken, (rule call_rules)+) auto

lemma effect_sem_post:
  assumes "a \<noteq> NULL"
  shows "refines (thrille_sem_post M t r a) (\<lambda>v p v'. \<not> v_glock v \<and> p = Paused KReturn \<and>
     (\<exists>v1. ((v1 = v\<lparr>v_glock := True\<rparr> \<and> v_sem v a \<noteq> Some 0) \<or>
        (\<exists>n. v_sem v a = Some n \<and> v1 = v\<lparr>v_glock := True, v_sem := (v_sem v)(a := Some (Suc n))\<rparr>)) \<and>
        handed (a_post_sem a v1) v'))"
  unfolding thrille_sem_post_def SimulateSemPost_def
  by (rule refines_weaken, (rule call_rules refines_semaphoreIsPosted [OF assms])+) auto

lemma effect_join:
  "refines (thrille_join M t r u) (\<lambda>v p v'. \<not> v_glock v \<and> p = Paused (KJoin u) \<and>
     (if v_fin v u then handed (v\<lparr>v_glock := True, v_en := (v_en v)(t := True)\<rparr>) v'
      else v_join v u = UNJOINED \<and>
        handed (v\<lparr>v_glock := True, v_en := (v_en v)(t := False), v_join := (v_join v)(u := t)\<rparr>) v'))"
  unfolding thrille_join_def BeforeJoin_def
  by (rule refines_weaken, (rule call_rules)+) (auto split: if_splits)

lemma effect_finish:
  "refines (thrille_exit M t r) (\<lambda>v p v'. \<not> v_glock v \<and> p = Gone \<and> handed (a_finish t (v\<lparr>v_glock := True\<rparr>)) v')"
  "refines (routine_end M t r) (\<lambda>v p v'. \<not> v_glock v \<and> p = Gone \<and> handed (a_finish t (v\<lparr>v_glock := True\<rparr>)) v')"
  unfolding thrille_exit_def BeforeExit_def glock_gunlock_def SimulateExit_def routine_end_def ThreadFinish_def finalizeThread_def
  by (rule refines_weaken, (rule call_rules)+, auto simp: a_finish_eq launched_glock split: if_splits)+

lemma effect_create:
  "refines (thrille_create M t r u) (\<lambda>v p v'. \<not> v_glock v \<and> p = Paused KReturn \<and>
     handed ((a_new_thread u v)\<lparr>v_glock := True\<rparr>) v')"
proof -
  have new: "refines (upd (initializeThreadData u)) (\<lambda>v _ v'. v' = a_new_thread u v)"
    by (rule refines_upd) simp
  show ?thesis
    unfolding thrille_create_def BeforeCreate_def AfterCreate_def
    by (rule refines_weaken, (rule call_rules new)+) (auto simp: a_new_thread_glock)
qed

lemma effect_points:
  "refines (memory_access M t r a w) (\<lambda>v p v'. (p = Running \<and> v' = v) \<or>
     (\<not> v_glock v \<and> p = Paused KSection \<and> handed (v\<lparr>v_glock := True\<rparr>) v'))"
  "refines (SimulateSleep M t r) (\<lambda>v p v'. \<not> v_glock v \<and> handed (v\<lparr>v_glock := True\<rparr>) v')"
  "refines (SimulateUsleep M t r) (\<lambda>v p v'. \<not> v_glock v \<and> handed (v\<lparr>v_glock := True\<rparr>) v')"
  "refines (thrilleSchedPoint M t r) (\<lambda>v p v'. \<not> v_glock v \<and> handed (v\<lparr>v_glock := True\<rparr>) v')"
  "refines (thrilleCheckpoint M t r) (\<lambda>v p v'. \<not> v_glock v \<and> handed (v\<lparr>v_glock := True\<rparr>) v')"
  unfolding memory_access_def tracker_tryToSchedule_def tracker_isSchedulingPoint_def myMemoryRead_def myMemoryWrite_def SimulateSleep_def SimulateUsleep_def
    thrilleSchedPoint_def thrilleCheckpoint_def
  by (rule refines_weaken, (rule call_rules refines_gets)+, auto split: if_splits)+

lemma effect_barrier_wait:
  assumes "b \<noteq> NULL"
  shows "refines (thrille_barrier_wait M t r b) (\<lambda>v p v'. \<not> v_glock v \<and> p = Paused (KBarrier b) \<and>
     (handed (a_open_barrier t b (v\<lparr>v_glock := True\<rparr>)) v' \<or>
      handed (v\<lparr>v_glock := True, v_bar := (v_bar v)(t := b), v_en := (v_en v)(t := False)\<rparr>) v'))"
proof -
  have waiting: "refines (gets (\<lambda>s. getThreadsWaitingOnBarrier b (bt s)))
      (\<lambda>v x v'. v' = v \<and> (\<forall>u. u \<in> set x \<longleftrightarrow> v_bar v u = b))"
    using set_keys_with_value [OF _ assms] by (intro refinesI) (auto simp: getThreadsWaitingOnBarrier_def wf_def)
  have clear: "refines (upd (\<lambda>s. s\<lparr>bt := clearThreadsWaitingOnBarrier b (bt s)\<rparr>))
      (\<lambda>v _ v'. v' = v\<lparr>v_bar := (\<lambda>u. if v_bar v u = b then NULL else v_bar v u)\<rparr>)"
    by (rule refines_upd) (rule wf_view_clear_barrier)
  have opened: "refines (open_barrier t b) (\<lambda>v _ v'. v' = a_open_barrier t b v)"
    unfolding open_barrier_def
    by (rule refines_weaken, (rule waiting clear refines_enable_all call_rules)+)
      (auto simp: a_open_barrier_def fun_eq_iff)
  show ?thesis
    unfolding thrille_barrier_wait_def BeforeBarrierWait_def
    by (rule refines_weaken, (rule opened call_rules refines_gets)+) (auto split: if_splits)
qed

end

end
