(* ===== verification/Serial_Steps.thy ===== *)
theory Serial_Steps
  imports Serial_Safety
begin

text \<open>
  The remaining handlers (condition variables, objects, resumptions), and the theorem that
  every step of the machine keeps the invariant, for every scheduler that keeps the contract.
\<close>

lemma launched_eqI: "launched u v1 \<Longrightarrow> u = w \<Longrightarrow> launched w v1"
  by simp

lemma handed_eqI: "launched u v1 \<Longrightarrow> u = w \<Longrightarrow> handed w (v1\<lparr>v_glock := False\<rparr>)"
  by auto

lemma cond_wait_eq:
  "(a_release l (v\<lparr>v_en := (v_en v)(t := timed), v_glock := g, v_mutex := (v_mutex v)(l := MFree)\<rparr>))
      \<lparr>v_cond := (v_cond v)(t := c)\<rparr> = (a_cond_wait t c l timed v)\<lparr>v_glock := g\<rparr>"
  by (rule view.equality) (simp_all add: a_cond_wait_def a_release_def fun_eq_iff)

lemma a_release_sel [simp]:
  "v_cond (a_release l v) = v_cond v" "v_glock (a_release l v) = v_glock v" "v_fin (a_release l v) = v_fin v"
  by (simp_all add: a_release_def)

lemma a_cond_wait_glock [simp]: "v_glock (a_cond_wait t c l timed v) = v_glock v"
  by (simp add: a_cond_wait_def)

context serial_methods
begin

lemma refines_release_for_wait:
  assumes "l \<noteq> NULL"
  shows "refines (release_for_wait M t r c l) (\<lambda>v _ v'. v_fin v t \<or>
     v' = (a_release l (v\<lparr>v_mutex := (v_mutex v)(l := MFree)\<rparr>))\<lparr>v_cond := (v_cond v)(t := c)\<rparr>)"
  unfolding release_for_wait_def BeforeMutexUnlock_def AfterMutexUnlock_def
  by (rule refines_weaken, (rule call_rules refines_release [OF assms])+)
    (auto simp: EINVAL_def split: if_splits)

lemma effect_cond_wait:
  assumes "l \<noteq> NULL"
  shows "refines (thrille_cond_wait M t r c l) (\<lambda>v p v'. \<not> v_glock v \<and> p = OnCond r c l False \<and>
     (v_fin v t \<or> handed ((a_cond_wait t c l False v)\<lparr>v_glock := True\<rparr>) v'))"
    "refines (thrille_cond_timedwait M t r c l) (\<lambda>v p v'. \<not> v_glock v \<and> p = OnCond r c l True \<and>
     (v_fin v t \<or> handed ((a_cond_wait t c l True v)\<lparr>v_glock := True\<rparr>) v'))"
  unfolding thrille_cond_wait_def thrille_cond_timedwait_def BeforeCondWait_def BeforeCondTimedwait_def
    SimulateCondWait_def SimulateCondTimedwait_def
  by (rule refines_weaken, (rule refines_release_for_wait [OF assms] call_rules)+,
      auto simp: launched_glock cond_wait_eq elim!: handed_eqI)+

end

section \<open>Signals\<close>

lemma glock_id [simp]: "\<not> v_glock v \<Longrightarrow> v\<lparr>v_glock := False\<rparr> = v" for v :: view
  by (rule view.equality) simp_all

lemma refines_gets_cond:
  "refines (gets cond_map) (\<lambda>v cm v'. v' = v \<and> cm_ok cm \<and> cm_get NULL cm = v_cond v)"
  by (rule refinesI) (auto simp: wf_def)

text \<open>The thread that was woken, if any, waited on the condition of the point.\<close>

definition woke :: "addr \<Rightarrow> (thrID \<Rightarrow> addr) \<Rightarrow> thrID option \<times> SignalPointInfo \<Rightarrow> view \<Rightarrow> view \<Rightarrow> bool" where
  "woke c waits x v v' \<longleftrightarrow> sg_cond (snd x) = c \<and>
     (case fst x of None \<Rightarrow> v' = v | Some u \<Rightarrow> waits u = c \<and> v' = a_signal u v)"

context serial_methods
begin

lemma refines_scheduleCond:
  "refines (m_scheduleCond M t g) (\<lambda>v x v'. woke (sg_cond g) (cm_get NULL (sg_cond_map g)) x v v')"
  by (rule refines_weaken [OF schedule_cond_law]) (auto simp: woke_def)

lemma refines_wake_chosen:
  "refines (wake_chosen M t g) (\<lambda>v x v'. woke (sg_cond g) (cm_get NULL (sg_cond_map g)) x v v')"
  unfolding wake_chosen_def
  by (rule refines_weaken, (rule refine_rules refines_scheduleCond)+) (auto simp: touch_point_def)

lemmas signal_rules = call_rules refines_scheduleCond refines_wake_chosen select_law next_signal_law

lemma refines_wakeThreadWaitingOnCond:
  "refines (wakeThreadWaitingOnCond M g) (\<lambda>v x v'. woke (sg_cond g) (cm_get NULL (sg_cond_map g)) x v v')"
  unfolding wakeThreadWaitingOnCond_def
  by (rule refines_weaken, (rule signal_rules)+) (auto simp: woke_def split: if_splits)

lemma refines_wake_another:
  "refines (wake_another M g) (\<lambda>v x v'. woke (sg_cond g) (v_cond v) x v v')"
  unfolding wake_another_def
  by (rule refines_weaken, (rule signal_rules refines_gets_cond)+) (auto simp: woke_def split: if_splits)

lemma refines_signal_end:
  "refines (signal_end M t g) (\<lambda>v p v'. \<not> v_glock v \<and> p = Paused KReturn \<and>
     handed (v\<lparr>v_glock := True, v_en := (v_en v)(t := True)\<rparr>) v')"
  unfolding signal_end_def SimulateCondSignal_end_def SimulateCondBroadcast_end_def
  by (rule refines_weaken, (rule call_rules)+) (auto split: if_splits)

lemma refines_await_or_end:
  "refines (await_or_end M t x) (\<lambda>v p v'. case fst x of Some u \<Rightarrow> p = Awaiting u (snd x) \<and> v' = v
     | None \<Rightarrow> \<not> v_glock v \<and> p = Paused KReturn \<and> handed (v\<lparr>v_glock := True, v_en := (v_en v)(t := True)\<rparr>) v')"
  unfolding await_or_end_def
  by (cases x) (auto split: option.split intro: refines_weaken [OF refines_ret] refines_signal_end)

end

text \<open>What a signaller has done: woken a thread and waits for it, or ended the call.\<close>

definition signalled :: "thrID \<Rightarrow> addr \<Rightarrow> view \<Rightarrow> pc \<Rightarrow> view \<Rightarrow> bool" where
  "signalled t c v p v' \<longleftrightarrow>
     (\<exists>u g. sg_cond g = c \<and> p = Awaiting u g \<and> v_cond v u = c \<and> v' = a_signal u v) \<or>
     (\<not> v_glock v \<and> p = Paused KReturn \<and> handed (v\<lparr>v_glock := True, v_en := (v_en v)(t := True)\<rparr>) v')"

lemma signalledI:
  "woke c (v_cond v) x v v1 \<Longrightarrow>
   case fst x of Some u \<Rightarrow> p = Awaiting u (snd x) \<and> v' = v1
     | None \<Rightarrow> \<not> v_glock v1 \<and> p = Paused KReturn \<and> handed (v1\<lparr>v_glock := True, v_en := (v_en v1)(t := True)\<rparr>) v' \<Longrightarrow>
   signalled t c v p v'"
  by (auto simp: woke_def signalled_def split: option.splits)

context serial_methods
begin

lemma effect_signal:
  "refines (thrille_cond_signal M t r c) (\<lambda>v p v'. signalled t c v p v')"
  "refines (thrille_cond_broadcast M t r c) (\<lambda>v p v'. signalled t c v p v')"
  unfolding thrille_cond_signal_def thrille_cond_broadcast_def BeforeCondSignal_def BeforeCondBroadcast_def
    SimulateCondSignal_def SimulateCondBroadcast_def
  by (rule refines_weaken, (rule refines_wakeThreadWaitingOnCond refines_gets_cond refines_await_or_end call_rules)+,
      auto simp: mk_SignalPointInfo_def intro!: signalledI)+

lemma effect_ready:
  "refines (do_ready M t g) (\<lambda>v p v'. signalled t (sg_cond g) v p v')"
  unfolding do_ready_def
  by (rule refines_weaken, (rule refines_if refines_seq refines_wake_another refines_await_or_end refines_signal_end)+)
    (auto simp: signalled_def [of _ _ _ "Paused KReturn"] intro!: signalledI split: if_splits)

end
section \<open>Objects\<close>

lemma refines_mutex_init [refine_rules]:
  "refines (pthread_mutex_init l) (\<lambda>v _ v'. v' = v\<lparr>v_mutex := (v_mutex v)(l := MFree)\<rparr>)"
  by (rule refinesI) (auto simp: pthread_mutex_init_def set_mutex_def wf_def view_def)

lemma refines_mutex_destroy [refine_rules]:
  "refines (pthread_mutex_destroy l) (\<lambda>v _ v'. v' = v \<or>
     (v_mutex v l = MFree \<and> v' = v\<lparr>v_mutex := (v_mutex v)(l := MInvalid)\<rparr>))"
  by (rule refinesI)
    (auto simp: pthread_mutex_destroy_def mutex_at_def set_mutex_def wf_def view_def split: mutex_state.splits)

lemma effect_mutex_init:
  "refines (thrille_mutex_init t r l) (\<lambda>v p v'. p = Running \<and> v' = v\<lparr>v_mutex := (v_mutex v)(l := MFree)\<rparr>)"
  unfolding thrille_mutex_init_def BeforeMutexInit_def
  by (rule refines_weaken, (rule refine_rules)+) auto

lemma effect_mutex_destroy:
  "refines (thrille_mutex_destroy t r l) (\<lambda>v p v'. p = Running \<and> (v' = v \<or>
     (v_mutex v l = MFree \<and> v' = v\<lparr>v_mutex := (v_mutex v)(l := MInvalid)\<rparr>)))"
  unfolding thrille_mutex_destroy_def SimulateMutexDestroy_def
  by (rule refines_weaken, (rule refine_rules)+) auto

lemma effect_sem_init:
  "refines (thrille_sem_init t r a n) (\<lambda>v p v'. p = Running \<and> (v' = v \<or> v' = v\<lparr>v_sem := (v_sem v)(a := Some n)\<rparr>))"
  unfolding thrille_sem_init_def BeforeSemInit_def
  by (rule refines_weaken, (rule refine_rules)+) auto

lemma effect_sem_destroy:
  "refines (thrille_sem_destroy t r a) (\<lambda>v p v'. p = Running \<and> v' = v\<lparr>v_sem := (v_sem v)(a := None)\<rparr>)"
  unfolding thrille_sem_destroy_def SimulateSemDestroy_def
  by (rule refines_weaken, (rule refine_rules)+) auto

lemma effect_barrier_init:
  "refines (thrille_barrier_init t r b n) (\<lambda>v p v'. p = Running \<and> v' = v\<lparr>v_count := (v_count v)(b := Some n)\<rparr>)"
  unfolding thrille_barrier_init_def BeforeBarrierInit_def
  by (rule refines_weaken, (rule refine_rules)+) auto

lemma effect_assert: "refines (thrilleAssert t r b) (\<lambda>v _ v'. v' = v)"
  unfolding thrilleAssert_def
  by (rule refines_weaken, (rule refine_rules)+) (auto split: if_splits)

end
