(* ===== verification/Serial_Resume.thy ===== *)
theory Serial_Resume
  imports Serial_Steps
begin

text \<open>What a thread does when it gets the token, or its turn, back; and every step keeps the invariant.\<close>

section \<open>Resumptions\<close>

lemma a_acquire_glock: "a_acquire t l (v\<lparr>v_glock := g\<rparr>) = (a_acquire t l v)\<lparr>v_glock := g\<rparr>"
  by (rule view.equality) (simp_all add: a_acquire_def fun_eq_iff)

lemma a_acquire_sel [simp]: "v_mutex (a_acquire t l v) = v_mutex v" "v_glock (a_acquire t l v) = v_glock v"
  by (simp_all add: a_acquire_def)

text \<open>What \<open>SimulateMutexLock\<close> does: the bookkeeping of an acquisition, and a \<open>trylock\<close>.\<close>

definition locked :: "thrID \<Rightarrow> addr \<Rightarrow> view \<Rightarrow> int \<Rightarrow> view \<Rightarrow> bool" where
  "locked t l v x v' \<longleftrightarrow>
     (v_mutex v l = MFree \<and> x = OPERATION_SUCCESSFUL \<and> v' = (a_acquire t l v)\<lparr>v_mutex := (v_mutex v)(l := MHeld)\<rparr>) \<or>
     (v_mutex v l = MHeld \<and> x = EBUSY \<and> v' = a_acquire t l v) \<or>
     (v_mutex v l = MInvalid \<and> x = EINVAL \<and> v' = a_acquire t l v)"

text \<open>The global lock is taken and released around them.\<close>

lemma acquire_section:
  "\<not> v_glock v \<Longrightarrow> (a_acquire t l (v\<lparr>v_glock := True, v_mutex := m\<rparr>))\<lparr>v_glock := False\<rparr> = (a_acquire t l v)\<lparr>v_mutex := m\<rparr>"
  by (rule view.equality) (simp_all add: a_acquire_def fun_eq_iff)

lemma block_section:
  "\<not> v_glock v \<Longrightarrow> (a_block_sem a (v\<lparr>v_glock := True, v_sem := s, v_sr := r\<rparr>))\<lparr>v_glock := False\<rparr> =
     a_block_sem a (v\<lparr>v_sem := s, v_sr := r\<rparr>)"
  by (rule view.equality) (simp_all add: a_block_sem_def fun_eq_iff)

lemma refines_SimulateMutexLock:
  assumes "l \<noteq> NULL"
  shows "refines (SimulateMutexLock t l w) (\<lambda>v x v'. (w \<or> \<not> v_glock v) \<and> locked t l v x v')"
  unfolding SimulateMutexLock_def
  by (cases w; simp only: if_True if_False; rule refines_weaken, (rule refines_acquire [OF assms] refine_rules)+)
    (elim exE conjE disjE; simp add: locked_def a_acquire_glock)+

lemma refines_relock:
  assumes "l \<noteq> NULL"
  shows "refines (SimulateCondWait_relock t l) (\<lambda>v x v'. x = OPERATION_SUCCESSFUL \<and> (\<exists>y. locked t l v y v'))"
    "refines (SimulateCondTimedwait_relock t l w) (\<lambda>v x v'.
       x = (if w then OPERATION_SUCCESSFUL else ETIMEDOUT) \<and> (\<exists>y. locked t l v y v'))"
  unfolding SimulateCondWait_relock_def SimulateCondTimedwait_relock_def glock_gunlock_def
  by (rule refines_weaken, (rule refines_SimulateMutexLock [OF assms] refine_rules)+, force)+

lemma refines_SimulateMutexTrylock:
  assumes "l \<noteq> NULL"
  shows "refines (SimulateMutexTrylock t l) (\<lambda>v x v'. \<not> v_glock v \<and>
     ((v_mutex v l = MFree \<and> x = OPERATION_SUCCESSFUL \<and> v' = (a_acquire t l v)\<lparr>v_mutex := (v_mutex v)(l := MHeld)\<rparr>) \<or>
      (v_mutex v l \<noteq> MFree \<and> x \<noteq> OPERATION_SUCCESSFUL \<and> v' = v)))"
  unfolding SimulateMutexTrylock_def
  by (rule refines_weaken, (rule refines_acquire [OF assms] refine_rules)+)
    (elim exE conjE disjE; simp add: EBUSY_def EINVAL_def acquire_section split: if_splits)

lemma refines_SimulateSemWait:
  assumes "a \<noteq> NULL"
  shows "refines (SimulateSemWait t a) (\<lambda>v x v'. \<not> v_glock v \<and> x = OPERATION_SUCCESSFUL \<and> v_sr v t = a \<and>
     (\<exists>n. v_sem v a = Some (Suc n) \<and>
        v' = (let v1 = v\<lparr>v_sem := (v_sem v)(a := Some n), v_sr := (v_sr v)(t := NULL)\<rparr>
              in if n = 0 then a_block_sem a v1 else v1)))"
  unfolding SimulateSemWait_def
  by (rule refines_weaken, (rule refines_threadHasPassedSemaphore [OF assms] refine_rules)+)
    (elim exE conjE disjE; simp add: Let_def block_section split: if_splits)

lemma refines_glock_gunlock: "refines glock_gunlock (\<lambda>v _ v'. \<not> v_glock v \<and> v' = v)"
  unfolding glock_gunlock_def by (rule refines_weaken, (rule refine_rules)+) auto

text \<open>Taking the token, and resuming.\<close>

lemma view_sem_take: "view (sem_take t s) = a_take t (view s)" "wf s \<Longrightarrow> wf (sem_take t s)"
  by (simp_all add: sem_take_def a_take_def view_def wf_def)

lemma view_wait_sem_take: "view (wait_sem_take t s) = a_wait_take t (view s)" "wf s \<Longrightarrow> wf (wait_sem_take t s)"
  by (simp_all add: wait_sem_take_def a_wait_take_def view_def wf_def)

lemma can_take_view: "can_take t s \<longleftrightarrow> (\<exists>n. v_tok (view s) t = Some n \<and> 0 < n)"
  by (auto simp: can_take_def split: option.splits)

lemma can_wait_take_view: "can_wait_take t s \<longleftrightarrow> (\<exists>n. v_wtok (view s) t = Some n \<and> 0 < n)"
  by (auto simp: can_wait_take_def split: option.splits)

lemma inv_kont:
  assumes "inv g tok v pcs" and "pcs t = Paused k"
  shows "kont_ok v t k"
  using assms by (metis inv_def thread_ok.simps(5))

lemma resume_locked:
  assumes i: "inv False (Some (InSem t)) v pcs" and k: "pcs t = Paused k" "kont_lock k = Some l"
    and x: "locked t l (a_take t v) x v'"
  shows "inv False (Some (Held t)) v' (pcs(t := Running))"
    and "v_mutex v l \<noteq> MInvalid \<Longrightarrow> x = OPERATION_SUCCESSFUL \<and> v_mutex v l = MFree"
proof -
  have kl: "k \<in> {KLock l, KRelock l} \<or> (\<exists>w. k = KTimedRelock l w)" using k(2) by (cases k) auto
  have "at_lock v t l" using inv_kont [OF i k(1)] kl by auto
  then have "v_lr v t = l" "l \<noteq> NULL" using inv_insem [OF i] by (auto simp: thread_defs)
  then have m: "v_mutex v l \<noteq> MHeld" using i by (auto simp: inv_def obj_ok_def)
  then have "v' = a_acquire t l (a_take t v) \<and> v_mutex v l = MInvalid \<or>
      v' = (a_acquire t l (a_take t v))\<lparr>v_mutex := (v_mutex v)(l := MHeld)\<rparr>"
    using x by (auto simp: locked_def a_take_def)
  from inv_resume_lock [OF i k(1) kl this] show "inv False (Some (Held t)) v' (pcs(t := Running))" .
  show "x = OPERATION_SUCCESSFUL \<and> v_mutex v l = MFree" if "v_mutex v l \<noteq> MInvalid"
    using x m that by (auto simp: locked_def a_take_def)
qed

lemma kont_nonnull:
  assumes "kont_ok v t k"
  shows "kont_lock k = Some l \<Longrightarrow> l \<noteq> NULL" "k = KTrylock l \<Longrightarrow> l \<noteq> NULL" "k = KSemWait a \<Longrightarrow> a \<noteq> NULL"
  using assms by (cases k; auto simp: thread_defs)+

lemma resume_token:
  assumes "serial_inv (s, pcs)" and "pcs t = Paused k" and "can_take t s"
  shows "wf (sem_take t s)" and "inv False (Some (InSem t)) (view s) pcs" and "view (sem_take t s) = a_take t (view s)"
proof -
  obtain tok where "wf s" and i: "inv False (Some tok) (view s) pcs" using assms(1) by (auto simp: serial_inv_def)
  then show "wf (sem_take t s)" "view (sem_take t s) = a_take t (view s)" by (simp_all add: view_sem_take)
  obtain n where n: "v_tok (view s) t = Some n" "0 < n" using assms(3) by (auto simp: can_take_view)
  from can_take_insem [OF i n] assms(2) i show "inv False (Some (InSem t)) (view s) pcs" by simp
qed

lemma resume_plain:
  assumes "serial_inv (s, pcs)" and "pcs t = Paused k" and "can_take t s"
    and "refines m (\<lambda>v x v'. v' = v)" and "m (sem_take t s) = Inr (x, s')"
    and "k \<in> {KReturn, KSection} \<or> (\<exists>u. k = KJoin u) \<or> (\<exists>b. k = KBarrier b)"
  shows "wf s' \<and> inv False (Some (Held t)) (view s') (pcs(t := Running))"
  using refinesD [OF assms(4,5) resume_token(1) [OF assms(1-3)]] resume_token [OF assms(1-3)]
    inv_resume_plain [OF resume_token(2) [OF assms(1-3)] assms(2)] assms(6) by auto

theorem resume_keeps:
  assumes s: "serial_inv (s, pcs)" "pcs t = Paused k" "can_take t s"
    and r: "do_resume t k (sem_take t s) = Inr (x, s')"
  shows "wf s' \<and> inv False (Some (Held t)) (view s') (pcs(t := Running))"
proof -
  note tk = resume_token [OF s]
  note ok = inv_kont [OF tk(2) s(2)]
  note nn = kont_nonnull [OF ok]
  have gg: "refines (bnd glock_gunlock (\<lambda>_. ret OPERATION_SUCCESSFUL)) (\<lambda>v x v'. v' = v)"
    by (rule refines_weaken, (rule refines_seq refines_glock_gunlock refines_ret)+) auto
  have ret: "refines (ret OPERATION_SUCCESSFUL) (\<lambda>v x v'. v' = v)" by (rule refines_weaken [OF refines_ret]) auto
  show ?thesis
  proof (cases k)
    case (KLock l)
    with r nn have "wf s' \<and> (\<exists>y. locked t l (a_take t (view s)) y (view s'))"
      using refinesD [OF refines_SimulateMutexLock _ tk(1), of l t False x s'] tk(3) by auto
    with resume_locked(1) [OF tk(2) s(2)] KLock show ?thesis by auto
  next
    case (KRelock l)
    with r nn have "wf s' \<and> (\<exists>y. locked t l (a_take t (view s)) y (view s'))"
      using refinesD [OF refines_relock(1) _ tk(1), of l t x s'] tk(3) by auto
    with resume_locked(1) [OF tk(2) s(2)] KRelock show ?thesis by auto
  next
    case (KTimedRelock l w)
    with r nn have "wf s' \<and> (\<exists>y. locked t l (a_take t (view s)) y (view s'))"
      using refinesD [OF refines_relock(2) _ tk(1), of l t w x s'] tk(3) by auto
    with resume_locked(1) [OF tk(2) s(2)] KTimedRelock show ?thesis by auto
  next
    case (KTrylock l)
    have i: "inv False (Some (Held t)) (a_take t (view s)) (pcs(t := Running))"
      using inv_resume_plain [OF tk(2) s(2)] KTrylock by blast
    show ?thesis
      using refinesD [OF refines_SimulateMutexTrylock _ tk(1), of l t x s'] r nn KTrylock tk(3) i inv_trylock [OF i, of l] by auto
  next
    case (KSemWait a)
    then show ?thesis
      using refinesD [OF refines_SimulateSemWait _ tk(1), of a t x s'] r nn tk(3)
        inv_resume_sem [OF tk(2), of a _ "view s'"] s(2) by (auto simp: a_take_def)
  qed (use r resume_plain [OF s ret] resume_plain [OF s gg] in auto)
qed

section \<open>Woken on a condition variable\<close>

lemma launched_then_flag:
  assumes "launched v v1" and "v_cond v t = NULL"
  shows "launched (v\<lparr>v_sig := (v_sig v)(t := True)\<rparr>) (v1\<lparr>v_sig := (v_sig v1)(t := True)\<rparr>)"
  using assms launch_then_flag unfolding launched_def by fastforce

lemma leave_cond_rest [simp]: "v_cond (a_leave_cond t l v) t = NULL" "v_fin (a_leave_cond t l v) = v_fin v"
  by (simp_all add: a_leave_cond_def a_want_lock_def)

context serial_methods
begin

lemma refines_leave_cond:
  "refines (leave_cond M t r l) (\<lambda>v _ v'. \<not> v_glock v \<and> v' = a_leave_cond t l v)"
  unfolding leave_cond_def BeforeMutexLock_def signalThreadReady_def if_True
  by (rule refines_weaken, (rule call_rules)+) (auto simp: a_leave_cond_def a_want_lock_def split: if_splits)

lemma effect_woken:
  "refines (do_woken M t r l False) (\<lambda>v p v'. p = Paused (KRelock l) \<and> v' = a_leave_cond t l v)"
  "refines (do_woken M t r l True) (\<lambda>v p v'. p = Paused (KTimedRelock l (v_sig v t)) \<and>
     (if v_sig v t then v' = a_leave_cond t l v
      else handed ((a_leave_cond t l v)\<lparr>v_glock := True, v_sig := (v_sig v)(t := True)\<rparr>) v'))"
proof -
  show "refines (do_woken M t r l False) (\<lambda>v p v'. p = Paused (KRelock l) \<and> v' = a_leave_cond t l v)"
    unfolding do_woken_def SimulateCondWait_woken_def if_False
    by (rule refines_weaken, (rule refines_leave_cond call_rules)+) auto
  have "handed ((a_leave_cond t l v)\<lparr>v_glock := True, v_sig := (v_sig v)(t := True)\<rparr>)
      (v1\<lparr>v_sig := (v_sig v1)(t := True), v_glock := False\<rparr>)"
    if "launched ((a_leave_cond t l v)\<lparr>v_glock := True\<rparr>) v1" for v v1
    using launched_then_flag [OF that, of t] by (auto simp: leave_cond_sel elim: handed_eqI)
  note flag = this
  show "refines (do_woken M t r l True) (\<lambda>v p v'. p = Paused (KTimedRelock l (v_sig v t)) \<and>
     (if v_sig v t then v' = a_leave_cond t l v
      else handed ((a_leave_cond t l v)\<lparr>v_glock := True, v_sig := (v_sig v)(t := True)\<rparr>) v'))"
    unfolding do_woken_def SimulateCondTimedwait_woken_def if_True
    by (rule refines_weaken, (rule refines_leave_cond call_rules)+)
      (auto simp: leave_cond_sel flag split: if_splits)
qed

theorem woken_keeps:
  assumes s: "serial_inv (s, pcs)" "pcs t = OnCond r c l timed" "can_wait_take t s"
    and w: "do_woken M t r l timed (wait_sem_take t s) = Inr (p, s')"
  shows "serial_inv (s', pcs(t := p))"
proof -
  obtain tok where wf: "wf s" and i: "inv False (Some tok) (view s) pcs" using s(1) by (auto simp: serial_inv_def)
  let ?v = "a_wait_take t (view s)"
  obtain n where n: "v_wtok (view s) t = Some n" "0 < n" using s(3) by (auto simp: can_wait_take_view)
  have tok: "tok = TimedOut t \<or> (\<exists>h. tok = Signalled h t)" using can_wait_take_tok [OF i n] s(2) by simp
  have tk: "tok_ok (Some tok) (view s) pcs" using i by (simp add: inv_def)
  have sig: "v_sig ?v t = (tok \<noteq> TimedOut t)" using tok_counts(3) [OF tk, of t] s(2) by (simp add: a_wait_take_def)
  have v: "view (wait_sem_take t s) = ?v" "wf (wait_sem_take t s)" using wf by (simp_all add: view_wait_sem_take)
  have quiet: "serial_inv (s', pcs(t := p))"
    if "tok \<noteq> TimedOut t" "p = Paused k" "kont_lock k = Some l" "wf s'" "view s' = a_leave_cond t l ?v" for k
    using tok that inv_woken_signalled [where pcs = pcs and t = t and k = k and g = False and v = "view s"] s(2) i
    by (auto simp: serial_inv_def)
  show ?thesis
  proof (cases timed)
    case False
    then have "tok \<noteq> TimedOut t" using tk s(2) by (auto simp: tok_ok_def)
    with quiet [of "KRelock l"] show ?thesis using refinesD [OF effect_woken(1), of t r l] w v False by auto
  next
    case True
    then have "do_woken M t r l True (wait_sem_take t s) = Inr (p, s')" using w by simp
    note e = refinesD [OF effect_woken(2) this v(2), unfolded v(1)]
    show ?thesis
    proof (cases "tok = TimedOut t")
      case False
      with quiet [of "KTimedRelock l True"] e sig show ?thesis by simp
    next
      case True
      let ?w = "(a_leave_cond t l ?v)\<lparr>v_sig := (v_sig (view s))(t := True)\<rparr>"
      have "wf s' \<and> p = Paused (KTimedRelock l False) \<and> handed ((a_leave_cond t l ?v)\<lparr>v_glock := True, v_sig := (v_sig ?v)(t := True)\<rparr>) (view s')"
        using e sig True by simp
      moreover have "(a_leave_cond t l ?v)\<lparr>v_glock := True, v_sig := (v_sig ?v)(t := True)\<rparr> = ?w\<lparr>v_glock := True\<rparr>"
        by (simp add: a_wait_take_def)
      ultimately have h: "wf s'" "p = Paused (KTimedRelock l False)" "handed (?w\<lparr>v_glock := True\<rparr>) (view s')" by simp_all
      have "inv False None ?w (pcs(t := p))"
        using inv_woken_timeout [where pcs = pcs and t = t and k = "KTimedRelock l False" and g = False and v = "view s"]
          s(2) i True h(2) by simp
      from inv_handed [OF inv_glock [OF this] h(3)] h(1) show ?thesis by (simp add: serial_inv_def)
    qed
  qed
qed

end

end
