(* ===== verification/Serial_Preserve.thy ===== *)
theory Serial_Preserve
  imports Serial_Resume
begin

text \<open>Every step of the machine keeps the invariant; so every reachable state satisfies it.\<close>

section \<open>Leaving the program\<close>

lemma enabled_id: "v_en v t \<Longrightarrow> v\<lparr>v_glock := g, v_en := (v_en v)(t := True)\<rparr> = v\<lparr>v_glock := g\<rparr>" for v :: view
  by (rule view.equality) (simp_all add: fun_eq_iff)

lemma running_token:
  assumes "serial_inv (s, pcs)" and "pcs t = Running"
  shows "wf s" and "inv False (Some (Held t)) (view s) pcs" and "live (view s) t"
proof -
  obtain tok where "wf s" and i: "inv False (Some tok) (view s) pcs" using assms(1) by (auto simp: serial_inv_def)
  then show "wf s" by simp
  have "tok = Held t" using i assms(2) by (auto simp: inv_def tok_ok_def)
  with i show "inv False (Some (Held t)) (view s) pcs" by simp
  from inv_running [OF this] show "live (view s) t" by simp
qed

lemma signalled_keeps:
  assumes i: "inv False (Some (Held t)) v pcs" and "signalled t c v p v'" and "c \<noteq> NULL"
  shows "\<exists>tok. inv False (Some tok) v' (pcs(t := p))"
  using assms(2) unfolding signalled_def
proof
  assume "\<exists>u g. sg_cond g = c \<and> p = Awaiting u g \<and> v_cond v u = c \<and> v' = a_signal u v"
  then obtain u g where u: "sg_cond g = c" "p = Awaiting u g" "v_cond v u = c" "v' = a_signal u v" by blast
  with inv_signal [OF i, of u g] assms(3) show ?thesis by auto
next
  assume h: "\<not> v_glock v \<and> p = Paused KReturn \<and> handed (v\<lparr>v_glock := True, v_en := (v_en v)(t := True)\<rparr>) v'"
  have "v_en v t" using inv_running [OF i] by (simp add: live_def)
  with h have "handed (v\<lparr>v_glock := True\<rparr>) v'" by (simp add: enabled_id)
  moreover have "inv True None (v\<lparr>v_glock := True\<rparr>) (pcs(t := p))"
    using inv_pause [OF inv_glock [OF i]] h by blast
  ultimately show ?thesis using inv_handed by blast
qed

text \<open>A call that ends with the token handed on.\<close>

lemma handed_keeps:
  assumes "inv g None v pcs" and "handed v (view s')" and "wf s'"
  shows "serial_inv (s', pcs)"
  using inv_handed [OF assms(1,2)] assms(3) by (simp add: serial_inv_def)

lemma running_keeps:
  assumes "inv False (Some (Held t)) (view s') pcs" and "wf s'" and "pcs t = Running"
  shows "serial_inv (s', pcs(t := Running))"
  using assms by (auto simp: serial_inv_def fun_upd_idem)

lemma spawn_other: "(\<And>u. c \<noteq> CCreate u) \<Longrightarrow> spawn c pcs = pcs"
  by (cases c) (auto simp: spawn_def)

lemma spawn_create [simp]: "spawn (CCreate u) pcs = pcs(u := Born)"
  by (simp add: spawn_def)

section \<open>Calls that do not schedule\<close>

lemma object_call_keeps:
  assumes s: "serial_inv (s, pcs)" "pcs t = Running" and ok: "call_ok s pcs t c"
    and c: "do_call M t r c s = Inr (p, s')"
    and k: "(\<exists>l. c = CMutexInit l \<or> c = CMutexDestroy l) \<or> (\<exists>a n. c = CSemInit a n) \<or> (\<exists>a. c = CSemDestroy a) \<or>
       (\<exists>b n. c = CBarrierInit b n) \<or> (\<exists>b. c = CAssert b)"
  shows "serial_inv (s', pcs(t := p))"
proof -
  note i = running_token [OF s]
  have "p = Running \<and> wf s' \<and> inv False (Some (Held t)) (view s') pcs"
    using k
  proof (elim disjE exE)
    fix l assume c': "c = CMutexInit l"
    show ?thesis using refinesD [OF effect_mutex_init _ i(1), of t r l] c ok inv_mutex_init [OF i(2), of l] by (auto simp: c')
  next
    fix l assume c': "c = CMutexDestroy l"
    show ?thesis using refinesD [OF effect_mutex_destroy _ i(1), of t r l p s'] c i(2) inv_mutex_destroy [OF i(2), of l] by (auto simp: c')
  next
    fix a n assume c': "c = CSemInit a n"
    show ?thesis using refinesD [OF effect_sem_init _ i(1), of t r a n p s'] c ok i(2) inv_sem_change [OF i(2), of a "Some n"] by (auto simp: c')
  next
    fix a assume c': "c = CSemDestroy a"
    show ?thesis using refinesD [OF effect_sem_destroy _ i(1), of t r a p s'] c ok i(2) inv_sem_change [OF i(2), of a None] by (auto simp: c')
  next
    fix b n assume c': "c = CBarrierInit b n"
    show ?thesis using refinesD [OF effect_barrier_init _ i(1), of t r b n p s'] c inv_count_change [OF i(2)] by (auto simp: c')
  next
    fix b assume c': "c = CAssert b"
    have "refines (do_call M t r c) (\<lambda>v p v'. p = Running \<and> v' = v)"
      unfolding c' do_call.simps by (rule refines_weaken, (rule refines_seq effect_assert refines_ret)+) auto
    from refinesD [OF this c i(1)] i(2) show ?thesis by auto
  qed
  with running_keeps s(2) show ?thesis by blast
qed

section \<open>Calls that schedule\<close>

context serial_methods
begin

lemma lock_call_keeps:
  assumes s: "serial_inv (s, pcs)" "pcs t = Running" and l: "l \<noteq> NULL"
  shows "thrille_mutex_lock M t r l s = Inr (p, s') \<Longrightarrow> serial_inv (s', pcs(t := p))"
    and "thrille_mutex_trylock M t r l s = Inr (p, s') \<Longrightarrow> serial_inv (s', pcs(t := p))"
    and "thrille_mutex_unlock M t r l s = Inr (p, s') \<Longrightarrow> serial_inv (s', pcs(t := p))"
proof -
  note i = running_token [OF s]
  let ?v = "(view s)\<lparr>v_glock := True\<rparr>"
  have g: "inv True (Some (Held t)) ?v pcs" by (rule inv_glock [OF i(2)])
  have en: "v_en (view s) t" "\<not> v_fin (view s) t" using i(3) unfolding live_def by blast+
  show "serial_inv (s', pcs(t := p))" if "thrille_mutex_lock M t r l s = Inr (p, s')"
    using refinesD [OF effect_lock [OF l] that i(1)] handed_keeps [OF inv_want_lock [OF g l]] by blast
  show "serial_inv (s', pcs(t := p))" if "thrille_mutex_trylock M t r l s = Inr (p, s')"
    using refinesD [OF effect_trylock that i(1)] handed_keeps [OF inv_pause [OF g, of "KTrylock l"]] l
    unfolding enabled_id [OF en(1)] by blast
  show "serial_inv (s', pcs(t := p))" if c: "thrille_mutex_unlock M t r l s = Inr (p, s')"
  proof -
    obtain v1 where e: "wf s'" "p = Paused KReturn" "handed (a_release l (v1\<lparr>v_glock := True\<rparr>)) (view s')"
      and v1: "v1 = (view s)\<lparr>v_mutex := (v_mutex (view s))(l := MFree)\<rparr> \<or> (v1 = view s \<and> v_mutex (view s) l \<noteq> MHeld)"
      using refinesD [OF effect_unlock [OF l] c i(1)] en(2) by blast
    have "v1\<lparr>v_glock := True\<rparr> = ?v\<lparr>v_mutex := (v_mutex ?v)(l := MFree)\<rparr> \<or>
        (v1\<lparr>v_glock := True\<rparr> = ?v \<and> v_mutex ?v l \<noteq> MHeld)" using v1 by auto
    moreover have "thread_ok (a_release l (v1\<lparr>v_glock := True\<rparr>)) t p"
      using thread_ok_release [OF l, of "v1\<lparr>v_glock := True\<rparr>" t p] i(3) v1 e(2) by (auto simp: thread_defs)
    ultimately show ?thesis
      using handed_keeps [OF inv_unlock [OF g l] e(3) e(1)] e(2) by simp
  qed
qed

lemma sem_call_keeps:
  assumes s: "serial_inv (s, pcs)" "pcs t = Running"
  shows "thrille_sem_wait M t r a s = Inr (p, s') \<Longrightarrow> serial_inv (s', pcs(t := p))"
    and "a \<noteq> NULL \<Longrightarrow> thrille_sem_post M t r a s = Inr (p, s') \<Longrightarrow> serial_inv (s', pcs(t := p))"
proof -
  note i = running_token [OF s]
  let ?v = "(view s)\<lparr>v_glock := True\<rparr>"
  have g: "inv True (Some (Held t)) ?v pcs" by (rule inv_glock [OF i(2)])
  show "serial_inv (s', pcs(t := p))" if "thrille_sem_wait M t r a s = Inr (p, s')"
    using refinesD [OF effect_sem_wait that i(1)] handed_keeps [OF inv_want_sem [OF g, of a]] by auto
  show "serial_inv (s', pcs(t := p))" if a: "a \<noteq> NULL" and c: "thrille_sem_post M t r a s = Inr (p, s')"
  proof -
    obtain v1 where e: "wf s'" "p = Paused KReturn" "handed (a_post_sem a v1) (view s')"
      and v1: "v1 = ?v \<and> v_sem ?v a \<noteq> Some 0 \<or>
        (\<exists>n. v_sem ?v a = Some n \<and> v1 = ?v\<lparr>v_sem := (v_sem ?v)(a := Some (Suc n))\<rparr>)"
      using refinesD [OF effect_sem_post [OF a] c i(1)] by auto
    from handed_keeps [OF inv_post [OF g a v1] e(3,1)] e(2) show ?thesis by simp
  qed
qed

end

context serial_methods
begin

lemma thread_call_keeps:
  assumes s: "serial_inv (s, pcs)" "pcs t = Running"
  shows "pcs u \<noteq> Absent \<Longrightarrow> u \<noteq> t \<Longrightarrow> thrille_join M t r u s = Inr (p, s') \<Longrightarrow> serial_inv (s', pcs(t := p))"
    and "thrille_exit M t r s = Inr (p, s') \<Longrightarrow> serial_inv (s', pcs(t := p))"
    and "routine_end M t r s = Inr (p, s') \<Longrightarrow> serial_inv (s', pcs(t := p))"
    and "pcs u = Absent \<Longrightarrow> u \<noteq> INVALID_THREAD \<Longrightarrow> thrille_create M t r u s = Inr (p, s') \<Longrightarrow>
      serial_inv (s', (pcs(u := Born))(t := p))"
proof -
  note i = running_token [OF s]
  let ?v = "(view s)\<lparr>v_glock := True\<rparr>"
  have g: "inv True (Some (Held t)) ?v pcs" by (rule inv_glock [OF i(2)])
  have en: "v_en (view s) t" using i(3) unfolding live_def by blast
  show "serial_inv (s', pcs(t := p))" if u: "pcs u \<noteq> Absent" "u \<noteq> t" and c: "thrille_join M t r u s = Inr (p, s')"
  proof (cases "v_fin (view s) u")
    case True
    then have "v_fin ?v u" by simp
    from refinesD [OF effect_join c i(1)] True handed_keeps [OF inv_join_finished [OF g this u(1)]]
    show ?thesis unfolding enabled_id [OF en] by auto
  next
    case False
    then have e: "wf s'" "p = Paused (KJoin u)" "v_join ?v u = UNJOINED" "\<not> v_fin ?v u"
      "handed (?v\<lparr>v_en := (v_en ?v)(t := False), v_join := (v_join ?v)(u := t)\<rparr>) (view s')"
      using refinesD [OF effect_join c i(1)] by simp_all
    from handed_keeps [OF inv_join_wait [OF g e(4,3) u] e(5,1)] e(2) show ?thesis by simp
  qed
  show "serial_inv (s', pcs(t := p))" if "thrille_exit M t r s = Inr (p, s')"
    using refinesD [OF effect_finish(1) that i(1)] handed_keeps [OF inv_finish [OF g]] by blast
  show "serial_inv (s', pcs(t := p))" if "routine_end M t r s = Inr (p, s')"
    using refinesD [OF effect_finish(2) that i(1)] handed_keeps [OF inv_finish [OF g]] by blast
  show "serial_inv (s', (pcs(u := Born))(t := p))" if u: "pcs u = Absent" "u \<noteq> INVALID_THREAD"
    and c: "thrille_create M t r u s = Inr (p, s')"
    using refinesD [OF effect_create c i(1)]
      handed_keeps [OF inv_pause [OF inv_glock [OF inv_create [OF i(2) u]], of KReturn True]] by blast
qed

lemma point_call_keeps:
  assumes s: "serial_inv (s, pcs)" "pcs t = Running"
  shows "memory_access M t r a w s = Inr (p, s') \<Longrightarrow> serial_inv (s', pcs(t := p))"
    and "refines m (\<lambda>v _ v'. \<not> v_glock v \<and> handed (v\<lparr>v_glock := True\<rparr>) v') \<Longrightarrow>
      bnd m (\<lambda>_. ret (Paused KReturn)) s = Inr (p, s') \<Longrightarrow> serial_inv (s', pcs(t := p))"
proof -
  note i = running_token [OF s]
  have g: "inv True (Some (Held t)) ((view s)\<lparr>v_glock := True\<rparr>) pcs" by (rule inv_glock [OF i(2)])
  show "serial_inv (s', pcs(t := p))" if "memory_access M t r a w s = Inr (p, s')"
    using refinesD [OF effect_points(1) that i(1)] handed_keeps [OF inv_pause [OF g, of KSection]]
      running_keeps [of t s' pcs] s(2) i(2) by auto
  show "serial_inv (s', pcs(t := p))"
    if m: "refines m (\<lambda>v _ v'. \<not> v_glock v \<and> handed (v\<lparr>v_glock := True\<rparr>) v')"
      and c: "bnd m (\<lambda>_. ret (Paused KReturn)) s = Inr (p, s')"
  proof -
    have "refines (bnd m (\<lambda>_. ret (Paused KReturn))) (\<lambda>v p v'. p = Paused KReturn \<and> handed (v\<lparr>v_glock := True\<rparr>) v')"
      by (rule refines_weaken, (rule refines_seq m refines_ret)+) auto
    from refinesD [OF this c i(1)] handed_keeps [OF inv_pause [OF g, of KReturn]] show ?thesis by blast
  qed
qed

lemma wait_call_keeps:
  assumes s: "serial_inv (s, pcs)" "pcs t = Running"
  shows "b \<noteq> NULL \<Longrightarrow> thrille_barrier_wait M t r b s = Inr (p, s') \<Longrightarrow> serial_inv (s', pcs(t := p))"
    and "c \<noteq> NULL \<Longrightarrow> l \<noteq> NULL \<Longrightarrow> thrille_cond_wait M t r c l s = Inr (p, s') \<Longrightarrow> serial_inv (s', pcs(t := p))"
    and "c \<noteq> NULL \<Longrightarrow> l \<noteq> NULL \<Longrightarrow> thrille_cond_timedwait M t r c l s = Inr (p, s') \<Longrightarrow> serial_inv (s', pcs(t := p))"
    and "c \<noteq> NULL \<Longrightarrow> thrille_cond_signal M t r c s = Inr (p, s') \<Longrightarrow> serial_inv (s', pcs(t := p))"
    and "c \<noteq> NULL \<Longrightarrow> thrille_cond_broadcast M t r c s = Inr (p, s') \<Longrightarrow> serial_inv (s', pcs(t := p))"
proof -
  note i = running_token [OF s]
  let ?v = "(view s)\<lparr>v_glock := True\<rparr>"
  have g: "inv True (Some (Held t)) ?v pcs" by (rule inv_glock [OF i(2)])
  have nf: "\<not> v_fin (view s) t" using i(3) unfolding live_def by blast
  show "serial_inv (s', pcs(t := p))" if b: "b \<noteq> NULL" and c: "thrille_barrier_wait M t r b s = Inr (p, s')"
    using refinesD [OF effect_barrier_wait [OF b] c i(1)] handed_keeps [OF inv_barrier_open [OF g b]]
      handed_keeps [OF inv_barrier_wait [OF g b]] by auto
  show "serial_inv (s', pcs(t := p))" if c: "c \<noteq> NULL" "l \<noteq> NULL" and e: "thrille_cond_wait M t r c l s = Inr (p, s')"
    using refinesD [OF effect_cond_wait(1) [OF c(2)] e i(1)] nf handed_keeps [OF inv_glock [OF inv_cond_wait [OF i(2) c]]] by blast
  show "serial_inv (s', pcs(t := p))" if c: "c \<noteq> NULL" "l \<noteq> NULL" and e: "thrille_cond_timedwait M t r c l s = Inr (p, s')"
    using refinesD [OF effect_cond_wait(2) [OF c(2)] e i(1)] nf handed_keeps [OF inv_glock [OF inv_cond_wait [OF i(2) c]]] by blast
  show "serial_inv (s', pcs(t := p))" if c: "c \<noteq> NULL" and e: "thrille_cond_signal M t r c s = Inr (p, s')"
    using refinesD [OF effect_signal(1) e i(1)] signalled_keeps [OF i(2) _ c] by (auto simp: serial_inv_def)
  show "serial_inv (s', pcs(t := p))" if c: "c \<noteq> NULL" and e: "thrille_cond_broadcast M t r c s = Inr (p, s')"
    using refinesD [OF effect_signal(2) e i(1)] signalled_keeps [OF i(2) _ c] by (auto simp: serial_inv_def)
qed

lemma ready_keeps:
  assumes s: "serial_inv (s, pcs)" "pcs t = Awaiting u g" "waitThreadReady u s" and e: "do_ready M t g s = Inr (p, s')"
  shows "serial_inv (s', pcs(t := p))"
proof -
  obtain tok where wf: "wf s" and i: "inv False (Some tok) (view s) pcs" using s(1) by (auto simp: serial_inv_def)
  have "v_ready (view s) u" using s(3) by (simp add: waitThreadReady_def)
  from ready_relocked [OF i s(2) this] i have "inv False (Some (Relocked t u)) (view s) pcs" by simp
  note h = inv_ready [OF this]
  have "thread_ok (view s) t (Awaiting u g)" using i s(2) by (metis inv_def)
  then have "sg_cond g \<noteq> NULL" by simp
  from signalled_keeps [OF h _ this] refinesD [OF effect_ready e wf] show ?thesis by (auto simp: serial_inv_def)
qed

lemma start_keeps:
  assumes s: "serial_inv (s, pcs)" "pcs t = Born" and e: "ThreadStart M t s = Inr (x, s')"
  shows "serial_inv (s', pcs(t := Paused KReturn))"
proof -
  obtain tok where wf: "wf s" and i: "inv False (Some tok) (view s) pcs" using s(1) by (auto simp: serial_inv_def)
  have "refines (ThreadStart M t) (\<lambda>v _ v'. v' = v)"
    unfolding ThreadStart_def by (rule refines_weaken, (rule call_rules)+) auto
  from refinesD [OF this e wf] inv_start [OF i s(2)] show ?thesis by (auto simp: serial_inv_def)
qed

theorem call_keeps:
  assumes s: "serial_inv (s, pcs)" "pcs t = Running" and ok: "call_ok s pcs t c" and e: "do_call M t r c s = Inr (p, s')"
  shows "serial_inv (s', (spawn c pcs)(t := p))"
proof (cases "\<exists>u. c = CCreate u")
  case True
  then show ?thesis using thread_call_keeps(4) [OF s] ok e by auto
next
  case False
  have "serial_inv (s', pcs(t := p))"
  proof (cases c)
    case (CLock l) then show ?thesis using ok e lock_call_keeps(1) [OF s, of l] by simp
  next
    case (CTrylock l) then show ?thesis using ok e lock_call_keeps(2) [OF s, of l] by simp
  next
    case (CUnlock l) then show ?thesis using ok e lock_call_keeps(3) [OF s, of l] by simp
  next
    case (CSemWait a) then show ?thesis using e sem_call_keeps(1) [OF s, of r a] by simp
  next
    case (CSemPost a) then show ?thesis using ok e sem_call_keeps(2) [OF s, of a] by simp
  next
    case (CBarrierWait b) then show ?thesis using ok e wait_call_keeps(1) [OF s, of b] by simp
  next
    case (CCondWait d l) then show ?thesis using ok e wait_call_keeps(2) [OF s, of d l] by simp
  next
    case (CTimedwait d l) then show ?thesis using ok e wait_call_keeps(3) [OF s, of d l] by simp
  next
    case (CSignal d) then show ?thesis using ok e wait_call_keeps(4) [OF s, of d] by simp
  next
    case (CBroadcast d) then show ?thesis using ok e wait_call_keeps(5) [OF s, of d] by simp
  next
    case (CJoin u) then show ?thesis using ok e thread_call_keeps(1) [OF s, of u] by simp
  next
    case CExit then show ?thesis using e thread_call_keeps(2) [OF s] by simp
  next
    case CReturn then show ?thesis using e thread_call_keeps(3) [OF s] by simp
  next
    case (CRead a) then show ?thesis using e point_call_keeps(1) [OF s] by simp
  next
    case (CWrite a) then show ?thesis using e point_call_keeps(1) [OF s] by simp
  next
    case CSleep then show ?thesis
      using e point_call_keeps(2) [OF s effect_points(2)] by (simp add: thrille_sleep_def BeforeSleep_def bnd_ret)
  next
    case CUsleep then show ?thesis
      using e point_call_keeps(2) [OF s effect_points(3)] by (simp add: thrille_usleep_def BeforeUsleep_def bnd_ret)
  next
    case CSchedPoint then show ?thesis using e point_call_keeps(2) [OF s effect_points(4)] by simp
  next
    case CCheckpoint then show ?thesis using e point_call_keeps(2) [OF s effect_points(5)] by simp
  qed (use object_call_keeps [OF s ok e] False in blast)+
  with False show ?thesis by (simp add: spawn_other)
qed

theorem step_keeps:
  assumes "serial_step M c c'" and "serial_inv c"
  shows "serial_inv c'"
  using assms
proof (cases rule: serial_step.cases)
  case (step_resume pcs t k s v s')
  then show ?thesis using resume_keeps [of s pcs t k v s'] assms(2) by (auto simp: serial_inv_def)
qed (use assms(2) call_keeps start_keeps woken_keeps ready_keeps in auto)

theorem reachable_inv:
  assumes "reachable M c0 c" and "serial_inv c0"
  shows "serial_inv c"
  using assms by (induction rule: reachable.induct) (auto intro: step_keeps)

end

end
