(* ===== verification/Serial_Theorems.thy ===== *)
theory Serial_Theorems
  imports Serial_Preserve
begin

text \<open>
  What the invariant gives for runs of the base class: exactly one thread can go on in every
  reachable state, a lock is free when its next owner is resumed, a semaphore is positive when
  a waiter is resumed, and a thread is disabled exactly when what it waits for is not there.
\<close>

section \<open>The initial state\<close>

lemma wf_new_tracker: "wf (new_ExecutionTracker l main)"
  by (simp add: new_ExecutionTracker_def constructorHelper_def ExecutionTracker_raw_def initializeThreadData_def
      enableThread_def wf_def BarrierTracker_init_def cm_ok_def)

definition empty_view :: view where
  "empty_view = \<lparr>v_mutex = (\<lambda>_. MFree), v_sem = (\<lambda>_. None), v_tok = (\<lambda>_. None), v_wtok = (\<lambda>_. None),
     v_en = (\<lambda>_. False), v_fin = (\<lambda>_. False), v_join = (\<lambda>_. 0), v_lr = (\<lambda>_. NULL), v_lw = (\<lambda>_. NULL),
     v_sr = (\<lambda>_. NULL), v_sw = (\<lambda>_. NULL), v_cond = (\<lambda>_. NULL), v_ready = (\<lambda>_. False), v_sig = (\<lambda>_. False),
     v_bar = (\<lambda>_. NULL), v_count = (\<lambda>_. None), v_glock = False\<rparr>"

lemma cm_get_empty [simp]: "cm_get d [] = (\<lambda>_. d)"
  by (simp add: cm_get_def fun_eq_iff)

lemma view_new_tracker: "view (new_ExecutionTracker l main) = a_new_thread main empty_view"
  unfolding new_ExecutionTracker_def view_new_thread
  by (simp add: constructorHelper_def ExecutionTracker_raw_def BarrierTracker_init_def view_def empty_view_def)

lemma inv_initial:
  assumes "main \<noteq> INVALID_THREAD"
  shows "inv False (Some (Held main)) (a_new_thread main empty_view) ((\<lambda>_. Absent)(main := Running))"
proof -
  let ?v = "a_new_thread main empty_view" and ?pcs = "(\<lambda>_. Absent)(main := Running)"
  have "\<forall>t. thread_ok ?v t (?pcs t)" by (simp add: a_new_thread_def empty_view_def thread_defs)
  moreover have "obj_ok ?v" by (simp add: a_new_thread_def empty_view_def obj_ok_def)
  moreover have "join_ok ?v ?pcs" by (simp add: a_new_thread_def empty_view_def join_ok_def)
  moreover have "targets_ok ?pcs" by (simp add: targets_ok_def)
  moreover have "tok_ok (Some (Held main)) ?v ?pcs" by (simp add: a_new_thread_def empty_view_def tok_ok_def)
  ultimately show ?thesis using assms by (simp add: inv_def a_new_thread_def empty_view_def)
qed

lemma serial_inv_initial:
  "main \<noteq> INVALID_THREAD \<Longrightarrow> serial_inv (initial (new_ExecutionTracker l main) main)"
  using inv_initial wf_new_tracker by (auto simp: serial_inv_def initial_def view_new_tracker)

lemma reachable_serial_inv:
  assumes "reachable base_methods (initial (new_ExecutionTracker l main) main) c" and "main \<noteq> INVALID_THREAD"
  shows "serial_inv c"
  by (rule base.reachable_inv [OF assms(1) serial_inv_initial [OF assms(2)]])

section \<open>One thread at a time\<close>

definition may_run :: "'a ExecutionTracker_scheme \<Rightarrow> (thrID \<Rightarrow> pc) \<Rightarrow> thrID \<Rightarrow> bool" where
  "may_run s pcs t =
     (case pcs t of
        Absent \<Rightarrow> False
      | Born \<Rightarrow> can_take t s
      | Running \<Rightarrow> True
      | Paused k \<Rightarrow> can_take t s
      | OnCond r c l timed \<Rightarrow> can_wait_take t s
      | Awaiting u g \<Rightarrow> waitThreadReady u s
      | Gone \<Rightarrow> False)"

fun tok_at :: "token \<Rightarrow> thrID" where
  "tok_at (Held t) = t"
| "tok_at (InSem t) = t"
| "tok_at (TimedOut t) = t"
| "tok_at (Signalled h t) = t"
| "tok_at (Relocked h t) = h"

lemma tok_place:
  assumes "tok_ok (Some tok) v pcs"
  shows "case tok of Held t \<Rightarrow> pcs t = Running
     | InSem t \<Rightarrow> pcs t = Born \<or> (\<exists>k. pcs t = Paused k)
     | TimedOut t \<Rightarrow> \<exists>r c l. pcs t = OnCond r c l True
     | Signalled h t \<Rightarrow> (\<exists>g. pcs h = Awaiting t g) \<and> (\<exists>r c l b. pcs t = OnCond r c l b)
     | Relocked h t \<Rightarrow> (\<exists>g. pcs h = Awaiting t g) \<and> pcs t \<noteq> Absent"
  using assms by (cases tok) (simp_all add: tok_ok_def)

lemma may_run_iff:
  assumes "inv False (Some tok) (view s) pcs"
  shows "may_run s pcs t \<longleftrightarrow> t = tok_at tok"
proof -
  have tk: "tok_ok (Some tok) (view s) pcs" using assms by (simp add: inv_def)
  note pl = tok_place [OF tk]
  have run: "pcs t = Running \<longleftrightarrow> tok = Held t" using tk by (simp add: tok_ok_def)
  show ?thesis
  proof (cases "pcs t")
    case (Awaiting u g)
    then have a: "tok = Signalled t u \<or> tok = Relocked t u" using tok_awaiting [OF tk Awaiting] by simp
    then have "pcs u \<noteq> Absent" "tok = Signalled t u \<Longrightarrow> u \<noteq> t" using pl Awaiting by auto
    then show ?thesis
      using a tok_counts(4) [OF tk, of u] Awaiting by (auto simp: may_run_def waitThreadReady_def)
  next
    case (Paused k)
    then show ?thesis
      using tok_counts(1) [OF tk, of t] pl by (cases tok) (auto simp: may_run_def can_take_view simp del: view_sel)
  next
    case Born
    then show ?thesis
      using tok_counts(1) [OF tk, of t] pl by (cases tok) (auto simp: may_run_def can_take_view simp del: view_sel)
  next
    case (OnCond r c l b)
    then show ?thesis
      using tok_counts(2) [OF tk, of t] pl by (cases tok) (auto simp: may_run_def can_wait_take_view simp del: view_sel)
  qed (use run pl in \<open>cases tok; auto simp: may_run_def\<close>)+
qed

lemma exactly_one: "serial_inv (s, pcs) \<Longrightarrow> \<exists>!t. may_run s pcs t"
  using may_run_iff by (fastforce simp: serial_inv_def)

text \<open>
  C1: The serializer runs one thread at a time and never loses the token. In every state that a
  run of the base class can reach, there is exactly one thread that can go on: the one in the
  program, or the one whose semaphore has been posted, or the one that was woken on a condition
  variable, or the signaller whose target has reached its pause.
\<close>

theorem one_thread_at_a_time:
  assumes "reachable base_methods (initial (new_ExecutionTracker l main) main) (s, pcs)" and "main \<noteq> INVALID_THREAD"
  shows "\<exists>!t. may_run s pcs t"
  by (rule exactly_one [OF reachable_serial_inv [OF assms]])

section \<open>Locks\<close>

text \<open>What the call returns to the program when the mutex has been taken.\<close>

fun lock_result :: "kont \<Rightarrow> int" where
  "lock_result (KTimedRelock l was_signalled) = (if was_signalled then OPERATION_SUCCESSFUL else ETIMEDOUT)"
| "lock_result k = OPERATION_SUCCESSFUL"

lemma SimulateMutexLock_returns:
  assumes "wf s" and "l \<noteq> NULL" and "w \<or> \<not> global_lock s"
  shows "\<exists>x s'. SimulateMutexLock t l w s = Inr (x, s') \<and> locked t l (view s) x (view s') \<and> wf s'"
proof -
  let ?s1 = "if w then s else s\<lparr>global_lock := True, lock_count := lock_count s + 1\<rparr>"
  have w1: "wf ?s1" using assms(1) by (simp add: wf_def)
  have "upd (threadHasAcquiredLock t l) ?s1 = Inr ((), threadHasAcquiredLock t l ?s1)" by simp
  from refinesD [OF refines_acquire [OF assms(2)] this w1]
  have "global_lock (threadHasAcquiredLock t l ?s1) = global_lock ?s1" by (metis a_acquire_sel(2) view_sel(17))
  moreover have "pthread_mutex_trylock l z \<noteq> Inl e" "pthread_mutex_trylock l z = Inr (x, z') \<Longrightarrow> global_lock z' = global_lock z"
    for z z' :: "'a ExecutionTracker_scheme" and e x
    by (auto simp: pthread_mutex_trylock_def set_mutex_def split: mutex_state.splits)
  ultimately have "\<exists>x s'. SimulateMutexLock t l w s = Inr (x, s')"
    using assms(3) by (cases "pthread_mutex_trylock l (threadHasAcquiredLock t l ?s1)")
      (auto simp: SimulateMutexLock_def glock_def gunlock_def safe_assert_def bnd_def)
  with refinesD [OF refines_SimulateMutexLock [OF assms(2)] _ assms(1), of t w] show ?thesis by blast
qed

lemma locked_after:
  assumes "locked t l v x v'"
  shows "v_glock v' = v_glock v" and "v_mutex v l = MFree \<Longrightarrow> v_mutex v' l = MHeld"
  using assms by (auto simp: locked_def)

lemma glock_gunlock_id: "\<not> global_lock s \<Longrightarrow> glock_gunlock s = Inr ((), s)"
  by (simp add: glock_gunlock_def glock_def gunlock_def safe_assert_def)

text \<open>
  C7: Mutual exclusion through the simulated mutexes. When a thread that waits for a mutex (in
  \<open>pthread_mutex_lock\<close>, or at the end of \<open>pthread_cond_wait\<close> or \<open>pthread_cond_timedwait\<close>) gets the
  token, the mutex is free; the \<open>trylock\<close> that \<open>SimulateMutexLock\<close> uses in place of a blocking lock
  succeeds, the call returns (success, or a time-out for a timed wait nobody signalled), and
  afterwards the mutex is held. This is for mutexes that have not been destroyed.
\<close>

theorem lock_taken_when_resumed:
  assumes "reachable base_methods (initial (new_ExecutionTracker lg main) main) (s, pcs)" and "main \<noteq> INVALID_THREAD"
    and "pcs t = Paused k" and "kont_lock k = Some l" and "can_take t s" and "mutex_at l s \<noteq> MInvalid"
  shows "mutex_at l s = MFree \<and> (\<exists>s'. do_resume t k (sem_take t s) = Inr (lock_result k, s') \<and> mutex_at l s' = MHeld)"
proof -
  note tk = resume_token [OF reachable_serial_inv [OF assms(1,2)] assms(3,5)]
  have l: "l \<noteq> NULL" by (rule kont_nonnull(1) [OF inv_kont [OF tk(2) assms(3)] assms(4)])
  have g: "\<not> global_lock (sem_take t s)" using tk(2) by (simp add: inv_def sem_take_def)
  have m: "v_mutex (view s) l \<noteq> MInvalid" using assms(6) by (simp add: mutex_at_def)
  have taken: "mutex_at l s = MFree \<and> x = OPERATION_SUCCESSFUL \<and> mutex_at l s' = MHeld \<and> \<not> global_lock s'"
    if "locked t l (a_take t (view s)) x (view s')" for x s'
    using resume_locked(2) [OF tk(2) assms(3,4) that m] g locked_after [OF that]
    by (simp add: mutex_at_def a_take_def sem_take_def)
  have r: "\<exists>s'. SimulateMutexLock t l w (sem_take t s) = Inr (OPERATION_SUCCESSFUL, s') \<and> mutex_at l s = MFree \<and>
      mutex_at l s' = MHeld \<and> \<not> global_lock s'" for w
    using SimulateMutexLock_returns [OF tk(1) l, of w t] g taken unfolding tk(3) by blast
  show ?thesis
    using assms(4) r [of False] r [of True]
    by (cases k) (auto simp: SimulateCondWait_relock_def SimulateCondTimedwait_relock_def glock_gunlock_id)
qed

section \<open>Enabled threads\<close>

text \<open>Whether what a thread waits for is there.\<close>

definition can_proceed :: "'a ExecutionTracker_scheme \<Rightarrow> (thrID \<Rightarrow> pc) \<Rightarrow> thrID \<Rightarrow> bool" where
  "can_proceed s pcs t =
     (case pcs t of
        Absent \<Rightarrow> False
      | Born \<Rightarrow> True
      | Running \<Rightarrow> True
      | Awaiting u g \<Rightarrow> True
      | OnCond r c l timed \<Rightarrow> timed
      | Gone \<Rightarrow> False
      | Paused k \<Rightarrow>
          (case k of
             KSemWait a \<Rightarrow> sem_at a s \<noteq> Some 0
           | KJoin u \<Rightarrow> cm_get False (finish_map s) u
           | KBarrier b \<Rightarrow> cm_get NULL (thread_map (bt s)) t = NULL
           | _ \<Rightarrow> (case kont_lock k of Some l \<Rightarrow> mutex_at l s \<noteq> MHeld | None \<Rightarrow> True)))"

lemma enabled_iff:
  assumes "serial_inv (s, pcs)" and "\<And>k l. pcs t = Paused k \<Longrightarrow> kont_lock k = Some l \<Longrightarrow> mutex_at l s \<noteq> MInvalid"
  shows "cm_get False (enable_map s) t = can_proceed s pcs t"
proof -
  obtain tok where i: "inv False (Some tok) (view s) pcs" using assms(1) by (auto simp: serial_inv_def)
  have th: "thread_ok (view s) t (pcs t)" and ob: "obj_ok (view s)" using i by (simp_all add: inv_def)
  have lock: "v_en (view s) t \<longleftrightarrow> mutex_at l s \<noteq> MHeld" if "at_lock (view s) t l" "mutex_at l s \<noteq> MInvalid" for l
  proof (cases "v_en (view s) t")
    case True
    then have "v_lr (view s) t = l" "l \<noteq> NULL" using that(1) by (auto simp: at_lock_def)
    with ob True show ?thesis by (auto simp: obj_ok_def mutex_at_def)
  next
    case False
    then have "v_lw (view s) t = l" "l \<noteq> NULL" using that(1) by (auto simp: at_lock_def)
    with ob False that(2) show ?thesis by (cases "mutex_at l s") (auto simp: obj_ok_def mutex_at_def)
  qed
  have sem: "v_en (view s) t \<longleftrightarrow> sem_at a s \<noteq> Some 0" if "at_sem (view s) t a" for a
    using that ob by (cases "v_en (view s) t") (force simp: at_sem_def obj_ok_def sem_at_def)+
  have bar: "v_en (view s) t \<longleftrightarrow> cm_get NULL (thread_map (bt s)) t = NULL" if "at_barrier (view s) t b" for b
    using that by (auto simp: at_barrier_def)
  have "v_en (view s) t = can_proceed s pcs t"
  proof (cases "pcs t")
    case (Paused k)
    then show ?thesis
      using th assms(2) lock sem bar by (cases k) (auto simp: can_proceed_def live_def at_join_def split: if_splits)
  qed (use th in \<open>auto simp: can_proceed_def live_def at_cond_def\<close>)
  then show ?thesis by simp
qed

text \<open>
  C2: A thread is disabled exactly when what it waits for is not there. In every reachable state
  of a run of the base class, \<open>enable_map\<close> says of a thread what the program's objects say: a
  thread in front of a mutex is enabled iff the mutex is not held, in front of a semaphore iff it
  is not zero, in front of a join iff the target has finished, at a barrier iff it has been
  opened, on a condition variable iff the wait is timed; running threads are enabled, finished and
  absent ones are not. (For a thread in front of a mutex, provided the mutex was not destroyed.)
\<close>

theorem enable_map_is_exact:
  assumes "reachable base_methods (initial (new_ExecutionTracker lg main) main) (s, pcs)" and "main \<noteq> INVALID_THREAD"
    and "\<And>k l. pcs t = Paused k \<Longrightarrow> kont_lock k = Some l \<Longrightarrow> mutex_at l s \<noteq> MInvalid"
  shows "cm_get False (enable_map s) t = can_proceed s pcs t"
  by (rule enabled_iff [OF reachable_serial_inv [OF assms(1,2)] assms(3)])

section \<open>Semaphores\<close>

lemma foldl_block_on_sem_rest:
  "global_lock (foldl (block_on_sem a) s ts) = global_lock s" "sems (foldl (block_on_sem a) s ts) = sems s"
  by (induction ts arbitrary: s) (simp_all add: block_on_sem_def disableThread_def)

lemma SimulateSemWait_returns:
  assumes "\<not> global_lock s" and "sem_at a s = Some (Suc n)" and "a \<notin> set (sem_destroy s)"
    and "cm_get NULL (sem_ready_map s) t = a"
  shows "\<exists>s'. SimulateSemWait t a s = Inr (OPERATION_SUCCESSFUL, s') \<and> sem_at a s' = Some n"
  using assms
  by (auto simp: SimulateSemWait_def glock_def gunlock_def safe_assert_def bnd_def checkSemaphoreValue_def
      checkSemValidity_def os_sem_getvalue_def os_sem_wait_def threadHasPassedSemaphore_def sem_at_def set_sem_def
      foldl_block_on_sem_rest split: option.splits)

text \<open>
  C24: A simulated \<open>sem_wait\<close> never blocks. When a thread that waits for a semaphore gets the token,
  the semaphore is positive, so the assertion \<open>checkSemaphoreValue(sem) > 0\<close> of \<open>SimulateSemWait\<close>
  holds; the call returns success and has taken one unit. This is for semaphores that have not
  been destroyed, which the function checks itself.
\<close>

theorem sem_positive_when_resumed:
  assumes "reachable base_methods (initial (new_ExecutionTracker lg main) main) (s, pcs)" and "main \<noteq> INVALID_THREAD"
    and "pcs t = Paused (KSemWait a)" and "can_take t s" and "a \<notin> set (sem_destroy s)"
  shows "\<exists>n s'. sem_at a s = Some (Suc n) \<and>
     do_resume t (KSemWait a) (sem_take t s) = Inr (OPERATION_SUCCESSFUL, s') \<and> sem_at a s' = Some n"
proof -
  note tk = resume_token [OF reachable_serial_inv [OF assms(1,2)] assms(3,4)]
  have "at_sem (view s) t a" using inv_kont [OF tk(2) assms(3)] by simp
  then have sr: "v_sr (view s) t = a" "a \<noteq> NULL" using inv_insem [OF tk(2)] by (auto simp: at_sem_def split: if_splits)
  then obtain n where n: "sem_at a s = Some (Suc n)" using tk(2) by (auto simp: inv_def obj_ok_def sem_at_def)
  have "\<not> global_lock (sem_take t s)" "sem_at a (sem_take t s) = Some (Suc n)" "a \<notin> set (sem_destroy (sem_take t s))"
    "cm_get NULL (sem_ready_map (sem_take t s)) t = a"
    using tk(2) n assms(5) sr by (simp_all add: inv_def sem_take_def sem_at_def)
  from SimulateSemWait_returns [OF this] n show ?thesis by auto
qed

section \<open>The scheduling decision\<close>

lemma enabled_keys: "cm_ok m \<Longrightarrow> set (keys_with (\<lambda>b. b) m) = {t. cm_get False m t}"
  by (auto simp: set_keys_with cm_get_def split: option.splits)

lemma least_key:
  assumes "cm_ok m" and "keys_with (\<lambda>b. b) m = t # ts"
  shows "cm_get False m t" and "cm_get False m u \<Longrightarrow> t \<le> u"
  using enabled_keys [OF assms(1)] sorted_keys_with [OF assms(1), of "\<lambda>b. b"] assms(2) by (auto simp: order_le_less)

lemma keys_with_touch [simp]: "keys_with (\<lambda>b. b) (cm_touch False k m) = keys_with (\<lambda>b. b) m"
proof -
  have "map_of m k = None \<Longrightarrow> filter snd (cm_put k False m) = filter snd m" for m :: "('a \<times> bool) list"
    by (induction m) auto
  then show ?thesis by (auto simp: cm_touch_def keys_with_def split: option.splits)
qed

lemma schedule_decision_enabled:
  "keys_with (\<lambda>b. b) en = keys_with (\<lambda>b. b) en' \<Longrightarrow>
   schedule_decision t (p\<lparr>sp_fromLog := f, sp_enabled := en\<rparr>) = schedule_decision t (p\<lparr>sp_enabled := en'\<rparr>)"
  by (simp add: schedule_decision_def)

lemma base_schedule_new:
  "read_schedule (log s) = [] \<Longrightarrow> m_schedule base_methods p s = schedule_new base_policy p s"
  by (simp add: base_methods_def methods_of_def schedule_point_def from_log_def getNextScheduleChoice_def)

lemma recordScheduleInfo_returns:
  "\<exists>s'. recordScheduleInfo a b s = Inr ((), s') \<and> keys_with (\<lambda>b. b) (enable_map s') = keys_with (\<lambda>b. b) (enable_map s) \<and>
     cm_get False (enable_map s') = cm_get False (enable_map s) \<and> mutexes s' = mutexes s \<and> sems s' = sems s \<and>
     log s' = log s \<and> sem_map s' = sem_map s \<and> wait_sem_map s' = wait_sem_map s \<and> cond_map s' = cond_map s"
  by (auto simp: recordScheduleInfo_def read_enable_def)

text \<open>
  A launch posts one semaphore of the thread, once: the one it waits for in a condition wait if it is in
  one, otherwise the one it pauses on; no other semaphore changes.
\<close>

definition posted :: "thrID \<Rightarrow> 'a ExecutionTracker_scheme \<Rightarrow> 'b ExecutionTracker_scheme \<Rightarrow> bool" where
  "posted t s s' \<longleftrightarrow>
     (if cm_get NULL (cond_map s) t = NULL
      then cm_get None (sem_map s') = (cm_get None (sem_map s))(t := sem_up (cm_get None (sem_map s) t)) \<and>
           cm_get None (wait_sem_map s') = cm_get None (wait_sem_map s)
      else cm_get None (wait_sem_map s') = (cm_get None (wait_sem_map s))(t := sem_up (cm_get None (wait_sem_map s) t)) \<and>
           cm_get None (sem_map s') = cm_get None (sem_map s))"

text \<open>The threads that \<open>launchThread\<close> can launch: enabled, and that semaphore exists and can be posted.\<close>

definition launchable :: "thrID \<Rightarrow> 'a ExecutionTracker_scheme \<Rightarrow> bool" where
  "launchable t s \<longleftrightarrow> t \<noteq> INVALID_THREAD \<and> cm_get False (enable_map s) t \<and>
     (case cm_get None (if cm_get NULL (cond_map s) t = NULL then sem_map s else wait_sem_map s) t of
        None \<Rightarrow> False | Some n \<Rightarrow> n < SEM_VALUE_MAX)"

definition launch_errors :: "string set" where
  "launch_errors = {''isEnabled(target)'', ''pause != NULL'', ''Originals::sem_post(pause) == OPERATION_SUCCESSFUL''}"

lemmas launch_defs = launchThread_def with_log_def isEnabled_def read_enable_def safe_assert_def wake_target_def read_cond_def
  waitWakeThread_def wakeThread_def read_sem_map_def read_wait_sem_map_def

lemma launchThread_launchable:
  assumes "launchable t s"
  shows "\<exists>s'. launchThread t p s = Inr ((), s') \<and> posted t s s' \<and> cm_get False (enable_map s') = cm_get False (enable_map s) \<and>
     mutexes s' = mutexes s \<and> sems s' = sems s \<and> log s' = scheduling t p (log s) \<and>
     ExecutionTracker.more s' = ExecutionTracker.more s"
  using assms
  by (cases "cm_get NULL (cond_map s) t = NULL")
    (auto simp: launchable_def launch_defs posted_def sem_up_def bnd_def fun_eq_iff cmap_simps split: option.splits)

lemma launchThread_returns:
  assumes "t \<noteq> INVALID_THREAD" and "cm_get False (enable_map s) t"
    and "cm_get None (sem_map s) t = Some 0" and "cm_get None (wait_sem_map s) t = Some 0"
  shows "\<exists>s'. launchThread t p s = Inr ((), s') \<and> cm_get False (enable_map s') = cm_get False (enable_map s) \<and>
     mutexes s' = mutexes s \<and> sems s' = sems s \<and> log s' = scheduling t p (log s)"
proof -
  have "launchable t s" using assms by (simp add: launchable_def SEM_VALUE_MAX_def)
  from launchThread_launchable [OF this, of p] show ?thesis by blast
qed

lemma launchThread_not_launchable:
  assumes "\<not> launchable t s"
  shows "\<exists>txt s'. launchThread t p s = Inl (SafeAssert txt, s') \<and> txt \<in> launch_errors"
  using assms
  by (cases "cm_get NULL (cond_map s) t = NULL")
    (auto simp: launchable_def launch_defs launch_errors_def bnd_def split: option.splits if_splits)

lemma launchable_cong:
  "cm_get False (enable_map s') = cm_get False (enable_map s) \<Longrightarrow> sem_map s' = sem_map s \<Longrightarrow> wait_sem_map s' = wait_sem_map s \<Longrightarrow>
   cond_map s' = cond_map s \<Longrightarrow> launchable t s' \<longleftrightarrow> launchable t s"
  by (simp add: launchable_def)

lemma posted_cong:
  "sem_map s' = sem_map s \<Longrightarrow> wait_sem_map s' = wait_sem_map s \<Longrightarrow> cond_map s' = cond_map s \<Longrightarrow> posted t s' u \<longleftrightarrow> posted t s u"
  by (simp add: posted_def)

text \<open>
  C23: The decision of the base class. At a scheduling point with no decision left to replay, in a
  state whose enabled threads wait on their semaphores: if no thread is enabled the process
  reports a deadlock and leaves; otherwise \<open>schedule\<close> returns the enabled thread with the smallest identifier,
  and has launched it: of all the semaphores of the threads exactly one has been posted, from 0 to 1, the
  one this thread waits for (in a condition wait if it is in one, otherwise the one it pauses on). The
  decision (with the threads enabled) is appended
  to the schedule, and the enabled threads and the program's objects are as before.
\<close>

theorem base_schedule_decides:
  assumes "wf s" and "read_schedule (log s) = []" and "\<not> cm_get False (enable_map s) INVALID_THREAD"
    and "\<And>t. cm_get False (enable_map s) t \<Longrightarrow> cm_get None (sem_map s) t = Some 0 \<and> cm_get None (wait_sem_map s) t = Some 0"
  shows "if \<exists>t. cm_get False (enable_map s) t then
       (\<exists>t s'. m_schedule base_methods p s = Inr (t, s') \<and> cm_get False (enable_map s) t \<and>
          (\<forall>u. cm_get False (enable_map s) u \<longrightarrow> t \<le> u) \<and>
          cm_get None (sem_map s') = (if cm_get NULL (cond_map s) t = NULL then (cm_get None (sem_map s))(t := Some 1) else cm_get None (sem_map s)) \<and>
          cm_get None (wait_sem_map s') = (if cm_get NULL (cond_map s) t = NULL then cm_get None (wait_sem_map s) else (cm_get None (wait_sem_map s))(t := Some 1)) \<and>
          schedule (log s') = schedule (log s) @ [schedule_decision t (p\<lparr>sp_enabled := enable_map s\<rparr>)] \<and>
          cm_get False (enable_map s') = cm_get False (enable_map s) \<and> mutexes s' = mutexes s \<and> sems s' = sems s)
     else (\<exists>s'. m_schedule base_methods p s = Inl (ProgramDeadlock, s'))"
proof -
  have ok: "cm_ok (enable_map s)" using assms(1) by (simp add: wf_def)
  show ?thesis
  proof (cases "keys_with (\<lambda>b. b) (enable_map s)")
    case Nil
    then have "\<not> (\<exists>t. cm_get False (enable_map s) t)" using enabled_keys [OF ok] by auto
    moreover have "\<not> (\<exists>e \<in> set (enable_map s). snd e)" using Nil by (auto simp: keys_with_def filter_empty_conv)
    ultimately show ?thesis
      using assms(2) Nil
      by (auto simp: base_schedule_new schedule_new_def base_policy_def pickNextSchedulingChoice_def deadlockCheck_def)
  next
    case (Cons t ts)
    note least = least_key [OF ok Cons]
    then have t: "t \<noteq> INVALID_THREAD" using assms(3) by auto
    obtain s1 where s1: "recordScheduleInfo (sp_thread p) t s = Inr ((), s1)"
      "keys_with (\<lambda>b. b) (enable_map s1) = keys_with (\<lambda>b. b) (enable_map s)"
      "cm_get False (enable_map s1) = cm_get False (enable_map s)" "mutexes s1 = mutexes s" "sems s1 = sems s"
      "log s1 = log s" "sem_map s1 = sem_map s" "wait_sem_map s1 = wait_sem_map s" "cond_map s1 = cond_map s"
      using recordScheduleInfo_returns [of "sp_thread p" t s] by auto
    let ?p = "p\<lparr>sp_fromLog := False, sp_enabled := enable_map s1\<rparr>"
    have "launchable t s1" using t least(1) assms(4) [of t] s1 by (simp add: launchable_def SEM_VALUE_MAX_def)
    from launchThread_launchable [OF this, of ?p]
    obtain s2 where s2: "launchThread t ?p s1 = Inr ((), s2)" "cm_get False (enable_map s2) = cm_get False (enable_map s)"
      "mutexes s2 = mutexes s" "sems s2 = sems s" "log s2 = scheduling t ?p (log s)" "posted t s s2"
      using s1 posted_cong [OF s1(7-9)] by auto
    have "m_schedule base_methods p s = Inr (t, s2)"
      using assms(2) Cons t s1(1) s2(1)
      by (simp add: base_schedule_new schedule_new_def base_policy_def pickNextSchedulingChoice_def launch_choice_def)
    moreover have "schedule (log s2) = schedule (log s) @ [schedule_decision t (p\<lparr>sp_enabled := enable_map s\<rparr>)]"
      using s2(5) schedule_decision_enabled [OF s1(2), where t = t and p = p and f = False] by (simp add: scheduling_def)
    moreover note s2(6) [unfolded posted_def]
    ultimately show ?thesis using least s2(2-4) assms(4) [OF least(1)] by (auto simp: sem_up_def split: if_splits)
  qed
qed

section \<open>Runs that reach these states\<close>

text \<open>A tracker with the main thread \<open>1\<close> and nothing to replay, and calls of that thread.\<close>

definition demo0 :: ExecutionTracker where
  "demo0 = new_ExecutionTracker Logger_raw 1"

lemma demo0_sel [simp]:
  "enable_map demo0 = [(1, True)]" "sem_map demo0 = [(1, Some 0)]" "cond_map demo0 = [(1, NULL)]"
  "finish_map demo0 = [(1, False)]" "mutexes demo0 = []" "sems demo0 = []" "global_lock demo0 = False"
  "log demo0 = Logger_raw" "lock_ready_map demo0 = [(1, NULL)]" "sem_ready_map demo0 = [(1, NULL)]"
  "sem_destroy demo0 = []" "read_schedule Logger_raw = []" "wait_sem_map demo0 = [(1, Some 0)]"
  by (simp_all add: demo0_def new_ExecutionTracker_def constructorHelper_def ExecutionTracker_raw_def
      initializeThreadData_def enableThread_def Logger_raw_def)

lemma bnd_bool: "m s = Inr (True, s') \<Longrightarrow> bnd m k s = k True s'" "m s = Inr (False, s') \<Longrightarrow> bnd m k s = k False s'"
  by simp_all

lemmas run_defs = bnd_bool enableThread_def disableThread_def cm_get_def cm_touch_def glock_def gunlock_def
  safe_assert_def sched_pause_def sched_at_def base_methods_def methods_of_def base_policy_def schedule_point_def
  from_log_def getNextScheduleChoice_def schedule_new_def pickNextSchedulingChoice_def keys_with_def
  recordScheduleInfo_def launch_choice_def launchThread_def with_log_def isEnabled_def read_enable_def
  wake_target_def read_cond_def wakeThread_def read_sem_map_def SEM_VALUE_MAX_def pauseThread_def
  mk_SchedPointInfo_def handle_def can_take_def mutex_at_def threadIsFinished_def scheduling_def
  EBUSY_def EINVAL_def sem_at_def set_sem_def set_mutex_def

lemma demo_lock:
  "\<exists>s. do_call base_methods 1 7 (CLock 5) demo0 = Inr (Paused (KLock 5), s) \<and> can_take 1 s \<and> mutex_at 5 s = MFree"
  by (simp add: run_defs thrille_mutex_lock_def BeforeMutexLock_def determineLockStatus_def
      pthread_mutex_trylock_def pthread_mutex_unlock_def addThreadReadyOnLock_def)

lemma demo_sem_init:
  "do_call base_methods 1 7 (CSemInit 6 2) demo0 = Inr (Running, demo0\<lparr>sem_destroy := [], sems := [(6, Some 2)]\<rparr>)"
  by (simp add: thrille_sem_init_def BeforeSemInit_def semIsValid_def os_sem_init_def set_sem_def SEM_VALUE_MAX_def)

lemma demo_sem_wait:
  "\<exists>s. do_call base_methods 1 7 (CSemWait 6) (demo0\<lparr>sem_destroy := [], sems := [(6, Some 2)]\<rparr>) =
     Inr (Paused (KSemWait 6), s) \<and> can_take 1 s \<and> sem_at 6 s = Some 2 \<and> sem_destroy s = []"
  by (simp add: run_defs thrille_sem_wait_def BeforeSemWait_def checkSemValidity_def determineSemaphoreStatus_def
      checkSemaphoreValue_def os_sem_getvalue_def addThreadReadyOnSemaphore_def)

lemma demo_start: "reachable base_methods (initial demo0 1) (demo0, (\<lambda>_. Absent)(1 := Running))"
  unfolding initial_def by (rule reach_init)

lemma demo_call:
  assumes "reachable base_methods c0 (s, (\<lambda>_. Absent)(1 := Running))" and "call_ok s ((\<lambda>_. Absent)(1 := Running)) 1 c"
    and "do_call base_methods 1 r c s = Inr (p, s')" and "\<And>u. c \<noteq> CCreate u"
  shows "reachable base_methods c0 (s', (\<lambda>_. Absent)(1 := p))"
  using reach_step [OF assms(1) step_call [OF _ assms(2,3)]] assms(4) by (simp add: spawn_other)

theorem one_thread_at_a_time_witness:
  "\<exists>s. do_call base_methods 1 7 (CLock 5) demo0 = Inr (Paused (KLock 5), s) \<and>
     (\<exists>!t. may_run s ((\<lambda>_. Absent)(1 := Paused (KLock 5))) t)"
proof -
  obtain s where s: "do_call base_methods 1 7 (CLock 5) demo0 = Inr (Paused (KLock 5), s)" using demo_lock by blast
  have "reachable base_methods (initial demo0 1) (s, (\<lambda>_. Absent)(1 := Paused (KLock 5)))"
    by (rule demo_call [OF demo_start _ s]) simp_all
  from one_thread_at_a_time [OF this [unfolded demo0_def]] s show ?thesis by auto
qed

theorem lock_taken_when_resumed_witness:
  "\<exists>s s'. do_call base_methods 1 7 (CLock 5) demo0 = Inr (Paused (KLock 5), s) \<and>
     do_resume 1 (KLock 5) (sem_take 1 s) = Inr (0, s') \<and> mutex_at 5 s' = MHeld"
proof -
  obtain s where s: "do_call base_methods 1 7 (CLock 5) demo0 = Inr (Paused (KLock 5), s)" "can_take 1 s" "mutex_at 5 s = MFree"
    using demo_lock by blast
  have "reachable base_methods (initial demo0 1) (s, (\<lambda>_. Absent)(1 := Paused (KLock 5)))"
    by (rule demo_call [OF demo_start _ s(1)]) simp_all
  from lock_taken_when_resumed [OF this [unfolded demo0_def], of 1 "KLock 5" 5] s show ?thesis by auto
qed

theorem enable_map_is_exact_witness:
  "\<exists>s. do_call base_methods 1 7 (CLock 5) demo0 = Inr (Paused (KLock 5), s) \<and>
     cm_get False (enable_map s) 1 = can_proceed s ((\<lambda>_. Absent)(1 := Paused (KLock 5))) 1"
proof -
  obtain s where s: "do_call base_methods 1 7 (CLock 5) demo0 = Inr (Paused (KLock 5), s)" "mutex_at 5 s = MFree"
    using demo_lock by blast
  have "reachable base_methods (initial demo0 1) (s, (\<lambda>_. Absent)(1 := Paused (KLock 5)))"
    by (rule demo_call [OF demo_start _ s(1)]) simp_all
  then have "cm_get False (enable_map s) 1 = can_proceed s ((\<lambda>_. Absent)(1 := Paused (KLock 5))) 1"
    using s(2) by (intro enable_map_is_exact [where main = 1 and lg = Logger_raw]) (auto simp: demo0_def)
  with s show ?thesis by auto
qed

theorem sem_positive_when_resumed_witness:
  "\<exists>s s'. do_call base_methods 1 7 (CSemWait 6) (demo0\<lparr>sem_destroy := [], sems := [(6, Some 2)]\<rparr>) =
       Inr (Paused (KSemWait 6), s) \<and>
     do_resume 1 (KSemWait 6) (sem_take 1 s) = Inr (0, s') \<and> sem_at 6 s' = Some 1"
proof -
  obtain s where s: "do_call base_methods 1 7 (CSemWait 6) (demo0\<lparr>sem_destroy := [], sems := [(6, Some 2)]\<rparr>) =
      Inr (Paused (KSemWait 6), s)" "can_take 1 s" "sem_at 6 s = Some 2" "sem_destroy s = []"
    using demo_sem_wait by blast
  have "reachable base_methods (initial demo0 1) (s, (\<lambda>_. Absent)(1 := Paused (KSemWait 6)))"
    by (rule demo_call [OF demo_call [OF demo_start _ demo_sem_init] _ s(1)]) simp_all
  from sem_positive_when_resumed [OF this [unfolded demo0_def], of 1 6] s show ?thesis by auto
qed

theorem base_schedule_decides_witness:
  "\<exists>s'. m_schedule base_methods (mk_SchedPointInfo 7 ''Simulate Sleep'' 1 [(1, True)] True) demo0 = Inr (1, s') \<and>
     length (schedule (log s')) = 1 \<and> cm_get None (sem_map s') 1 = Some 1"
proof -
  have w: "wf demo0" unfolding demo0_def by (rule wf_new_tracker)
  have en: "cm_get False (enable_map demo0) t \<longleftrightarrow> t = 1" for t by (simp add: cm_get_def)
  have get: "cm_get d [(1, x)] t = (if t = 1 then x else d)" for d x :: 'a and t :: thrID by (simp add: cm_get_def)
  from base_schedule_decides [OF w, of "mk_SchedPointInfo 7 ''Simulate Sleep'' 1 [(1, True)] True"]
  show ?thesis unfolding en by (auto simp: get Logger_raw_def)
qed

end
