(* ===== verification/Barrier_Wait.thy ===== *)
theory Barrier_Wait
  imports Serial_Theorems
begin

text \<open>
  \<open>ExecutionTracker::BeforeBarrierWait\<close>: who goes on at a barrier. The tracker keeps the barriers itself and never
  calls the original \<open>pthread_barrier_wait\<close>; a thread that arrives early is disabled, and the last one enables
  all of them. The counting is that of \<open>Barrier_Tracker\<close>, whose contract is used here as \<open>bt\<close>.
\<close>

section \<open>Opening a barrier\<close>

text \<open>The body of the loop over the waiting threads.\<close>

definition release_waiting :: "thrID \<Rightarrow> ('a ExecutionTracker_scheme, unit) tm" where
  "release_waiting t = steps [bnd (isDisabled t) (\<lambda>d. safe_assert d ''isDisabled((*itr))''), upd (enableThread t)]"

text \<open>Each must be disabled, and is enabled.\<close>

lemma enable_all:
  assumes "distinct ts" and "\<forall>u \<in> set ts. \<not> cm_get False (enable_map s) u"
  shows "\<exists>en. for_each release_waiting ts s
       = Inr ((), s\<lparr>enable_map := en\<rparr>) \<and>
     (\<forall>u. cm_get False en u \<longleftrightarrow> u \<in> set ts \<or> cm_get False (enable_map s) u)"
  using assms
proof (induction ts arbitrary: s)
  case Nil
  show ?case by (rule exI [of _ "enable_map s"]) simp
next
  case (Cons t ts)
  let ?m = "if t = INVALID_THREAD then enable_map s else cm_touch False t (enable_map s)"
  let ?s1 = "s\<lparr>enable_map := cm_put t True ?m\<rparr>"
  have get: "cm_get False (enable_map ?s1) u \<longleftrightarrow> u = t \<or> cm_get False (enable_map s) u" for u by (simp add: cmap_simps)
  have "release_waiting t s = Inr ((), ?s1)"
    using Cons.prems(2) by (simp add: release_waiting_def isDisabled_def isEnabled_def read_enable_def safe_assert_def enableThread_def bnd_def)
  moreover have d: "distinct ts" "\<forall>u \<in> set ts. \<not> cm_get False (enable_map ?s1) u" using Cons.prems unfolding get by auto
  obtain en where
    "for_each release_waiting ts ?s1
       = Inr ((), ?s1\<lparr>enable_map := en\<rparr>)"
    "\<forall>u. cm_get False en u \<longleftrightarrow> u \<in> set ts \<or> cm_get False (enable_map ?s1) u" using Cons.IH [OF d] by blast
  ultimately show ?case unfolding get by (intro exI [of _ en]) auto
qed

lemma open_barrier_opens:
  assumes "bt_inv (bt s)" and "find_count b (bar_info (bt s)) = Some n"
    and "word_of_nat (length (getThreadsWaitingOnBarrier b (bt s)) + 1) = n"
    and "\<forall>u \<in> set (getThreadsWaitingOnBarrier b (bt s)). \<not> cm_get False (enable_map s) u"
  shows "\<exists>en. open_barrier t b s = Inr ((), s\<lparr>enable_map := en, bt := clearThreadsWaitingOnBarrier b (bt s)\<rparr>) \<and>
     (\<forall>u. cm_get False en u \<longleftrightarrow> u = t \<or> u \<in> set (getThreadsWaitingOnBarrier b (bt s)) \<or> cm_get False (enable_map s) u)"
proof -
  obtain en where en: "for_each release_waiting
      (getThreadsWaitingOnBarrier b (bt s)) s = Inr ((), s\<lparr>enable_map := en\<rparr>)"
    "\<forall>u. cm_get False en u \<longleftrightarrow> u \<in> set (getThreadsWaitingOnBarrier b (bt s)) \<or> cm_get False (enable_map s) u"
    using enable_all [OF distinct_waiting [OF assms(1)] assms(4)] by blast
  have "open_barrier t b s = Inr ((), s\<lparr>enable_map := cm_put t True en, bt := clearThreadsWaitingOnBarrier b (bt s)\<rparr>)"
    using assms(2,3) en(1)
    by (simp add: open_barrier_def [folded release_waiting_def] from_bt_def getBarrierCount_def safe_assert_def enableThread_def bnd_def)
  with en(2) show ?thesis by (intro exI [of _ "cm_put t True en"]) (auto simp: cmap_simps)
qed

lemma open_barrier_fails:
  assumes "find_count b (bar_info (bt s)) = Some n"
    and "word_of_nat (length (getThreadsWaitingOnBarrier b (bt s)) + 1) \<noteq> n"
  shows "\<exists>s'. open_barrier t b s = Inl (SafeAssert ''((unsigned) (my_thr.size() + 1)) == (bt->getBarrierCount(barrier))'', s')"
  using assms by (simp add: open_barrier_def [folded release_waiting_def] from_bt_def getBarrierCount_def safe_assert_def bnd_def)

text \<open>The count as the \<open>int\<close> and as the \<open>unsigned\<close> it is compared with.\<close>

lemma sint_count: "unat n < 2 ^ 31 \<Longrightarrow> sint n = int (unat n)" for n :: "32 word"
proof -
  assume "unat n < 2 ^ 31"
  then have "uint n < 2 ^ 31" using nat_less_iff [of "uint n" "2 ^ 31"] by simp
  then have "signed_take_bit (LENGTH(32) - 1) (uint n) = uint n" by (intro signed_take_bit_int_eq_self order_trans [OF _ uint_ge_0]) simp_all
  then show ?thesis by (simp add: sint_uint)
qed

lemma word_of_count: "k < 2 ^ 31 \<Longrightarrow> word_of_nat k = n \<longleftrightarrow> k = unat n" for n :: "32 word"
proof -
  assume "k < 2 ^ 31"
  then have "unat (word_of_nat k :: 32 word) = k"
    by (simp only: unat_of_nat) (simp add: take_bit_nat_eq_self)
  then show ?thesis by (auto simp: word_unat_eq_iff)
qed

section \<open>Waiting at a barrier\<close>

text \<open>The call up to the decision, and the decision.\<close>

lemma BeforeBarrierWait_eq:
  assumes "\<not> global_lock s" and "b \<notin> set (barrier_destroy s)" and "find_count b (bar_info (bt s)) = Some n"
  shows "BeforeBarrierWait M t r b s =
     bnd (if int (length (getThreadsWaitingOnBarrier b (bt s))) + 1 \<ge> sint n then open_barrier t b
          else steps [upd (\<lambda>s. s\<lparr>bt := threadWaitingOnBarrier t b (bt s)\<rparr>), upd (disableThread t)])
       (\<lambda>_. bnd (sched_pause M r ''Before Barrier Wait'' t False) (\<lambda>_. ret False))
       (s\<lparr>global_lock := True, lock_count := lock_count s + 1\<rparr>)"
  using assms
  by (simp add: BeforeBarrierWait_def glock_def checkBarrierValidity_def safe_assert_def from_bt_def getBarrierCount_def
      number_eq_length bnd_def)

text \<open>
  C27: When a barrier opens. A thread calls \<open>pthread_barrier_wait\<close> on a barrier initialised with the count \<open>n\<close>, where the
  threads \<open>W\<close> wait, all of them disabled (the count and the number of threads below \<open>2 ^ 31\<close>, as the code compares them as \<open>int\<close>). While it is not the last one, that is with fewer than
  \<open>n\<close> arrivals including its own, it is disabled and added to the waiting threads, and nobody is
  enabled. With its arrival as the \<open>n\<close>-th exactly, all of \<open>W\<close> and the caller are enabled, no other thread is, and
  nobody waits there any more, so the barrier can be used for another round with the same count. If more threads
  are there than the count admits, the assertion on the number of threads fails. In the first two cases the
  next thing that happens is the scheduling point, under any tracker, with this state; threads that wait at other barriers go on
  waiting, and apart from the barriers, the enabled threads and the lock nothing has changed.
\<close>

theorem barrier_opens:
  assumes "\<not> global_lock s" and "b \<notin> set (barrier_destroy s)" and "b \<noteq> NULL" and "bt_inv (bt s)"
    and "find_count b (bar_info (bt s)) = Some n" and "unat n < 2 ^ 31"
    and "W = getThreadsWaitingOnBarrier b (bt s)" and "length W + 1 < 2 ^ 31"
    and "\<forall>u \<in> set W. \<not> cm_get False (enable_map s) u"
  shows "if unat n < length W + 1
     then \<exists>s'. BeforeBarrierWait M t r b s =
       Inl (SafeAssert ''((unsigned) (my_thr.size() + 1)) == (bt->getBarrierCount(barrier))'', s')
     else \<exists>en bt' s1. BeforeBarrierWait M t r b s = bnd (sched_pause M r ''Before Barrier Wait'' t False) (\<lambda>_. ret False) s1 \<and>
       s1 = s\<lparr>global_lock := True, lock_count := lock_count s + 1, enable_map := en, bt := bt'\<rparr> \<and>
       bt_inv bt' \<and> getBarrierCount b bt' = Inr (n, bt') \<and>
       (if length W + 1 = unat n
        then (\<forall>u. cm_get False en u \<longleftrightarrow> u = t \<or> u \<in> set W \<or> cm_get False (enable_map s) u) \<and>
          getThreadsWaitingOnBarrier b bt' = []
        else (\<forall>u. cm_get False en u \<longleftrightarrow> u \<noteq> t \<and> cm_get False (enable_map s) u) \<and>
          set (getThreadsWaitingOnBarrier b bt') = insert t (set W)) \<and>
       (\<forall>c. c \<noteq> b \<and> c \<noteq> NULL \<longrightarrow> set (getThreadsWaitingOnBarrier c bt') - {t} = set (getThreadsWaitingOnBarrier c (bt s)) - {t})"
proof -
  let ?s0 = "s\<lparr>global_lock := True, lock_count := lock_count s + 1\<rparr>"
  let ?rest = "bnd (sched_pause M r ''Before Barrier Wait'' t False) (\<lambda>_. ret False)"
  have sint: "sint n = int (unat n)" using assms(6) by (rule sint_count)
  have word: "word_of_nat (length W + 1) = n \<longleftrightarrow> length W + 1 = unat n" using assms(8) by (rule word_of_count)
  have run: "BeforeBarrierWait M t r b s =
      bnd (if unat n \<le> length W + 1 then open_barrier t b
           else steps [upd (\<lambda>s. s\<lparr>bt := threadWaitingOnBarrier t b (bt s)\<rparr>), upd (disableThread t)]) (\<lambda>_. ?rest) ?s0"
  proof -
    have "int (length W) + 1 \<ge> sint n \<longleftrightarrow> unat n \<le> length W + 1" unfolding sint by linarith
    then show ?thesis unfolding BeforeBarrierWait_eq [OF assms(1,2,5)] assms(7) [symmetric] by (simp only:)
  qed
  show ?thesis
  proof (cases "length W + 1" "unat n" rule: linorder_cases)
    case less
    let ?en = "cm_put t False (enable_map s)" and ?bt = "threadWaitingOnBarrier t b (bt s)"
    have "BeforeBarrierWait M t r b s = ?rest (?s0\<lparr>bt := ?bt, enable_map := ?en\<rparr>)"
      using less by (simp add: run disableThread_def)
    moreover have "bt_inv ?bt" "getBarrierCount b ?bt = Inr (n, ?bt)" "set (getThreadsWaitingOnBarrier b ?bt) = insert t (set W)"
      "\<forall>c. c \<noteq> b \<and> c \<noteq> NULL \<longrightarrow> set (getThreadsWaitingOnBarrier c ?bt) - {t} = set (getThreadsWaitingOnBarrier c (bt s)) - {t}"
      using bt.ok_arrive bt.waiting_arrive bt.count_arrive assms(4,5,7) by (auto simp: getBarrierCount_def)
    moreover have nl: "(unat n < length W + 1) = False" "(length W + 1 = unat n) = False" using less by simp_all
    ultimately show ?thesis unfolding nl if_False
      by (intro exI [of _ ?en] exI [of _ ?bt] exI [of _ "?s0\<lparr>bt := ?bt, enable_map := ?en\<rparr>"]) (simp add: cmap_simps)
  next
    case equal
    have o: "bt_inv (bt ?s0)" "find_count b (bar_info (bt ?s0)) = Some n" "W = getThreadsWaitingOnBarrier b (bt ?s0)"
      using assms(4,5,7) by simp_all
    obtain en where en: "open_barrier t b ?s0 = Inr ((), ?s0\<lparr>enable_map := en, bt := clearThreadsWaitingOnBarrier b (bt ?s0)\<rparr>)"
      "\<forall>u. cm_get False en u \<longleftrightarrow> u = t \<or> u \<in> set W \<or> cm_get False (enable_map s) u"
      using open_barrier_opens [OF o(1,2), of t, folded o(3), OF iffD2 [OF word equal]] assms(9) by auto
    let ?bt = "clearThreadsWaitingOnBarrier b (bt s)"
    have "BeforeBarrierWait M t r b s = ?rest (?s0\<lparr>enable_map := en, bt := ?bt\<rparr>)"
      using equal en(1) by (simp add: run)
    moreover have "bt_inv ?bt" "getBarrierCount b ?bt = Inr (n, ?bt)" "set (getThreadsWaitingOnBarrier b ?bt) = {}"
      "\<forall>c. c \<noteq> b \<and> c \<noteq> NULL \<longrightarrow> set (getThreadsWaitingOnBarrier c ?bt) = set (getThreadsWaitingOnBarrier c (bt s))"
      using bt.ok_clear bt.waiting_clear bt.count_clear assms(3,4,5) by (auto simp: getBarrierCount_def)
    moreover have nl: "(unat n < length W + 1) = False" "(length W + 1 = unat n) = True" using equal by simp_all
    ultimately show ?thesis unfolding nl if_False if_True
      using en(2) by (intro exI [of _ en] exI [of _ ?bt] exI [of _ "?s0\<lparr>enable_map := en, bt := ?bt\<rparr>"]) simp
  next
    case greater
    have "\<exists>s'. open_barrier t b ?s0 = Inl (SafeAssert ''((unsigned) (my_thr.size() + 1)) == (bt->getBarrierCount(barrier))'', s')"
      using greater assms(5,7) word by (intro open_barrier_fails) auto
    with greater show ?thesis by (auto simp: run)
  qed
qed

text \<open>A barrier for two: the first thread waits, the second opens it.\<close>

definition barrier_demo :: "thrID list \<Rightarrow> ExecutionTracker" where
  "barrier_demo ts = demo0\<lparr>enable_map := [(1, True), (2, 2 \<notin> set ts)], bt := arrivals 16 ts (initBarrier 16 2 BarrierTracker_init)\<rparr>"

theorem barrier_opens_witness:
  "(\<exists>en bt' s1. BeforeBarrierWait base_methods 1 7 16 (barrier_demo [2]) = bnd (sched_pause base_methods 7 ''Before Barrier Wait'' 1 False) (\<lambda>_. ret False) s1 \<and>
      enable_map s1 = en \<and> bt s1 = bt' \<and> cm_get False en 1 \<and> cm_get False en 2 \<and> getThreadsWaitingOnBarrier 16 bt' = []) \<and>
   (\<exists>en bt' s1. BeforeBarrierWait base_methods 1 7 16 (barrier_demo []) = bnd (sched_pause base_methods 7 ''Before Barrier Wait'' 1 False) (\<lambda>_. ret False) s1 \<and>
      enable_map s1 = en \<and> bt s1 = bt' \<and> \<not> cm_get False en 1 \<and> cm_get False en 2 \<and> set (getThreadsWaitingOnBarrier 16 bt') = {1})"
proof -
  have w: "getThreadsWaitingOnBarrier 16 (bt (barrier_demo [2])) = [2]" "getThreadsWaitingOnBarrier 16 (bt (barrier_demo [])) = []"
    by (simp_all add: barrier_demo_def arrivals_def threadWaitingOnBarrier_def initBarrier_def BarrierTracker_init_def
        getThreadsWaitingOnBarrier_def keys_with_def)
  have h: "\<not> global_lock (barrier_demo ts)" "16 \<notin> set (barrier_destroy (barrier_demo ts))" "find_count 16 (bar_info (bt (barrier_demo ts))) = Some 2"
    "bt_inv (bt (barrier_demo ts))" if "ts = [2] \<or> ts = []" for ts
    using that by (auto simp: barrier_demo_def arrivals_def threadWaitingOnBarrier_def initBarrier_def BarrierTracker_init_def
        bt_inv_def cm_ok_def demo0_def new_ExecutionTracker_def constructorHelper_def ExecutionTracker_raw_def initializeThreadData_def enableThread_def)
  have en: "cm_get False (enable_map (barrier_demo ts)) u \<longleftrightarrow> u = 1 \<or> u = 2 \<and> 2 \<notin> set ts" for u ts
    by (simp add: barrier_demo_def cm_get_def)
  have "\<exists>en bt' s1. BeforeBarrierWait base_methods 1 7 16 (barrier_demo [2]) = bnd (sched_pause base_methods 7 ''Before Barrier Wait'' 1 False) (\<lambda>_. ret False) s1 \<and>
      enable_map s1 = en \<and> bt s1 = bt' \<and> cm_get False en 1 \<and> cm_get False en 2 \<and> getThreadsWaitingOnBarrier 16 bt' = []"
    using barrier_opens [of "barrier_demo [2]" 16 2 "[2]" base_methods 1 7] h [of "[2]"] w en by auto
  moreover have "\<exists>en bt' s1. BeforeBarrierWait base_methods 1 7 16 (barrier_demo []) = bnd (sched_pause base_methods 7 ''Before Barrier Wait'' 1 False) (\<lambda>_. ret False) s1 \<and>
      enable_map s1 = en \<and> bt s1 = bt' \<and> \<not> cm_get False en 1 \<and> cm_get False en 2 \<and> set (getThreadsWaitingOnBarrier 16 bt') = {1}"
    using barrier_opens [of "barrier_demo []" 16 2 "[]" base_methods 1 7] h [of "[]"] w en by auto
  ultimately show ?thesis by blast
qed

end
