(* ===== verification/Strict_Tracker.thy ===== *)
theory Strict_Tracker
  imports Serial_Theorems
begin

text \<open>
  \<open>StrictTracker\<close> (\<open>src/strictserial/stricttracker.cpp\<close>): replays a schedule and fails when it is
  over or when, after a first point that was, the point reached is not the one recorded. With it, what the trackers that
  derive from \<open>ExecutionTracker\<close> share: assertions of other files, and the contract for trackers
  that override the choice of the thread to signal.
\<close>

section \<open>Assertions of the derived trackers\<close>

text \<open>\<open>safe_assert\<close> in another file than \<open>executiontracker.cpp\<close>, with and without \<open>UNLOCKASSERT\<close>.\<close>

definition safe_assert_in :: "string \<Rightarrow> bool \<Rightarrow> string \<Rightarrow> ('a ExecutionTracker_scheme, unit) tm" where
  "safe_assert_in file c txt s =
     (if c then Inr ((), s) else Inl (SafeAssert txt, s\<lparr>log := assertFail file txt (log s)\<rparr>))"

definition plain_assert :: "bool \<Rightarrow> string \<Rightarrow> ('s, unit) tm" where
  "plain_assert c txt s = (if c then Inr ((), s) else Inl (SafeAssert txt, s))"

lemma refines_safe_assert_in [refine_rules]: "refines (safe_assert_in f c txt) (\<lambda>v _ v'. c \<and> v' = v)"
  by (rule refinesI) (auto simp: safe_assert_in_def split: if_splits)

lemma refines_plain_assert [refine_rules]: "refines (plain_assert c txt) (\<lambda>v _ v'. c \<and> v' = v)"
  by (rule refinesI) (auto simp: plain_assert_def split: if_splits)

text \<open>A choice among the threads on a condition that only looks at the state.\<close>

definition select_ok :: "(SignalPointInfo \<Rightarrow> ('a ExecutionTracker_scheme, thrID) tm) \<Rightarrow> bool" where
  "select_ok sel \<longleftrightarrow> (\<forall>g. refines (sel g) (\<lambda>v x v'. v' = v \<and>
     (cm_ok (sg_cond_map g) \<and> x \<noteq> INVALID_THREAD \<longrightarrow> cm_get NULL (sg_cond_map g) x = sg_cond g)))"

lemma serial_methods_select:
  assumes "policy_ok pol" and "select_ok sel"
  shows "serial_methods ((methods_of pol)\<lparr>m_select := sel\<rparr>)"
proof -
  note m = serial_methods_of [OF assms(1)]
  show ?thesis
    using assms(2) serial_methods.schedule_law [OF m] serial_methods.next_signal_law [OF m]
      serial_methods.schedule_cond_law [OF m] serial_methods.handle_law [OF m]
    by unfold_locales (auto simp: methods_of_def select_ok_def)
qed

lemma policy_ok_intro:
  assumes "\<And>p. refines (p_pick pol p) (\<lambda>v x v'. v' = v)" and "\<And>p. refines (p_follow pol p) (\<lambda>v x v'. v' = v)"
    and "\<And>a b. refines (p_compare pol a b) (\<lambda>v x v'. v' = v)" and "p_launch pol = launchThread"
  shows "policy_ok pol"
  using assms unfolding policy_ok_def by (auto intro: refines_weaken [OF refines_launchThread])

lemma marked_entry:
  assumes "cm_ok m"
  shows "(\<exists>e \<in> set m. snd e) \<longleftrightarrow> (\<exists>u. cm_get False m u)"
proof -
  have "(\<exists>e \<in> set m. snd e) \<longleftrightarrow> keys_with (\<lambda>b. b) m \<noteq> []" by (auto simp: keys_with_Nil_iff)
  also have "\<dots> \<longleftrightarrow> {u. cm_get False m u} \<noteq> {}"
    unfolding set_empty [symmetric] set_keys_with [OF assms] by (auto simp: cm_get_def split: option.splits)
  finally show ?thesis by blast
qed

lemma deadlockCheck_eq:
  "cm_ok (enable_map s) \<Longrightarrow> deadlockCheck s =
     (if \<exists>u. cm_get False (enable_map s) u then Inr ((), s) else Inl (ProgramDeadlock, with_log programDeadlock s))"
  by (simp add: deadlockCheck_def marked_entry)

section \<open>The strict tracker\<close>

record StrictTracker = ExecutionTracker +
  startSynchro :: bool

definition new_StrictTracker :: "Logger \<Rightarrow> thrID \<Rightarrow> StrictTracker" where
  "new_StrictTracker l myself = ExecutionTracker.extend (new_ExecutionTracker l myself) \<lparr>startSynchro = False\<rparr>"

definition strict_pick :: "SchedPointInfo \<Rightarrow> (StrictTracker, thrID \<times> SchedPointInfo) tm" where
  "strict_pick p =
     bnd deadlockCheck (\<lambda>_.
     bnd (safe_assert_in ''stricttracker.cpp'' False ''didNotGoPastEndOfReplayLog'') (\<lambda>_.
     ret (INVALID_THREAD, p)))"

definition strict_compare :: "string \<Rightarrow> string \<Rightarrow> (StrictTracker, unit) tm" where
  "strict_compare now then_id =
     bnd (gets startSynchro) (\<lambda>synchro.
       if \<not> synchro \<and> now \<noteq> then_id then ret ()
       else bnd (upd (\<lambda>s. s\<lparr>startSynchro := True\<rparr>)) (\<lambda>_.
         if now \<noteq> then_id then safe_assert_in ''stricttracker.cpp'' False ''schedulesAreSynchronized''
         else ret ()))"

definition strict_policy :: "StrictTracker policy" where
  "strict_policy = \<lparr>p_pick = strict_pick, p_follow = followingChoiceFromLog,
     p_compare = strict_compare, p_launch = launchThread\<rparr>"

definition strict_methods :: "StrictTracker methods" where
  "strict_methods = methods_of strict_policy"

lemma refines_set_synchro: "refines (upd (\<lambda>s. s\<lparr>startSynchro := b\<rparr>)) (\<lambda>v _ v'. v' = v)"
  by (rule refinesI) (auto simp: wf_def view_def)

interpretation strict: serial_methods strict_methods
proof -
  have "policy_ok strict_policy"
  proof (rule policy_ok_intro)
    show "refines (p_pick strict_policy p) (\<lambda>v x v'. v' = v)" for p
      unfolding strict_policy_def policy.simps strict_pick_def by (rule refines_weaken, (rule refine_rules)+) auto
    show "refines (p_compare strict_policy a b) (\<lambda>v x v'. v' = v)" for a b
      unfolding strict_policy_def policy.simps strict_compare_def
      by (rule refines_weaken, (rule refine_rules refines_set_synchro refines_gets)+) (auto split: if_splits)
    show "refines (p_follow strict_policy p) (\<lambda>v x v'. v' = v)" for p
      unfolding strict_policy_def policy.simps followingChoiceFromLog_def
      by (rule refines_weaken, (rule refine_rules)+) auto
  qed (simp add: strict_policy_def)
  then show "serial_methods strict_methods" unfolding strict_methods_def by (rule serial_methods_of)
qed

text \<open>What launching and counting leave alone.\<close>

lemma launchThread_keeps:
  "launchThread t p s = Inr (x, s') \<Longrightarrow>
   log s' = scheduling t p (log s) \<and> ExecutionTracker.more s' = ExecutionTracker.more s"
  by (auto simp: launchThread_def with_log_def isEnabled_def read_enable_def safe_assert_def wake_target_def read_cond_def
      waitWakeThread_def wakeThread_def read_sem_map_def read_wait_sem_map_def bnd_eq_Inr split: if_splits)

lemma recordScheduleInfo_keeps:
  "recordScheduleInfo a b s = Inr (x, s') \<Longrightarrow> log s' = log s \<and> ExecutionTracker.more s' = ExecutionTracker.more s"
  by (auto simp: recordScheduleInfo_def read_enable_def bnd_eq_Inr split: if_splits)

lemma chosen_schedule_decision: "getChosen (schedule_decision t p) = t"
  by (simp add: schedule_decision_def new_ScheduleDecisionInfo_def foldl_addEnabledThread)

lemma startSynchro_more: "ExecutionTracker.more s' = ExecutionTracker.more s \<Longrightarrow> startSynchro s' = startSynchro s"
  by (cases s; cases s') simp

text \<open>The last part of a scheduling point that follows the log.\<close>

definition strict_tail :: "thrID \<Rightarrow> SchedPointInfo \<Rightarrow> (StrictTracker, thrID) tm" where
  "strict_tail t p = bnd (recordScheduleInfo (sp_thread p) t) (\<lambda>_. launch_choice strict_policy t (p\<lparr>sp_fromLog := True\<rparr>))"

lemma strict_tail_launchable:
  assumes "launchable t s"
  shows "\<exists>s'. strict_tail t p s = Inr (t, s') \<and> posted t s s' \<and> cm_get False (enable_map s') = cm_get False (enable_map s) \<and>
     read_schedule (log s') = read_schedule (log s) \<and>
     schedule (log s') = schedule (log s) @ [schedule_decision t (p\<lparr>sp_enabled := enable_map s\<rparr>)] \<and>
     startSynchro s' = startSynchro s"
proof -
  obtain s1 where s1: "recordScheduleInfo (sp_thread p) t s = Inr ((), s1)"
    "keys_with (\<lambda>b. b) (enable_map s1) = keys_with (\<lambda>b. b) (enable_map s)"
    "cm_get False (enable_map s1) = cm_get False (enable_map s)" "log s1 = log s"
    "sem_map s1 = sem_map s" "wait_sem_map s1 = wait_sem_map s" "cond_map s1 = cond_map s"
    using recordScheduleInfo_returns [of "sp_thread p" t s] by auto
  let ?p = "p\<lparr>sp_fromLog := True, sp_enabled := enable_map s1\<rparr>"
  obtain s2 where s2: "launchThread t ?p s1 = Inr ((), s2)" "posted t s1 s2" "cm_get False (enable_map s2) = cm_get False (enable_map s1)"
    "log s2 = scheduling t ?p (log s1)" "ExecutionTracker.more s2 = ExecutionTracker.more s1"
    using launchThread_launchable [OF assms [folded launchable_cong [OF s1(3,5-7)]], of ?p] by blast
  have "strict_tail t p s = Inr (t, s2)"
    using s1(1) s2(1) by (simp add: strict_tail_def launch_choice_def strict_policy_def)
  moreover have "startSynchro s2 = startSynchro s"
    using s2(5) recordScheduleInfo_keeps [OF s1(1)] by (intro startSynchro_more) simp
  moreover have "posted t s s2" using s2(2) posted_cong [OF s1(5-7), of t s2] by simp
  ultimately show ?thesis
    using s2(3,4) s1(3,4) schedule_decision_enabled [OF s1(2), where t = t and p = p and f = True] by (simp add: scheduling_def)
qed

lemma strict_tail_not_launchable:
  assumes "\<not> launchable t s"
  shows "\<exists>txt s'. strict_tail t p s = Inl (SafeAssert txt, s') \<and> txt \<in> launch_errors"
proof -
  obtain s1 where s1: "recordScheduleInfo (sp_thread p) t s = Inr ((), s1)"
    "cm_get False (enable_map s1) = cm_get False (enable_map s)"
    "sem_map s1 = sem_map s" "wait_sem_map s1 = wait_sem_map s" "cond_map s1 = cond_map s"
    using recordScheduleInfo_returns [of "sp_thread p" t s] by auto
  have "\<not> launchable t s1" using assms launchable_cong [OF s1(2-5)] by blast
  from launchThread_not_launchable [OF this, of "p\<lparr>sp_fromLog := True, sp_enabled := enable_map s1\<rparr>"] s1(1)
  show ?thesis by (auto simp: strict_tail_def launch_choice_def strict_policy_def)
qed

text \<open>What a scheduling point does before it launches: the outcome of the comparison with the log.\<close>

lemma strict_schedule_over:
  "read_schedule (log s) = [] \<or> getChosen (hd (read_schedule (log s))) = INVALID_THREAD \<Longrightarrow>
   \<exists>s'. m_schedule strict_methods p s =
      Inl (if \<exists>e \<in> set (enable_map s). snd e then SafeAssert ''didNotGoPastEndOfReplayLog'' else ProgramDeadlock, s')"
  by (cases "read_schedule (log s)")
    (auto simp: strict_methods_def methods_of_def schedule_point_def from_log_def getNextScheduleChoice_def getNextChoice_def
      schedule_new_def strict_policy_def strict_pick_def deadlockCheck_def safe_assert_in_def bnd_def)

lemma strict_schedule_logged:
  assumes "read_schedule (log s) = d # ds" and "getChosen d \<noteq> INVALID_THREAD"
    and "s1 = s\<lparr>log := (log s)\<lparr>lastID := printf_p (getID d), read_schedule := ds\<rparr>\<rparr>"
  shows "m_schedule strict_methods p s =
     (if printf_p (sp_ret_addr p) = printf_p (getID d) then strict_tail (getChosen d) p (s1\<lparr>startSynchro := True\<rparr>)
      else if startSynchro s then Inl (SafeAssert ''schedulesAreSynchronized'',
        s1\<lparr>startSynchro := True, log := assertFail ''stricttracker.cpp'' ''schedulesAreSynchronized'' (log s1)\<rparr>)
      else strict_tail (getChosen d) p s1)"
  using assms(1,2)
  by (simp add: assms(3) strict_methods_def methods_of_def schedule_point_def from_log_def getNextScheduleChoice_def
      getNextChoice_def schedule_logged_def followingChoiceFromLog_def strict_compare_def strict_policy_def
      safe_assert_in_def strict_tail_def bnd_def cong: if_cong)

text \<open>
  C11: The strict tracker does what the log says or fails, and when it does which. With nothing left to replay
  (or at a decision that names no thread) it never returns: it reports a deadlock if no thread is enabled, and otherwise fails the
  assertion \<open>didNotGoPastEndOfReplayLog\<close>. With a decision to replay it fails \<open>schedulesAreSynchronized\<close> exactly if an
  earlier address has agreed with the log and this one does not; a point that differs before any has
  agreed is followed all the same. In the other cases the thread of the decision is launched if it can be (it is
  enabled and the semaphore it waits on can be posted): \<open>schedule\<close> returns this thread, that semaphore and no other has been posted once,
  the decision is used up, the new schedule has gained a decision for
  the same thread, and the addresses count as agreeing from the first point on whose address agrees. If
  the thread cannot be launched, an assertion of \<open>launchThread\<close> fails.
\<close>

theorem strict_follows_the_log:
  "if read_schedule (log s) = [] \<or> getChosen (hd (read_schedule (log s))) = INVALID_THREAD
   then \<exists>s'. m_schedule strict_methods p s =
      Inl (if \<exists>e \<in> set (enable_map s). snd e then SafeAssert ''didNotGoPastEndOfReplayLog'' else ProgramDeadlock, s')
   else if startSynchro s \<and> printf_p (sp_ret_addr p) \<noteq> printf_p (getID (hd (read_schedule (log s))))
   then \<exists>s'. m_schedule strict_methods p s = Inl (SafeAssert ''schedulesAreSynchronized'', s')
   else if launchable (getChosen (hd (read_schedule (log s)))) s
   then \<exists>t s'. m_schedule strict_methods p s = Inr (t, s') \<and> t = getChosen (hd (read_schedule (log s))) \<and>
      posted t s s' \<and> cm_get False (enable_map s') = cm_get False (enable_map s) \<and>
      read_schedule (log s') = tl (read_schedule (log s)) \<and>
      schedule (log s') = schedule (log s) @ [schedule_decision t (p\<lparr>sp_enabled := enable_map s\<rparr>)] \<and> getChosen (last (schedule (log s'))) = t \<and>
      (startSynchro s' \<longleftrightarrow> startSynchro s \<or> printf_p (sp_ret_addr p) = printf_p (getID (hd (read_schedule (log s))))) \<and>
      (startSynchro s' \<longrightarrow> printf_p (sp_ret_addr p) = printf_p (getID (hd (read_schedule (log s)))))
   else \<exists>txt s'. m_schedule strict_methods p s = Inl (SafeAssert txt, s') \<and> txt \<in> launch_errors"
proof (cases "read_schedule (log s) = [] \<or> getChosen (hd (read_schedule (log s))) = INVALID_THREAD")
  case True
  with strict_schedule_over [OF True, of p] show ?thesis by simp
next
  case False
  then obtain d ds where d: "read_schedule (log s) = d # ds" "getChosen d \<noteq> INVALID_THREAD"
    by (cases "read_schedule (log s)") auto
  let ?now = "printf_p (sp_ret_addr p)" and ?then = "printf_p (getID d)"
  let ?s1 = "s\<lparr>log := (log s)\<lparr>lastID := ?then, read_schedule := ds\<rparr>\<rparr>"
  let ?s2 = "?s1\<lparr>startSynchro := ?now = ?then \<or> startSynchro s\<rparr>"
  have unset: "?s2 = (if ?now = ?then \<or> startSynchro s then ?s1\<lparr>startSynchro := True\<rparr> else ?s1)" by (cases s) auto
  have run: "m_schedule strict_methods p s =
      (if ?now \<noteq> ?then \<and> startSynchro s then Inl (SafeAssert ''schedulesAreSynchronized'',
        ?s1\<lparr>startSynchro := True, log := assertFail ''stricttracker.cpp'' ''schedulesAreSynchronized'' (log ?s1)\<rparr>)
       else strict_tail (getChosen d) p ?s2)"
    unfolding strict_schedule_logged [OF d refl] unset
    by (cases "?now = ?then"; cases "startSynchro s") (simp_all only: if_True if_False simp_thms)
  have same: "launchable t ?s2 \<longleftrightarrow> launchable t s" "posted t ?s2 u \<longleftrightarrow> posted t s u" for t and u :: StrictTracker
    by (simp_all add: launchable_def posted_def)
  show ?thesis
  proof (cases "startSynchro s \<and> ?now \<noteq> ?then")
    case True
    with run d show ?thesis by auto
  next
    case synchro: False
    show ?thesis
    proof (cases "launchable (getChosen d) s")
      case True
      with strict_tail_launchable [of "getChosen d" ?s2 p] same
      obtain s' where "strict_tail (getChosen d) p ?s2 = Inr (getChosen d, s')" "posted (getChosen d) s s'"
        "cm_get False (enable_map s') = cm_get False (enable_map s)" "read_schedule (log s') = ds"
        "schedule (log s') = schedule (log s) @ [schedule_decision (getChosen d) (p\<lparr>sp_enabled := enable_map s\<rparr>)]"
        "startSynchro s' \<longleftrightarrow> ?now = ?then \<or> startSynchro s" by auto
      with run d synchro True show ?thesis by (auto simp: chosen_schedule_decision)
    next
      case False
      with strict_tail_not_launchable [of "getChosen d" ?s2 p] same run d synchro show ?thesis by auto
    qed
  qed
qed

definition strict_demo :: StrictTracker where
  "strict_demo = new_StrictTracker (Logger_raw\<lparr>read_schedule := [ScheduleDecisionInfo 1 1 ''Simulate_Sleep'' 7 [1]]\<rparr>) 1"

lemma strict_demo_sel [simp]:
  "enable_map strict_demo = [(1, True)]" "sem_map strict_demo = [(1, Some 0)]" "cond_map strict_demo = [(1, NULL)]"
  "log strict_demo = Logger_raw\<lparr>read_schedule := [ScheduleDecisionInfo 1 1 ''Simulate_Sleep'' 7 [1]]\<rparr>"
  "startSynchro strict_demo = False"
  by (simp_all add: strict_demo_def new_StrictTracker_def new_ExecutionTracker_def constructorHelper_def
      ExecutionTracker_raw_def initializeThreadData_def enableThread_def ExecutionTracker.extend_def)

theorem strict_follows_the_log_witness:
  "(\<exists>s'. m_schedule strict_methods (mk_SchedPointInfo 7 ''Simulate Sleep'' 1 [(1, True)] True) strict_demo = Inr (1, s') \<and>
     read_schedule (log s') = [] \<and> startSynchro s' \<and> cm_get None (sem_map s') 1 = Some 1) \<and>
   (\<exists>s'. m_schedule strict_methods (mk_SchedPointInfo 8 ''Simulate Sleep'' 1 [(1, True)] True) strict_demo = Inr (1, s') \<and>
     \<not> startSynchro s') \<and>
   (\<exists>s'. m_schedule strict_methods (mk_SchedPointInfo 8 ''Simulate Sleep'' 1 [(1, True)] True) (strict_demo\<lparr>startSynchro := True\<rparr>) =
     Inl (SafeAssert ''schedulesAreSynchronized'', s'))"
proof -
  have get: "cm_get d [(1, x)] t = (if t = 1 then x else d)" for d x :: 'a and t :: thrID by (simp add: cm_get_def)
  have l: "launchable 1 strict_demo" by (simp add: launchable_def get SEM_VALUE_MAX_def)
  have p: "printf_p 7 \<noteq> printf_p 8" by (simp add: printf_p_def hex_digits.simps hex_char_def)
  show ?thesis
    using strict_follows_the_log [of strict_demo "mk_SchedPointInfo 7 ''Simulate Sleep'' 1 [(1, True)] True"]
      strict_follows_the_log [of strict_demo "mk_SchedPointInfo 8 ''Simulate Sleep'' 1 [(1, True)] True"]
      strict_follows_the_log [of "strict_demo\<lparr>startSynchro := True\<rparr>" "mk_SchedPointInfo 8 ''Simulate Sleep'' 1 [(1, True)] True"] l p
    by (auto simp: mk_SchedPointInfo_def posted_def get sem_up_def)
qed

end
