(* ===== verification/Fair_Scheduler.thy ===== *)
theory Fair_Scheduler
  imports Sched_Types "HOL-Library.FSet"
begin

text \<open>
  \<open>FairScheduler\<close> (\<open>src/addrserial/fairscheduler.cpp\<close>): the fair scheduling algorithm of the CHESS
  model checker. \<open>fair_priority[h]\<close> is the set of threads that may not run while \<open>h\<close> is enabled. The main result is that the
  algorithm never blocks a program that can go on: the priorities are acyclic.

  The C++ code reads \<open>enable_map[t]\<close> of a local copy of the map while it iterates over it; every
  such \<open>t\<close> has been enabled before, so it is a key and the read inserts nothing.
\<close>

section \<open>State\<close>

record FairScheduler =
  fair_priority :: "(thrID, thrID fset) cmap"
  fair_enabled :: "(thrID, thrID fset) cmap"
  fair_disabled :: "(thrID, thrID fset) cmap"
  fair_scheduled :: "(thrID, thrID fset) cmap"
  prev_ES :: "thrID fset"

definition new_FairScheduler :: FairScheduler where
  "new_FairScheduler = \<lparr>fair_priority = [], fair_enabled = [], fair_disabled = [], fair_scheduled = [], prev_ES = {||}\<rparr>"

abbreviation fs_get :: "(thrID, thrID fset) cmap \<Rightarrow> thrID \<Rightarrow> thrID fset" where
  "fs_get \<equiv> cm_get {||}"

section \<open>Operations\<close>

definition isFairEnabled :: "thrID \<Rightarrow> (thrID, bool) cmap \<Rightarrow> FairScheduler \<Rightarrow> bool" where
  "isFairEnabled target enmap fs =
     (if \<not> cm_get False enmap target then False
      else list_all (\<lambda>(thread, low). \<not> (cm_get False enmap thread \<and> target |\<in>| low)) (fair_priority fs))"

definition getFairEnabledMap :: "SchedPointInfo \<Rightarrow> FairScheduler \<Rightarrow> (thrID, bool) cmap \<times> FairScheduler" where
  "getFairEnabledMap s fs =
     (map (\<lambda>(t, b). (t, isFairEnabled t (sp_enabled s) fs)) (sp_enabled s),
      fs\<lparr>prev_ES := fset_of_list (keys_with (\<lambda>b. b) (sp_enabled s))\<rparr>)"

text \<open>The body of the loop over all threads.\<close>

definition update_thread :: "(thrID, bool) cmap \<Rightarrow> thrID \<Rightarrow> FairScheduler \<Rightarrow> thrID \<Rightarrow> FairScheduler" where
  "update_thread en last_scheduled fs thread =
     (let fs1 = fs\<lparr>fair_enabled := cm_put thread (ffilter (cm_get False en) (fs_get (fair_enabled fs) thread)) (fair_enabled fs)\<rparr>;
          gone = ffilter (\<lambda>t. \<not> cm_get False en t) (prev_ES fs1);
          fs2 = (if thread = last_scheduled \<and> gone \<noteq> {||}
                 then fs1\<lparr>fair_disabled := cm_put thread (fs_get (fair_disabled fs1) thread |\<union>| gone) (fair_disabled fs1)\<rparr>
                 else fs1)
      in fs2\<lparr>fair_scheduled := cm_put thread (finsert last_scheduled (fs_get (fair_scheduled fs2) thread)) (fair_scheduled fs2)\<rparr>)"

text \<open>What a yield adds.\<close>

definition starved :: "thrID \<Rightarrow> FairScheduler \<Rightarrow> thrID fset" where
  "starved t fs =
     ffilter (\<lambda>u. u |\<notin>| fs_get (fair_scheduled fs) t) (fs_get (fair_enabled fs) t |\<union>| fs_get (fair_disabled fs) t)"

definition add_priority :: "thrID \<Rightarrow> (thrID, thrID fset) cmap \<Rightarrow> thrID \<Rightarrow> (thrID, thrID fset) cmap" where
  "add_priority low m high = cm_put high (finsert low (fs_get m high)) m"

definition update_yield :: "(thrID, bool) cmap \<Rightarrow> thrID \<Rightarrow> FairScheduler \<Rightarrow> FairScheduler" where
  "update_yield en t fs =
     fs\<lparr>fair_priority := foldl (add_priority t) (fair_priority fs) (sorted_list_of_fset (starved t fs)),
        fair_enabled := cm_put t (fset_of_list (keys_with (\<lambda>b. b) en)) (fair_enabled fs),
        fair_disabled := cm_put t {||} (fair_disabled fs),
        fair_scheduled := cm_put t {||} (fair_scheduled fs)\<rparr>"

definition updateDataStructures :: "SchedPointInfo \<Rightarrow> FairScheduler \<Rightarrow> FairScheduler" where
  "updateDataStructures s fs =
     (let t = sp_thread s; en = sp_enabled s;
          fs1 = fs\<lparr>fair_priority := cm_erase t (fair_priority fs)\<rparr>;
          fs2 = foldl (update_thread en t) fs1 (cm_keys en)
      in if sp_isYield s then update_yield en t fs2 else fs2)"

definition nonpreemptiveFairSchedule :: "SchedPointInfo \<Rightarrow> FairScheduler \<Rightarrow> thrID \<times> SchedPointInfo \<times> FairScheduler" where
  "nonpreemptiveFairSchedule s fs =
     (let (fenmap, fs1) = getFairEnabledMap s (updateDataStructures s fs);
          s1 = s\<lparr>sp_fenmap := foldl (\<lambda>m (t, b). cm_put t b m) (sp_fenmap s) fenmap\<rparr>
      in if cm_get False fenmap (sp_thread s) then (sp_thread s, s1, fs1)
         else (case keys_with (\<lambda>b. b) fenmap of [] \<Rightarrow> (-1, s1, fs1) | t # _ \<Rightarrow> (t, s1, fs1)))"

section \<open>Acyclic priorities\<close>

text \<open>\<open>(t, h)\<close>: thread \<open>t\<close> has to wait for \<open>h\<close>.\<close>

definition waits_for :: "FairScheduler \<Rightarrow> (thrID \<times> thrID) set" where
  "waits_for fs = {(t, h). t |\<in>| fs_get (fair_priority fs) h}"

definition fs_inv :: "FairScheduler \<Rightarrow> bool" where
  "fs_inv fs \<longleftrightarrow> cm_ok (fair_priority fs) \<and> acyclic (waits_for fs)"

lemma fs_inv_new: "fs_inv new_FairScheduler"
  by (simp add: fs_inv_def new_FairScheduler_def waits_for_def cm_get_def cm_ok_def acyclic_def)

lemma acyclic_source:
  assumes "acyclic r" and "\<And>x. (x, a) \<notin> r" and "a \<notin> H"
  shows "acyclic (r \<union> {a} \<times> H)"
proof -
  have "y \<noteq> a \<and> (x \<noteq> a \<longrightarrow> (x, y) \<in> r\<^sup>+)" if "(x, y) \<in> (r \<union> {a} \<times> H)\<^sup>+" for x y
    using that
  proof induction
    case (base y)
    with assms(2,3) show ?case by auto
  next
    case (step y z)
    with assms(2,3) show ?case by (auto intro: trancl_into_trancl)
  qed
  with assms(1) show ?thesis unfolding acyclic_def by blast
qed

lemma update_thread_scheduled:
  "t |\<in>| fs_get (fair_scheduled fs) u \<Longrightarrow> t |\<in>| fs_get (fair_scheduled (update_thread en l fs v)) u"
  "l |\<in>| fs_get (fair_scheduled (update_thread en l fs v)) v"
  by (auto simp: update_thread_def Let_def)

lemma fold_update_thread_priority [simp]:
  "fair_priority (foldl (update_thread en t) fs ts) = fair_priority fs"
  by (induction ts arbitrary: fs) (simp_all add: update_thread_def Let_def)

lemma fold_update_thread_keeps:
  "t |\<in>| fs_get (fair_scheduled fs) u \<Longrightarrow> t |\<in>| fs_get (fair_scheduled (foldl (update_thread en l) fs ts)) u"
  by (induction ts arbitrary: fs) (simp_all add: update_thread_scheduled)

lemma fold_update_thread_scheduled:
  "u \<in> set ts \<Longrightarrow> t |\<in>| fs_get (fair_scheduled (foldl (update_thread en t) fs ts)) u"
proof (induction ts arbitrary: fs)
  case (Cons v ts)
  then show ?case
    by (cases "v = u") (auto intro: fold_update_thread_keeps update_thread_scheduled)
qed simp

lemma fs_get_fold_add_priority:
  "fs_get (foldl (add_priority low) m hs) h = (if h \<in> set hs then finsert low (fs_get m h) else fs_get m h)"
  by (induction hs arbitrary: m) (auto simp: add_priority_def)

lemma cm_ok_fold_add_priority [simp, intro]: "cm_ok m \<Longrightarrow> cm_ok (foldl (add_priority low) m hs)"
  by (induction hs arbitrary: m) (auto simp: add_priority_def)

lemma cm_get_erase [simp]: "cm_get d (cm_erase k m) j = (if j = k then d else cm_get d m j)"
  by (simp add: cm_get_def map_of_cm_erase)

lemma waits_for_update_yield:
  "waits_for (update_yield en t fs) = waits_for fs \<union> {t} \<times> fset (starved t fs)"
  by (auto simp: waits_for_def update_yield_def fs_get_fold_add_priority split: if_splits)

lemma waits_for_updateDataStructures:
  assumes "sp_thread s \<in> fst ` set (sp_enabled s)"
  obtains H where "sp_thread s \<notin> H"
    "waits_for (updateDataStructures s fs) = {(t, h) \<in> waits_for fs. h \<noteq> sp_thread s} \<union> {sp_thread s} \<times> H"
proof -
  let ?t = "sp_thread s"
  let ?fs1 = "fs\<lparr>fair_priority := cm_erase ?t (fair_priority fs)\<rparr>"
  let ?fs2 = "foldl (update_thread (sp_enabled s) ?t) ?fs1 (cm_keys (sp_enabled s))"
  have e: "waits_for ?fs2 = {(t, h) \<in> waits_for fs. h \<noteq> ?t}"
    by (auto simp: waits_for_def split: if_splits)
  have "?t |\<in>| fs_get (fair_scheduled ?fs2) ?t"
    using assms by (intro fold_update_thread_scheduled) (simp add: cm_keys_def)
  then have "?t \<notin> fset (starved ?t ?fs2)" by (simp add: starved_def)
  with e that [of "if sp_isYield s then fset (starved ?t ?fs2) else {}"] show thesis
    by (auto simp: updateDataStructures_def Let_def waits_for_update_yield)
qed

lemma fs_inv_updateDataStructures:
  assumes "fs_inv fs" and "sp_thread s \<in> fst ` set (sp_enabled s)"
  shows "fs_inv (updateDataStructures s fs)"
proof -
  obtain H where H: "sp_thread s \<notin> H"
    "waits_for (updateDataStructures s fs) = {(t, h) \<in> waits_for fs. h \<noteq> sp_thread s} \<union> {sp_thread s} \<times> H"
    by (rule waits_for_updateDataStructures [OF assms(2)])
  have "acyclic {(t, h) \<in> waits_for fs. h \<noteq> sp_thread s}"
    using assms(1) by (auto simp: fs_inv_def intro: acyclic_subset)
  with H have "acyclic (waits_for (updateDataStructures s fs))" by (auto intro: acyclic_source)
  moreover have "cm_ok (fair_priority (updateDataStructures s fs))"
    using assms(1) by (simp add: fs_inv_def updateDataStructures_def update_yield_def Let_def cm_ok_erase)
  ultimately show ?thesis by (simp add: fs_inv_def)
qed

section \<open>Some thread can always go on\<close>

lemma isFairEnabled_iff:
  assumes "cm_ok (fair_priority fs)"
  shows "isFairEnabled t en fs \<longleftrightarrow> cm_get False en t \<and> (\<forall>h. (t, h) \<in> waits_for fs \<longrightarrow> \<not> cm_get False en h)"
proof -
  have "(\<exists>h. t |\<in>| fs_get (fair_priority fs) h \<and> P h) \<longleftrightarrow> (\<exists>(h, low) \<in> set (fair_priority fs). t |\<in>| low \<and> P h)" for P
  proof
    assume "\<exists>h. t |\<in>| fs_get (fair_priority fs) h \<and> P h"
    then obtain h low where "map_of (fair_priority fs) h = Some low" "t |\<in>| low" "P h"
      by (auto simp: cm_get_def split: option.splits)
    then show "\<exists>(h, low) \<in> set (fair_priority fs). t |\<in>| low \<and> P h" by (auto dest: map_of_SomeD)
  next
    assume "\<exists>(h, low) \<in> set (fair_priority fs). t |\<in>| low \<and> P h"
    then obtain h low where "map_of (fair_priority fs) h = Some low" "t |\<in>| low" "P h"
      using assms by (auto simp: in_set_cm_iff)
    then show "\<exists>h. t |\<in>| fs_get (fair_priority fs) h \<and> P h" by (metis cm_get_Some)
  qed
  from this [of "cm_get False en"] show ?thesis
    by (auto simp: isFairEnabled_def waits_for_def list_all_iff)
qed

lemma set_enabled_keys: "cm_ok en \<Longrightarrow> set (keys_with (\<lambda>b. b) en) = {u. cm_get False en u}"
  by (auto simp: set_keys_with cm_get_def split: option.splits)

lemma finite_enabled: "finite {t. cm_get False (en :: (thrID, bool) cmap) t}"
proof (rule finite_subset)
  show "{t. cm_get False en t} \<subseteq> dom (map_of en)" by (auto simp: cm_get_def split: option.splits)
qed (rule finite_dom_map_of)

lemma some_fair_enabled:
  assumes "fs_inv fs" and "cm_get False en u"
  shows "\<exists>t. isFairEnabled t en fs"
proof -
  let ?E = "{t. cm_get False en t}"
  let ?r = "waits_for fs \<inter> ?E \<times> ?E"
  have "finite ?r" using finite_enabled [of en] by blast
  moreover have "acyclic ?r" using assms(1) by (auto simp: fs_inv_def intro: acyclic_subset)
  ultimately have "wf (?r\<inverse>)" by (rule finite_acyclic_wf_converse)
  with assms(2) obtain t where "t \<in> ?E" "\<And>h. (h, t) \<in> ?r\<inverse> \<Longrightarrow> h \<notin> ?E" by (metis mem_Collect_eq wfE_min)
  then have "isFairEnabled t en fs"
    using assms(1) by (auto simp: fs_inv_def isFairEnabled_iff)
  then show ?thesis by blast
qed

lemma map_of_fenmap:
  "map_of (fst (getFairEnabledMap s fs)) t = map_option (\<lambda>b. isFairEnabled t (sp_enabled s) fs) (map_of (sp_enabled s) t)"
proof -
  have "map_of (map (\<lambda>(t, b). (t, f t)) en) t = map_option (\<lambda>b. f t) (map_of en t)" for f :: "thrID \<Rightarrow> bool" and en :: "(thrID, bool) cmap"
    by (induction en) auto
  then show ?thesis by (simp add: getFairEnabledMap_def)
qed

lemma cm_ok_fenmap: "cm_ok (sp_enabled s) \<Longrightarrow> cm_ok (fst (getFairEnabledMap s fs))"
  by (simp add: getFairEnabledMap_def cm_ok_def comp_def case_prod_beta')

lemma get_fenmap:
  "cm_get False (fst (getFairEnabledMap s fs)) t = isFairEnabled t (sp_enabled s) fs"
  by (auto simp: cm_get_def [of False "fst (getFairEnabledMap s fs)"] map_of_fenmap isFairEnabled_def cm_get_def [of False "sp_enabled s"] split: option.splits)

lemma set_fenmap:
  assumes "cm_ok (sp_enabled s)"
  shows "set (keys_with (\<lambda>b. b) (fst (getFairEnabledMap s fs))) = {t. isFairEnabled t (sp_enabled s) fs}"
  by (auto simp: set_keys_with [OF cm_ok_fenmap [OF assms]] simp flip: get_fenmap) (auto simp: cm_get_def split: option.splits)

lemma fs_inv_getFairEnabledMap [simp]: "fs_inv (snd (getFairEnabledMap s fs)) = fs_inv fs"
  by (simp add: getFairEnabledMap_def fs_inv_def waits_for_def)

lemma nonpreemptive_eq:
  "nonpreemptiveFairSchedule s fs =
     (let (fenmap, fs1) = getFairEnabledMap s (updateDataStructures s fs)
      in (if cm_get False fenmap (sp_thread s) then sp_thread s
          else case keys_with (\<lambda>b. b) fenmap of [] \<Rightarrow> -1 | t # _ \<Rightarrow> t,
          s\<lparr>sp_fenmap := foldl (\<lambda>m (t, b). cm_put t b m) (sp_fenmap s) fenmap\<rparr>, fs1))"
  by (simp add: nonpreemptiveFairSchedule_def Let_def split: prod.split list.split)

lemma goes_on_core:
  assumes "fs_inv fs" and "cm_ok (sp_enabled s)" and "sp_thread s \<in> fst ` set (sp_enabled s)"
    and "\<forall>t \<in> fst ` set (sp_enabled s). 0 \<le> t"
  shows "case nonpreemptiveFairSchedule s fs of (t, s', fs') \<Rightarrow>
     fs_inv fs' \<and>
     (t = -1 \<longleftrightarrow> (\<forall>u. \<not> cm_get False (sp_enabled s) u)) \<and>
     (t \<noteq> -1 \<longrightarrow> cm_get False (sp_enabled s) t \<and>
        (\<forall>h. (t, h) \<in> waits_for fs' \<longrightarrow> \<not> cm_get False (sp_enabled s) h) \<and>
        (t = sp_thread s \<or> (\<not> isFairEnabled (sp_thread s) (sp_enabled s) fs' \<and>
           (\<forall>u. isFairEnabled u (sp_enabled s) fs' \<longrightarrow> t \<le> u))))"
proof -
  let ?u = "updateDataStructures s fs"
  let ?m = "fst (getFairEnabledMap s ?u)" and ?fs' = "snd (getFairEnabledMap s ?u)"
  let ?L = "keys_with (\<lambda>b. b) ?m"
  have inv: "fs_inv ?fs'" using fs_inv_updateDataStructures [OF assms(1,3)] by simp
  have same: "isFairEnabled t (sp_enabled s) ?u = isFairEnabled t (sp_enabled s) ?fs'" for t
    by (simp add: getFairEnabledMap_def isFairEnabled_def)
  obtain t s' where r: "nonpreemptiveFairSchedule s fs = (t, s', ?fs')"
    and t: "t = (if cm_get False ?m (sp_thread s) then sp_thread s else case ?L of [] \<Rightarrow> -1 | x # _ \<Rightarrow> x)"
    by (rule that) (simp_all add: nonpreemptive_eq case_prod_beta' Let_def)
  have L: "set ?L = {t. isFairEnabled t (sp_enabled s) ?fs'}" by (simp add: set_fenmap [OF assms(2)] same)
  have cur: "cm_get False ?m (sp_thread s) = isFairEnabled (sp_thread s) (sp_enabled s) ?fs'" by (simp add: get_fenmap same)
  have nonneg: "0 \<le> u" if "isFairEnabled u (sp_enabled s) ?fs'" for u
    using that assms(4) by (auto simp: isFairEnabled_def cm_get_def split: if_splits option.splits dest!: map_of_SomeD)
  have least: "hd ?L \<le> u" if "isFairEnabled u (sp_enabled s) ?fs'" for u
    using hd_keys_with_least [OF cm_ok_fenmap [OF assms(2)]] that L by blast
  have none: "?L = [] \<longleftrightarrow> (\<forall>u. \<not> cm_get False (sp_enabled s) u)"
  proof -
    have "?L = [] \<longleftrightarrow> (\<nexists>u. isFairEnabled u (sp_enabled s) ?fs')" using L by (metis Collect_empty_eq set_empty)
    also have "\<dots> \<longleftrightarrow> (\<forall>u. \<not> cm_get False (sp_enabled s) u)"
      using some_fair_enabled [OF inv] by (metis isFairEnabled_def)
    finally show ?thesis .
  qed
  have "t = -1 \<and> ?L = [] \<or> t \<noteq> -1 \<and> ?L \<noteq> [] \<and> isFairEnabled t (sp_enabled s) ?fs' \<and>
      (t = sp_thread s \<or> (\<not> isFairEnabled (sp_thread s) (sp_enabled s) ?fs' \<and> t = hd ?L))"
  proof (cases "cm_get False ?m (sp_thread s)")
    case True
    then have "isFairEnabled (sp_thread s) (sp_enabled s) ?fs'" and "t = sp_thread s" using cur t by simp_all
    moreover from this L have "?L \<noteq> []" by (metis list.set(1) empty_iff mem_Collect_eq)
    ultimately show ?thesis using nonneg by fastforce
  next
    case False
    show ?thesis
    proof (cases ?L)
      case Nil
      with False show ?thesis by (simp add: t)
    next
      case (Cons x xs)
      then have "isFairEnabled x (sp_enabled s) ?fs'" using L by (metis list.set_intros(1) mem_Collect_eq)
      with False Cons cur nonneg show ?thesis by (fastforce simp: t)
    qed
  qed
  then show ?thesis
    using inv least none unfolding r by (auto simp: isFairEnabled_iff fs_inv_def)
qed

text \<open>
  C12: The fair scheduler never lets a program that can go on get stuck. At a point of a known thread,
  the invariant (acyclic priorities) is kept; the scheduler answers \<open>-1\<close> exactly when no thread
  is enabled, and otherwise an enabled thread that waits for no enabled thread: the current one
  if it is such a thread, and else the least one.
\<close>

theorem fair_schedule_goes_on:
  assumes "fs_inv fs" and "cm_ok (sp_enabled s)" and "sp_thread s \<in> fst ` set (sp_enabled s)"
    and "\<forall>t \<in> fst ` set (sp_enabled s). 0 \<le> t"
  shows "case nonpreemptiveFairSchedule s fs of (t, s', fs') \<Rightarrow>
     fs_inv fs' \<and>
     (t = -1 \<longleftrightarrow> (\<forall>u. \<not> cm_get False (sp_enabled s) u)) \<and>
     (t \<noteq> -1 \<longrightarrow> cm_get False (sp_enabled s) t \<and>
        (\<forall>h. (t, h) \<in> waits_for fs' \<longrightarrow> \<not> cm_get False (sp_enabled s) h) \<and>
        (t = sp_thread s \<or> (\<not> isFairEnabled (sp_thread s) (sp_enabled s) fs' \<and>
           (\<forall>u. isFairEnabled u (sp_enabled s) fs' \<longrightarrow> t \<le> u))))"
  by (rule goes_on_core [OF assms])

definition fair_demo :: "SchedPointInfo" where
  "fair_demo = mk_SchedPointInfo 7 ''Simulate Sleep'' 0 [(0, True), (1, True)] True"

lemma fair_demo_sel [simp]:
  "sp_enabled fair_demo = [(0, True), (1, True)]" "sp_thread fair_demo = 0" "sp_isYield fair_demo"
  by (simp_all add: fair_demo_def mk_SchedPointInfo_def)

theorem fair_schedule_goes_on_witness:
  "\<exists>t s' fs'. nonpreemptiveFairSchedule fair_demo new_FairScheduler = (t, s', fs') \<and> t \<noteq> -1 \<and> fs_inv fs'"
proof -
  have "cm_get False (sp_enabled fair_demo) 0" by (simp add: cm_get_def)
  with fair_schedule_goes_on [OF fs_inv_new, of fair_demo] show ?thesis
    by (auto simp: cm_ok_def)
qed

section \<open>A yield gives way\<close>

lemma update_thread_get:
  "fs_get (fair_enabled (update_thread en l fs v)) u =
     (if u = v then ffilter (cm_get False en) (fs_get (fair_enabled fs) u) else fs_get (fair_enabled fs) u)"
  "fs_get (fair_scheduled (update_thread en l fs v)) u =
     (if u = v then finsert l (fs_get (fair_scheduled fs) u) else fs_get (fair_scheduled fs) u)"
  by (simp_all add: update_thread_def Let_def)

lemma fold_update_thread_other:
  "u \<notin> set ts \<Longrightarrow>
   fs_get (fair_enabled (foldl (update_thread en l) fs ts)) u = fs_get (fair_enabled fs) u \<and>
   fs_get (fair_scheduled (foldl (update_thread en l) fs ts)) u = fs_get (fair_scheduled fs) u"
  by (induction ts arbitrary: fs) (simp_all add: update_thread_get)

lemma fold_update_thread_at:
  assumes "u \<in> set ts" "distinct ts"
  shows "fs_get (fair_enabled (foldl (update_thread en l) fs ts)) u = ffilter (cm_get False en) (fs_get (fair_enabled fs) u) \<and>
    fs_get (fair_scheduled (foldl (update_thread en l) fs ts)) u = finsert l (fs_get (fair_scheduled fs) u)"
  using assms
proof (induction ts arbitrary: fs)
  case (Cons v ts)
  show ?case
  proof (cases "v = u")
    case True
    with Cons.prems(2) show ?thesis using fold_update_thread_other [of u ts en l] by (simp add: update_thread_get)
  next
    case False
    with Cons show ?thesis by (simp add: update_thread_get)
  qed
qed simp

text \<open>
  C13: A yield gives way to the starved. Let a thread yield for which, since its last yield, another
  thread \<open>h\<close> has been enabled all along (and still is) and was never scheduled. Then the yielding
  thread waits for \<open>h\<close> from now on, so it is not fair-enabled while \<open>h\<close> is enabled, until \<open>h\<close> is scheduled:
  the scheduler picks another thread at this point. The thread's own window restarts: all
  threads enabled now are candidates for the next yield and none counts as scheduled.
\<close>

theorem yield_gives_way:
  assumes "fs_inv fs" and "cm_ok (sp_enabled s)" and "sp_thread s \<in> fst ` set (sp_enabled s)" and "sp_isYield s"
    and "\<forall>t \<in> fst ` set (sp_enabled s). 0 \<le> t"
    and "h |\<in>| fs_get (fair_enabled fs) (sp_thread s)" and "cm_get False (sp_enabled s) h"
    and "h |\<notin>| fs_get (fair_scheduled fs) (sp_thread s)" and "h \<noteq> sp_thread s"
  shows "case nonpreemptiveFairSchedule s fs of (t, s', fs') \<Rightarrow>
     (sp_thread s, h) \<in> waits_for fs' \<and> t \<noteq> sp_thread s \<and>
     (\<forall>en. cm_get False en h \<longrightarrow> \<not> isFairEnabled (sp_thread s) en fs') \<and>
     fset (fs_get (fair_enabled fs') (sp_thread s)) = {u. cm_get False (sp_enabled s) u} \<and>
     fs_get (fair_disabled fs') (sp_thread s) = {||} \<and> fs_get (fair_scheduled fs') (sp_thread s) = {||}"
proof -
  let ?t = "sp_thread s" and ?en = "sp_enabled s"
  let ?fs1 = "fs\<lparr>fair_priority := cm_erase ?t (fair_priority fs)\<rparr>"
  let ?fs2 = "foldl (update_thread ?en ?t) ?fs1 (cm_keys ?en)"
  let ?u = "updateDataStructures s fs"
  have u: "?u = update_yield ?en ?t ?fs2" using assms(4) by (simp add: updateDataStructures_def Let_def)
  have "?t \<in> set (cm_keys ?en)" "distinct (cm_keys ?en)"
    using assms(2,3) by (auto simp: cm_keys_def cm_ok_distinct)
  from fold_update_thread_at [OF this, of ?en ?t ?fs1] assms(6-9) have "h |\<in>| starved ?t ?fs2" by (simp add: starved_def)
  then have w: "(?t, h) \<in> waits_for ?u" by (simp add: u waits_for_update_yield)
  obtain t s' fs' where r: "nonpreemptiveFairSchedule s fs = (t, s', fs')" by (metis prod.exhaust)
  have fs': "fs' = snd (getFairEnabledMap s ?u)" using r by (auto simp: nonpreemptive_eq case_prod_beta' Let_def)
  have w': "(?t, h) \<in> waits_for fs'" using w by (simp add: fs' getFairEnabledMap_def waits_for_def)
  have inv: "fs_inv fs'" using fs_inv_updateDataStructures [OF assms(1,3)] by (simp add: fs')
  then have nf: "\<not> isFairEnabled ?t en fs'" if "cm_get False en h" for en
    using w' that by (auto simp: isFairEnabled_iff fs_inv_def)
  have "t \<noteq> ?t"
  proof
    assume "t = ?t"
    moreover have "t \<noteq> -1 \<and> (\<forall>h. (t, h) \<in> waits_for fs' \<longrightarrow> \<not> cm_get False ?en h)"
      using goes_on_core [OF assms(1,2,3,5)] assms(7) unfolding r prod.case by blast
    ultimately show False using w' assms(7) by blast
  qed
  moreover have "fset (fs_get (fair_enabled fs') ?t) = {u. cm_get False ?en u}"
    "fs_get (fair_disabled fs') ?t = {||}" "fs_get (fair_scheduled fs') ?t = {||}"
    by (simp_all add: fs' u update_yield_def getFairEnabledMap_def fset_of_list.rep_eq set_enabled_keys [OF assms(2)])
  ultimately show ?thesis using w' nf by (simp add: r)
qed

theorem yield_gives_way_witness:
  "\<exists>t s' fs'. nonpreemptiveFairSchedule fair_demo (new_FairScheduler\<lparr>fair_enabled := [(0, {|1|})]\<rparr>) = (t, s', fs') \<and> t \<noteq> 0"
proof -
  have "fs_inv (new_FairScheduler\<lparr>fair_enabled := [(0, {|1|})]\<rparr>)"
    using fs_inv_new by (simp add: fs_inv_def waits_for_def)
  from yield_gives_way [OF this, of fair_demo 1] show ?thesis
    by (auto simp: cm_ok_def cm_get_def new_FairScheduler_def split: prod.splits)
qed

end
