(* ===== verification/Chess_Tracker.thy ===== *)
theory Chess_Tracker
  imports Strict_Tracker Fair_Scheduler
begin

text \<open>
  \<open>ChessTracker\<close> (\<open>src/chessserial/chesstracker.cpp\<close>): follows a schedule, then runs the program
  without preemptions under the fair scheduler. Every point, logged or not, is shown to the fair
  scheduler, and only threads that it lets run are launched.
\<close>

record ChessTracker = ExecutionTracker +
  fairscheduler :: FairScheduler

definition new_ChessTracker :: "Logger \<Rightarrow> thrID \<Rightarrow> ChessTracker" where
  "new_ChessTracker l myself = ExecutionTracker.extend (new_ExecutionTracker l myself) \<lparr>fairscheduler = new_FairScheduler\<rparr>"

definition chess_pick :: "SchedPointInfo \<Rightarrow> (ChessTracker, thrID \<times> SchedPointInfo) tm" where
  "chess_pick p s =
     (let (t, p1, fs) = nonpreemptiveFairSchedule p (fairscheduler s) in Inr ((t, p1), s\<lparr>fairscheduler := fs\<rparr>))"

definition chess_follow :: "SchedPointInfo \<Rightarrow> (ChessTracker, SchedPointInfo) tm" where
  "chess_follow p s =
     (let (t, p1, fs) = nonpreemptiveFairSchedule p (fairscheduler s) in Inr (p1, s\<lparr>fairscheduler := fs\<rparr>))"

definition chess_launch :: "thrID \<Rightarrow> SchedPointInfo \<Rightarrow> (ChessTracker, unit) tm" where
  "chess_launch t p =
     bnd (upd (with_log (fairScheduling t p))) (\<lambda>_.
     bnd (safe_assert_in ''chesstracker.cpp'' (cm_get False (sp_enabled p) t) ''s->enabled[target]'') (\<lambda>_.
     bnd (safe_assert_in ''chesstracker.cpp'' (cm_get False (sp_fenmap p) t) ''s->fenmap[target]'') (\<lambda>_.
     wake_target t)))"

definition chess_policy :: "ChessTracker policy" where
  "chess_policy = \<lparr>p_pick = chess_pick, p_follow = chess_follow,
     p_compare = compareScheduleSynchronization, p_launch = chess_launch\<rparr>"

definition chess_methods :: "ChessTracker methods" where
  "chess_methods = methods_of chess_policy"

interpretation chess: serial_methods chess_methods
proof -
  have "refines (chess_launch t p) (\<lambda>v _ v'. (cm_get False (sp_enabled p) = v_en v \<longrightarrow> v_en v t) \<and> v' = a_launch t v)" for t p
    unfolding chess_launch_def
    by (rule refines_weaken, (rule refine_rules refines_wake_target)+) auto
  moreover have "refines (chess_pick p) (\<lambda>v x v'. v' = v)" "refines (chess_follow p) (\<lambda>v x v'. v' = v)" for p
    by (rule refinesI, auto simp: chess_pick_def chess_follow_def wf_def view_def split: prod.splits)+
  moreover have "refines (compareScheduleSynchronization a b) (\<lambda>v x v'. v' = v)" for a b
    unfolding compareScheduleSynchronization_def by (rule refines_weaken [OF refines_ret]) auto
  ultimately have "policy_ok chess_policy" unfolding policy_ok_def chess_policy_def policy.simps by blast
  then show "serial_methods chess_methods" unfolding chess_methods_def by (rule serial_methods_of)
qed

section \<open>Fair execution\<close>

lemma fenmap_get:
  "cm_ok m \<Longrightarrow> cm_get False (foldl (\<lambda>m (t, b). cm_put t b m) m0 m) u = (case map_of m u of None \<Rightarrow> cm_get False m0 u | Some b \<Rightarrow> b)"
proof (induction m arbitrary: m0)
  case (Cons e m)
  obtain k v where e: "e = (k, v)" by (cases e)
  have "map_of m k = None" using Cons.prems by (auto simp: e cm_ok_Cons map_of_eq_None_iff)
  with Cons show ?case by (auto simp: e cm_ok_Cons split: option.splits)
qed simp

lemma fair_launch_allowed:
  assumes "nonpreemptiveFairSchedule p f = (t, p1, fs)" and "cm_ok (sp_enabled p)" and "isFairEnabled u (sp_enabled p) fs"
  shows "cm_get False (sp_fenmap p1) u"
proof -
  let ?u = "updateDataStructures p f"
  have fs: "fs = snd (getFairEnabledMap p ?u)" and p1: "p1 = p\<lparr>sp_fenmap := foldl (\<lambda>m (t, b). cm_put t b m) (sp_fenmap p) (fst (getFairEnabledMap p ?u))\<rparr>"
    using assms(1) by (auto simp: nonpreemptive_eq case_prod_beta' Let_def)
  have same: "isFairEnabled u (sp_enabled p) fs = isFairEnabled u (sp_enabled p) ?u"
    by (simp add: fs getFairEnabledMap_def isFairEnabled_def)
  obtain b where "map_of (sp_enabled p) u = Some b"
    using assms(3) by (auto simp: isFairEnabled_def cm_get_def split: if_splits option.splits)
  with assms(3) same show ?thesis
    by (simp add: p1 fenmap_get [OF cm_ok_fenmap [OF assms(2)]] map_of_fenmap)
qed

lemma chess_launch_runs:
  assumes "cm_get False (sp_enabled p) t" and "cm_get False (sp_fenmap p) t"
    and "cm_get None (sem_map s) t = Some 0" and "cm_get None (wait_sem_map s) t = Some 0"
  shows "\<exists>s'. chess_launch t p s = Inr ((), s') \<and> fairscheduler s' = fairscheduler s \<and> log s' = fairScheduling t p (log s) \<and>
     cm_get False (enable_map s') = cm_get False (enable_map s)"
  using assms
  by (auto simp: chess_launch_def safe_assert_in_def safe_assert_def wake_target_def read_cond_def waitWakeThread_def wakeThread_def with_log_def
      read_sem_map_def read_wait_sem_map_def SEM_VALUE_MAX_def bnd_def)

lemma recordScheduleInfo_more:
  "recordScheduleInfo a b s = Inr (x, s') \<Longrightarrow> ExecutionTracker.more s' = ExecutionTracker.more s"
  by (simp add: recordScheduleInfo_keeps)

lemma fairscheduler_more: "ExecutionTracker.more s' = ExecutionTracker.more s \<Longrightarrow> fairscheduler s' = fairscheduler s"
  by (cases s; cases s') simp

text \<open>
  C22: A decision of the fair scheduler. Past the end of the schedule to follow, in a well-formed state with
  acyclic priorities, whose enabled threads wait on their semaphores: if no thread is enabled the
  process reports a deadlock. Otherwise \<open>schedule\<close> returns, so neither of the two assertions of
  \<open>launchThread\<close> fails; the thread launched is enabled and has to wait for no enabled thread; it
  is the caller unless the caller is disabled or has to wait; and the priorities stay acyclic.
\<close>

theorem chess_schedule_decides:
  assumes "wf s" and "fs_inv (fairscheduler s)" and "read_schedule (log s) = []"
    and "sp_enabled p = enable_map s" and "sp_thread p \<in> fst ` set (enable_map s)"
    and "\<forall>t \<in> fst ` set (enable_map s). 0 \<le> t"
    and "\<And>t. cm_get False (enable_map s) t \<Longrightarrow> cm_get None (sem_map s) t = Some 0 \<and> cm_get None (wait_sem_map s) t = Some 0"
  shows "if \<exists>t. cm_get False (enable_map s) t then
       (\<exists>t s'. m_schedule chess_methods p s = Inr (t, s') \<and> cm_get False (enable_map s) t \<and>
          (\<forall>h. (t, h) \<in> waits_for (fairscheduler s') \<longrightarrow> \<not> cm_get False (enable_map s) h) \<and>
          (t = sp_thread p \<or> \<not> isFairEnabled (sp_thread p) (enable_map s) (fairscheduler s')) \<and>
          fs_inv (fairscheduler s'))
     else (\<exists>s'. m_schedule chess_methods p s = Inl (ProgramDeadlock, s'))"
proof -
  let ?p = "p\<lparr>sp_fromLog := False\<rparr>"
  obtain t p1 fs where r: "nonpreemptiveFairSchedule ?p (fairscheduler s) = (t, p1, fs)" by (metis prod.exhaust)
  have ok: "cm_ok (enable_map s)" using assms(1) by (simp add: wf_def)
  have go: "fs_inv fs" "t = -1 \<longleftrightarrow> (\<forall>u. \<not> cm_get False (enable_map s) u)"
    "t \<noteq> -1 \<Longrightarrow> cm_get False (enable_map s) t \<and> (\<forall>h. (t, h) \<in> waits_for fs \<longrightarrow> \<not> cm_get False (enable_map s) h) \<and>
      (t = sp_thread p \<or> \<not> isFairEnabled (sp_thread p) (enable_map s) fs)"
  proof -
    have en: "sp_enabled ?p = enable_map s" "sp_thread ?p = sp_thread p" using assms(4) by simp_all
    note g = goes_on_core [of "fairscheduler s" ?p, unfolded en r prod.case, OF assms(2) ok assms(5,6)]
    from g show "fs_inv fs" "t = -1 \<longleftrightarrow> (\<forall>u. \<not> cm_get False (enable_map s) u)" by blast+
    show "cm_get False (enable_map s) t \<and> (\<forall>h. (t, h) \<in> waits_for fs \<longrightarrow> \<not> cm_get False (enable_map s) h) \<and>
      (t = sp_thread p \<or> \<not> isFairEnabled (sp_thread p) (enable_map s) fs)" if "t \<noteq> -1"
      using g that by blast
  qed
  have pick: "m_schedule chess_methods p s =
      bnd (if t = INVALID_THREAD then bnd deadlockCheck (\<lambda>_. safe_assert False ''notThrilleInternalError'') else ret ()) (\<lambda>_.
      bnd (recordScheduleInfo (sp_thread p) t) (\<lambda>_. launch_choice chess_policy t p1)) (s\<lparr>fairscheduler := fs\<rparr>)"
    using assms(3) by (simp add: chess_methods_def methods_of_def schedule_point_def from_log_def getNextScheduleChoice_def
        schedule_new_def chess_policy_def chess_pick_def r)
  show ?thesis
  proof (cases "t = -1")
    case True
    then have "\<not> (\<exists>e \<in> set (enable_map s). snd e)"
      using go(2) marked_entry [OF ok] by blast
    then have "\<exists>s'. m_schedule chess_methods p s = Inl (ProgramDeadlock, s')"
      using True by (simp add: pick deadlockCheck_def bnd_def)
    moreover have "\<not> (\<exists>t. cm_get False (enable_map s) t)" using True go(2) by blast
    ultimately show ?thesis by (simp only: if_False)
  next
    case False
    note t = go(3) [OF False]
    have fen: "cm_get False (sp_fenmap p1) t"
    proof -
      have "isFairEnabled t (enable_map s) fs" using t go(1) by (auto simp: isFairEnabled_iff fs_inv_def)
      then show ?thesis using fair_launch_allowed [OF r, of t] ok assms(4) by simp
    qed
    obtain s1 where s1: "recordScheduleInfo (sp_thread p) t (s\<lparr>fairscheduler := fs\<rparr>) = Inr ((), s1)"
      "cm_get False (enable_map s1) = cm_get False (enable_map s)" "sem_map s1 = sem_map s" "wait_sem_map s1 = wait_sem_map s"
      using recordScheduleInfo_returns [of "sp_thread p" t "s\<lparr>fairscheduler := fs\<rparr>"] by auto
    have fs1: "fairscheduler s1 = fs" using fairscheduler_more [OF recordScheduleInfo_more [OF s1(1)]] by simp
    let ?q = "p1\<lparr>sp_enabled := enable_map s1\<rparr>"
    obtain s2 where s2: "chess_launch t ?q s1 = Inr ((), s2)" "fairscheduler s2 = fs"
    proof -
      have "cm_get False (sp_enabled ?q) t" "cm_get False (sp_fenmap ?q) t" "cm_get None (sem_map s1) t = Some 0"
        "cm_get None (wait_sem_map s1) t = Some 0"
        using fen t s1(2-4) assms(7) [of t] by simp_all
      from chess_launch_runs [OF this] fs1 that show thesis by blast
    qed
    have "m_schedule chess_methods p s = Inr (t, s2)"
      using False s1(1) s2(1) by (simp add: pick launch_choice_def chess_policy_def)
    moreover have "\<exists>t. cm_get False (enable_map s) t" using t by blast
    ultimately show ?thesis using t go(1) s2(2) by (simp only: if_True) blast
  qed
qed

definition chess_demo :: ChessTracker where
  "chess_demo = new_ChessTracker Logger_raw 1"

lemma chess_demo_sel [simp]:
  "enable_map chess_demo = [(1, True)]" "sem_map chess_demo = [(1, Some 0)]" "wait_sem_map chess_demo = [(1, Some 0)]"
  "log chess_demo = Logger_raw" "fairscheduler chess_demo = new_FairScheduler"
  by (simp_all add: chess_demo_def new_ChessTracker_def new_ExecutionTracker_def constructorHelper_def
      ExecutionTracker_raw_def initializeThreadData_def enableThread_def ExecutionTracker.extend_def)

theorem chess_schedule_decides_witness:
  "\<exists>s'. m_schedule chess_methods (mk_SchedPointInfo 7 ''Simulate Sleep'' 1 [(1, True)] True) chess_demo = Inr (1, s') \<and>
     fs_inv (fairscheduler s')"
proof -
  have "wf chess_demo"
    by (simp add: chess_demo_def new_ChessTracker_def new_ExecutionTracker_def constructorHelper_def wf_def
      ExecutionTracker_raw_def initializeThreadData_def enableThread_def ExecutionTracker.extend_def
      BarrierTracker_init_def cm_ok_def)
  let ?p = "mk_SchedPointInfo 7 ''Simulate Sleep'' 1 [(1, True)] True"
  have get: "cm_get False [(1, True)] t = (t = 1)" for t :: thrID by (simp add: cm_get_def)
  have "\<And>t. t = (1 :: thrID) \<Longrightarrow> cm_get None [(1, Some 0)] t = Some (0 :: nat) \<and> cm_get None [(1, Some 0)] t = Some (0 :: nat)"
    by (simp add: cm_get_def)
  moreover have "sp_enabled ?p = [(1, True)]" "sp_thread ?p = 1" by (simp_all add: mk_SchedPointInfo_def)
  ultimately show ?thesis
    using chess_schedule_decides [OF \<open>wf chess_demo\<close>, of ?p, unfolded chess_demo_sel get] by (auto simp: fs_inv_new)
qed

end
