(* ===== verification/Relaxed_Logger.thy ===== *)
theory Relaxed_Logger
  imports Schedule_File
begin

text \<open>
  \<open>src/relaxedserial/relaxedlogger.cpp\<close>: reads relaxed schedules. A step of a relaxed schedule is a thread, how
  often to schedule it, the address at which to switch away from it, how often to pass this
  address first, and the threads to wake at signals. The writer of these files is
  \<open>outputScheduleStep\<close> of \<open>scripts/simpl/src/common/schedule.py\<close>; what it writes is read back.

  The loop over the signals does not end on a line without \<open>##\<close>: \<open>strtol\<close> stops advancing. It
  is a partial function, whose value is \<open>None\<close> when the loop goes on for ever.
\<close>

section \<open>Reading\<close>

record RelaxedSchedStruct =
  rs_current :: thrID
  rs_max :: int
  rs_addr :: addr
  rs_pass :: int
  rs_signals :: "thrID list"

definition mk_RelaxedSchedStruct :: "thrID \<Rightarrow> int \<Rightarrow> addr \<Rightarrow> int \<Rightarrow> RelaxedSchedStruct" where
  "mk_RelaxedSchedStruct cur m ad p = \<lparr>rs_current = cur, rs_max = m, rs_addr = ad, rs_pass = p, rs_signals = []\<rparr>"

text \<open>\<open>in.substr(0, in.find(":"))\<close> and \<open>in.substr(in.find(":") + 1, in.size())\<close>; without a colon both are \<open>in\<close>.\<close>

definition before_colon :: "string \<Rightarrow> string" where
  "before_colon s = takeWhile (\<lambda>c. c \<noteq> CHR '':'') s"

definition after_colon :: "string \<Rightarrow> string" where
  "after_colon s = (if CHR '':'' \<in> set s then tl (dropWhile (\<lambda>c. c \<noteq> CHR '':'') s) else s)"

definition at_end_mark :: "string \<Rightarrow> bool" where
  "at_end_mark s = (strncmp_eq s ''##'' 2 \<or> strncmp_eq s '' ##'' 3)"

partial_function (option) signals_loop :: "string \<Rightarrow> thrID list \<Rightarrow> thrID list option" where
  "signals_loop continuation signals =
     (if at_end_mark continuation then Some signals
      else signals_loop (snd (strtol10 continuation)) (signals @ [c_int (fst (strtol10 continuation))]))"

text \<open>\<open>fgets\<close> into a buffer that was written before: at the end of the file it keeps its content.\<close>

definition refill :: "string \<Rightarrow> string \<Rightarrow> string \<times> string" where
  "refill buf f = (case fgets MAX_READ_SIZE f of None \<Rightarrow> (buf, f) | Some (l, r) \<Rightarrow> (l, r))"

lemma refill_length: "length (snd (refill buf f)) \<le> length f"
  by (auto simp: refill_def split: option.splits dest: fgets_shrinks_max)

text \<open>One step, whose first line is in the buffer.\<close>

definition read_step :: "string \<Rightarrow> string \<Rightarrow> (RelaxedSchedStruct \<times> string) option" where
  "read_step tmp f =
     (let current = atoi (before_colon tmp);
          max = atoi (after_colon tmp);
          (tmp1, f1) = refill tmp f;
          preempt = getAddress (before_colon tmp1);
          pass = atoi (after_colon tmp1);
          (tmp2, f2) = refill tmp1 f1
      in map_option (\<lambda>sigs. ((mk_RelaxedSchedStruct current max preempt pass)\<lparr>rs_signals := sigs\<rparr>, f2))
           (signals_loop tmp2 []))"

lemma read_step_length: "read_step tmp f = Some (r, f') \<Longrightarrow> length f' \<le> length f"
  using refill_length [of tmp f] refill_length [of "fst (refill tmp f)" "snd (refill tmp f)"]
  by (auto simp: read_step_def Let_def split: prod.splits)

function relaxed_loop :: "RelaxedSchedStruct list \<Rightarrow> string \<Rightarrow> (RelaxedSchedStruct list \<times> string) option" where
  "relaxed_loop acc f =
     (case fgets MAX_READ_SIZE f of
        None \<Rightarrow> Some (acc, f)
      | Some (tok, r) \<Rightarrow>
          if isReadfileEnd_token tok then Some (acc, r)
          else (case read_step tok r of
                  None \<Rightarrow> None
                | Some (st, r') \<Rightarrow> relaxed_loop (acc @ [st]) r'))"
  by pat_completeness auto

termination
  by (relation "measure (\<lambda>(acc, f). length f)")
    (auto dest!: fgets_shrinks_max read_step_length)

declare relaxed_loop.simps [simp del]

text \<open>The schedule read, and the logger afterwards; the file stays open.\<close>

definition reconstituteRelaxedSchedule :: "'a Logger_scheme \<Rightarrow> (RelaxedSchedStruct list \<times> 'a Logger_scheme) option" where
  "reconstituteRelaxedSchedule l =
     (case readfile l of
        None \<Rightarrow> Some ([], l)
      | Some f \<Rightarrow> map_option (\<lambda>(st, r). (st, l\<lparr>readfile := Some r\<rparr>)) (relaxed_loop [] f))"

text \<open>
  The constructor: it passes the empty name to the constructor of \<open>Logger\<close> and then opens its own
  input file \<open>infile\<close>. \<open>None\<close> is the loop that does not end.
\<close>

definition new_RelaxedLogger :: "stack_frame \<Rightarrow> string option \<Rightarrow> MTRand \<Rightarrow> bool \<Rightarrow> files \<Rightarrow> string \<Rightarrow>
    ((exit_reason \<times> Logger) + (RelaxedSchedStruct list \<times> Logger)) option" where
  "new_RelaxedLogger frame cfg r can_write fs infile =
     (case bnd (new_Logger frame cfg r can_write fs []) (\<lambda>_.
           bnd (upd (\<lambda>l. l\<lparr>readfile := fopen_r fs infile\<rparr>)) (\<lambda>_. setSchedulableAddresses)) Logger_raw of
        Inl e \<Rightarrow> Some (Inl e)
      | Inr (_, l) \<Rightarrow> map_option Inr (reconstituteRelaxedSchedule l))"

text \<open>What the constructor leaves of its base class: no file name, and the generator it was given.\<close>

lemma address_loop_keeps:
  "address_loop f buf l = (buf', l') \<Longrightarrow> myrand l' = myrand l \<and> infile_name l' = infile_name l"
proof (induction f buf l rule: address_loop.induct)
  case (1 f buf l)
  show ?case
  proof (cases "fgets MAX_READ_SIZE f")
    case None
    with 1(2) show ?thesis by (subst (asm) address_loop.simps) auto
  next
    case (Some x)
    obtain tok r where x: "x = (tok, r)" by (cases x)
    show ?thesis
      using 1(2) 1(1) [OF Some x [symmetric]]
      by (subst (asm) address_loop.simps) (auto simp: Some x addAddressToSchedule_def split: if_splits option.splits)
  qed
qed

lemma setSchedulableAddresses_keeps:
  "setSchedulableAddresses l = Inr (u, l') \<Longrightarrow> myrand l' = myrand l \<and> infile_name l' = infile_name l"
  by (auto simp: setSchedulableAddresses_def split: option.splits if_splits prod.splits dest: address_loop_keeps)

lemma reconstituteSchedule_keeps:
  "reconstituteSchedule frame l = Inr (u, l') \<Longrightarrow> myrand l' = myrand l \<and> infile_name l' = infile_name l"
  by (auto simp: reconstituteSchedule_def split: option.splits sum.splits)

lemma new_Logger_keeps:
  assumes "new_Logger frame cfg r can_write fs infile Logger_raw = Inr (u, l)"
  shows "myrand l = r \<and> infile_name l = infile"
  using assms
  by (auto simp: new_Logger_def bnd_eq_Inr setPrint_def allocateObjects_def
      dest!: setSchedulableAddresses_keeps reconstituteSchedule_keeps split: option.splits if_splits)

lemma new_RelaxedLogger_keeps:
  assumes "new_RelaxedLogger frame cfg r can_write fs infile = Some (Inr (sts, l))"
  shows "myrand l = r \<and> infile_name l = []"
  using assms
  by (auto simp: new_RelaxedLogger_def bnd_eq_Inr reconstituteRelaxedSchedule_def
      dest!: setSchedulableAddresses_keeps new_Logger_keeps split: option.splits sum.splits)

section \<open>The loop over the signals\<close>

lemma signals_loop_end: "at_end_mark s \<Longrightarrow> signals_loop s acc = Some acc"
  by (subst signals_loop.simps) simp

lemma signals_loop_step:
  "\<not> at_end_mark s \<Longrightarrow> signals_loop s acc = signals_loop (snd (strtol10 s)) (acc @ [c_int (fst (strtol10 s))])"
  by (subst signals_loop.simps) simp

text \<open>No call of \<open>strtol\<close> brings in a new character, so without an end mark the loop never ends.\<close>

lemma strtol10_rest: "set (snd (strtol10 s)) \<subseteq> set s"
  by (auto simp: strtol10_def Let_def split: list.splits if_splits dest!: set_dropWhileD)
    (metis list.set_intros(2) set_dropWhileD)+

lemma signals_loop_unmarked:
  assumes "CHR ''#'' \<notin> set s"
  shows "signals_loop s acc = None"
proof -
  have "CHR ''#'' \<in> set x" if "signals_loop x acc = Some r" for x acc r
  proof (rule signals_loop.raw_induct [where P = "\<lambda>x _ _. CHR ''#'' \<in> set x", OF _ that])
    fix rec x acc r
    assume IH: "\<And>x acc r. rec x acc = Some r \<Longrightarrow> CHR ''#'' \<in> set x"
      and "(if at_end_mark x then Some acc else rec (snd (strtol10 x)) (acc @ [c_int (fst (strtol10 x))])) = Some r"
    then consider "at_end_mark x" | "CHR ''#'' \<in> set (snd (strtol10 x))" by (auto split: if_splits)
    then show "CHR ''#'' \<in> set x"
    proof cases
      case 1
      then have "CHR ''#'' \<in> set (take 2 x) \<or> CHR ''#'' \<in> set (take 3 x)"
        by (auto simp: at_end_mark_def strncmp_eq_def)
      then show ?thesis by (blast dest: in_set_takeD)
    next
      case 2
      with strtol10_rest show ?thesis by blast
    qed
  qed
  with assms show ?thesis by (cases "signals_loop s acc") auto
qed

definition signals_text :: "thrID list \<Rightarrow> string" where
  "signals_text ts = concat (map (\<lambda>t. printf_d t @ '' '') ts) @ ''##''"

lemma strtol10_one_space:
  assumes "strtol10 s = (v, r)" and "length r < length s"
  shows "strtol10 (CHR '' '' # s) = (v, r)"
  using assms by (auto simp: strtol10_def Let_def isspace_def split: if_splits)

lemma printf_d_first: "\<exists>c cs. printf_d i = c # cs \<and> (c = CHR ''-'' \<or> is_digit c)"
proof (cases "i < 0")
  case False
  then show ?thesis using dec_digits_all [of "nat i"] by (cases "dec_digits (nat i)") (auto simp: printf_d_def)
qed (simp add: printf_d_def)

lemma not_end_mark_printf_d: "\<not> at_end_mark (printf_d i @ s)" "\<not> at_end_mark (CHR '' '' # printf_d i @ s)"
proof -
  have "\<not> is_digit (CHR ''#'')" "\<not> is_digit (CHR '' '')" by (simp_all add: is_digit_def)
  with printf_d_first [of i] show "\<not> at_end_mark (printf_d i @ s)" "\<not> at_end_mark (CHR '' '' # printf_d i @ s)"
    by (auto simp: at_end_mark_def strncmp_eq_def)
qed

lemma strtol10_printf_space:
  assumes "int_range i"
  shows "strtol10 (printf_d i @ CHR '' '' # s) = (i, CHR '' '' # s)"
    "strtol10 (CHR '' '' # printf_d i @ CHR '' '' # s) = (i, CHR '' '' # s)"
proof -
  show *: "strtol10 (printf_d i @ CHR '' '' # s) = (i, CHR '' '' # s)"
    using assms by (intro strtol10_printf_d) (auto simp: int_range_def is_digit_def)
  have "length (CHR '' '' # s) < length (printf_d i @ CHR '' '' # s)" using printf_d_first [of i] by auto
  from strtol10_one_space [OF * this] show "strtol10 (CHR '' '' # printf_d i @ CHR '' '' # s) = (i, CHR '' '' # s)" .
qed

lemma c_int_range [simp]: "int_range i \<Longrightarrow> c_int i = i"
  by (simp add: int_range_def c_int_id)

lemma signals_loop_text:
  assumes "list_all int_range ts" and "sp = [] \<or> sp = '' ''"
  shows "signals_loop (sp @ signals_text ts @ r) acc = Some (acc @ ts)"
  using assms
proof (induction ts arbitrary: acc sp)
  case Nil
  then show ?case by (auto simp: signals_text_def signals_loop_end at_end_mark_def strncmp_eq_def)
next
  case (Cons t ts)
  have eq: "signals_text (t # ts) @ r = printf_d t @ CHR '' '' # signals_text ts @ r" by (simp add: signals_text_def)
  have "signals_loop ('' '' @ signals_text ts @ r) (acc @ [t]) = Some ((acc @ [t]) @ ts)" using Cons.IH [of "'' ''" "acc @ [t]"] Cons.prems by simp
  then have rest: "signals_loop (CHR '' '' # signals_text ts @ r) (acc @ [t]) = Some (acc @ t # ts)" by simp
  have t: "int_range t" using Cons by simp
  from Cons.prems(2) show ?case
  proof
    assume "sp = []"
    with rest t show ?thesis
      using signals_loop_step [OF not_end_mark_printf_d(1), of t "CHR '' '' # signals_text ts @ r" acc]
      by (simp add: eq strtol10_printf_space)
  next
    assume "sp = '' ''"
    with rest t show ?thesis
      using signals_loop_step [OF not_end_mark_printf_d(2), of t "CHR '' '' # signals_text ts @ r" acc]
      by (simp add: eq strtol10_printf_space)
  qed
qed

section \<open>What the scripts write is read back\<close>

text \<open>\<open>outputScheduleStep\<close>; the address is one of an earlier schedule, or \<open>"0"\<close>.\<close>

definition step_text :: "RelaxedSchedStruct \<Rightarrow> string" where
  "step_text st =
     ln (printf_d (rs_current st) @ '':'' @ printf_d (rs_max st)) @
     ln ((if rs_addr st = NULL then ''0'' else printf_p (rs_addr st)) @ '':'' @ printf_d (rs_pass st)) @
     ln (signals_text (rs_signals st))"

definition step_printable :: "RelaxedSchedStruct \<Rightarrow> bool" where
  "step_printable st \<longleftrightarrow> int_range (rs_current st) \<and> int_range (rs_max st) \<and> int_range (rs_pass st) \<and>
     list_all int_range (rs_signals st) \<and> length (signals_text (rs_signals st)) < 255"

lemma not_space_colon: "\<not> isspace (CHR '':'')" "CHR '':'' \<noteq> CHR ''-''" "\<not> is_digit (CHR '':'')"
  by (simp_all add: isspace_def is_digit_def)

lemma printf_d_chars: "c \<in> set (printf_d i) \<Longrightarrow> c = CHR ''-'' \<or> is_digit c"
  using dec_digits_all by (auto simp: printf_d_def split: if_splits)

lemma printf_d_no_colon: "CHR '':'' \<notin> set (printf_d i)"
  using printf_d_chars [of "CHR '':''" i] not_space_colon by auto

lemma colon_split:
  assumes "CHR '':'' \<notin> set a"
  shows "before_colon (a @ CHR '':'' # b) = a" "after_colon (a @ CHR '':'' # b) = b"
proof -
  have "\<forall>c \<in> set a. c \<noteq> CHR '':''" using assms by auto
  then show "before_colon (a @ CHR '':'' # b) = a" "after_colon (a @ CHR '':'' # b) = b"
    using takeWhile_stop [of a "\<lambda>c. c \<noteq> CHR '':''" "CHR '':'' # b"] dropWhile_stop [of a "\<lambda>c. c \<noteq> CHR '':''" "CHR '':'' # b"]
    by (simp_all add: before_colon_def after_colon_def)
qed

lemma atoi_field:
  "int_range i \<Longrightarrow> atoi (printf_d i) = i" "int_range i \<Longrightarrow> atoi (printf_d i @ [newline]) = i"
  using atoi_printf_d [of i "[]" "[]"] atoi_printf_d [of i "[newline]" "[]"]
  by (auto simp: int_range_def newline_def is_digit_def)

lemma step_address_field: "getAddress (if a = NULL then ''0'' else printf_p a) = a"
  using strtoul16_printf_p [of "[]" "[]" a]
  by (auto simp: getAddress_def) (simp add: strtoul16_def strip_0x_def isspace_def hex_vals_def is_hex_def hex_val_def)

lemma refill_ln: "newline \<notin> set l \<Longrightarrow> length l < 255 \<Longrightarrow> refill buf (ln l @ r) = (ln l, r)"
  by (simp add: refill_def fgets_ln)

lemma printf_d_no_newline: "newline \<notin> set (printf_d i)"
  using no_space_newline printf_d_no_space by blast

lemma address_line:
  "newline \<notin> set (if a = NULL then ''0'' else printf_p a)" "CHR '':'' \<notin> set (if a = NULL then ''0'' else printf_p a)"
  "length (if a = NULL then ''0'' else printf_p a) \<le> 18"
proof -
  have "CHR '':'' \<notin> set (hex_digits n)" for n
    using hex_digits_all [of n] by (auto simp: is_hex_def hex_val_def Let_def)
  then show "CHR '':'' \<notin> set (if a = NULL then ''0'' else printf_p a)" by (auto simp: printf_p_def)
  show "newline \<notin> set (if a = NULL then ''0'' else printf_p a)"
    using no_space_newline printf_p_no_space by (auto simp: newline_def)
  show "length (if a = NULL then ''0'' else printf_p a) \<le> 18" by (auto simp: length_printf_p)
qed

lemma signals_text_no_newline: "newline \<notin> set (signals_text ts)"
  using printf_d_no_newline by (auto simp: signals_text_def newline_def)

lemma read_step_text:
  assumes "step_printable st"
  shows "read_step (ln (printf_d (rs_current st) @ '':'' @ printf_d (rs_max st)))
      (ln ((if rs_addr st = NULL then ''0'' else printf_p (rs_addr st)) @ '':'' @ printf_d (rs_pass st)) @
       ln (signals_text (rs_signals st)) @ r) = Some (st, r)"
proof -
  let ?a = "if rs_addr st = NULL then ''0'' else printf_p (rs_addr st)"
  let ?l1 = "ln (printf_d (rs_current st) @ '':'' @ printf_d (rs_max st))" and ?l2 = "ln (?a @ '':'' @ printf_d (rs_pass st))"
  have ranges: "int_range (rs_current st)" "int_range (rs_max st)" "int_range (rs_pass st)" "list_all int_range (rs_signals st)"
    "length (signals_text (rs_signals st)) < 255"
    using assms by (auto simp: step_printable_def)
  have l1: "before_colon ?l1 = printf_d (rs_current st)" "after_colon ?l1 = printf_d (rs_max st) @ [newline]"
    using colon_split [OF printf_d_no_colon, of "rs_current st" "printf_d (rs_max st) @ [newline]"] by (simp_all add: ln_def)
  have l2: "before_colon ?l2 = ?a" "after_colon ?l2 = printf_d (rs_pass st) @ [newline]"
    using colon_split [OF address_line(2), of "rs_addr st" "printf_d (rs_pass st) @ [newline]"] by (simp_all add: ln_def)
  have "newline \<notin> set (?a @ '':'' @ printf_d (rs_pass st))" "length (?a @ '':'' @ printf_d (rs_pass st)) < 255"
    using address_line [of "rs_addr st"] length_printf_d [OF ranges(3)] printf_d_no_newline by (auto simp: newline_def)
  then have r1: "refill ?l1 (?l2 @ ln (signals_text (rs_signals st)) @ r) = (?l2, ln (signals_text (rs_signals st)) @ r)"
    by (rule refill_ln)
  have r2: "refill ?l2 (ln (signals_text (rs_signals st)) @ r) = (ln (signals_text (rs_signals st)), r)"
    using ranges(5) signals_text_no_newline by (intro refill_ln)
  have sig: "signals_loop (ln (signals_text (rs_signals st))) [] = Some (rs_signals st)"
    using signals_loop_text [OF ranges(4), of "[]" "[newline]" "[]"] by (simp add: ln_def)
  show ?thesis
    unfolding read_step_def r1 r2 Let_def prod.case sig l1 l2 step_address_field
    using ranges by (cases st) (simp add: atoi_field mk_RelaxedSchedStruct_def)
qed

lemma relaxed_loop_step:
  assumes "step_printable st"
  shows "relaxed_loop acc (step_text st @ r) = relaxed_loop (acc @ [st]) r"
proof -
  let ?l = "printf_d (rs_current st) @ '':'' @ printf_d (rs_max st)"
  have "int_range (rs_current st)" "int_range (rs_max st)" using assms by (auto simp: step_printable_def)
  then have "fgets MAX_READ_SIZE (ln ?l @ s) = Some (ln ?l, s)" for s
    using length_printf_d [of "rs_current st"] length_printf_d [of "rs_max st"] printf_d_no_newline
    by (intro fgets_ln) (auto simp: newline_def)
  moreover have "\<not> isReadfileEnd_token (ln ?l)"
    using printf_d_first [of "rs_current st"] by (auto simp: isReadfileEnd_token_def strncmp_eq_def ln_def is_digit_def)
  ultimately show ?thesis
    using read_step_text [OF assms, of r]
    by (simp add: step_text_def relaxed_loop.simps [of acc])
qed

lemma relaxed_loop_steps:
  "list_all step_printable sts \<Longrightarrow> relaxed_loop acc (concat (map step_text sts) @ r) = relaxed_loop (acc @ sts) r"
  by (induction sts arbitrary: acc) (simp_all add: relaxed_loop_step)

lemma relaxed_loop_Nil: "relaxed_loop acc [] = Some (acc, [])"
  by (simp add: relaxed_loop.simps fgets_def)

lemma new_Logger_unnamed:
  "new_Logger frame None r True fs [] Logger_raw = Inr ((), (new_log r [] [])\<lparr>readfile := None\<rparr>)"
  by (simp add: new_Logger_def setPrint_def allocateObjects_def setSchedulableAddresses_def
      reconstituteSchedule_def Logger_raw_def new_log_def fopen_r_def)

lemma new_RelaxedLogger_eq:
  "new_RelaxedLogger frame None r True fs infile =
     (case setSchedulableAddresses ((new_log r [] [])\<lparr>readfile := fopen_r fs infile\<rparr>) of
        Inl e \<Rightarrow> Some (Inl e)
      | Inr (_, l) \<Rightarrow> map_option Inr (reconstituteRelaxedSchedule l))"
  by (simp add: new_RelaxedLogger_def new_Logger_unnamed)

lemma new_RelaxedLogger_text:
  assumes "list_all step_printable sts" and "sorted_wrt (<) as"
    and "fopen_r fs infile = Some (addr_list_text False as @ concat (map step_text sts))"
  shows "\<exists>l. new_RelaxedLogger frame None r True fs infile = Some (Inr (sts, l)) \<and>
     addressToSchedule l = as \<and> schedulefile l = Some [] \<and> read_schedule l = [] \<and> myrand l = r"
proof -
  have "relaxed_loop [] (concat (map step_text sts)) = Some (sts, [])"
    using relaxed_loop_steps [OF assms(1), of "[]" "[]"] by (simp add: relaxed_loop_Nil)
  then show ?thesis
    unfolding new_RelaxedLogger_eq assms(3)
    by (subst setSchedulableAddresses_text [where r = "concat (map step_text sts)"])
      (auto simp: new_log_def assms(2) reconstituteRelaxedSchedule_def)
qed

text \<open>
  C25: Relaxed schedules are read back. A file with a list of addresses and the steps as the scripts write
  them (numbers in the range of \<open>int\<close>, the line of the signals shorter than \<open>MAX_READ_SIZE\<close>), with
  no closing line, is read by the constructor of \<open>RelaxedLogger\<close>: it returns, with the same
  steps (threads, counts, addresses and signals) in the same order, and the same addresses. No
  dead stack buffer is read on the way, so the stack frames do not matter.
\<close>

theorem relaxed_schedule_read_back:
  assumes "list_all step_printable sts" and "sorted_wrt (<) as"
    and "fopen_r fs infile = Some (addr_list_text False as @ concat (map step_text sts))"
  shows "\<exists>l. new_RelaxedLogger frame None r True fs infile = Some (Inr (sts, l)) \<and>
     addressToSchedule l = as \<and> schedulefile l = Some [] \<and> read_schedule l = [] \<and> myrand l = r"
  using assms by (rule new_RelaxedLogger_text)

definition example_step :: RelaxedSchedStruct where
  "example_step = \<lparr>rs_current = 1, rs_max = 4, rs_addr = 0x4005, rs_pass = 2, rs_signals = [2, 3]\<rparr>"

definition relaxed_files :: "RelaxedSchedStruct list \<Rightarrow> files" where
  "relaxed_files sts = one_file ''thrille-relaxed-sched'' (Some (addr_list_text False [0x10] @ concat (map step_text sts)))"

lemma relaxed_files_open:
  "fopen_r (relaxed_files sts) ''thrille-relaxed-sched'' = Some (addr_list_text False [0x10] @ concat (map step_text sts))"
  by (simp add: relaxed_files_def fopen_r_def one_file_def)

lemma example_step_printable: "step_printable example_step"
proof -
  have "length (signals_text [2, 3]) = 6" by (simp add: signals_text_def printf_d_def dec_digits.simps)
  then show ?thesis by (simp add: step_printable_def example_step_def int_range_def)
qed

theorem relaxed_schedule_read_back_witness:
  "\<exists>l. new_RelaxedLogger reused_stack None zero_mt True (relaxed_files [example_step]) ''thrille-relaxed-sched''
      = Some (Inr ([example_step], l)) \<and> addressToSchedule l = [0x10]"
proof -
  have "list_all step_printable [example_step]" by (simp add: example_step_printable)
  from relaxed_schedule_read_back [OF this _ relaxed_files_open, of reused_stack zero_mt] show ?thesis by auto
qed

text \<open>
  C31: A line of signals without an end mark. If the third line of a step holds no \<open>#\<close>, in particular
  if it is cut at \<open>MAX_READ_SIZE\<close>, the reader of relaxed schedules never returns: \<open>strtol\<close> stops
  advancing and the loop appends signals for ever.
\<close>

theorem relaxed_reader_hangs:
  assumes "newline \<notin> set l1" "newline \<notin> set l2" "newline \<notin> set l3" and "length l1 < 255" "length l2 < 255" "length l3 < 255"
    and "\<not> isReadfileEnd_token (ln l1)" and "CHR ''#'' \<notin> set l3"
  shows "reconstituteRelaxedSchedule (l\<lparr>readfile := Some (ln l1 @ ln l2 @ ln l3 @ r)\<rparr>) = None"
proof -
  have "signals_loop (ln l3) [] = None"
    using assms(8) by (intro signals_loop_unmarked) (simp add: ln_def newline_def)
  then have "read_step (ln l1) (ln l2 @ ln l3 @ r) = None"
    using assms(2,3,5,6) by (simp add: read_step_def refill_ln Let_def)
  moreover have "fgets MAX_READ_SIZE (ln l1 @ ln l2 @ ln l3 @ r) = Some (ln l1, ln l2 @ ln l3 @ r)"
    using assms(1,4) by (intro fgets_ln)
  ultimately show ?thesis
    using assms(7) by (simp add: reconstituteRelaxedSchedule_def relaxed_loop.simps)
qed

theorem relaxed_reader_hangs_witness:
  "reconstituteRelaxedSchedule (Logger_raw\<lparr>readfile := Some (ln ''1:4'' @ ln ''0x4005:2'' @ ln ''2 3'' @ [])\<rparr>) = None"
  by (rule relaxed_reader_hangs) (simp_all add: newline_def isReadfileEnd_token_def strncmp_eq_def ln_def)

end
