(* ===== verification/Relaxed_Tracker.thy ===== *)
theory Relaxed_Tracker
  imports Relaxed_Logger Strict_Tracker
begin

text \<open>
  \<open>RelaxedTracker\<close> (\<open>src/relaxedserial/relaxedtracker.cpp\<close>) and \<open>TesterTracker\<close>
  (\<open>src/relaxedtester/testertracker.cpp\<close>): the serialized execution that follows a relaxed schedule. The
  current step says which thread runs, for how many points at most, and at which address it is switched away. \<open>schedule\<close>
  is one function for all the trackers of this family; the virtual functions it calls are the
  record \<open>relaxed\<close>.

  The two fields that a \<open>RelaxedLogger\<close> has beyond a \<open>Logger\<close>, the steps and the iterator into the
  threads to signal, are fields of the tracker here. The iterator is what it has still to visit,
  and \<open>None\<close> until it is first set. The counts of the current step are set before they are read;
  they start as 0.
\<close>

section \<open>State\<close>

record RelaxedTracker = ExecutionTracker +
  relaxed_schedule :: "RelaxedSchedStruct list"
  tts_itr :: "thrID list option"
  timesScheduled :: int
  currentThreadToSchedule :: thrID
  timesToSchedule :: int
  addrPreempt :: addr
  passPreempt :: int

text \<open>\<open>l\<close> and \<open>sts\<close> are what the constructor of \<open>RelaxedLogger\<close> returns.\<close>

definition new_RelaxedTracker :: "Logger \<Rightarrow> RelaxedSchedStruct list \<Rightarrow> thrID \<Rightarrow> RelaxedTracker" where
  "new_RelaxedTracker l sts myself = ExecutionTracker.extend (new_ExecutionTracker l myself)
     \<lparr>relaxed_schedule = sts, tts_itr = None, timesScheduled = 0, currentThreadToSchedule = UNKNOWN_THREAD,
      timesToSchedule = 0, addrPreempt = NULL, passPreempt = 0\<rparr>"

section \<open>The logger's part\<close>

definition relaxed_getNextSignalChoice :: "('a RelaxedTracker_scheme, thrID) tm" where
  "relaxed_getNextSignalChoice s =
     (case tts_itr s of
        None \<Rightarrow> Inl (Undefined ''tts_itr'', s)
      | Some [] \<Rightarrow> Inr (INVALID_THREAD, s)
      | Some (t # ts) \<Rightarrow> Inr (t, s\<lparr>tts_itr := Some ts\<rparr>))"

definition getSchedulingStruct :: "('a RelaxedTracker_scheme, RelaxedSchedStruct) tm" where
  "getSchedulingStruct s =
     (case relaxed_schedule s of
        [] \<Rightarrow> Inl (Undefined ''relaxed_schedule.begin()'', s)
      | st # sts \<Rightarrow> Inr (st, s\<lparr>relaxed_schedule := sts\<rparr>))"

definition resetThreadsToSignal :: "RelaxedSchedStruct \<Rightarrow> ('a RelaxedTracker_scheme, unit) tm" where
  "resetThreadsToSignal st = upd (\<lambda>s. s\<lparr>tts_itr := Some (rs_signals st)\<rparr>)"

definition regenerateSched :: "('a RelaxedTracker_scheme, RelaxedSchedStruct) tm" where
  "regenerateSched =
     bnd (gets (\<lambda>s. length (relaxed_schedule s))) (\<lambda>n.
       if n > 0 then
         bnd getSchedulingStruct (\<lambda>st.
         bnd (resetThreadsToSignal st) (\<lambda>_.
         ret st))
       else ret (mk_RelaxedSchedStruct INVALID_THREAD 0 NULL 0))"

section \<open>The virtual functions\<close>

definition regenerateRelaxedSchedule :: "('a RelaxedTracker_scheme, unit) tm" where
  "regenerateRelaxedSchedule =
     bnd regenerateSched (\<lambda>r.
     upd (\<lambda>s. s\<lparr>currentThreadToSchedule := rs_current r, timesToSchedule := rs_max r, addrPreempt := rs_addr r,
                 passPreempt := rs_pass r, timesScheduled := 0\<rparr>))"

definition checkAddressOfContextSwitch :: "addr \<Rightarrow> ('a RelaxedTracker_scheme, bool) tm" where
  "checkAddressOfContextSwitch ret_addr =
     bnd (upd (\<lambda>s. if ret_addr = addrPreempt s then s\<lparr>passPreempt := passPreempt s - 1\<rparr> else s)) (\<lambda>_.
     gets (\<lambda>s. passPreempt s < 0))"

definition checkTimesScheduled :: "('a RelaxedTracker_scheme, bool) tm" where
  "checkTimesScheduled = gets (\<lambda>s. timesToSchedule s = timesScheduled s)"

definition scheduleAdherenceCheck :: "('a RelaxedTracker_scheme, unit) tm" where
  "scheduleAdherenceCheck =
     bnd (gets (\<lambda>s. timesToSchedule s > timesScheduled s)) (\<lambda>c.
     safe_assert_in ''relaxedtracker.cpp'' c ''timesToSchedule > timesScheduled'')"

definition noScheduleToFollow :: "SchedPointInfo \<Rightarrow> ('a RelaxedTracker_scheme, unit) tm" where
  "noScheduleToFollow p = safe_assert_in ''relaxedtracker.cpp'' False ''canContinueSchedule''"

definition mustRegenerateSchedule :: "addr \<Rightarrow> ('a RelaxedTracker_scheme, bool) tm" where
  "mustRegenerateSchedule ret_addr =
     bnd (checkAddressOfContextSwitch ret_addr) (\<lambda>a.
       if a then ret True
       else bnd checkTimesScheduled (\<lambda>b.
         if b then ret True
         else bnd (gets currentThreadToSchedule) (\<lambda>t. isDisabled t)))"

section \<open>The scheduling point\<close>

record 's relaxed =
  r_must :: "addr \<Rightarrow> ('s, bool) tm"
  r_regen :: "('s, unit) tm"
  r_none :: "SchedPointInfo \<Rightarrow> ('s, unit) tm"
  r_adhere :: "('s, unit) tm"

text \<open>
  The loop over the schedule until an enabled thread is found. An iteration uses up a step of the
  schedule, or there is none left; the first argument bounds the number of iterations, and
  \<open>relaxed_schedule_decides\<close> and \<open>addr_schedule_decides\<close> show that the bound below is never reached.
\<close>

fun regenerate_loop :: "nat \<Rightarrow> 'a RelaxedTracker_scheme relaxed \<Rightarrow> SchedPointInfo \<Rightarrow> ('a RelaxedTracker_scheme, unit) tm" where
  "regenerate_loop 0 H p = exit_with (Undefined ''schedule runs for ever'')"
| "regenerate_loop (Suc n) H p =
     bnd deadlockCheck (\<lambda>_.
     bnd (r_regen H) (\<lambda>_.
     bnd (gets currentThreadToSchedule) (\<lambda>t.
     bnd (if t = INVALID_THREAD then r_none H p else ret ()) (\<lambda>_.
     bnd (gets currentThreadToSchedule) (\<lambda>u.
     bnd (isDisabled u) (\<lambda>dis.
       if dis then regenerate_loop n H p else ret ()))))))"

definition relaxed_launch :: "'a RelaxedTracker_scheme relaxed \<Rightarrow> SchedPointInfo \<Rightarrow> ('a RelaxedTracker_scheme, thrID) tm" where
  "relaxed_launch H p =
     bnd deadlockCheck (\<lambda>_.
     bnd (r_adhere H) (\<lambda>_.
     bnd (gets currentThreadToSchedule) (\<lambda>t.
     bnd (recordScheduleInfo (sp_thread p) t) (\<lambda>_.
     bnd (gets enable_map) (\<lambda>en.
     bnd (launchThread t (p\<lparr>sp_enabled := en\<rparr>)) (\<lambda>_.
     bnd (upd (\<lambda>s. s\<lparr>timesScheduled := timesScheduled s + 1\<rparr>)) (\<lambda>_.
     ret t)))))))"

definition relaxed_schedule_point :: "'a RelaxedTracker_scheme relaxed \<Rightarrow> SchedPointInfo \<Rightarrow> ('a RelaxedTracker_scheme, thrID) tm" where
  "relaxed_schedule_point H p =
     bnd (gets currentThreadToSchedule) (\<lambda>c.
     bnd (if c = UNKNOWN_THREAD then r_regen H else ret ()) (\<lambda>_.
     bnd (r_must H (sp_ret_addr p)) (\<lambda>regenerate.
     bnd (if regenerate
          then bnd (gets (\<lambda>s. length (relaxed_schedule s))) (\<lambda>n. regenerate_loop (n + 2) H p)
          else ret ()) (\<lambda>_.
     relaxed_launch H p))))"

definition relaxed_hooks :: "'a RelaxedTracker_scheme relaxed" where
  "relaxed_hooks = \<lparr>r_must = mustRegenerateSchedule, r_regen = regenerateRelaxedSchedule,
     r_none = noScheduleToFollow, r_adhere = scheduleAdherenceCheck\<rparr>"

definition relaxed_methods_of :: "'a RelaxedTracker_scheme relaxed \<Rightarrow> 'a RelaxedTracker_scheme methods" where
  "relaxed_methods_of H = \<lparr>m_schedule = relaxed_schedule_point H, m_nextSignal = relaxed_getNextSignalChoice,
     m_select = selectThreadWaitingOnCond, m_scheduleCond = scheduleThreadWaitingOnCond, m_handle = handle\<rparr>"

section \<open>The tester\<close>

definition tester_mustRegenerateSchedule :: "addr \<Rightarrow> ('a RelaxedTracker_scheme, bool) tm" where
  "tester_mustRegenerateSchedule ret_addr =
     bnd (bnd (checkAddressOfContextSwitch ret_addr) (\<lambda>a. if a then ret True else checkTimesScheduled)) (\<lambda>must.
     bnd (if must then ret ()
          else bnd (gets currentThreadToSchedule) (\<lambda>t. bnd (isEnabled t) (\<lambda>en.
               safe_assert_in ''testertracker.cpp'' en ''isEnabled(currentThreadToSchedule)''))) (\<lambda>_.
     ret must))"

definition tester_regenerateRelaxedSchedule :: "('a RelaxedTracker_scheme, unit) tm" where
  "tester_regenerateRelaxedSchedule =
     bnd regenerateSched (\<lambda>r.
     bnd (upd (\<lambda>s. s\<lparr>currentThreadToSchedule := rs_current r, timesToSchedule := rs_max r, addrPreempt := rs_addr r,
                     passPreempt := rs_pass r, timesScheduled := 0\<rparr>)) (\<lambda>_.
     bnd (gets currentThreadToSchedule) (\<lambda>t. bnd (isEnabled t) (\<lambda>en.
     safe_assert_in ''testertracker.cpp'' en ''isEnabled(currentThreadToSchedule)''))))"

definition tester_hooks :: "'a RelaxedTracker_scheme relaxed" where
  "tester_hooks = relaxed_hooks\<lparr>r_must := tester_mustRegenerateSchedule, r_regen := tester_regenerateRelaxedSchedule\<rparr>"

section \<open>The contract\<close>

definition relaxed_ok :: "'a RelaxedTracker_scheme relaxed \<Rightarrow> bool" where
  "relaxed_ok H \<longleftrightarrow>
     (\<forall>a. refines (r_must H a) (\<lambda>v x v'. v' = v)) \<and> refines (r_regen H) (\<lambda>v x v'. v' = v) \<and>
     (\<forall>p. refines (r_none H p) (\<lambda>v x v'. v' = v)) \<and> refines (r_adhere H) (\<lambda>v x v'. v' = v)"


lemma refines_isDisabled [refine_rules]: "refines (isDisabled t) (\<lambda>v b v'. v' = v \<and> b = (\<not> (t \<noteq> INVALID_THREAD \<and> v_en v t)))"
  unfolding isDisabled_def by (rule refines_weaken, (rule refine_rules)+) auto

lemma refines_relaxed_fields [refine_rules]:
  "refines relaxed_getNextSignalChoice (\<lambda>v x v'. v' = v)" "refines regenerateSched (\<lambda>v x v'. v' = v)"
  "refines (checkAddressOfContextSwitch a) (\<lambda>v x v'. v' = v)" "refines checkTimesScheduled (\<lambda>v x v'. v' = v)"
  "refines (upd (\<lambda>s :: 'a RelaxedTracker_scheme. s\<lparr>currentThreadToSchedule := c, timesToSchedule := n, addrPreempt := ad, passPreempt := k, timesScheduled := m\<rparr>)) (\<lambda>v x v'. v' = v)"
  "refines (upd (\<lambda>s :: 'a RelaxedTracker_scheme. s\<lparr>timesScheduled := timesScheduled s + 1\<rparr>)) (\<lambda>v x v'. v' = v)"
  by (rule refinesI, auto simp: relaxed_getNextSignalChoice_def regenerateSched_def getSchedulingStruct_def resetThreadsToSignal_def
      checkAddressOfContextSwitch_def checkTimesScheduled_def wf_def view_def bnd_eq_Inr split: if_splits option.splits list.splits)+

lemma refines_regenerate_loop:
  assumes "relaxed_ok H"
  shows "refines (regenerate_loop n H p) (\<lambda>v x v'. v' = v)"
proof (induction n)
  case 0
  show ?case unfolding regenerate_loop.simps by (rule refines_weaken [OF refines_exit]) simp
next
  case (Suc n)
  have regen: "refines (r_regen H) (\<lambda>v x v'. v' = v)" and none: "refines (r_none H p) (\<lambda>v x v'. v' = v)"
    using assms by (auto simp: relaxed_ok_def)
  show ?case
    unfolding regenerate_loop.simps
    by (rule refines_weaken, (rule Suc regen none refine_rules refines_gets)+) (auto split: if_splits)
qed

lemma serial_methods_relaxed:
  fixes H :: "'a RelaxedTracker_scheme relaxed"
  assumes "relaxed_ok H"
  shows "serial_methods (relaxed_methods_of H)"
proof -
  have must: "refines (r_must H a) (\<lambda>v x v'. v' = v)" and regen: "refines (r_regen H) (\<lambda>v x v'. v' = v)"
    and adhere: "refines (r_adhere H) (\<lambda>v x v'. v' = v)" for a
    using assms by (auto simp: relaxed_ok_def)
  have launch: "refines (relaxed_launch H p) (\<lambda>v x v'. x \<noteq> INVALID_THREAD \<and> v_en v x \<and> v' = a_launch x v)" for p
    unfolding relaxed_launch_def
    by (rule refines_weaken, (rule adhere refines_launchThread refine_rules refines_gets)+) auto
  have "refines (relaxed_schedule_point H p) (\<lambda>v x v'. x \<noteq> INVALID_THREAD \<and> v_en v x \<and> v' = a_launch x v)" for p
    unfolding relaxed_schedule_point_def
    by (rule refines_weaken, (rule must regen launch refines_regenerate_loop [OF assms] refine_rules refines_gets)+)
      (auto split: if_splits)
  then show ?thesis
    by unfold_locales
      (auto simp: relaxed_methods_of_def handle_def intro: refine_rules refines_select refines_scheduleThreadWaitingOnCond)
qed

lemma relaxed_ok_hooks: "relaxed_ok relaxed_hooks" "relaxed_ok tester_hooks"
proof -
  have "refines (mustRegenerateSchedule a) (\<lambda>v x v'. v' = v)" "refines regenerateRelaxedSchedule (\<lambda>v x v'. v' = v)"
    "refines (noScheduleToFollow p) (\<lambda>v x v'. v' = v)" "refines scheduleAdherenceCheck (\<lambda>v x v'. v' = v)"
    "refines (tester_mustRegenerateSchedule a) (\<lambda>v x v'. v' = v)" "refines tester_regenerateRelaxedSchedule (\<lambda>v x v'. v' = v)" for a p
    unfolding mustRegenerateSchedule_def regenerateRelaxedSchedule_def noScheduleToFollow_def scheduleAdherenceCheck_def
      tester_mustRegenerateSchedule_def tester_regenerateRelaxedSchedule_def
    by (rule refines_weaken, (rule refine_rules refines_gets)+, (auto split: if_splits)[])+
  then show "relaxed_ok relaxed_hooks" "relaxed_ok tester_hooks"
    unfolding relaxed_ok_def relaxed_hooks_def tester_hooks_def relaxed.simps by blast+
qed

interpretation relaxed: serial_methods "relaxed_methods_of (relaxed_hooks :: 'a RelaxedTracker_scheme relaxed)"
  by (rule serial_methods_relaxed [OF relaxed_ok_hooks(1)])

interpretation tester: serial_methods "relaxed_methods_of (tester_hooks :: 'a RelaxedTracker_scheme relaxed)"
  by (rule serial_methods_relaxed [OF relaxed_ok_hooks(2)])


section \<open>What a relaxed schedule says\<close>

definition load_step :: "RelaxedSchedStruct \<Rightarrow> RelaxedSchedStruct list \<Rightarrow> 'a RelaxedTracker_scheme \<Rightarrow> 'a RelaxedTracker_scheme" where
  "load_step st sts s = s\<lparr>relaxed_schedule := sts, tts_itr := Some (rs_signals st), currentThreadToSchedule := rs_current st,
     timesToSchedule := rs_max st, addrPreempt := rs_addr st, passPreempt := rs_pass st, timesScheduled := 0\<rparr>"

definition no_step :: "'a RelaxedTracker_scheme \<Rightarrow> 'a RelaxedTracker_scheme" where
  "no_step s = s\<lparr>currentThreadToSchedule := INVALID_THREAD, timesToSchedule := 0, addrPreempt := NULL, passPreempt := 0, timesScheduled := 0\<rparr>"

lemma regenerate_eq:
  "regenerateRelaxedSchedule s =
     (case relaxed_schedule s of [] \<Rightarrow> Inr ((), no_step s) | st # sts \<Rightarrow> Inr ((), load_step st sts s))"
  by (cases "relaxed_schedule s") (simp_all add: regenerateRelaxedSchedule_def regenerateSched_def getSchedulingStruct_def
      resetThreadsToSignal_def load_step_def no_step_def mk_RelaxedSchedStruct_def)

text \<open>Reading whether a thread is enabled may add an entry to \<open>enable_map\<close>, with no effect on what is read.\<close>

definition looked :: "thrID \<Rightarrow> 'a ExecutionTracker_scheme \<Rightarrow> 'a ExecutionTracker_scheme" where
  "looked t s = (if t = INVALID_THREAD then s else s\<lparr>enable_map := cm_touch False t (enable_map s)\<rparr>)"

lemma isDisabled_eq: "isDisabled t s = Inr (\<not> (t \<noteq> INVALID_THREAD \<and> cm_get False (enable_map s) t), looked t s)"
  by (simp add: isDisabled_def isEnabled_def read_enable_def looked_def bnd_def)

definition like :: "'a ExecutionTracker_scheme \<Rightarrow> 'a ExecutionTracker_scheme \<Rightarrow> bool" where
  "like s s' \<longleftrightarrow> (cm_ok (enable_map s) \<longrightarrow> cm_ok (enable_map s')) \<and> cm_get False (enable_map s') = cm_get False (enable_map s) \<and>
     sem_map s' = sem_map s \<and> wait_sem_map s' = wait_sem_map s"

lemma like_refl [simp, intro]: "like s s"
  by (simp add: like_def)

lemma like_trans: "like s s1 \<Longrightarrow> like s1 s2 \<Longrightarrow> like s s2"
  by (auto simp: like_def)

lemma like_looked [simp, intro]: "like s (looked t s)"
  by (simp add: like_def looked_def)

lemma like_load_step [simp, intro]: "like s (load_step st sts s)" "like s (no_step s)"
  by (simp_all add: like_def load_step_def no_step_def)

lemma looked_fields [simp]:
  fixes s :: "'a RelaxedTracker_scheme"
  shows "relaxed_schedule (looked t s) = relaxed_schedule s" "currentThreadToSchedule (looked t s) = currentThreadToSchedule s"
    "timesToSchedule (looked t s) = timesToSchedule s" "timesScheduled (looked t s) = timesScheduled s"
    "addrPreempt (looked t s) = addrPreempt s" "passPreempt (looked t s) = passPreempt s" "tts_itr (looked t s) = tts_itr s"
  by (simp_all add: looked_def)

lemma load_step_fields [simp]:
  "relaxed_schedule (load_step st sts s) = sts" "currentThreadToSchedule (load_step st sts s) = rs_current st"
  "timesToSchedule (load_step st sts s) = rs_max st" "timesScheduled (load_step st sts s) = 0"
  "addrPreempt (load_step st sts s) = rs_addr st" "passPreempt (load_step st sts s) = rs_pass st"
  "tts_itr (load_step st sts s) = Some (rs_signals st)"
  "relaxed_schedule (no_step s) = relaxed_schedule s" "currentThreadToSchedule (no_step s) = INVALID_THREAD"
  "enable_map (load_step st sts s) = enable_map s" "enable_map (no_step s) = enable_map s"
  by (simp_all add: load_step_def no_step_def)

lemma more_kept [simp]:
  "RelaxedTracker.more (looked t s) = RelaxedTracker.more s" "RelaxedTracker.more (load_step st sts s) = RelaxedTracker.more s"
  "RelaxedTracker.more (no_step s) = RelaxedTracker.more s"
  by (simp_all add: looked_def load_step_def no_step_def)

text \<open>One iteration on a step of the schedule.\<close>

lemma regenerate_loop_step:
  assumes "r_regen H = regenerateRelaxedSchedule" and "cm_ok (enable_map s)" and "cm_get False (enable_map s) u"
    and "relaxed_schedule s = st # sts" and "rs_current st \<noteq> INVALID_THREAD"
  shows "regenerate_loop (Suc n) H p s =
     (if cm_get False (enable_map s) (rs_current st) then Inr ((), looked (rs_current st) (load_step st sts s))
      else regenerate_loop n H p (looked (rs_current st) (load_step st sts s)))"
proof -
  have d: "deadlockCheck s = Inr ((), s)" using assms(2,3) by (auto simp: deadlockCheck_eq)
  have r: "regenerateRelaxedSchedule s = Inr ((), load_step st sts s)" using assms(4) by (simp add: regenerate_eq)
  show ?thesis
    using assms(5) by (simp add: assms(1) bnd_Inr [where m = deadlockCheck, OF d] bnd_Inr [where m = regenerateRelaxedSchedule, OF r]
        bnd_Inr [where m = "isDisabled t" for t, OF isDisabled_eq])
qed

lemma regenerate_loop_finds:
  assumes "r_regen H = regenerateRelaxedSchedule" and "cm_ok (enable_map s)" and "cm_get False (enable_map s) u"
    and "\<forall>st \<in> set (relaxed_schedule s). rs_current st \<noteq> INVALID_THREAD"
    and "dropWhile (\<lambda>st. \<not> cm_get False (enable_map s) (rs_current st)) (relaxed_schedule s) = st # sts"
    and "length (relaxed_schedule s) \<le> n"
  shows "\<exists>s1. regenerate_loop n H p s = Inr ((), looked (rs_current st) (load_step st sts s1)) \<and> like s s1 \<and> RelaxedTracker.more s1 = RelaxedTracker.more s"
  using assms(2-6)
proof (induction "relaxed_schedule s" arbitrary: s n)
  case (Cons x xs)
  then obtain m where n: "n = Suc m" by (cases n) auto
  note step = regenerate_loop_step [OF assms(1) Cons.prems(1,2), of x xs m p]
  have x: "rs_current x \<noteq> INVALID_THREAD" using Cons.prems(3) Cons.hyps(2) [symmetric] by simp
  show ?case
  proof (cases "cm_get False (enable_map s) (rs_current x)")
    case True
    then have "x = st" "xs = sts" using Cons.prems(4) Cons.hyps(2) [symmetric] by simp_all
    with True step x Cons.hyps(2) show ?thesis unfolding n by auto
  next
    case False
    let ?s = "looked (rs_current x) (load_step x xs s)"
    have l: "like s ?s" using like_trans like_load_step(1) like_looked by blast
    have "\<exists>s1. regenerate_loop m H p ?s = Inr ((), looked (rs_current st) (load_step st sts s1)) \<and> like ?s s1 \<and> RelaxedTracker.more s1 = RelaxedTracker.more ?s"
    proof (rule Cons.hyps(1))
      show "xs = relaxed_schedule ?s" by simp
    qed (use l Cons.prems Cons.hyps(2) [symmetric] False in \<open>auto simp: like_def n\<close>)
    then show ?thesis using step x False Cons.hyps(2) l like_trans unfolding n by (auto simp: more_kept)
  qed
qed simp


lemma regenerate_loop_skips:
  assumes "r_regen H = regenerateRelaxedSchedule" and "cm_ok (enable_map s)" and "cm_get False (enable_map s) u"
    and "\<forall>st \<in> set (relaxed_schedule s). rs_current st \<noteq> INVALID_THREAD"
    and "\<forall>st \<in> set (relaxed_schedule s). \<not> cm_get False (enable_map s) (rs_current st)"
  shows "\<exists>s1. regenerate_loop (length (relaxed_schedule s) + k) H p s = regenerate_loop k H p s1 \<and> like s s1 \<and>
     relaxed_schedule s1 = [] \<and> RelaxedTracker.more s1 = RelaxedTracker.more s"
  using assms(2-5)
proof (induction "relaxed_schedule s" arbitrary: s)
  case Nil
  then show ?case by (intro exI [of _ s]) simp
next
  case (Cons x xs)
  note step = regenerate_loop_step [OF assms(1) Cons.prems(1,2), of x xs "length xs + k" p]
  have x: "rs_current x \<noteq> INVALID_THREAD" "\<not> cm_get False (enable_map s) (rs_current x)"
    using Cons.prems(3,4) Cons.hyps(2) [symmetric] by simp_all
  let ?s = "looked (rs_current x) (load_step x xs s)"
  have l: "like s ?s" using like_trans like_load_step(1) like_looked by blast
  have "\<exists>s1. regenerate_loop (length (relaxed_schedule ?s) + k) H p ?s = regenerate_loop k H p s1 \<and> like ?s s1 \<and>
      relaxed_schedule s1 = [] \<and> RelaxedTracker.more s1 = RelaxedTracker.more ?s"
    by (rule Cons.hyps(1)) (use l Cons.prems Cons.hyps(2) [symmetric] in \<open>auto simp: like_def\<close>)
  then obtain s1 where "regenerate_loop (length xs + k) H p ?s = regenerate_loop k H p s1" "like ?s s1"
    "relaxed_schedule s1 = []" "RelaxedTracker.more s1 = RelaxedTracker.more s" by auto
  moreover have "regenerate_loop (length (relaxed_schedule s) + k) H p s = regenerate_loop (length xs + k) H p ?s"
    using step x Cons.hyps(2) [symmetric] by simp
  ultimately show ?case using l like_trans by (metis (no_types))
qed

text \<open>The end of \<open>schedule\<close>.\<close>

definition same_step :: "'a RelaxedTracker_scheme \<Rightarrow> 'a RelaxedTracker_scheme \<Rightarrow> bool" where
  "same_step s s' \<longleftrightarrow> relaxed_schedule s' = relaxed_schedule s \<and> tts_itr s' = tts_itr s \<and>
     currentThreadToSchedule s' = currentThreadToSchedule s \<and> timesToSchedule s' = timesToSchedule s \<and>
     addrPreempt s' = addrPreempt s \<and> passPreempt s' = passPreempt s \<and> RelaxedTracker.more s' = RelaxedTracker.more s"

lemma same_step_more:
  "ExecutionTracker.more s' = ExecutionTracker.more s \<Longrightarrow> same_step s s' \<and> timesScheduled s' = timesScheduled s"
  by (cases s; cases s') (auto simp: same_step_def)

lemma relaxed_launch_runs:
  assumes "cm_ok (enable_map s)" and "r_adhere H s = Inr ((), s)" and "currentThreadToSchedule s \<noteq> INVALID_THREAD"
    and "cm_get False (enable_map s) (currentThreadToSchedule s)"
    and "cm_get None (sem_map s) (currentThreadToSchedule s) = Some 0" "cm_get None (wait_sem_map s) (currentThreadToSchedule s) = Some 0"
  shows "\<exists>s'. relaxed_launch H p s = Inr (currentThreadToSchedule s, s') \<and> same_step s s' \<and> timesScheduled s' = timesScheduled s + 1"
proof -
  let ?t = "currentThreadToSchedule s"
  have d: "deadlockCheck s = Inr ((), s)" using assms(1,4) by (auto simp: deadlockCheck_eq)
  obtain s1 where s1: "recordScheduleInfo (sp_thread p) ?t s = Inr ((), s1)"
    "cm_get False (enable_map s1) = cm_get False (enable_map s)" "sem_map s1 = sem_map s" "wait_sem_map s1 = wait_sem_map s"
    using recordScheduleInfo_returns [of "sp_thread p" ?t s] by auto
  obtain s2 where s2: "launchThread ?t (p\<lparr>sp_enabled := enable_map s1\<rparr>) s1 = Inr ((), s2)"
    using launchThread_returns [of ?t s1] assms(3-6) s1 by fastforce
  have "same_step s s2 \<and> timesScheduled s2 = timesScheduled s"
    using same_step_more [OF conjunct2 [OF recordScheduleInfo_keeps [OF s1(1)]]]
      same_step_more [OF conjunct2 [OF launchThread_keeps [OF s2]]] by (auto simp: same_step_def)
  then show ?thesis
    by (simp add: relaxed_launch_def d assms(2) s1(1) s2 same_step_def)
qed


text \<open>The count of the address to switch at, after a point at \<open>a\<close>.\<close>

definition pass_left :: "addr \<Rightarrow> 'a RelaxedTracker_scheme \<Rightarrow> int" where
  "pass_left a s = passPreempt s - (if a = addrPreempt s then 1 else 0)"

definition passed :: "addr \<Rightarrow> 'a RelaxedTracker_scheme \<Rightarrow> 'a RelaxedTracker_scheme" where
  "passed a s = s\<lparr>passPreempt := pass_left a s\<rparr>"

lemma passed_fields [simp]:
  "relaxed_schedule (passed a s) = relaxed_schedule s" "currentThreadToSchedule (passed a s) = currentThreadToSchedule s"
  "timesToSchedule (passed a s) = timesToSchedule s" "timesScheduled (passed a s) = timesScheduled s"
  "addrPreempt (passed a s) = addrPreempt s" "passPreempt (passed a s) = pass_left a s" "tts_itr (passed a s) = tts_itr s"
  "enable_map (passed a s) = enable_map s" "RelaxedTracker.more (passed a s) = RelaxedTracker.more s" "like s (passed a s)"
  by (simp_all add: passed_def like_def)

lemma checkAddress_eq: "checkAddressOfContextSwitch a s = Inr (pass_left a s < 0, passed a s)"
  by (auto simp: checkAddressOfContextSwitch_def passed_def pass_left_def)

lemma mustRegenerate_eq:
  "mustRegenerateSchedule a s =
     (if pass_left a s < 0 \<or> timesToSchedule s = timesScheduled s then Inr (True, passed a s)
      else Inr (\<not> (currentThreadToSchedule s \<noteq> INVALID_THREAD \<and> cm_get False (enable_map s) (currentThreadToSchedule s)),
                looked (currentThreadToSchedule s) (passed a s)))"
  by (simp add: mustRegenerateSchedule_def checkAddress_eq checkTimesScheduled_def isDisabled_eq bnd_def)

lemma relaxed_schedule_point_eq:
  assumes "currentThreadToSchedule s \<noteq> UNKNOWN_THREAD" and "r_must H (sp_ret_addr p) s = Inr (b, s1)"
  shows "relaxed_schedule_point H p s =
     (if b then bnd (regenerate_loop (length (relaxed_schedule s1) + 2) H p) (\<lambda>_. relaxed_launch H p) s1 else relaxed_launch H p s1)"
  using assms by (cases b) (simp_all add: relaxed_schedule_point_def bnd_bool bnd_def del: regenerate_loop.simps)

definition adheres :: "'a RelaxedTracker_scheme \<Rightarrow> bool" where
  "adheres s \<longleftrightarrow> timesScheduled s < timesToSchedule s"

lemma adherence_eq:
  "scheduleAdherenceCheck s = (if adheres s then Inr ((), s)
     else Inl (SafeAssert ''timesToSchedule > timesScheduled'', s\<lparr>log := assertFail ''relaxedtracker.cpp'' ''timesToSchedule > timesScheduled'' (log s)\<rparr>))"
  by (simp add: scheduleAdherenceCheck_def safe_assert_in_def adheres_def bnd_def)

text \<open>Launching the current thread of a state like one whose enabled threads wait on their semaphores.\<close>

lemma relaxed_launch_result:
  assumes "cm_ok (enable_map s)" and "currentThreadToSchedule s \<noteq> INVALID_THREAD"
    and "cm_get False (enable_map s) (currentThreadToSchedule s)"
    and "cm_get None (sem_map s) (currentThreadToSchedule s) = Some 0 \<and> cm_get None (wait_sem_map s) (currentThreadToSchedule s) = Some 0"
  shows "if adheres s
     then \<exists>s'. relaxed_launch relaxed_hooks p s = Inr (currentThreadToSchedule s, s') \<and> same_step s s' \<and> timesScheduled s' = timesScheduled s + 1
     else \<exists>s'. relaxed_launch relaxed_hooks p s = Inl (SafeAssert ''timesToSchedule > timesScheduled'', s')"
proof (cases "adheres s")
  case True
  then have "r_adhere relaxed_hooks s = Inr ((), s)" by (simp add: relaxed_hooks_def adherence_eq)
  from relaxed_launch_runs [OF assms(1) this assms(2,3)] assms(4) True show ?thesis by simp
next
  case False
  have "deadlockCheck s = Inr ((), s)" using assms(1,3) by (auto simp: deadlockCheck_eq)
  with False show ?thesis by (simp add: relaxed_launch_def relaxed_hooks_def adherence_eq)
qed

lemma relaxed_loop_exhausted:
  assumes "cm_ok (enable_map s)" and "cm_get False (enable_map s) u" and "relaxed_schedule s = []"
  shows "\<exists>s'. regenerate_loop (Suc n) relaxed_hooks p s = Inl (SafeAssert ''canContinueSchedule'', s')"
proof -
  have d: "deadlockCheck s = Inr ((), s)" using assms(1,2) by (auto simp: deadlockCheck_eq)
  have r: "regenerateRelaxedSchedule s = Inr ((), no_step s)" using assms(3) by (simp add: regenerate_eq)
  show ?thesis
    by (simp add: relaxed_hooks_def d r bnd_def noScheduleToFollow_def safe_assert_in_def)
qed

text \<open>Looking for the next step and launching its thread.\<close>

definition next_step :: "SchedPointInfo \<Rightarrow> ('a RelaxedTracker_scheme, thrID) tm" where
  "next_step p = bnd (gets (\<lambda>s. length (relaxed_schedule s)))
     (\<lambda>n. bnd (regenerate_loop (n + 2) relaxed_hooks p) (\<lambda>_. relaxed_launch relaxed_hooks p))"

lemma next_step_eq:
  "next_step p s = bnd (regenerate_loop (length (relaxed_schedule s) + 2) relaxed_hooks p) (\<lambda>_. relaxed_launch relaxed_hooks p) s"
  by (simp add: next_step_def del: regenerate_loop.simps)

lemma next_step_result:
  assumes "cm_ok (enable_map s)" and "cm_get False (enable_map s) u"
    and "\<forall>st \<in> set (relaxed_schedule s). rs_current st \<noteq> INVALID_THREAD"
    and "\<forall>t. cm_get False (enable_map s) t \<longrightarrow> cm_get None (sem_map s) t = Some 0 \<and> cm_get None (wait_sem_map s) t = Some 0"
    and "\<not> cm_get False (enable_map s) INVALID_THREAD"
  shows "case dropWhile (\<lambda>st. \<not> cm_get False (enable_map s) (rs_current st)) (relaxed_schedule s) of
      [] \<Rightarrow> \<exists>s'. next_step p s = Inl (SafeAssert ''canContinueSchedule'', s')
    | st # sts \<Rightarrow>
        if 0 < rs_max st
        then \<exists>s'. next_step p s = Inr (rs_current st, s') \<and>
               relaxed_schedule s' = sts \<and> currentThreadToSchedule s' = rs_current st \<and> timesToSchedule s' = rs_max st \<and>
               timesScheduled s' = 1 \<and> addrPreempt s' = rs_addr st \<and> passPreempt s' = rs_pass st \<and>
               tts_itr s' = Some (rs_signals st)
        else \<exists>s'. next_step p s = Inl (SafeAssert ''timesToSchedule > timesScheduled'', s')"
proof (cases "dropWhile (\<lambda>st. \<not> cm_get False (enable_map s) (rs_current st)) (relaxed_schedule s)")
  case Nil
  then have "\<forall>st \<in> set (relaxed_schedule s). \<not> cm_get False (enable_map s) (rs_current st)" by (simp add: dropWhile_eq_Nil_conv)
  then obtain s2 where s2: "regenerate_loop (length (relaxed_schedule s) + 2) relaxed_hooks p s = regenerate_loop 2 relaxed_hooks p s2"
    "like s s2" "relaxed_schedule s2 = []"
    using regenerate_loop_skips [of relaxed_hooks s u 2 p] assms(1-3) by (auto simp: relaxed_hooks_def)
  then obtain s' where "regenerate_loop (Suc 1) relaxed_hooks p s2 = Inl (SafeAssert ''canContinueSchedule'', s')"
    using relaxed_loop_exhausted [of s2 u 1 p] assms(1,2) by (auto simp: like_def)
  with s2(1) have "next_step p s = Inl (SafeAssert ''canContinueSchedule'', s')"
    by (simp add: next_step_eq numeral_2_eq_2)
  then show ?thesis unfolding Nil list.case by blast
next
  case (Cons st sts)
  have st: "cm_get False (enable_map s) (rs_current st)" "rs_current st \<noteq> INVALID_THREAD"
    using Cons assms(5) by (auto simp: dropWhile_eq_Cons_conv)
  obtain s2 where s2: "regenerate_loop (length (relaxed_schedule s) + 2) relaxed_hooks p s = Inr ((), looked (rs_current st) (load_step st sts s2))"
    "like s s2"
    using regenerate_loop_finds [of relaxed_hooks s u st sts "length (relaxed_schedule s) + 2" p] assms(1-3) Cons
    by (auto simp: relaxed_hooks_def)
  let ?s3 = "looked (rs_current st) (load_step st sts s2)"
  have "like s ?s3" using s2(2) like_trans like_load_step(1) like_looked by blast
  then have "cm_ok (enable_map ?s3)" "cm_get False (enable_map ?s3) = cm_get False (enable_map s)" "sem_map ?s3 = sem_map s"
    "wait_sem_map ?s3 = wait_sem_map s"
    using assms(1) by (auto simp: like_def)
  then have "if adheres ?s3
      then \<exists>s'. relaxed_launch relaxed_hooks p ?s3 = Inr (rs_current st, s') \<and> same_step ?s3 s' \<and> timesScheduled s' = timesScheduled ?s3 + 1
      else \<exists>s'. relaxed_launch relaxed_hooks p ?s3 = Inl (SafeAssert ''timesToSchedule > timesScheduled'', s')"
    using relaxed_launch_result [of ?s3 p] st assms(4) by auto
  moreover have "next_step p s = relaxed_launch relaxed_hooks p ?s3"
    using s2(1) by (simp add: next_step_eq)
  ultimately show ?thesis using Cons by (auto simp: adheres_def same_step_def split: if_splits)
qed

text \<open>
  C15: What \<open>RelaxedTracker::schedule\<close> does, completely. In the course of a run (the current thread is known), with
  steps for actual threads and enabled threads that wait on their semaphores: the step in force goes on
  if its switching address has not been passed too often, its count is not used up and its
  thread is enabled; then its thread is launched, unless it has run more often than the step says.
  Otherwise, if no thread is enabled, a deadlock is reported; else the steps of disabled threads are
  skipped, and the first one whose thread is enabled comes into force and its thread is
  launched. With no such step, or one that asks for no scheduling at all, the run fails an
  assertion. In particular the loop over the steps always ends.
\<close>

theorem relaxed_schedule_decides:
  assumes "wf s" and "currentThreadToSchedule s \<noteq> UNKNOWN_THREAD"
    and "\<forall>st \<in> set (relaxed_schedule s). rs_current st \<noteq> INVALID_THREAD"
    and "\<forall>t. cm_get False (enable_map s) t \<longrightarrow> cm_get None (sem_map s) t = Some 0 \<and> cm_get None (wait_sem_map s) t = Some 0"
    and "\<not> cm_get False (enable_map s) INVALID_THREAD"
  shows
    "if 0 \<le> pass_left (sp_ret_addr p) s \<and> timesToSchedule s \<noteq> timesScheduled s \<and> cm_get False (enable_map s) (currentThreadToSchedule s)
     then (if timesScheduled s < timesToSchedule s
           then \<exists>s'. m_schedule (relaxed_methods_of relaxed_hooks) p s = Inr (currentThreadToSchedule s, s') \<and>
                  relaxed_schedule s' = relaxed_schedule s \<and> currentThreadToSchedule s' = currentThreadToSchedule s \<and>
                  timesScheduled s' = timesScheduled s + 1 \<and> passPreempt s' = pass_left (sp_ret_addr p) s
           else \<exists>s'. m_schedule (relaxed_methods_of relaxed_hooks) p s = Inl (SafeAssert ''timesToSchedule > timesScheduled'', s'))
     else if \<forall>u. \<not> cm_get False (enable_map s) u then \<exists>s'. m_schedule (relaxed_methods_of relaxed_hooks) p s = Inl (ProgramDeadlock, s')
     else (case dropWhile (\<lambda>st. \<not> cm_get False (enable_map s) (rs_current st)) (relaxed_schedule s) of
             [] \<Rightarrow> \<exists>s'. m_schedule (relaxed_methods_of relaxed_hooks) p s = Inl (SafeAssert ''canContinueSchedule'', s')
           | st # sts \<Rightarrow>
               if 0 < rs_max st
               then \<exists>s'. m_schedule (relaxed_methods_of relaxed_hooks) p s = Inr (rs_current st, s') \<and>
                      relaxed_schedule s' = sts \<and> currentThreadToSchedule s' = rs_current st \<and> timesToSchedule s' = rs_max st \<and>
                      timesScheduled s' = 1 \<and> addrPreempt s' = rs_addr st \<and> passPreempt s' = rs_pass st \<and>
                      tts_itr s' = Some (rs_signals st)
               else \<exists>s'. m_schedule (relaxed_methods_of relaxed_hooks) p s = Inl (SafeAssert ''timesToSchedule > timesScheduled'', s'))"
proof -
  let ?a = "sp_ret_addr p" and ?c = "currentThreadToSchedule s" and ?en = "cm_get False (enable_map s)"
  let ?go = "0 \<le> pass_left ?a s \<and> timesToSchedule s \<noteq> timesScheduled s \<and> ?en ?c"
  define s1 where "s1 = (if pass_left ?a s < 0 \<or> timesToSchedule s = timesScheduled s then passed ?a s else looked ?c (passed ?a s))"
  have must: "mustRegenerateSchedule ?a s = Inr (\<not> ?go, s1)"
    using assms(5) by (auto simp: mustRegenerate_eq s1_def)
  have ok: "cm_ok (enable_map s)" using assms(1) by (simp add: wf_def)
  have l1: "like s s1" "relaxed_schedule s1 = relaxed_schedule s" "currentThreadToSchedule s1 = ?c" "timesToSchedule s1 = timesToSchedule s"
    "timesScheduled s1 = timesScheduled s" "passPreempt s1 = pass_left ?a s"
    using like_trans [OF passed_fields(10) like_looked] by (auto simp: s1_def)
  have run: "m_schedule (relaxed_methods_of relaxed_hooks) p s = (if \<not> ?go then next_step p s1 else relaxed_launch relaxed_hooks p s1)"
    using relaxed_schedule_point_eq [OF assms(2), of relaxed_hooks p "\<not> ?go" s1] must
    by (simp add: relaxed_methods_of_def l1(2) relaxed_hooks_def next_step_eq del: regenerate_loop.simps)
  have ok1: "cm_ok (enable_map s1)" "cm_get False (enable_map s1) = ?en" "sem_map s1 = sem_map s" "wait_sem_map s1 = wait_sem_map s"
    using l1(1) ok by (auto simp: like_def)
  show ?thesis
  proof (cases ?go)
    case True
    have "?c \<noteq> INVALID_THREAD" using True assms(5) by metis
    then have "if adheres s1
        then \<exists>s'. relaxed_launch relaxed_hooks p s1 = Inr (?c, s') \<and> same_step s1 s' \<and> timesScheduled s' = timesScheduled s1 + 1
        else \<exists>s'. relaxed_launch relaxed_hooks p s1 = Inl (SafeAssert ''timesToSchedule > timesScheduled'', s')"
      using True relaxed_launch_result [OF ok1(1), of p, unfolded l1(3)] ok1 assms(4) by simp
    with True l1 run show ?thesis by (auto simp: same_step_def adheres_def split: if_splits)
  next
    case False
    then have run': "m_schedule (relaxed_methods_of relaxed_hooks) p s = next_step p s1" by (simp only: run if_True simp_thms)
    show ?thesis
    proof (cases "\<forall>u. \<not> ?en u")
      case True
      then have "deadlockCheck s1 = Inl (ProgramDeadlock, with_log programDeadlock s1)" using ok1 by (simp add: deadlockCheck_eq)
      then have "\<exists>s'. m_schedule (relaxed_methods_of relaxed_hooks) p s = Inl (ProgramDeadlock, s')"
        by (simp add: run' next_step_eq bnd_def)
      with True False show ?thesis by (simp only: if_True if_False simp_thms)
    next
      case some: False
      then obtain u where "?en u" by blast
      with next_step_result [of s1 u p, unfolded ok1 l1(2), OF ok1(1) _ assms(3-5)] some False show ?thesis
        unfolding run' by (simp only: if_False)
    qed
  qed
qed

definition relaxed_demo :: RelaxedTracker where
  "relaxed_demo = (new_RelaxedTracker Logger_raw [example_step] 1)\<lparr>currentThreadToSchedule := 1\<rparr>"

lemma relaxed_demo_sel [simp]:
  "enable_map relaxed_demo = [(1, True)]" "sem_map relaxed_demo = [(1, Some 0)]" "wait_sem_map relaxed_demo = [(1, Some 0)]"
  "relaxed_schedule relaxed_demo = [example_step]" "currentThreadToSchedule relaxed_demo = 1" "timesToSchedule relaxed_demo = 0"
  "timesScheduled relaxed_demo = 0"
  by (simp_all add: relaxed_demo_def new_RelaxedTracker_def new_ExecutionTracker_def constructorHelper_def
      ExecutionTracker_raw_def initializeThreadData_def enableThread_def ExecutionTracker.extend_def)

theorem relaxed_schedule_decides_witness:
  "\<exists>s'. m_schedule (relaxed_methods_of relaxed_hooks) (mk_SchedPointInfo 7 ''Simulate Sleep'' 1 [(1, True)] True) relaxed_demo = Inr (1, s') \<and>
     relaxed_schedule s' = [] \<and> timesToSchedule s' = 4 \<and> passPreempt s' = 2"
proof -
  have wf: "wf relaxed_demo"
    by (simp add: relaxed_demo_def new_RelaxedTracker_def new_ExecutionTracker_def constructorHelper_def wf_def
      ExecutionTracker_raw_def initializeThreadData_def enableThread_def ExecutionTracker.extend_def BarrierTracker_init_def cm_ok_def)
  have get: "cm_get False [(1, True)] t = (t = 1)" for t :: thrID by (simp add: cm_get_def)
  have st: "rs_current example_step = 1" "rs_max example_step = 4" "rs_pass example_step = 2" by (simp_all add: example_step_def)
  show ?thesis
    using relaxed_schedule_decides [OF wf, of "mk_SchedPointInfo 7 ''Simulate Sleep'' 1 [(1, True)] True", unfolded relaxed_demo_sel get]
    by (auto simp: st cm_get_def)
qed

end
