(* ===== verification/Random_Tracker.thy ===== *)
theory Random_Tracker
  imports Strict_Tracker
begin

text \<open>
  \<open>RandomTracker\<close> (\<open>src/randomschedule/randomtracker.cpp\<close>): a random enabled thread at every
  point, a random waiter at every signal. \<open>AddrTracker\<close> has the same two functions, so the choice
  is stated here for any tracker.
\<close>

section \<open>A random thread among those marked\<close>

text \<open>The second loop: the marked thread in which the count goes below zero.\<close>

fun choose_loop :: "int \<Rightarrow> thrID list \<Rightarrow> thrID option" where
  "choose_loop c [] = None"
| "choose_loop c (t # ts) = (if c - 1 < 0 then Some t else choose_loop (c - 1) ts)"

definition choose_with :: "(('a ExecutionTracker_scheme, unit) tm) \<Rightarrow> (thrID, bool) cmap \<Rightarrow> ('a ExecutionTracker_scheme, thrID) tm" where
  "choose_with fail m =
     (let ts = keys_with (\<lambda>b. b) m; n = int (length ts)
      in if n = 0 then ret INVALID_THREAD
         else
           bnd (if n > 1 then bnd (from_log getRandomNumber) (\<lambda>x. ret (x smod n)) else ret 0) (\<lambda>c.
             case choose_loop c ts of
               Some t \<Rightarrow> ret t
             | None \<Rightarrow> bnd fail (\<lambda>_. ret INVALID_THREAD)))"

definition chooseRandomThread :: "(thrID, bool) cmap \<Rightarrow> ('a ExecutionTracker_scheme, thrID) tm" where
  "chooseRandomThread = choose_with (safe_assert_in ''randomtracker.cpp'' False ''false'')"

lemma choose_loop_negative: "c \<le> 0 \<Longrightarrow> choose_loop c (t # ts) = Some t"
  by simp

lemma choose_loop_nth: "0 \<le> c \<Longrightarrow> c < int (length ts) \<Longrightarrow> choose_loop c ts = Some (ts ! nat c)"
proof (induction c ts rule: choose_loop.induct)
  case (2 c t ts)
  then show ?case by (auto simp: nth_Cons' nat_diff_distrib)
qed simp

lemma smod_less: "0 < n \<Longrightarrow> (x :: int) smod n < n"
  using smod_int_range [of n x] by simp

lemma smod_cases: "0 < n \<Longrightarrow> (x :: int) smod n = (if 0 \<le> x then x mod n else - (- x mod n))"
  by (auto simp: signed_modulo_int_def sgn_if)

text \<open>The thread that a draw \<open>x\<close> selects.\<close>

definition nth_marked :: "int \<Rightarrow> thrID list \<Rightarrow> thrID" where
  "nth_marked x ts = (if 0 \<le> x then ts ! nat (x mod int (length ts)) else hd ts)"

lemma choose_loop_smod:
  assumes "ts \<noteq> []"
  shows "choose_loop (x smod int (length ts)) ts = Some (nth_marked x ts)"
proof -
  have n: "0 < int (length ts)" using assms by simp
  show ?thesis
  proof (cases "0 \<le> x")
    case True
    then show ?thesis using choose_loop_nth [of "x mod int (length ts)" ts] n by (simp add: smod_cases nth_marked_def)
  next
    case False
    then have "x smod int (length ts) \<le> 0" using n by (simp add: smod_cases)
    with False assms show ?thesis by (cases ts) (auto simp: nth_marked_def choose_loop_negative)
  qed
qed

lemma nth_marked_in: "ts \<noteq> [] \<Longrightarrow> nth_marked x ts \<in> set ts"
  by (auto simp: nth_marked_def nat_less_iff intro!: nth_mem)

text \<open>The draw of \<open>getRandomNumber\<close>, and the logger after it.\<close>

definition draw :: "Logger \<Rightarrow> int" where
  "draw l = c_int (uint (fst (MTRand_randInt (myrand l))))"

definition drawn :: "Logger \<Rightarrow> Logger" where
  "drawn l = l\<lparr>myrand := snd (MTRand_randInt (myrand l))\<rparr>"

lemma from_log_draw: "from_log getRandomNumber s = Inr (draw (log s), s\<lparr>log := drawn (log s)\<rparr>)"
  by (simp add: from_log_def getRandomNumber_def draw_def drawn_def split: prod.splits)

lemma choose_with_eq:
  "choose_with fail m s =
     (let ts = keys_with (\<lambda>b. b) m
      in if ts = [] then Inr (INVALID_THREAD, s)
         else if length ts = 1 then Inr (hd ts, s)
         else Inr (nth_marked (draw (log s)) ts, s\<lparr>log := drawn (log s)\<rparr>))"
proof -
  let ?ts = "keys_with (\<lambda>b. b) m"
  consider (none) "?ts = []" | (one) t where "?ts = [t]" | (more) t u us where "?ts = t # u # us"
    by (metis list.exhaust)
  then show ?thesis
  proof cases
    case more
    then have "bnd (from_log getRandomNumber) (\<lambda>x. ret (x smod int (length ?ts))) s =
        Inr (draw (log s) smod int (length ?ts), s\<lparr>log := drawn (log s)\<rparr>)"
      by (simp add: bnd_Inr [OF from_log_draw])
    then show ?thesis
      using choose_loop_smod [of ?ts "draw (log s)"] more unfolding choose_with_def by (simp add: Let_def)
  qed (simp_all add: choose_with_def Let_def)
qed

text \<open>
  What \<open>chooseRandomThread\<close> returns, for any map of marked threads. It never reaches its
  \<open>safe_assert(false)\<close>. With no thread marked it returns \<open>INVALID_THREAD\<close>, with one marked that thread,
  and otherwise it draws one number: a number \<open>x \<ge> 0\<close> selects the marked thread at position
  \<open>x mod n\<close>, and every negative number, that is half of the draws since \<open>getRandomNumber\<close> returns
  an \<open>int\<close>, selects the first marked thread.
\<close>

lemma chooseRandomThread_result:
  "chooseRandomThread m s =
     (case keys_with (\<lambda>b. b) m of
        [] \<Rightarrow> Inr (INVALID_THREAD, s)
      | [t] \<Rightarrow> Inr (t, s)
      | t # u # us \<Rightarrow>
          (let x = c_int (uint (fst (MTRand_randInt (myrand (log s))))); n = int (length (keys_with (\<lambda>b. b) m))
           in Inr (if 0 \<le> x then keys_with (\<lambda>b. b) m ! nat (x mod n) else t,
                   s\<lparr>log := (log s)\<lparr>myrand := snd (MTRand_randInt (myrand (log s)))\<rparr>\<rparr>)))"
proof -
  consider (none) "keys_with (\<lambda>b. b) m = []" | (one) t where "keys_with (\<lambda>b. b) m = [t]"
    | (more) t u us where "keys_with (\<lambda>b. b) m = t # u # us"
    by (metis list.exhaust)
  then show ?thesis
    unfolding chooseRandomThread_def choose_with_eq
    by cases (simp_all add: Let_def nth_marked_def draw_def drawn_def)
qed

section \<open>The random tracker\<close>

record RandomTracker = ExecutionTracker +
  chanceOfPreempt :: int

definition new_RandomTracker :: "Logger \<Rightarrow> thrID \<Rightarrow> RandomTracker" where
  "new_RandomTracker l myself =
     with_log scheduleAtAllMemory
       (ExecutionTracker.extend (new_ExecutionTracker l myself) \<lparr>chanceOfPreempt = 1\<rparr>)"

definition random_assert :: "bool \<Rightarrow> string \<Rightarrow> ('a ExecutionTracker_scheme, unit) tm" where
  "random_assert = safe_assert_in ''randomtracker.cpp''"

definition pick_any :: "SchedPointInfo \<Rightarrow> (RandomTracker, thrID \<times> SchedPointInfo) tm" where
  "pick_any p =
     bnd (gets enable_map) (\<lambda>en.
     bnd (chooseRandomThread en) (\<lambda>t.
       if t = INVALID_THREAD then bnd deadlockCheck (\<lambda>_. ret (INVALID_THREAD, p))
       else bnd (read_enable t) (\<lambda>e. bnd (random_assert e ''enable_map[thread]'') (\<lambda>_. ret (t, p)))))"

definition random_pick :: "SchedPointInfo \<Rightarrow> (RandomTracker, thrID \<times> SchedPointInfo) tm" where
  "random_pick p =
     bnd (read_enable (sp_thread p)) (\<lambda>en.
       if en then
         bnd (from_log getRandomNumber) (\<lambda>x.
         bnd (gets chanceOfPreempt) (\<lambda>c.
           if c = 0 then exit_with (Undefined ''division by zero'')
           else if x smod c \<noteq> 0 then
             bnd (read_enable (sp_thread p)) (\<lambda>e.
             bnd (random_assert e ''enable_map[s->thread]'') (\<lambda>_. ret (sp_thread p, p)))
           else pick_any p))
       else pick_any p)"

definition on_cond_map :: "SignalPointInfo \<Rightarrow> (thrID, bool) cmap" where
  "on_cond_map g = map (\<lambda>(t, c). (t, c = sg_cond g)) (sg_cond_map g)"

definition random_select :: "SignalPointInfo \<Rightarrow> ('a ExecutionTracker_scheme, thrID) tm" where
  "random_select g =
     bnd (chooseRandomThread (on_cond_map g)) (\<lambda>t.
     bnd (if t \<noteq> INVALID_THREAD
          then random_assert (cm_get NULL (sg_cond_map g) t = sg_cond g) ''s->cond_map[thread] == s->cond''
          else ret ()) (\<lambda>_.
     ret t))"

definition random_policy :: "RandomTracker policy" where
  "random_policy = \<lparr>p_pick = random_pick, p_follow = followingChoiceFromLog,
     p_compare = compareScheduleSynchronization, p_launch = launchThread\<rparr>"

definition random_methods :: "RandomTracker methods" where
  "random_methods = (methods_of random_policy)\<lparr>m_select := random_select\<rparr>"

lemma refines_choose_with [refine_rules]: "refines (choose_with fail m) (\<lambda>v x v'. v' = v)"
  by (rule refinesI) (auto simp: choose_with_eq Let_def wf_def view_def split: if_splits)

lemma refines_pick_any: "refines (pick_any p) (\<lambda>v x v'. v' = v)"
  unfolding pick_any_def chooseRandomThread_def random_assert_def
  by (rule refines_weaken, (rule refine_rules refines_gets)+) (auto split: if_splits)

interpretation random: serial_methods random_methods
proof -
  have "policy_ok random_policy"
  proof (rule policy_ok_intro)
    show "refines (p_pick random_policy p) (\<lambda>v x v'. v' = v)" for p
      unfolding random_policy_def policy.simps random_pick_def random_assert_def
      by (rule refines_weaken, (rule refines_pick_any refine_rules refines_gets)+) (auto split: if_splits)
    show "refines (p_follow random_policy p) (\<lambda>v x v'. v' = v)" "refines (p_compare random_policy a b) (\<lambda>v x v'. v' = v)" for p a b
      unfolding random_policy_def policy.simps followingChoiceFromLog_def compareScheduleSynchronization_def
      by (rule refines_weaken, (rule refine_rules)+, auto)+
  qed (simp add: random_policy_def)
  moreover have "select_ok random_select"
    unfolding select_ok_def random_select_def chooseRandomThread_def random_assert_def
    by (intro allI, rule refines_weaken, (rule refine_rules)+) (auto split: if_splits)
  ultimately show "serial_methods random_methods" unfolding random_methods_def by (rule serial_methods_select)
qed

lemma pick_any_result:
  assumes "cm_ok (enable_map s)" and "\<not> cm_get False (enable_map s) INVALID_THREAD"
  shows "if \<exists>t. cm_get False (enable_map s) t
     then \<exists>t s'. pick_any p s = Inr ((t, p), s') \<and> cm_get False (enable_map s) t
     else \<exists>s'. pick_any p s = Inl (ProgramDeadlock, s')"
proof (cases "keys_with (\<lambda>b. b) (enable_map s)")
  case Nil
  then have "\<not> (\<exists>t. cm_get False (enable_map s) t)" using enabled_keys [OF assms(1)] by auto
  moreover have "\<not> (\<exists>e \<in> set (enable_map s). snd e)" using Nil by (auto simp: keys_with_def filter_empty_conv)
  ultimately show ?thesis using Nil by (auto simp: pick_any_def chooseRandomThread_result deadlockCheck_def)
next
  case (Cons u us)
  define t where "t = (if us = [] then u else nth_marked (draw (log s)) (u # us))"
  define s1 where "s1 = (if us = [] then s else s\<lparr>log := drawn (log s)\<rparr>)"
  have c: "chooseRandomThread (enable_map s) s = Inr (t, s1)"
    by (simp add: chooseRandomThread_def choose_with_eq Cons t_def s1_def Let_def)
  have "t \<in> set (keys_with (\<lambda>b. b) (enable_map s))"
    unfolding t_def Cons using nth_marked_in [of "u # us" "draw (log s)"] by auto
  then have en: "cm_get False (enable_map s) t" using enabled_keys [OF assms(1)] by simp
  then have t: "t \<noteq> INVALID_THREAD" using assms(2) by auto
  have "enable_map s1 = enable_map s" by (simp add: s1_def)
  then have "pick_any p s = Inr ((t, p), s1\<lparr>enable_map := cm_touch False t (enable_map s)\<rparr>)"
    using c t en by (simp add: pick_any_def read_enable_def random_assert_def safe_assert_in_def)
  with en show ?thesis by auto
qed

text \<open>
  A choice of the random scheduler. In a well-formed state, with a non-zero \<open>chanceOfPreempt\<close>, the
  scheduler chooses some enabled thread if there is one (none of its assertions can fail) and
  reports a deadlock otherwise.
\<close>

theorem random_pick_decides:
  assumes "wf s" and "\<not> cm_get False (enable_map s) INVALID_THREAD" and "chanceOfPreempt s \<noteq> 0"
  shows "if \<exists>t. cm_get False (enable_map s) t
     then \<exists>t s'. random_pick p s = Inr ((t, p), s') \<and> cm_get False (enable_map s) t
     else \<exists>s'. random_pick p s = Inl (ProgramDeadlock, s')"
proof -
  define t where "t = sp_thread p"
  define s1 where "s1 = s\<lparr>enable_map := cm_touch False t (enable_map s)\<rparr>"
  define s2 where "s2 = s1\<lparr>log := drawn (log s)\<rparr>"
  have ok: "cm_ok (enable_map s)" using assms(1) by (simp add: wf_def)
  have get: "cm_get False (enable_map s1) = cm_get False (enable_map s)" "cm_get False (enable_map s2) = cm_get False (enable_map s)"
    "cm_ok (enable_map s1)" "cm_ok (enable_map s2)"
    using ok by (simp_all add: s1_def s2_def)
  note any = pick_any_result [OF get(3), of p, unfolded get(1), OF assms(2)]
    pick_any_result [OF get(4), of p, unfolded get(2), OF assms(2)]
  show ?thesis
  proof (cases "cm_get False (enable_map s) t")
    case False
    then have "random_pick p s = pick_any p s1"
      by (simp add: random_pick_def read_enable_def s1_def t_def bnd_bool)
    with any(1) show ?thesis by (simp only:)
  next
    case True
    have d: "from_log getRandomNumber s1 = Inr (draw (log s), s2)" by (simp add: from_log_draw s1_def s2_def)
    have c: "chanceOfPreempt s2 = chanceOfPreempt s" by (simp add: s1_def s2_def)
    have run: "random_pick p s =
        (if draw (log s) smod chanceOfPreempt s \<noteq> 0
         then bnd (read_enable t) (\<lambda>e. bnd (random_assert e ''enable_map[s->thread]'') (\<lambda>_. ret (t, p))) s2 else pick_any p s2)"
      using True assms(3) by (simp add: random_pick_def read_enable_def s1_def [symmetric] t_def [symmetric] bnd_bool
          bnd_Inr [where m = "from_log getRandomNumber", OF d] c)
    show ?thesis
    proof (cases "draw (log s) smod chanceOfPreempt s = 0")
      case True
      then have "random_pick p s = pick_any p s2" using run by simp
      with any(2) show ?thesis by (simp only:)
    next
      case False
      have "\<exists>s'. bnd (read_enable t) (\<lambda>e. bnd (random_assert e ''enable_map[s->thread]'') (\<lambda>_. ret (t, p))) s2 = Inr ((t, p), s')"
        using True get(2) by (simp add: read_enable_def random_assert_def safe_assert_in_def bnd_bool)
      with False True run show ?thesis by auto
    qed
  qed
qed

definition random_demo :: RandomTracker where
  "random_demo = new_RandomTracker Logger_raw 1"

theorem random_pick_decides_witness:
  "\<exists>s'. random_pick (mk_SchedPointInfo 7 ''Simulate Sleep'' 1 [(1, True)] True) random_demo =
     Inr ((1, mk_SchedPointInfo 7 ''Simulate Sleep'' 1 [(1, True)] True), s')"
proof -
  have sel: "enable_map random_demo = [(1, True)]" "chanceOfPreempt random_demo = 1"
    by (simp_all add: random_demo_def new_RandomTracker_def new_ExecutionTracker_def constructorHelper_def
      ExecutionTracker_raw_def initializeThreadData_def enableThread_def ExecutionTracker.extend_def with_log_def)
  have "wf random_demo"
    by (simp add: random_demo_def new_RandomTracker_def new_ExecutionTracker_def constructorHelper_def wf_def
      ExecutionTracker_raw_def initializeThreadData_def enableThread_def ExecutionTracker.extend_def with_log_def
      BarrierTracker_init_def cm_ok_def)
  from random_pick_decides [OF this, of "mk_SchedPointInfo 7 ''Simulate Sleep'' 1 [(1, True)] True"] sel
  show ?thesis by (auto simp: cm_get_def split: if_splits)
qed

end
