(* ===== verification/Addr_Tracker.thy ===== *)
theory Addr_Tracker
  imports Relaxed_Tracker Random_Tracker Fair_Scheduler
begin

text \<open>
  \<open>AddrTracker\<close> (\<open>src/addrserial/addrtracker.cpp\<close>): follows a relaxed schedule as far as it goes and then
  schedules fairly, and \<open>DfailTracker\<close> (\<open>src/dfailserial/dfailtracker.cpp\<close>), which fails when the
  thread of a step is disabled. \<open>addrtracker.cpp\<close> does not define \<open>UNLOCKASSERT\<close>: its assertions leave without
  writing the schedule.
\<close>

section \<open>The hash of the schedule file\<close>

text \<open>One character (a signed \<open>char\<close>, converted to \<open>unsigned long\<close>), and the loop over the lines.\<close>

definition sdbm_step :: "64 word \<Rightarrow> char \<Rightarrow> 64 word" where
  "sdbm_step h c = scast (of_char c :: 8 word) + push_bit 6 h + push_bit 16 h - h"

function hash_loop :: "64 word \<Rightarrow> string \<Rightarrow> 64 word" where
  "hash_loop h f =
     (case fgets MAX_READ_SIZE f of
        None \<Rightarrow> h
      | Some (l, r) \<Rightarrow> hash_loop (foldl sdbm_step h l) r)"
  by pat_completeness auto

termination
  by (relation "measure (\<lambda>(h, f). length f)") (auto dest: fgets_shrinks_max)

declare hash_loop.simps [simp del]

text \<open>The file whose name the logger has stored.\<close>

definition getLogHash :: "files \<Rightarrow> 'a Logger_scheme \<Rightarrow> 64 word" where
  "getLogHash fs l = (case fopen_r fs (infile_name l) of None \<Rightarrow> 0 | Some f \<Rightarrow> hash_loop 0 f)"

section \<open>State\<close>

record AddrTracker = RelaxedTracker +
  addr_fairscheduler :: FairScheduler

text \<open>
  The constructor, on the tracker \<open>s\<close> that the constructor of the base class leaves: a new \<open>RelaxedLogger\<close>
  takes the place of its logger (\<open>cfg\<close>, \<open>r\<close>, \<open>can_write\<close> and \<open>fs\<close> as for \<open>new_Logger\<close>), is hashed and
  seeded with the hash, and the first step of the schedule is loaded. \<open>None\<close> is the reader of relaxed
  schedules that does not end.
\<close>

definition new_AddrTracker :: "stack_frame \<Rightarrow> string option \<Rightarrow> MTRand \<Rightarrow> bool \<Rightarrow> files \<Rightarrow> RelaxedTracker \<Rightarrow>
    ((exit_reason \<times> AddrTracker) + (unit \<times> AddrTracker)) option" where
  "new_AddrTracker frame cfg r can_write fs s =
     (case new_RelaxedLogger frame cfg r can_write fs ''thrille-relaxed-sched'' of
        None \<Rightarrow> None
      | Some (Inl (e, l)) \<Rightarrow> Some (Inl (e, RelaxedTracker.extend (s\<lparr>log := l\<rparr>) \<lparr>addr_fairscheduler = new_FairScheduler\<rparr>))
      | Some (Inr (sts, l)) \<Rightarrow> Some (
          bnd (gets (\<lambda>s. getLogHash fs (log s))) (\<lambda>schedulehash.
          bnd (upd (with_log (seedGenerator schedulehash))) (\<lambda>_. regenerateRelaxedSchedule))
            (RelaxedTracker.extend (s\<lparr>log := l, relaxed_schedule := sts, tts_itr := None\<rparr>)
               \<lparr>addr_fairscheduler = new_FairScheduler\<rparr>)))"

section \<open>The virtual functions\<close>

definition addr_checkTimesScheduled :: "('a AddrTracker_scheme, bool) tm" where
  "addr_checkTimesScheduled = gets (\<lambda>s. timesScheduled s > 2 * timesToSchedule s)"

definition addr_checkAddressOfContextSwitch :: "addr \<Rightarrow> ('a AddrTracker_scheme, bool) tm" where
  "addr_checkAddressOfContextSwitch ret_addr =
     bnd (upd (\<lambda>s. if ret_addr = addrPreempt s then s\<lparr>passPreempt := passPreempt s - 1\<rparr> else s)) (\<lambda>_.
     gets (\<lambda>s. passPreempt s < 0))"

definition addr_chooseRandomThread :: "(thrID, bool) cmap \<Rightarrow> ('a AddrTracker_scheme, thrID) tm" where
  "addr_chooseRandomThread = choose_with (plain_assert False ''false'')"

definition addr_noScheduleToFollow :: "SchedPointInfo \<Rightarrow> ('a AddrTracker_scheme, unit) tm" where
  "addr_noScheduleToFollow p =
     bnd (upd (\<lambda>s. s\<lparr>addr_fairscheduler := updateDataStructures p (addr_fairscheduler s)\<rparr>)) (\<lambda>_.
     bnd (gets (\<lambda>s. getFairEnabledMap p (addr_fairscheduler s))) (\<lambda>(fenmap, fs).
     bnd (upd (\<lambda>s. s\<lparr>addr_fairscheduler := fs\<rparr>)) (\<lambda>_.
     bnd (if cm_get False fenmap (sp_thread p) then ret (sp_thread p)
          else addr_chooseRandomThread (cm_touch False (sp_thread p) fenmap)) (\<lambda>t.
     upd (\<lambda>s. s\<lparr>currentThreadToSchedule := t, timesToSchedule := 1, timesScheduled := 0\<rparr>)))))"

definition addr_scheduleAdherenceCheck :: "('a AddrTracker_scheme, unit) tm" where
  "addr_scheduleAdherenceCheck = ret ()"

definition addr_mustRegenerateSchedule :: "addr \<Rightarrow> ('a AddrTracker_scheme, bool) tm" where
  "addr_mustRegenerateSchedule ret_addr =
     bnd (addr_checkAddressOfContextSwitch ret_addr) (\<lambda>a.
       if a then ret True
       else bnd addr_checkTimesScheduled (\<lambda>b.
         if b then ret True
         else bnd (gets currentThreadToSchedule) (\<lambda>t. isDisabled t)))"

definition addr_select :: "SignalPointInfo \<Rightarrow> ('a AddrTracker_scheme, thrID) tm" where
  "addr_select g =
     bnd (addr_chooseRandomThread (on_cond_map g)) (\<lambda>t.
     bnd (if t \<noteq> INVALID_THREAD
          then plain_assert (cm_get NULL (sg_cond_map g) t = sg_cond g) ''s->cond_map[thread] == s->cond''
          else ret ()) (\<lambda>_.
     ret t))"

text \<open>
  The loop of \<open>scheduleThreadWaitingOnCond\<close>. An iteration uses up a thread of the step's list of signals, or the list
  is used up and a waiting thread is found, or the loop is left; the bound is never reached
  (\<open>addr_signal_decides\<close>). \<open>None\<close> is the early return.
\<close>

fun cond_loop :: "nat \<Rightarrow> thrID \<Rightarrow> SignalPointInfo \<Rightarrow> ('a AddrTracker_scheme, thrID option \<times> SignalPointInfo) tm" where
  "cond_loop 0 tosched g = exit_with (Undefined ''scheduleThreadWaitingOnCond runs for ever'')"
| "cond_loop (Suc n) tosched g =
     (let g1 = touch_point tosched g
      in if cm_get NULL (sg_cond_map g) tosched = sg_cond g then ret (Some tosched, g1)
         else bnd relaxed_getNextSignalChoice (\<lambda>t.
           if t = INVALID_THREAD
           then bnd (addr_select g1) (\<lambda>u.
             if u = INVALID_THREAD then ret (None, g1) else cond_loop n u g1)
           else cond_loop n t g1))"

definition addr_signal :: "thrID \<Rightarrow> SignalPointInfo \<Rightarrow> ('a AddrTracker_scheme, thrID option \<times> SignalPointInfo) tm" where
  "addr_signal u g =
     bnd (upd (with_log (signalScheduling u g))) (\<lambda>_.
     bnd (upd (\<lambda>s. s\<lparr>wait_ready_map := cm_put u False (wait_ready_map s)\<rparr>)) (\<lambda>_.
     bnd (waitWakeThread u) (\<lambda>_.
     bnd gunlock (\<lambda>_.
     ret (Some u, g)))))"

definition addr_scheduleThreadWaitingOnCond :: "thrID \<Rightarrow> SignalPointInfo \<Rightarrow> ('a AddrTracker_scheme, thrID option \<times> SignalPointInfo) tm" where
  "addr_scheduleThreadWaitingOnCond target g =
     bnd glock (\<lambda>_.
     bnd (gets (\<lambda>s. case tts_itr s of None \<Rightarrow> 0 | Some ts \<Rightarrow> length ts)) (\<lambda>n.
     bnd (cond_loop (n + 3) target g) (\<lambda>(t, g1).
       case t of
         None \<Rightarrow> bnd gunlock (\<lambda>_. ret (None, g1))
       | Some u \<Rightarrow> addr_signal u g1)))"

section \<open>Failing on disabled threads\<close>

definition dfail_mustRegenerateSchedule :: "addr \<Rightarrow> ('a AddrTracker_scheme, bool) tm" where
  "dfail_mustRegenerateSchedule ret_addr =
     bnd (bnd (addr_checkAddressOfContextSwitch ret_addr) (\<lambda>a. if a then ret True else addr_checkTimesScheduled)) (\<lambda>must.
     bnd (if must then ret ()
          else bnd deadlockCheck (\<lambda>_.
               bnd (gets currentThreadToSchedule) (\<lambda>t. bnd (isEnabled t) (\<lambda>en.
               safe_assert_in ''dfailtracker.cpp'' en ''threadNotDisabledInTEI'')))) (\<lambda>_.
     ret must))"

section \<open>The contract\<close>

definition addr_hooks :: "'a AddrTracker_scheme relaxed" where
  "addr_hooks = \<lparr>r_must = addr_mustRegenerateSchedule, r_regen = regenerateRelaxedSchedule,
     r_none = addr_noScheduleToFollow, r_adhere = addr_scheduleAdherenceCheck\<rparr>"

definition dfail_hooks :: "'a AddrTracker_scheme relaxed" where
  "dfail_hooks = addr_hooks\<lparr>r_must := dfail_mustRegenerateSchedule\<rparr>"

definition addr_methods_of :: "'a AddrTracker_scheme relaxed \<Rightarrow> 'a AddrTracker_scheme methods" where
  "addr_methods_of H = (relaxed_methods_of H)\<lparr>m_select := addr_select, m_scheduleCond := addr_scheduleThreadWaitingOnCond\<rparr>"

lemma refines_addr_fields:
  "refines (upd (\<lambda>s :: 'a AddrTracker_scheme. s\<lparr>addr_fairscheduler := updateDataStructures p (addr_fairscheduler s)\<rparr>)) (\<lambda>v x v'. v' = v)"
  "refines (upd (\<lambda>s :: 'a AddrTracker_scheme. s\<lparr>addr_fairscheduler := fs\<rparr>)) (\<lambda>v x v'. v' = v)"
  "refines (upd (\<lambda>s :: 'a AddrTracker_scheme. s\<lparr>currentThreadToSchedule := t, timesToSchedule := 1, timesScheduled := 0\<rparr>)) (\<lambda>v x v'. v' = v)"
  "refines (addr_checkAddressOfContextSwitch a :: ('a AddrTracker_scheme, bool) tm) (\<lambda>v x v'. v' = v)"
  "refines (addr_checkTimesScheduled :: ('a AddrTracker_scheme, bool) tm) (\<lambda>v x v'. v' = v)"
  by (rule refinesI, auto simp: addr_checkAddressOfContextSwitch_def addr_checkTimesScheduled_def wf_def view_def bnd_eq_Inr split: if_splits)+

lemma relaxed_ok_addr: "relaxed_ok addr_hooks" "relaxed_ok dfail_hooks"
proof -
  have "refines (addr_mustRegenerateSchedule a) (\<lambda>v x v'. v' = v)" "refines regenerateRelaxedSchedule (\<lambda>v x v'. v' = v)"
    "refines (addr_noScheduleToFollow p) (\<lambda>v x v'. v' = v)" "refines addr_scheduleAdherenceCheck (\<lambda>v x v'. v' = v)"
    "refines (dfail_mustRegenerateSchedule a) (\<lambda>v x v'. v' = v)" for a p
    unfolding addr_mustRegenerateSchedule_def regenerateRelaxedSchedule_def addr_noScheduleToFollow_def addr_scheduleAdherenceCheck_def
      dfail_mustRegenerateSchedule_def addr_chooseRandomThread_def case_prod_beta'
    by (rule refines_weaken, (rule refine_rules refines_addr_fields refines_gets)+, (auto split: if_splits)[])+
  then show "relaxed_ok addr_hooks" "relaxed_ok dfail_hooks"
    unfolding relaxed_ok_def addr_hooks_def dfail_hooks_def relaxed.simps by blast+
qed

lemma select_ok_addr: "select_ok addr_select"
  unfolding select_ok_def addr_select_def addr_chooseRandomThread_def
  by (intro allI, rule refines_weaken, (rule refine_rules)+) (auto split: if_splits)

lemma refines_addr_select: "refines (addr_select g) (\<lambda>v x v'. v' = v)"
  using select_ok_addr unfolding select_ok_def by (blast intro: refines_weaken)

lemma cond_of_touch [simp]:
  "cm_get NULL (sg_cond_map (touch_point t g)) = cm_get NULL (sg_cond_map g)" "sg_cond (touch_point t g) = sg_cond g"
  by (simp_all add: touch_point_def)

lemma refines_cond_loop:
  "refines (cond_loop n t g) (\<lambda>v x v'. v' = v \<and> sg_cond (snd x) = sg_cond g \<and>
     (case fst x of None \<Rightarrow> True | Some u \<Rightarrow> cm_get NULL (sg_cond_map g) u = sg_cond g))"
proof (induction n arbitrary: t g)
  case 0
  show ?case unfolding cond_loop.simps by (rule refines_weaken [OF refines_exit]) simp
next
  case (Suc n)
  show ?case
    unfolding cond_loop.simps Let_def
    by (rule refines_weaken, (rule Suc refines_addr_select refine_rules)+) (simp split: if_splits, auto split: option.splits)
qed

lemma refines_addr_signal:
  "refines (addr_signal u g) (\<lambda>v x v'. v_glock v \<and> x = (Some u, g) \<and> v' = (a_signal u v)\<lparr>v_glock := False\<rparr>)"
  unfolding addr_signal_def
  by (rule refines_weaken, (rule refine_rules)+) (auto simp: a_signal_def)

lemma refines_addr_scheduleCond:
  "refines (addr_scheduleThreadWaitingOnCond t g) (\<lambda>v x v'. \<not> v_glock v \<and> sg_cond (snd x) = sg_cond g \<and>
     (case fst x of None \<Rightarrow> v' = v
      | Some u \<Rightarrow> cm_get NULL (sg_cond_map g) u = sg_cond g \<and> v' = a_signal u v))"
proof -
  have leave: "refines (case t of None \<Rightarrow> bnd gunlock (\<lambda>_. ret (None, g1)) | Some u \<Rightarrow> addr_signal u g1)
      (\<lambda>v x v'. v_glock v \<and> x = (t, g1) \<and> v' = (case t of None \<Rightarrow> v | Some u \<Rightarrow> a_signal u v)\<lparr>v_glock := False\<rparr>)" for t g1
  proof (cases t)
    case None
    show ?thesis unfolding None option.case by (rule refines_weaken, (rule refine_rules)+) auto
  next
    case (Some u)
    show ?thesis unfolding Some option.case by (rule refines_weaken [OF refines_addr_signal]) auto
  qed
  show ?thesis
    unfolding addr_scheduleThreadWaitingOnCond_def case_prod_beta'
    by (rule refines_weaken, (rule refines_seq refines_glock refines_cond_loop leave refines_gets)+)
      (auto simp: a_signal_def split: option.splits)
qed

lemma serial_methods_addr:
  assumes "relaxed_ok H"
  shows "serial_methods (addr_methods_of H)"
proof -
  note m = serial_methods_relaxed [OF assms]
  show ?thesis
    using select_ok_addr refines_addr_scheduleCond serial_methods.schedule_law [OF m] serial_methods.next_signal_law [OF m]
      serial_methods.handle_law [OF m]
    by unfold_locales (auto simp: addr_methods_of_def select_ok_def)
qed

interpretation addr: serial_methods "addr_methods_of (addr_hooks :: 'a AddrTracker_scheme relaxed)"
  by (rule serial_methods_addr [OF relaxed_ok_addr(1)])

interpretation dfail: serial_methods "addr_methods_of (dfail_hooks :: 'a AddrTracker_scheme relaxed)"
  by (rule serial_methods_addr [OF relaxed_ok_addr(2)])


section \<open>The schedule goes on fairly\<close>

lemma choose_with_marked:
  assumes "cm_ok m" and "cm_get False m u"
  shows "\<exists>t l. choose_with fail m s = Inr (t, s\<lparr>log := l\<rparr>) \<and> cm_get False m t"
proof -
  let ?ts = "keys_with (\<lambda>b. b) m"
  have ts: "set ?ts = {u. cm_get False m u}" by (rule set_enabled_keys [OF assms(1)])
  then have ne: "?ts \<noteq> []" using assms(2) by (metis empty_iff list.set(1) mem_Collect_eq)
  have s: "s = s\<lparr>log := log s\<rparr>" by simp
  show ?thesis
  proof (cases "length ?ts = 1")
    case True
    then have "choose_with fail m s = Inr (hd ?ts, s\<lparr>log := log s\<rparr>)" using ne by (simp add: choose_with_eq Let_def)
    moreover have "cm_get False m (hd ?ts)" using ts ne list.set_sel(1) by blast
    ultimately show ?thesis by blast
  next
    case False
    then have "choose_with fail m s = Inr (nth_marked (draw (log s)) ?ts, s\<lparr>log := drawn (log s)\<rparr>)"
      using ne by (simp add: choose_with_eq Let_def)
    moreover have "cm_get False m (nth_marked (draw (log s)) ?ts)" using ts nth_marked_in [OF ne] by blast
    ultimately show ?thesis by blast
  qed
qed

text \<open>A point at which the tracker is called.\<close>

definition point_ok :: "SchedPointInfo \<Rightarrow> 'a ExecutionTracker_scheme \<Rightarrow> bool" where
  "point_ok p s \<longleftrightarrow> sp_enabled p = enable_map s \<and> sp_thread p \<in> fst ` set (enable_map s) \<and>
     (\<forall>t \<in> fst ` set (enable_map s). 0 \<le> t)"

lemma addr_none_result:
  assumes "fs_inv (addr_fairscheduler s)" and "cm_ok (sp_enabled p)" and "sp_thread p \<in> fst ` set (sp_enabled p)"
    and "cm_get False (sp_enabled p) u"
  shows "\<exists>s'. addr_noScheduleToFollow p s = Inr ((), s') \<and> like s s' \<and> fs_inv (addr_fairscheduler s') \<and>
     isFairEnabled (currentThreadToSchedule s') (sp_enabled p) (addr_fairscheduler s')"
proof -
  let ?u = "updateDataStructures p (addr_fairscheduler s)"
  let ?m = "fst (getFairEnabledMap p ?u)" and ?fs = "snd (getFairEnabledMap p ?u)"
  let ?s1 = "s\<lparr>addr_fairscheduler := ?fs\<rparr>"
  have inv: "fs_inv ?fs" using fs_inv_updateDataStructures [OF assms(1,3)] by simp
  have m: "cm_get False ?m t = isFairEnabled t (sp_enabled p) ?fs" for t
    by (simp add: get_fenmap) (simp add: getFairEnabledMap_def isFairEnabled_def)
  obtain x where x: "cm_get False ?m x" using some_fair_enabled [OF inv assms(4)] m by blast
  have "\<exists>t l. (if cm_get False ?m (sp_thread p) then ret (sp_thread p)
      else addr_chooseRandomThread (cm_touch False (sp_thread p) ?m)) ?s1 = Inr (t, ?s1\<lparr>log := l\<rparr>) \<and> cm_get False ?m t"
  proof (cases "cm_get False ?m (sp_thread p)")
    case True
    then show ?thesis by (intro exI [of _ "sp_thread p"] exI [of _ "log s"]) simp
  next
    case False
    have "cm_ok (cm_touch False (sp_thread p) ?m)" using cm_ok_fenmap [OF assms(2)] by blast
    from choose_with_marked [OF this, of x] x False show ?thesis by (simp add: addr_chooseRandomThread_def)
  qed
  then obtain t l where t: "(if cm_get False ?m (sp_thread p) then ret (sp_thread p)
      else addr_chooseRandomThread (cm_touch False (sp_thread p) ?m)) ?s1 = Inr (t, ?s1\<lparr>log := l\<rparr>)" "cm_get False ?m t" by blast
  let ?s' = "?s1\<lparr>log := l, currentThreadToSchedule := t, timesToSchedule := 1, timesScheduled := 0\<rparr>"
  have "addr_noScheduleToFollow p s = Inr ((), ?s')"
    using t(1) by (simp add: addr_noScheduleToFollow_def case_prod_beta')
  moreover have "like s ?s'" by (simp add: like_def)
  moreover have "isFairEnabled t (sp_enabled p) ?fs" using t(2) m by blast
  ultimately show ?thesis using inv by (intro exI [of _ ?s']) simp
qed


lemma addr_must_eq:
  "addr_mustRegenerateSchedule a s =
     (if pass_left a s < 0 \<or> 2 * timesToSchedule s < timesScheduled s then Inr (True, passed a s)
      else Inr (\<not> (currentThreadToSchedule s \<noteq> INVALID_THREAD \<and> cm_get False (enable_map s) (currentThreadToSchedule s)),
                looked (currentThreadToSchedule s) (passed a s)))"
proof -
  have "addr_checkAddressOfContextSwitch a s = Inr (pass_left a s < 0, passed a s)"
    by (auto simp: addr_checkAddressOfContextSwitch_def passed_def pass_left_def)
  then show ?thesis by (simp add: addr_mustRegenerateSchedule_def addr_checkTimesScheduled_def isDisabled_eq bnd_def)
qed

lemma addr_loop_exhausted:
  assumes "fs_inv (addr_fairscheduler s)" and "cm_ok (sp_enabled p)" and "sp_thread p \<in> fst ` set (sp_enabled p)"
    and "\<forall>t \<in> fst ` set (sp_enabled p). 0 \<le> t"
    and "cm_ok (enable_map s)" and "cm_get False (enable_map s) = cm_get False (sp_enabled p)" and "cm_get False (sp_enabled p) u"
    and "relaxed_schedule s = []"
  shows "\<exists>s'. regenerate_loop (Suc n) addr_hooks p s = Inr ((), s') \<and> like s s' \<and> fs_inv (addr_fairscheduler s') \<and>
     currentThreadToSchedule s' \<noteq> INVALID_THREAD \<and> cm_get False (enable_map s) (currentThreadToSchedule s')"
proof -
  have d: "deadlockCheck s = Inr ((), s)" using assms(5-7) by (auto simp: deadlockCheck_eq)
  have r: "regenerateRelaxedSchedule s = Inr ((), no_step s)" using assms(8) by (simp add: regenerate_eq)
  have "fs_inv (addr_fairscheduler (no_step s))" using assms(1) by (simp add: no_step_def)
  then obtain s1 where s1: "addr_noScheduleToFollow p (no_step s) = Inr ((), s1)" "like (no_step s) s1" "fs_inv (addr_fairscheduler s1)"
    "isFairEnabled (currentThreadToSchedule s1) (sp_enabled p) (addr_fairscheduler s1)"
    using addr_none_result [OF _ assms(2,3,7), of "no_step s"] by blast
  let ?t = "currentThreadToSchedule s1"
  have en: "cm_get False (sp_enabled p) ?t" using s1(4) by (simp add: isFairEnabled_def split: if_splits)
  then have t: "?t \<noteq> INVALID_THREAD" using assms(4)
    by (auto simp: cm_get_def split: option.splits dest!: map_of_SomeD)
  have "regenerate_loop (Suc n) addr_hooks p s = Inr ((), looked ?t s1)"
    using t en s1(2) assms(6)
    by (simp add: addr_hooks_def d r s1(1) bnd_Inr [where m = "isDisabled t" for t, OF isDisabled_eq] like_def)
  moreover have "like s (looked ?t s1)" using s1(2) like_trans like_load_step(2) like_looked by blast
  ultimately show ?thesis
    using t en s1(3) assms(6) by (auto simp: looked_def)
qed

text \<open>The end of the loop over the steps: some enabled thread is current.\<close>

lemma addr_loop_result:
  assumes "fs_inv (addr_fairscheduler s)" and "cm_ok (sp_enabled p)" and "sp_thread p \<in> fst ` set (sp_enabled p)"
    and "\<forall>t \<in> fst ` set (sp_enabled p). 0 \<le> t"
    and "cm_ok (enable_map s)" and "cm_get False (enable_map s) = cm_get False (sp_enabled p)" and "cm_get False (sp_enabled p) u"
    and "\<forall>st \<in> set (relaxed_schedule s). rs_current st \<noteq> INVALID_THREAD"
  shows "\<exists>s'. regenerate_loop (length (relaxed_schedule s) + 2) addr_hooks p s = Inr ((), s') \<and> like s s' \<and> fs_inv (addr_fairscheduler s') \<and>
     currentThreadToSchedule s' \<noteq> INVALID_THREAD \<and> cm_get False (enable_map s) (currentThreadToSchedule s')"
proof -
  have H: "r_regen addr_hooks = regenerateRelaxedSchedule" by (simp add: addr_hooks_def)
  have u: "cm_get False (enable_map s) u" using assms(6,7) by simp
  have fair: "addr_fairscheduler s1 = addr_fairscheduler s" if "RelaxedTracker.more s1 = RelaxedTracker.more s" for s1
    using that by (cases s; cases s1) simp
  show ?thesis
  proof (cases "dropWhile (\<lambda>st. \<not> cm_get False (enable_map s) (rs_current st)) (relaxed_schedule s)")
    case Nil
    then have "\<forall>st \<in> set (relaxed_schedule s). \<not> cm_get False (enable_map s) (rs_current st)" by (simp add: dropWhile_eq_Nil_conv)
    from regenerate_loop_skips [OF H assms(5) u assms(8) this, of 2 p] obtain s1 where
      s1: "regenerate_loop (length (relaxed_schedule s) + 2) addr_hooks p s = regenerate_loop (Suc 1) addr_hooks p s1"
      "like s s1" "relaxed_schedule s1 = []" "RelaxedTracker.more s1 = RelaxedTracker.more s"
      by (auto simp: numeral_2_eq_2 simp del: regenerate_loop.simps)
    have l: "cm_ok (enable_map s1)" "cm_get False (enable_map s1) = cm_get False (sp_enabled p)"
      using s1(2) assms(5,6) by (auto simp: like_def)
    from addr_loop_exhausted [OF _ assms(2-4) l assms(7) s1(3), of 1] assms(1) fair [OF s1(4)] s1(1,2) l(2) assms(6) like_trans
    show ?thesis by (metis (no_types, lifting))
  next
    case (Cons st sts)
    then have "cm_get False (enable_map s) (rs_current st)" by (simp add: dropWhile_eq_Cons_conv)
    moreover have "st \<in> set (relaxed_schedule s)" using Cons by (metis list.set_intros(1) set_dropWhileD)
    ultimately have st: "cm_get False (enable_map s) (rs_current st)" "rs_current st \<noteq> INVALID_THREAD" using assms(8) by blast+
    from regenerate_loop_finds [OF H assms(5) u assms(8) Cons, of "length (relaxed_schedule s) + 2" p] obtain s1 where
      s1: "regenerate_loop (length (relaxed_schedule s) + 2) addr_hooks p s = Inr ((), looked (rs_current st) (load_step st sts s1))"
      "like s s1" "RelaxedTracker.more s1 = RelaxedTracker.more s" by auto
    let ?s' = "looked (rs_current st) (load_step st sts s1)"
    have "like s ?s'" using s1(2) like_trans like_load_step(1) like_looked by blast
    moreover have "fs_inv (addr_fairscheduler ?s')" using assms(1) fair [of ?s'] s1(3) by simp
    ultimately show ?thesis using s1(1) st by (intro exI [of _ ?s']) simp
  qed
qed

text \<open>
  C16: The relaxed schedule with a fair rest never hangs and never fails. In the course of a run of the address
  tracker, at a point of a known thread, with acyclic priorities, steps for actual threads and
  enabled threads that wait on their semaphores: if no thread is enabled a deadlock is reported;
  otherwise \<open>schedule\<close> returns (the loop over the steps ends and no assertion fails), the
  thread launched is enabled, and the priorities stay acyclic.
\<close>

theorem addr_schedule_decides:
  assumes "wf s" and "currentThreadToSchedule s \<noteq> UNKNOWN_THREAD" and "fs_inv (addr_fairscheduler s)" and "point_ok p s"
    and "\<forall>st \<in> set (relaxed_schedule s). rs_current st \<noteq> INVALID_THREAD"
    and "\<forall>t. cm_get False (enable_map s) t \<longrightarrow> cm_get None (sem_map s) t = Some 0 \<and> cm_get None (wait_sem_map s) t = Some 0"
  shows "if \<exists>u. cm_get False (enable_map s) u
     then \<exists>t s'. m_schedule (addr_methods_of addr_hooks) p s = Inr (t, s') \<and> cm_get False (enable_map s) t \<and>
            fs_inv (addr_fairscheduler s')
     else \<exists>s'. m_schedule (addr_methods_of addr_hooks) p s = Inl (ProgramDeadlock, s')"
proof -
  let ?a = "sp_ret_addr p" and ?c = "currentThreadToSchedule s" and ?en = "cm_get False (enable_map s)"
  define s1 where "s1 = (if pass_left ?a s < 0 \<or> 2 * timesToSchedule s < timesScheduled s then passed ?a s else looked ?c (passed ?a s))"
  define b where "b \<longleftrightarrow> pass_left ?a s < 0 \<or> 2 * timesToSchedule s < timesScheduled s \<or> \<not> (?c \<noteq> INVALID_THREAD \<and> ?en ?c)"
  have must: "r_must addr_hooks ?a s = Inr (b, s1)" by (auto simp: addr_hooks_def addr_must_eq s1_def b_def)
  have ok: "cm_ok (enable_map s)" using assms(1) by (simp add: wf_def)
  have l1: "like s s1" "relaxed_schedule s1 = relaxed_schedule s" "currentThreadToSchedule s1 = ?c"
    using like_trans [OF passed_fields(10) like_looked] by (auto simp: s1_def)
  have fs1: "addr_fairscheduler s1 = addr_fairscheduler s" by (simp add: s1_def passed_def looked_def)
  have ok1: "cm_ok (enable_map s1)" "cm_get False (enable_map s1) = ?en" "sem_map s1 = sem_map s" "wait_sem_map s1 = wait_sem_map s"
    using l1(1) ok by (auto simp: like_def)
  have run: "m_schedule (addr_methods_of addr_hooks) p s =
      (if b then bnd (regenerate_loop (length (relaxed_schedule s) + 2) addr_hooks p) (\<lambda>_. relaxed_launch addr_hooks p) s1
       else relaxed_launch addr_hooks p s1)"
    using relaxed_schedule_point_eq [OF assms(2) must] by (simp add: addr_methods_of_def relaxed_methods_of_def l1(2) del: regenerate_loop.simps)
  have launch: "\<exists>s'. relaxed_launch addr_hooks p x = Inr (currentThreadToSchedule x, s') \<and> addr_fairscheduler s' = addr_fairscheduler x"
    if "like s x" "currentThreadToSchedule x \<noteq> INVALID_THREAD" "?en (currentThreadToSchedule x)" for x
  proof -
    have "r_adhere addr_hooks x = Inr ((), x)" by (simp add: addr_hooks_def addr_scheduleAdherenceCheck_def)
    moreover have "addr_fairscheduler s' = addr_fairscheduler x" if "same_step x s'" for s'
      using that by (cases x; cases s') (simp add: same_step_def)
    ultimately show ?thesis
      using relaxed_launch_runs [of x addr_hooks p] that ok assms(6) by (auto simp: like_def)
  qed
  show ?thesis
  proof (cases "\<exists>u. ?en u")
    case False
    then have "deadlockCheck s1 = Inl (ProgramDeadlock, with_log programDeadlock s1)" using ok1 by (simp add: deadlockCheck_eq)
    moreover have b using False by (auto simp: b_def)
    ultimately have "\<exists>s'. m_schedule (addr_methods_of addr_hooks) p s = Inl (ProgramDeadlock, s')" by (simp add: run bnd_def)
    with False show ?thesis by (simp only: if_False)
  next
    case True
    have "\<exists>t s'. m_schedule (addr_methods_of addr_hooks) p s = Inr (t, s') \<and> ?en t \<and> fs_inv (addr_fairscheduler s')"
    proof (cases b)
      case True
      obtain u where u: "?en u" using \<open>\<exists>u. ?en u\<close> by blast
      note point = assms(4) [unfolded point_ok_def]
      obtain s2 where s2: "regenerate_loop (length (relaxed_schedule s) + 2) addr_hooks p s1 = Inr ((), s2)" "like s1 s2"
        "fs_inv (addr_fairscheduler s2)" "currentThreadToSchedule s2 \<noteq> INVALID_THREAD" "?en (currentThreadToSchedule s2)"
        using addr_loop_result [of s1 p u] l1 fs1 ok ok1 assms(3,5) point u by auto
      with launch [of s2] like_trans [OF l1(1)] run True show ?thesis by (auto simp del: regenerate_loop.simps)
    next
      case False
      then have "?c \<noteq> INVALID_THREAD" "?en ?c" by (auto simp: b_def)
      with launch [of s1] l1 fs1 run False assms(3) show ?thesis by auto
    qed
    with True show ?thesis by (simp only: if_True)
  qed
qed


definition addr_demo :: AddrTracker where
  "addr_demo = RelaxedTracker.extend ((new_RelaxedTracker Logger_raw [] 1)\<lparr>currentThreadToSchedule := 1\<rparr>)
     \<lparr>addr_fairscheduler = new_FairScheduler\<rparr>"

lemma addr_demo_sel [simp]:
  "enable_map addr_demo = [(1, True)]" "sem_map addr_demo = [(1, Some 0)]" "wait_sem_map addr_demo = [(1, Some 0)]"
  "relaxed_schedule addr_demo = []" "currentThreadToSchedule addr_demo = 1" "addr_fairscheduler addr_demo = new_FairScheduler"
  by (simp_all add: addr_demo_def new_RelaxedTracker_def new_ExecutionTracker_def constructorHelper_def RelaxedTracker.extend_def
      ExecutionTracker_raw_def initializeThreadData_def enableThread_def ExecutionTracker.extend_def)

theorem addr_schedule_decides_witness:
  "\<exists>s'. m_schedule (addr_methods_of addr_hooks) (mk_SchedPointInfo 7 ''Simulate Sleep'' 1 [(1, True)] True) addr_demo = Inr (1, s')"
proof -
  have wf: "wf addr_demo"
    by (simp add: addr_demo_def new_RelaxedTracker_def new_ExecutionTracker_def constructorHelper_def wf_def RelaxedTracker.extend_def
      ExecutionTracker_raw_def initializeThreadData_def enableThread_def ExecutionTracker.extend_def BarrierTracker_init_def cm_ok_def)
  let ?p = "mk_SchedPointInfo 7 ''Simulate Sleep'' 1 [(1, True)] True"
  have get: "cm_get False [(1, True)] t = (t = 1)" for t :: thrID by (simp add: cm_get_def)
  have "point_ok ?p addr_demo" by (simp add: point_ok_def mk_SchedPointInfo_def)
  then show ?thesis
    using addr_schedule_decides [OF wf, of ?p, unfolded addr_demo_sel get] by (auto simp: cm_get_def fs_inv_new)
qed

section \<open>Whom a signal wakes\<close>

lemma on_cond_map_get: "map_of (on_cond_map g) t = map_option (\<lambda>c. c = sg_cond g) (map_of (sg_cond_map g) t)"
proof -
  have "map_of (map (\<lambda>(t, c). (t, f c)) m) t = map_option f (map_of m t)" for f :: "addr \<Rightarrow> bool" and m :: "(thrID, addr) cmap"
    by (induction m) auto
  then show ?thesis by (simp add: on_cond_map_def)
qed

lemma on_cond_map_ok: "cm_ok (sg_cond_map g) \<Longrightarrow> cm_ok (on_cond_map g)"
  by (simp add: on_cond_map_def cm_ok_def comp_def case_prod_beta')

lemma addr_select_result:
  assumes "cm_ok (sg_cond_map g)" and "sg_cond g \<noteq> NULL" and "cm_get NULL (sg_cond_map g) INVALID_THREAD \<noteq> sg_cond g"
  shows "\<exists>t l. addr_select g s = Inr (t, s\<lparr>log := l\<rparr>) \<and>
     (if \<exists>u. cm_get NULL (sg_cond_map g) u = sg_cond g then cm_get NULL (sg_cond_map g) t = sg_cond g else t = INVALID_THREAD)"
proof -
  have m: "cm_get False (on_cond_map g) t \<longleftrightarrow> cm_get NULL (sg_cond_map g) t = sg_cond g" for t
    using assms(2) by (auto simp: cm_get_def on_cond_map_get split: option.splits)
  show ?thesis
  proof (cases "\<exists>u. cm_get False (on_cond_map g) u")
    case True
    then obtain t l where t: "choose_with (plain_assert False ''false'') (on_cond_map g) s = Inr (t, s\<lparr>log := l\<rparr>)"
      "cm_get False (on_cond_map g) t"
      using choose_with_marked [OF on_cond_map_ok [OF assms(1)]] by blast
    then have "t \<noteq> INVALID_THREAD" using m assms(3) by blast
    with t m have "addr_select g s = Inr (t, s\<lparr>log := l\<rparr>)"
      by (simp add: addr_select_def addr_chooseRandomThread_def plain_assert_def)
    with t(2) True m show ?thesis by auto
  next
    case False
    then have "keys_with (\<lambda>b. b) (on_cond_map g) = []"
      using set_enabled_keys [OF on_cond_map_ok [OF assms(1)]] by auto
    then have "addr_select g s = Inr (INVALID_THREAD, s\<lparr>log := log s\<rparr>)"
      by (simp add: addr_select_def addr_chooseRandomThread_def choose_with_eq)
    with False m show ?thesis by (intro exI [of _ INVALID_THREAD] exI [of _ "log s"]) auto
  qed
qed


text \<open>Whether a thread waits on the condition of a signal.\<close>

definition waits_on :: "SignalPointInfo \<Rightarrow> thrID \<Rightarrow> bool" where
  "waits_on g t \<longleftrightarrow> cm_get NULL (sg_cond_map g) t = sg_cond g"

lemma waits_on_touch [simp]: "waits_on (touch_point t g) = waits_on g" "cm_ok (sg_cond_map g) \<Longrightarrow> cm_ok (sg_cond_map (touch_point t g))"
  by (auto simp: waits_on_def touch_point_def fun_eq_iff)

definition signal_point_ok :: "SignalPointInfo \<Rightarrow> bool" where
  "signal_point_ok g \<longleftrightarrow> cm_ok (sg_cond_map g) \<and> sg_cond g \<noteq> NULL \<and> \<not> waits_on g INVALID_THREAD"

lemma signal_point_ok_touch [simp]: "signal_point_ok g \<Longrightarrow> signal_point_ok (touch_point t g)"
  by (simp add: signal_point_ok_def)

lemma cond_loop_at: "waits_on g t \<Longrightarrow> cond_loop (Suc n) t g s = Inr ((Some t, touch_point t g), s)"
  by (simp add: waits_on_def cond_loop.simps Let_def)

lemma cond_loop_next:
  assumes "\<not> waits_on g t" and "relaxed_getNextSignalChoice s = Inr (x, s1)"
  shows "cond_loop (Suc n) t g s =
     (if x = INVALID_THREAD
      then bnd (addr_select (touch_point t g)) (\<lambda>u. if u = INVALID_THREAD then ret (None, touch_point t g) else cond_loop n u (touch_point t g)) s1
      else cond_loop n x (touch_point t g) s1)"
  using assms(1) unfolding waits_on_def
  by (simp add: cond_loop.simps(2) Let_def bnd_Inr [where m = relaxed_getNextSignalChoice, OF assms(2)])

declare cond_loop.simps [simp del]

lemma cond_loop_random:
  assumes "signal_point_ok g"
  shows "\<exists>u s' g'. bnd (addr_select g) (\<lambda>u. if u = INVALID_THREAD then ret (None, g) else cond_loop (Suc n) u g) s = Inr ((u, g'), s') \<and>
     (case u of None \<Rightarrow> \<forall>t. \<not> waits_on g t | Some t \<Rightarrow> waits_on g t)"
proof -
  obtain t l where t: "addr_select g s = Inr (t, s\<lparr>log := l\<rparr>)"
    "if \<exists>u. waits_on g u then waits_on g t else t = INVALID_THREAD"
    using addr_select_result [of g s] assms by (auto simp: signal_point_ok_def waits_on_def)
  show ?thesis
  proof (cases "\<exists>u. waits_on g u")
    case True
    then have w: "waits_on g t" using t(2) by simp
    then have "t \<noteq> INVALID_THREAD" using assms by (auto simp: signal_point_ok_def)
    then have "bnd (addr_select g) (\<lambda>u. if u = INVALID_THREAD then ret (None, g) else cond_loop (Suc n) u g) s =
        Inr ((Some t, touch_point t g), s\<lparr>log := l\<rparr>)"
      using t(1) cond_loop_at [OF w, of n "s\<lparr>log := l\<rparr>"] by simp
    with w show ?thesis by auto
  next
    case False
    with t show ?thesis by auto
  qed
qed

lemma cond_loop_result:
  assumes "signal_point_ok g" and "tts_itr s = Some ts" and "length ts + 2 \<le> n"
  shows "\<exists>u s' g'. cond_loop n t g s = Inr ((u, g'), s') \<and>
     (case u of None \<Rightarrow> \<forall>t. \<not> waits_on g t | Some t \<Rightarrow> waits_on g t) \<and>
     (INVALID_THREAD \<notin> set ts \<and> filter (waits_on g) (t # ts) \<noteq> [] \<longrightarrow> u = Some (hd (filter (waits_on g) (t # ts))))"
  using assms
proof (induction ts arbitrary: t g s n)
  case Nil
  define m where "m = n - 2"
  then have n: "n = Suc (Suc m)" using Nil.prems(3) by simp
  show ?case
  proof (cases "waits_on g t")
    case True
    then show ?thesis using cond_loop_at [OF True, of "Suc m" s] by (simp add: n)
  next
    case False
    have "relaxed_getNextSignalChoice s = Inr (INVALID_THREAD, s)" using Nil by (simp add: relaxed_getNextSignalChoice_def)
    note eq = cond_loop_next [OF False this, of "Suc m", folded n]
    from cond_loop_random [of "touch_point t g" m s] Nil.prems(1) False show ?thesis
      unfolding eq by (simp only: if_True waits_on_touch signal_point_ok_touch simp_thms filter.simps if_False list.set)
  qed
next
  case (Cons x xs)
  then obtain m where n: "n = Suc m" and m: "length xs + 2 \<le> m" by (cases n) auto
  then obtain k where k: "m = Suc k" by (cases m) auto
  show ?case
  proof (cases "waits_on g t")
    case True
    then show ?thesis using cond_loop_at [OF True, of m s] by (simp add: n)
  next
    case False
    let ?g = "touch_point t g" and ?s = "s\<lparr>tts_itr := Some xs\<rparr>"
    have nxt: "relaxed_getNextSignalChoice s = Inr (x, ?s)" using Cons by (simp add: relaxed_getNextSignalChoice_def)
    show ?thesis
    proof (cases "x = INVALID_THREAD")
      case True
      note eq = cond_loop_next [OF False nxt, of "Suc k", folded k, folded n]
      from cond_loop_random [of ?g k ?s] Cons.prems(1) show ?thesis
        unfolding eq k using True
        by (simp only: if_True waits_on_touch signal_point_ok_touch simp_thms list.set insert_iff)
    next
      case x: False
      then have "cond_loop n t g s = cond_loop m x ?g ?s" using cond_loop_next [OF False nxt, of m] by (simp add: n)
      moreover have "\<exists>u s' g'. cond_loop m x ?g ?s = Inr ((u, g'), s') \<and>
         (case u of None \<Rightarrow> \<forall>t. \<not> waits_on ?g t | Some t \<Rightarrow> waits_on ?g t) \<and>
         (INVALID_THREAD \<notin> set xs \<and> filter (waits_on ?g) (x # xs) \<noteq> [] \<longrightarrow> u = Some (hd (filter (waits_on ?g) (x # xs))))"
        using Cons.prems(1) m by (intro Cons.IH) simp_all
      ultimately show ?thesis using False unfolding waits_on_touch by auto
    qed
  qed
qed


lemma addr_select_keeps: "addr_select g s = Inr (x, s') \<Longrightarrow> \<exists>l. s' = s\<lparr>log := l\<rparr>"
  by (auto simp: addr_select_def addr_chooseRandomThread_def choose_with_eq Let_def plain_assert_def bnd_eq_Inr split: if_splits)
    (metis ExecutionTracker.surjective ExecutionTracker.update_convs(22))+

lemma cond_loop_keeps:
  "cond_loop n t g s = Inr (x, s') \<Longrightarrow> global_lock s' = global_lock s \<and> wait_sem_map s' = wait_sem_map s"
proof (induction n arbitrary: t g s)
  case (Suc n)
  have nxt: "global_lock s1 = global_lock s \<and> wait_sem_map s1 = wait_sem_map s" if "relaxed_getNextSignalChoice s = Inr (y, s1)" for y s1
    using that by (auto simp: relaxed_getNextSignalChoice_def split: option.splits list.splits)
  have sel: "global_lock s2 = global_lock s1 \<and> wait_sem_map s2 = wait_sem_map s1" if "addr_select h s1 = Inr (y, s2)" for h y s1 s2
    using addr_select_keeps [OF that] by auto
  show ?case
    using Suc.prems by (auto simp: cond_loop.simps(2) Let_def bnd_eq_Inr split: if_splits dest!: Suc.IH nxt sel)
qed (simp add: cond_loop.simps)

text \<open>
  C17: Whom a signal wakes under a relaxed schedule. At a signal on a condition, with the step's list of
  threads to signal at hand, the global lock free and the waiters' semaphores in place, the function returns, so
  its loop ends. It wakes no thread exactly if none waits on the condition; a thread it wakes waits
  on the condition; and if the thread it was called with or one on the list (a list of actual
  threads) waits on the condition, it wakes the first of these.
\<close>

theorem addr_signal_decides:
  assumes "signal_point_ok g" and "tts_itr s = Some ts" and "\<not> global_lock s"
    and "\<forall>u. waits_on g u \<longrightarrow> cm_get None (wait_sem_map s) u = Some 0"
  shows "\<exists>u g' s'. m_scheduleCond (addr_methods_of addr_hooks) t g s = Inr ((u, g'), s') \<and>
     (case u of None \<Rightarrow> \<forall>t. \<not> waits_on g t | Some t \<Rightarrow> waits_on g t \<and> cm_get None (wait_sem_map s') t = Some 1) \<and>
     (INVALID_THREAD \<notin> set ts \<and> filter (waits_on g) (t # ts) \<noteq> [] \<longrightarrow> u = Some (hd (filter (waits_on g) (t # ts)))) \<and>
     \<not> global_lock s'"
proof -
  let ?s = "s\<lparr>global_lock := True, lock_count := lock_count s + 1\<rparr>"
  obtain u s1 g1 where r: "cond_loop (length ts + 3) t g ?s = Inr ((u, g1), s1)"
    "case u of None \<Rightarrow> \<forall>t. \<not> waits_on g t | Some t \<Rightarrow> waits_on g t"
    "INVALID_THREAD \<notin> set ts \<and> filter (waits_on g) (t # ts) \<noteq> [] \<longrightarrow> u = Some (hd (filter (waits_on g) (t # ts)))"
    using cond_loop_result [OF assms(1), of ?s ts "length ts + 3" t] assms(2) by auto
  have k: "global_lock s1 \<and> wait_sem_map s1 = wait_sem_map s"
    using cond_loop_keeps [OF r(1)] by simp
  have run: "m_scheduleCond (addr_methods_of addr_hooks) t g s =
      (case u of None \<Rightarrow> bnd gunlock (\<lambda>_. ret (None, g1)) | Some u \<Rightarrow> addr_signal u g1) s1"
    using assms(2,3) r(1) by (simp add: addr_methods_of_def addr_scheduleThreadWaitingOnCond_def glock_def)
  show ?thesis
  proof (cases u)
    case None
    with k run r show ?thesis by (simp add: gunlock_def safe_assert_def bnd_def)
  next
    case (Some v)
    then have v: "waits_on g v" using r(2) by simp
    then have "\<exists>s'. addr_signal v g1 s1 = Inr ((Some v, g1), s') \<and> cm_get None (wait_sem_map s') v = Some 1 \<and> \<not> global_lock s'"
      using k assms(4) by (simp add: addr_signal_def with_log_def waitWakeThread_def read_wait_sem_map_def safe_assert_def
          gunlock_def SEM_VALUE_MAX_def bnd_def)
    with Some run r v show ?thesis by auto
  qed
qed


definition signal_demo :: SignalPointInfo where
  "signal_demo = mk_SignalPointInfo 7 False 1 0x99 [(1, 0), (2, 0x99)]"

lemma signal_demo_waits: "waits_on signal_demo t \<longleftrightarrow> t = 2"
  by (simp add: waits_on_def signal_demo_def mk_SignalPointInfo_def cm_get_def)

theorem addr_signal_decides_witness:
  "\<exists>g' s'. m_scheduleCond (addr_methods_of addr_hooks) 1 signal_demo
     (addr_demo\<lparr>tts_itr := Some [3, 2], wait_sem_map := [(2, Some 0)]\<rparr>) = Inr ((Some 2, g'), s')"
proof -
  have "signal_point_ok signal_demo"
    unfolding signal_point_ok_def signal_demo_waits by (simp add: signal_demo_def mk_SignalPointInfo_def cm_ok_def)
  moreover have "\<not> global_lock (addr_demo\<lparr>tts_itr := Some [3, 2], wait_sem_map := [(2, Some 0)]\<rparr>)"
    by (simp add: addr_demo_def new_RelaxedTracker_def new_ExecutionTracker_def constructorHelper_def RelaxedTracker.extend_def
      ExecutionTracker_raw_def initializeThreadData_def enableThread_def ExecutionTracker.extend_def)
  ultimately show ?thesis
    using addr_signal_decides [of signal_demo "addr_demo\<lparr>tts_itr := Some [3, 2], wait_sem_map := [(2, Some 0)]\<rparr>" "[3, 2]" 1]
    by (auto simp: signal_demo_waits cm_get_def)
qed

section \<open>The seed\<close>

text \<open>The hash does not depend on how \<open>fgets\<close> cuts the file.\<close>

lemma fgets_parts: "fgets n f = Some (l, r) \<Longrightarrow> f = l @ r"
proof -
  have "fst (fgets_take n f) @ snd (fgets_take n f) = f" for n f
    by (induction n f rule: fgets_take.induct) (auto split: prod.splits)
  then show "fgets n f = Some (l, r) \<Longrightarrow> f = l @ r" by (metis fgets_def fst_conv option.distinct(1) option.inject snd_conv)
qed

lemma hash_loop_foldl: "hash_loop h f = foldl sdbm_step h f"
proof (induction h f rule: hash_loop.induct)
  case (1 h f)
  show ?case
  proof (cases "fgets MAX_READ_SIZE f")
    case None
    then show ?thesis by (subst hash_loop.simps) (simp add: fgets_def split: if_splits)
  next
    case (Some a)
    obtain l r where a: "a = (l, r)" by (cases a)
    with Some 1 fgets_parts [of MAX_READ_SIZE f l r] show ?thesis by (subst hash_loop.simps) simp
  qed
qed

lemma new_AddrTracker_seed:
  assumes "new_AddrTracker frame cfg r can_write fs s = Some (Inr ((), t))"
  shows "myrand (log t) = MTRand_seed 0 r"
proof -
  obtain sts l where l: "new_RelaxedLogger frame cfg r can_write fs ''thrille-relaxed-sched'' = Some (Inr (sts, l))"
    using assms by (auto simp: new_AddrTracker_def split: option.splits sum.splits)
  from new_RelaxedLogger_keeps [OF l] have "getLogHash fs l = 0" "myrand l = r" by (simp_all add: getLogHash_def fopen_r_def)
  with assms show ?thesis
    by (cases sts) (auto simp: new_AddrTracker_def l regenerate_eq seedGenerator_def with_log_def load_step_def no_step_def
        RelaxedTracker.extend_def)
qed

text \<open>
  C32: The address tracker means to seed its generator with a hash of the schedule, so that a schedule
  determines a run. But the hash is taken of the file whose name its logger has stored, and the
  constructor of \<open>RelaxedLogger\<close> hands its base class the empty name, which opens no file. So the seed is 0:
  any two address trackers whose construction returns draw the same numbers, whatever the files hold, whatever schedules they follow
  and however their loggers' generators were set up.
\<close>

theorem addr_seed_ignores_schedule:
  assumes "new_AddrTracker frame cfg r can_write fs s = Some (Inr ((), t))"
    and "new_AddrTracker frame' cfg' r' can_write' fs' s' = Some (Inr ((), t'))"
    and "length (state r) = N_mt" and "length (state r') = N_mt"
  shows "myrand (log t') = myrand (log t) \<and> myrand (log t) = MTRand_seed 0 r"
  using new_AddrTracker_seed [OF assms(1)] new_AddrTracker_seed [OF assms(2)] MTRand_seed_determined [OF assms(3,4), of 0] by simp

lemma new_AddrTracker_example:
  assumes "list_all step_printable sts"
  shows "\<exists>t. new_AddrTracker reused_stack None r True (relaxed_files sts) s = Some (Inr ((), t)) \<and>
     currentThreadToSchedule t = (case sts of [] \<Rightarrow> INVALID_THREAD | st # _ \<Rightarrow> rs_current st)"
proof -
  obtain l where "new_RelaxedLogger reused_stack None r True (relaxed_files sts) ''thrille-relaxed-sched'' = Some (Inr (sts, l))"
    using new_RelaxedLogger_text [OF assms _ relaxed_files_open, of reused_stack r] by auto
  then show ?thesis
    by (cases sts) (simp_all add: new_AddrTracker_def regenerate_eq with_log_def load_step_def no_step_def RelaxedTracker.extend_def)
qed

theorem addr_seed_ignores_schedule_witness:
  "\<exists>t t'. new_AddrTracker reused_stack None zero_mt True (relaxed_files [example_step]) (new_RelaxedTracker Logger_raw [] 1) = Some (Inr ((), t)) \<and>
     new_AddrTracker reused_stack None ones_mt True (relaxed_files []) (new_RelaxedTracker Logger_raw [] 1) = Some (Inr ((), t')) \<and>
     currentThreadToSchedule t = 1 \<and> currentThreadToSchedule t' = INVALID_THREAD \<and> myrand (log t') = myrand (log t)"
proof -
  let ?s = "new_RelaxedTracker Logger_raw [] 1"
  obtain t where t: "new_AddrTracker reused_stack None zero_mt True (relaxed_files [example_step]) ?s = Some (Inr ((), t))"
    "currentThreadToSchedule t = 1"
    using new_AddrTracker_example [of "[example_step]"] example_step_printable by (auto simp: example_step_def)
  obtain t' where t': "new_AddrTracker reused_stack None ones_mt True (relaxed_files []) ?s = Some (Inr ((), t'))"
    "currentThreadToSchedule t' = INVALID_THREAD"
    using new_AddrTracker_example [of "[]"] by auto
  have "length (state zero_mt) = N_mt" "length (state ones_mt) = N_mt" by (simp_all add: zero_mt_def ones_mt_def)
  from addr_seed_ignores_schedule [OF t(1) t'(1) this] t t' show ?thesis by blast
qed

end
