(* ===== verification/Random_Active.thy ===== *)
theory Random_Active
  imports Random_Tracker
begin

text \<open>
  Active testing of one race (\<open>src/randact/\<close>): \<open>RandomActiveTester\<close> with its two subclasses. A thread that
  comes to one of the two target locations is paused until another thread is about to make a
  conflicting access; the random scheduler chooses among the others, and gives a paused thread up if
  no other thread can go on. \<open>reenableThreadIfLegal\<close>, which the subclasses override, is an argument of
  the functions that call it. The target file is in \<open>Race_File\<close>.
\<close>

section \<open>Accesses\<close>

record ActiveRaceInfo =
  ari_me :: thrID
  ari_addr :: addr
  ari_iswrite :: bool

definition new_ActiveRaceInfo :: ActiveRaceInfo where
  "new_ActiveRaceInfo = \<lparr>ari_me = -1, ari_addr = NULL, ari_iswrite = False\<rparr>"

definition mk_ActiveRaceInfo :: "thrID \<Rightarrow> addr \<Rightarrow> bool \<Rightarrow> ActiveRaceInfo" where
  "mk_ActiveRaceInfo t a w = \<lparr>ari_me = t, ari_addr = a, ari_iswrite = w\<rparr>"

definition racesWith :: "ActiveRaceInfo \<Rightarrow> ActiveRaceInfo \<Rightarrow> ('s, bool) tm" where
  "racesWith i other =
     (if ari_me i = ari_me other then exit_with (SafeAssert ''me != other.me'')
      else if ari_addr i \<noteq> ari_addr other then ret False
      else if ari_iswrite i \<or> ari_iswrite other then ret True
      else ret False)"

section \<open>The tester\<close>

record RandomActiveTester = RandomTracker +
  target1 :: addr
  target2 :: addr
  active_testing_paused :: "(thrID, bool) cmap"
  active_testing_info :: "(thrID, ActiveRaceInfo) cmap"
  raceFound :: bool
  targetfile :: string
  sparsifyNum :: int
  sparsifyDenom :: int

text \<open>The constructor; the targets are set by those of the subclasses.\<close>

definition new_RandomActiveTester :: "Logger \<Rightarrow> thrID \<Rightarrow> RandomActiveTester" where
  "new_RandomActiveTester l myself =
     (RandomTracker.extend (new_RandomTracker l myself)
       \<lparr>target1 = NULL, target2 = NULL, active_testing_paused = [], active_testing_info = [], raceFound = False,
        targetfile = ''thrille-randomactive'', sparsifyNum = 1, sparsifyDenom = 1\<rparr>)\<lparr>chanceOfPreempt := 1\<rparr>"

definition active_assert :: "bool \<Rightarrow> string \<Rightarrow> (RandomActiveTester, unit) tm" where
  "active_assert = safe_assert_in ''randomactive.cpp''"

text \<open>The reads \<open>active_testing_paused[t]\<close> and \<open>active_testing_info[t]\<close>.\<close>

definition read_paused :: "thrID \<Rightarrow> (RandomActiveTester, bool) tm" where
  "read_paused t s = Inr (cm_get False (active_testing_paused s) t,
     s\<lparr>active_testing_paused := cm_touch False t (active_testing_paused s)\<rparr>)"

definition read_info :: "thrID \<Rightarrow> (RandomActiveTester, ActiveRaceInfo) tm" where
  "read_info t s = Inr (cm_get new_ActiveRaceInfo (active_testing_info s) t,
     s\<lparr>active_testing_info := cm_touch new_ActiveRaceInfo t (active_testing_info s)\<rparr>)"

definition paused_threads :: "RandomActiveTester \<Rightarrow> thrID list" where
  "paused_threads s = keys_with (\<lambda>b. b) (active_testing_paused s)"

fun racing_threads :: "ActiveRaceInfo \<Rightarrow> thrID list \<Rightarrow> (RandomActiveTester, thrID list) tm" where
  "racing_threads r [] = ret []"
| "racing_threads r (t # ts) =
     bnd (read_info t) (\<lambda>info.
     bnd (active_assert (ari_me info \<noteq> -1) ''info.me != -1'') (\<lambda>_.
     bnd (racesWith info r) (\<lambda>isRace.
     bnd (racing_threads r ts) (\<lambda>rs. ret (if isRace then t # rs else rs)))))"

definition active_isRacing :: "ActiveRaceInfo \<Rightarrow> (RandomActiveTester, thrID list) tm" where
  "active_isRacing r = bnd (gets paused_threads) (racing_threads r)"

definition enableSpecificActiveTestingPaused :: "(thrID \<Rightarrow> (RandomActiveTester, bool) tm) \<Rightarrow> thrID list \<Rightarrow> (RandomActiveTester, unit) tm" where
  "enableSpecificActiveTestingPaused re targets =
     for_each (\<lambda>t. bnd (read_paused t) (\<lambda>b. bnd (active_assert b ''active_testing_paused[(*itr)]'') (\<lambda>_. bnd (re t) (\<lambda>_. ret ())))) targets"

definition enableAllActiveTestingPaused :: "(thrID \<Rightarrow> (RandomActiveTester, bool) tm) \<Rightarrow> (RandomActiveTester, unit) tm" where
  "enableAllActiveTestingPaused re = bnd (gets paused_threads) (for_each (\<lambda>t. bnd (re t) (\<lambda>_. ret ())))"

definition livelockPrevention :: "(thrID \<Rightarrow> (RandomActiveTester, bool) tm) \<Rightarrow> (RandomActiveTester, unit) tm" where
  "livelockPrevention re =
     bnd (from_log getRandomNumber) (\<lambda>x.
       if x smod 200 = 1 then
         bnd (gets active_testing_paused) (\<lambda>m.
         bnd (chooseRandomThread m) (\<lambda>t.
           if t \<noteq> -1 then bnd (re t) (\<lambda>_. ret ()) else ret ()))
       else ret ())"

text \<open>
  The loop over the paused threads. Every round takes a thread off the paused ones, so one round
  more than there are of them is enough; that it is, is part of what is proved.
\<close>

fun postponed_loop :: "nat \<Rightarrow> (thrID \<Rightarrow> (RandomActiveTester, bool) tm) \<Rightarrow> (RandomActiveTester, thrID) tm" where
  "postponed_loop 0 re = exit_with (Undefined ''pickNextSchedulingChoice runs for ever'')"
| "postponed_loop (Suc n) re =
     bnd (gets active_testing_paused) (\<lambda>m.
     bnd (chooseRandomThread m) (\<lambda>t.
       if t = -1 then ret (-1)
       else bnd (re t) (\<lambda>success. if success then ret t else postponed_loop n re)))"

definition confirm_choice :: "thrID \<Rightarrow> (RandomActiveTester, thrID) tm" where
  "confirm_choice t =
     bnd (read_enable t) (\<lambda>en.
     bnd (active_assert en ''enable_map[mychoice]'') (\<lambda>_.
     bnd (read_paused t) (\<lambda>b.
     bnd (active_assert (\<not> b) ''active_testing_paused[mychoice] == false'') (\<lambda>_.
     ret t))))"

text \<open>The choice among the enabled threads: another one than \<open>t\<close> if that is possible, and in five cases of six.\<close>

definition prefer_other :: "thrID \<Rightarrow> (RandomActiveTester, thrID) tm" where
  "prefer_other t =
     bnd (read_enable t) (\<lambda>en.
       if en then
         bnd (upd (disableThread t)) (\<lambda>_.
         bnd (gets enable_map) (\<lambda>m.
         bnd (chooseRandomThread m) (\<lambda>c.
         bnd (upd (enableThread t)) (\<lambda>_.
           if c = -1 then ret t
           else bnd (from_log getRandomNumber) (\<lambda>x. ret (if x smod 6 = 0 then t else c))))))
       else bnd (gets enable_map) chooseRandomThread)"

definition choose_active :: "(thrID \<Rightarrow> (RandomActiveTester, bool) tm) \<Rightarrow> thrID \<Rightarrow> (RandomActiveTester, thrID) tm" where
  "choose_active re t =
     bnd (prefer_other t) (\<lambda>c.
       if c = -1 then
         bnd (gets (\<lambda>s. length (paused_threads s))) (\<lambda>n.
         bnd (postponed_loop (n + 1) re) (\<lambda>u.
           if u = -1 then ret (-1) else confirm_choice u))
       else confirm_choice c)"

definition active_pick :: "(thrID \<Rightarrow> (RandomActiveTester, bool) tm) \<Rightarrow> SchedPointInfo \<Rightarrow> (RandomActiveTester, thrID \<times> SchedPointInfo) tm" where
  "active_pick re p =
     bnd (livelockPrevention re) (\<lambda>_.
     bnd (read_enable (sp_thread p)) (\<lambda>en.
     bnd (if en then
            bnd (from_log getRandomNumber) (\<lambda>x.
            bnd (gets chanceOfPreempt) (\<lambda>c.
              if c = 0 then exit_with (Undefined ''division by zero'')
              else if x smod c = 1 then
                bnd (read_enable (sp_thread p)) (\<lambda>e.
                bnd (active_assert e ''enable_map[s->thread]'') (\<lambda>_. ret (sp_thread p)))
              else choose_active re (sp_thread p)))
          else choose_active re (sp_thread p)) (\<lambda>t.
     ret (t, p))))"

definition active_reenable :: "thrID \<Rightarrow> (RandomActiveTester, bool) tm" where
  "active_reenable t =
     bnd (read_paused t) (\<lambda>b.
     bnd (active_assert b ''active_testing_paused[thr]'') (\<lambda>_.
     bnd (upd (\<lambda>s. s\<lparr>active_testing_paused := cm_put t False (active_testing_paused s)\<rparr>)) (\<lambda>_.
     bnd (upd (disableThread t)) (\<lambda>_.
     ret False))))"

definition active_methods :: "(thrID \<Rightarrow> (RandomActiveTester, bool) tm) \<Rightarrow> (hook \<Rightarrow> (RandomActiveTester, unit) tm) \<Rightarrow> RandomActiveTester methods" where
  "active_methods re h =
     (methods_of \<lparr>p_pick = active_pick re, p_follow = followingChoiceFromLog,
        p_compare = compareScheduleSynchronization, p_launch = launchThread\<rparr>)\<lparr>m_select := random_select, m_handle := h\<rparr>"

text \<open>A thread comes to a target: it meets paused threads it races with, or is paused itself.\<close>

definition at_target :: "(thrID \<Rightarrow> (RandomActiveTester, bool) tm) \<Rightarrow> thrID \<Rightarrow> ActiveRaceInfo \<Rightarrow> (RandomActiveTester, unit) tm" where
  "at_target re myself tmp =
     bnd (active_isRacing tmp) (\<lambda>racers.
       if length racers > 0 then
         bnd (upd (\<lambda>s. s\<lparr>raceFound := True\<rparr>)) (\<lambda>_.
         enableSpecificActiveTestingPaused re racers)
       else
         bnd (upd (\<lambda>s. s\<lparr>active_testing_paused := cm_put myself True (active_testing_paused s)\<rparr>)) (\<lambda>_.
         bnd (upd (\<lambda>s. s\<lparr>active_testing_info := cm_put myself tmp (active_testing_info s)\<rparr>)) (\<lambda>_.
         upd (disableThread myself))))"

section \<open>Races on data\<close>

definition data_reenable :: "thrID \<Rightarrow> (RandomActiveTester, bool) tm" where
  "data_reenable t =
     bnd (read_paused t) (\<lambda>b.
     bnd (safe_assert_in ''randomdata.cpp'' b ''active_testing_paused[thr]'') (\<lambda>_.
     bnd (upd (\<lambda>s. s\<lparr>active_testing_paused := cm_put t False (active_testing_paused s)\<rparr>)) (\<lambda>_.
     bnd (upd (enableThread t)) (\<lambda>_.
     ret True))))"

definition handleMyMemoryRead :: "thrID \<Rightarrow> addr \<Rightarrow> addr \<Rightarrow> (RandomActiveTester, unit) tm" where
  "handleMyMemoryRead myself iid a =
     bnd (gets (\<lambda>s. iid = target1 s \<or> iid = target2 s)) (\<lambda>b.
       if b then at_target data_reenable myself (mk_ActiveRaceInfo myself a False) else ret ())"

definition handleMyMemoryWrite :: "thrID \<Rightarrow> addr \<Rightarrow> addr \<Rightarrow> (RandomActiveTester, unit) tm" where
  "handleMyMemoryWrite myself iid a =
     bnd (gets (\<lambda>s. iid = target1 s \<or> iid = target2 s)) (\<lambda>b.
       if b then at_target data_reenable myself (mk_ActiveRaceInfo myself a True) else ret ())"

fun data_handle :: "hook \<Rightarrow> (RandomActiveTester, unit) tm" where
  "data_handle (HandleMyMemoryRead myself iid a) = handleMyMemoryRead myself iid a"
| "data_handle (HandleMyMemoryWrite myself iid a) = handleMyMemoryWrite myself iid a"
| "data_handle h = handle h"

definition data_methods :: "RandomActiveTester methods" where
  "data_methods = active_methods data_reenable data_handle"

section \<open>Races on locks\<close>

definition lockIsInvalid :: "addr \<Rightarrow> (RandomActiveTester, bool) tm" where
  "lockIsInvalid l =
     bnd (pthread_mutex_trylock l) (\<lambda>result.
       if result = EBUSY then ret False
       else if result = 0 then bnd (pthread_mutex_unlock l) (\<lambda>_. ret False)
       else ret True)"

definition lock_reenable :: "thrID \<Rightarrow> (RandomActiveTester, bool) tm" where
  "lock_reenable t =
     bnd (read_paused t) (\<lambda>b.
     bnd (safe_assert_in ''randomlock.cpp'' b ''active_testing_paused[thr]'') (\<lambda>_.
     bnd (upd (\<lambda>s. s\<lparr>active_testing_paused := cm_put t False (active_testing_paused s)\<rparr>)) (\<lambda>_.
     bnd (read_info t) (\<lambda>tmp.
     bnd (lockIsInvalid (ari_addr tmp)) (\<lambda>inv.
     bnd (if inv then upd (enableThread t) else determineLockStatus t (ari_addr tmp)) (\<lambda>_.
     read_enable t))))))"

definition handleBeforeMutexLock :: "thrID \<Rightarrow> addr \<Rightarrow> addr \<Rightarrow> bool \<Rightarrow> (RandomActiveTester, unit) tm" where
  "handleBeforeMutexLock myself ret_addr l isWait =
     bnd (gets (\<lambda>s. ret_addr = target1 s \<or> ret_addr = target2 s)) (\<lambda>b.
       if b then at_target lock_reenable myself (mk_ActiveRaceInfo myself l True) else ret ())"

definition handleAfterMutexUnlock :: "thrID \<Rightarrow> addr \<Rightarrow> addr \<Rightarrow> bool \<Rightarrow> (RandomActiveTester, unit) tm" where
  "handleAfterMutexUnlock myself ret_addr l isWait =
     bnd (gets paused_threads) (for_each (\<lambda>t. upd (disableThread t)))"

fun lock_handle :: "hook \<Rightarrow> (RandomActiveTester, unit) tm" where
  "lock_handle (HandleBeforeMutexLock myself ret_addr l isWait) = handleBeforeMutexLock myself ret_addr l isWait"
| "lock_handle (HandleAfterMutexUnlock myself ret_addr l isWait) = handleAfterMutexUnlock myself ret_addr l isWait"
| "lock_handle h = handle h"

definition lock_methods :: "RandomActiveTester methods" where
  "lock_methods = active_methods lock_reenable lock_handle"

section \<open>Paused threads\<close>

abbreviation is_enabled :: "'a ExecutionTracker_scheme \<Rightarrow> thrID \<Rightarrow> bool" where
  "is_enabled s t \<equiv> cm_get False (enable_map s) t"

abbreviation is_paused :: "RandomActiveTester \<Rightarrow> thrID \<Rightarrow> bool" where
  "is_paused s t \<equiv> cm_get False (active_testing_paused s) t"

abbreviation info_of :: "RandomActiveTester \<Rightarrow> thrID \<Rightarrow> ActiveRaceInfo" where
  "info_of s t \<equiv> cm_get new_ActiveRaceInfo (active_testing_info s) t"

text \<open>Paused threads are disabled, and their access is on record.\<close>

definition active_ok :: "RandomActiveTester \<Rightarrow> bool" where
  "active_ok s \<longleftrightarrow> cm_ok (enable_map s) \<and> cm_ok (active_testing_paused s) \<and> \<not> is_enabled s INVALID_THREAD \<and> \<not> is_paused s INVALID_THREAD \<and>
     (\<forall>t. is_paused s t \<longrightarrow> \<not> is_enabled s t \<and> ari_me (info_of s t) = t)"

lemma active_ok_log [simp]: "active_ok (s\<lparr>log := l\<rparr>) = active_ok s"
  by (simp add: active_ok_def)

lemma active_ok_touch [simp]:
  "active_ok s \<Longrightarrow> active_ok (s\<lparr>enable_map := cm_touch False t (enable_map s)\<rparr>)"
  "active_ok s \<Longrightarrow> active_ok (s\<lparr>active_testing_paused := cm_touch False t (active_testing_paused s)\<rparr>)"
  "active_ok s \<Longrightarrow> active_ok (s\<lparr>active_testing_info := cm_touch new_ActiveRaceInfo t (active_testing_info s)\<rparr>)"
  by (simp_all add: active_ok_def)

lemma marked_keys:
  assumes "cm_ok m"
  shows "set (keys_with (\<lambda>b. b) m) = {t. cm_get False m t}" "distinct (keys_with (\<lambda>b. b) m)"
  using assms sorted_keys_with [OF assms, of "\<lambda>b. b"] by (auto simp: set_keys_with cm_get_def strict_sorted_iff split: option.splits)

lemma paused_threads_card:
  assumes "active_ok s"
  shows "set (paused_threads s) = {t. is_paused s t}" "length (paused_threads s) = card {t. is_paused s t}" "finite {t. is_paused s t}"
proof -
  have ok: "cm_ok (active_testing_paused s)" using assms by (simp add: active_ok_def)
  show set: "set (paused_threads s) = {t. is_paused s t}" using marked_keys(1) [OF ok] by (simp add: paused_threads_def)
  show "length (paused_threads s) = card {t. is_paused s t}"
    using distinct_card [OF marked_keys(2) [OF ok]] set by (simp add: paused_threads_def)
  show "finite {t. is_paused s t}" by (simp flip: set)
qed

lemma choose_marked:
  assumes "cm_ok m"
  obtains t l where "chooseRandomThread m s = Inr (t, s\<lparr>log := l\<rparr>)" and "(\<exists>u. cm_get False m u) \<Longrightarrow> cm_get False m t"
    and "\<not> (\<exists>u. cm_get False m u) \<Longrightarrow> t = INVALID_THREAD"
proof (cases "keys_with (\<lambda>b. b) m")
  case Nil
  then have "chooseRandomThread m s = Inr (INVALID_THREAD, s\<lparr>log := log s\<rparr>)" by (simp add: chooseRandomThread_def choose_with_eq)
  moreover have "\<not> (\<exists>u. cm_get False m u)" using marked_keys(1) [OF assms] Nil by auto
  ultimately show ?thesis using that by blast
next
  case (Cons u us)
  define t where "t = (if us = [] then u else nth_marked (draw (log s)) (u # us))"
  define l where "l = (if us = [] then log s else drawn (log s))"
  have "chooseRandomThread m s = Inr (t, s\<lparr>log := l\<rparr>)" by (simp add: chooseRandomThread_def choose_with_eq Cons t_def l_def Let_def)
  moreover have "t \<in> set (keys_with (\<lambda>b. b) m)" unfolding t_def Cons using nth_marked_in [of "u # us"] by auto
  ultimately show ?thesis using that marked_keys(1) [OF assms] by blast
qed

lemma prefer_other_result:
  assumes "active_ok s"
  shows "\<exists>c s'. prefer_other t s = Inr (c, s') \<and> active_ok s' \<and> (\<forall>u. is_enabled s' u = is_enabled s u) \<and>
     active_testing_paused s' = active_testing_paused s \<and> (if \<exists>u. is_enabled s u then is_enabled s c else c = INVALID_THREAD)"
proof (cases "is_enabled s t")
  case False
  let ?s = "s\<lparr>enable_map := cm_touch False t (enable_map s)\<rparr>"
  have ok: "cm_ok (enable_map ?s)" using assms by (simp add: active_ok_def)
  from choose_marked [OF ok, of ?s] obtain c l where c: "chooseRandomThread (enable_map ?s) ?s = Inr (c, ?s\<lparr>log := l\<rparr>)"
    and cc: "if \<exists>u. is_enabled ?s u then is_enabled ?s c else c = INVALID_THREAD" by metis
  have "prefer_other t s = Inr (c, ?s\<lparr>log := l\<rparr>)" using False c by (simp add: prefer_other_def read_enable_def bnd_bool)
  with assms cc show ?thesis by (cases "\<exists>u. is_enabled s u") auto
next
  case True
  let ?s = "s\<lparr>enable_map := cm_put t False (cm_touch False t (enable_map s))\<rparr>"
  have ok: "cm_ok (enable_map ?s)" using assms by (simp add: active_ok_def)
  from choose_marked [OF ok, of ?s] obtain c l where c: "chooseRandomThread (enable_map ?s) ?s = Inr (c, ?s\<lparr>log := l\<rparr>)"
    and cc: "if \<exists>u. is_enabled ?s u then is_enabled ?s c else c = INVALID_THREAD" by metis
  let ?s2 = "?s\<lparr>log := l, enable_map := cm_put t True (enable_map ?s)\<rparr>"
  have d: "from_log getRandomNumber ?s2 = Inr (draw l, ?s2\<lparr>log := drawn l\<rparr>)" by (simp add: from_log_draw)
  have run: "prefer_other t s = (if c = -1 then Inr (t, ?s2) else Inr (if draw l smod 6 = 0 then t else c, ?s2\<lparr>log := drawn l\<rparr>))"
    using True c d by (simp add: prefer_other_def read_enable_def bnd_bool disableThread_def enableThread_def
        bnd_Inr [where m = "from_log getRandomNumber", OF d])
  have "active_ok ?s2" "active_ok (?s2\<lparr>log := drawn l\<rparr>)" using assms True by (auto simp: active_ok_def)
  moreover have "is_enabled s c" if "c \<noteq> -1"
  proof -
    have "is_enabled ?s c" using cc that by metis
    then show ?thesis by (simp split: if_splits)
  qed
  ultimately show ?thesis using True run by (cases "c = -1") fastforce+
qed

lemma confirm_result:
  assumes "active_ok s" and "is_enabled s c"
  shows "\<exists>s'. confirm_choice c s = Inr (c, s') \<and> active_ok s' \<and> (\<forall>u. is_enabled s' u = is_enabled s u) \<and> (\<forall>u. is_paused s' u = is_paused s u)"
proof -
  have "\<not> is_paused s c" using assms by (auto simp: active_ok_def)
  with assms show ?thesis
    by (simp add: confirm_choice_def read_enable_def read_paused_def active_assert_def safe_assert_in_def bnd_bool active_ok_def)
qed

section \<open>Giving a paused thread up\<close>

text \<open>Some thread can go on, at once or, if giving up a paused thread enables it for \<open>sure\<close>, after that.\<close>

definition can_go_on :: "bool \<Rightarrow> RandomActiveTester \<Rightarrow> bool" where
  "can_go_on sure s \<longleftrightarrow> (\<exists>t. is_enabled s t \<or> (sure \<and> is_paused s t))"

text \<open>What the scheduler relies on from \<open>reenableThreadIfLegal\<close>; \<open>sure\<close> if it enables the thread in any case.\<close>

locale reenabler =
  fixes re :: "thrID \<Rightarrow> (RandomActiveTester, bool) tm"
    and sure :: bool
  assumes reenable: "active_ok s \<Longrightarrow> is_paused s t \<Longrightarrow>
    \<exists>b s'. re t s = Inr (b, s') \<and> active_ok s' \<and> (\<forall>u. is_paused s' u \<longleftrightarrow> is_paused s u \<and> u \<noteq> t) \<and>
      (\<forall>u. u \<noteq> t \<longrightarrow> is_enabled s' u = is_enabled s u) \<and> (b \<longleftrightarrow> is_enabled s' t) \<and> (sure \<longrightarrow> b) \<and>
      chanceOfPreempt s' = chanceOfPreempt s \<and> raceFound s' = raceFound s \<and> (\<forall>u. info_of s' u = info_of s u)"
begin

lemma postponed_result:
  assumes "active_ok s" and "length (paused_threads s) < n" and "\<forall>t. \<not> is_enabled s t"
  shows "\<exists>u s'. postponed_loop n re s = Inr (u, s') \<and> active_ok s' \<and>
     (if u = INVALID_THREAD then \<forall>t. \<not> is_enabled s' t \<and> \<not> is_paused s' t else is_enabled s' u \<and> \<not> is_paused s' u) \<and>
     (can_go_on sure s \<longrightarrow> u \<noteq> INVALID_THREAD)"
  using assms
proof (induction n arbitrary: s)
  case (Suc n)
  have ok: "cm_ok (active_testing_paused s)" using Suc.prems(1) by (simp add: active_ok_def)
  from choose_marked [OF ok, of s] obtain t l where c: "chooseRandomThread (active_testing_paused s) s = Inr (t, s\<lparr>log := l\<rparr>)"
    and some: "(\<exists>u. is_paused s u) \<Longrightarrow> is_paused s t" and none: "\<not> (\<exists>u. is_paused s u) \<Longrightarrow> t = INVALID_THREAD" by blast
  show ?case
  proof (cases "\<exists>u. is_paused s u")
    case False
    then have "t = -1" by (rule none)
    with c False Suc.prems show ?thesis by (simp add: can_go_on_def)
  next
    case True
    then have "is_paused s t" by (rule some)
    then have t: "is_paused s t" "t \<noteq> -1" using Suc.prems(1) by (auto simp: active_ok_def)
    let ?s = "s\<lparr>log := l\<rparr>"
    have "active_ok ?s" "is_paused ?s t" using Suc.prems(1) t(1) by simp_all
    from reenable [OF this] obtain b s' where re: "re t ?s = Inr (b, s')" and s': "active_ok s'"
      "\<forall>u. is_paused s' u \<longleftrightarrow> is_paused s u \<and> u \<noteq> t" "\<forall>u. u \<noteq> t \<longrightarrow> is_enabled s' u = is_enabled s u" "b \<longleftrightarrow> is_enabled s' t" "sure \<longrightarrow> b" by auto
    have run: "postponed_loop (Suc n) re s = (if b then Inr (t, s') else postponed_loop n re s')"
      using c re t(2) by simp
    show ?thesis
    proof (cases b)
      case True
      then show ?thesis using run s' t(2) by auto
    next
      case False
      have "{u. is_paused s' u} = {u. is_paused s u} - {t}" using s'(2) by auto
      moreover have "0 < card {u. is_paused s u}" using t(1) paused_threads_card(3) [OF Suc.prems(1)] by (auto simp: card_gt_0_iff)
      ultimately have "length (paused_threads s') < n"
        using Suc.prems(2) t(1) paused_threads_card [OF Suc.prems(1)] paused_threads_card(2) [OF s'(1)]
        by (simp add: card_Diff_singleton_if)
      moreover have "\<forall>u. \<not> is_enabled s' u" using s'(3,4) Suc.prems(3) False by metis
      moreover have "\<not> can_go_on sure s" using s'(5) False Suc.prems(3) by (simp add: can_go_on_def)
      ultimately show ?thesis using Suc.IH [OF s'(1)] run False by fastforce
    qed
  qed
qed simp

lemma livelock_result:
  assumes "active_ok s"
  shows "\<exists>s'. livelockPrevention re s = Inr ((), s') \<and> active_ok s' \<and> chanceOfPreempt s' = chanceOfPreempt s \<and>
     (can_go_on sure s \<longrightarrow> can_go_on sure s')"
proof -
  let ?s = "s\<lparr>log := drawn (log s)\<rparr>"
  have d: "from_log getRandomNumber s = Inr (draw (log s), ?s)" by (rule from_log_draw)
  show ?thesis
  proof (cases "draw (log s) smod 200 = 1")
    case False
    then show ?thesis using assms by (simp add: livelockPrevention_def bnd_Inr [where m = "from_log getRandomNumber", OF d] can_go_on_def)
  next
    case True
    have ok: "cm_ok (active_testing_paused s)" using assms by (simp add: active_ok_def)
    from choose_marked [OF ok, of ?s] obtain t l where c: "chooseRandomThread (active_testing_paused s) ?s = Inr (t, ?s\<lparr>log := l\<rparr>)"
      and some: "(\<exists>u. is_paused s u) \<Longrightarrow> is_paused s t" and none: "\<not> (\<exists>u. is_paused s u) \<Longrightarrow> t = INVALID_THREAD" by blast
    let ?s2 = "?s\<lparr>log := l\<rparr>"
    have run: "livelockPrevention re s = (if t \<noteq> -1 then bnd (re t) (\<lambda>_. ret ()) ?s2 else Inr ((), ?s2))"
      using True c by (simp add: livelockPrevention_def bnd_Inr [where m = "from_log getRandomNumber", OF d])
    show ?thesis
    proof (cases "t = -1")
      case True
      then show ?thesis using run assms by (simp add: can_go_on_def)
    next
      case False
      then have "is_paused s t" using some none by blast
      with assms have "active_ok ?s2" "is_paused ?s2 t" "\<not> is_enabled s t" by (simp_all add: active_ok_def)
      with reenable [of ?s2 t] obtain b s' where "re t ?s2 = Inr (b, s')" "active_ok s'" "chanceOfPreempt s' = chanceOfPreempt s"
        and en: "\<forall>u. u \<noteq> t \<longrightarrow> is_enabled s' u = is_enabled s u" "\<forall>u. is_paused s' u \<longleftrightarrow> is_paused s u \<and> u \<noteq> t" "b \<longleftrightarrow> is_enabled s' t" "sure \<longrightarrow> b"
        by auto
      moreover have "can_go_on sure s \<longrightarrow> can_go_on sure s'" using en \<open>\<not> is_enabled s t\<close> unfolding can_go_on_def by metis
      ultimately show ?thesis using run False by (simp only: if_True bnd_Inr [of "re t"] not_False_eq_True) (auto simp: ret_def)
    qed
  qed
qed

lemma choose_active_result:
  assumes "active_ok s"
  shows "\<exists>u s'. choose_active re t s = Inr (u, s') \<and> active_ok s' \<and>
     (if u = INVALID_THREAD then \<forall>t. \<not> is_enabled s' t \<and> \<not> is_paused s' t else is_enabled s' u \<and> \<not> is_paused s' u) \<and>
     (can_go_on sure s \<longrightarrow> u \<noteq> INVALID_THREAD)"
proof -
  from prefer_other_result [OF assms, of t] obtain c s1 where c: "prefer_other t s = Inr (c, s1)" and s1: "active_ok s1"
    "\<forall>u. is_enabled s1 u = is_enabled s u" "active_testing_paused s1 = active_testing_paused s" and cc: "if \<exists>u. is_enabled s u then is_enabled s c else c = INVALID_THREAD" by blast
  show ?thesis
  proof (cases "\<exists>u. is_enabled s u")
    case True
    then have en: "is_enabled s1 c" and ne: "c \<noteq> -1" using cc s1 assms by (auto simp: active_ok_def)
    from confirm_result [OF s1(1) en] obtain s' where s': "confirm_choice c s1 = Inr (c, s')" "active_ok s'"
      "\<forall>u. is_enabled s' u = is_enabled s1 u" "\<forall>u. is_paused s' u = is_paused s1 u" by blast
    have "choose_active re t s = Inr (c, s')" using c s'(1) ne by (simp add: choose_active_def)
    moreover have "is_enabled s' c" "\<not> is_paused s' c" using s' en s1(1) by (auto simp: active_ok_def)
    ultimately show ?thesis using s'(2) ne by auto
  next
    case False
    then have c1: "c = -1" and none: "\<forall>t. \<not> is_enabled s1 t" using cc s1(2) by auto
    from postponed_result [OF s1(1) _ none, of "length (paused_threads s1) + 1"] obtain u s2 where
      u: "postponed_loop (length (paused_threads s1) + 1) re s1 = Inr (u, s2)" and s2: "active_ok s2"
      "if u = INVALID_THREAD then \<forall>t. \<not> is_enabled s2 t \<and> \<not> is_paused s2 t else is_enabled s2 u \<and> \<not> is_paused s2 u"
      "can_go_on sure s1 \<longrightarrow> u \<noteq> INVALID_THREAD" by auto
    have go: "can_go_on sure s1 \<longleftrightarrow> can_go_on sure s" using s1 by (simp add: can_go_on_def)
    have run: "choose_active re t s = (if u = -1 then Inr (-1, s2) else confirm_choice u s2)"
      using c c1 u by (simp add: choose_active_def bnd_Inr [where m = "postponed_loop (Suc (length (paused_threads s1))) re"])
    show ?thesis
    proof (cases "u = -1")
      case True
      with run s2 go show ?thesis by simp
    next
      case False
      with s2(2) have "is_enabled s2 u" "\<not> is_paused s2 u" by simp_all
      with confirm_result [OF s2(1), of u] run False show ?thesis by fastforce
    qed
  qed
qed

lemma pick_result:
  assumes "active_ok s" and "chanceOfPreempt s \<noteq> 0"
  shows "\<exists>u s'. active_pick re p s = Inr ((u, p), s') \<and> active_ok s' \<and>
     (if u = INVALID_THREAD then \<forall>t. \<not> is_enabled s' t \<and> \<not> is_paused s' t else is_enabled s' u \<and> \<not> is_paused s' u) \<and>
     (can_go_on sure s \<longrightarrow> u \<noteq> INVALID_THREAD)"
proof -
  from livelock_result [OF assms(1)] obtain s1 where l: "livelockPrevention re s = Inr ((), s1)" and s1: "active_ok s1" "chanceOfPreempt s1 \<noteq> 0"
      "can_go_on sure s \<longrightarrow> can_go_on sure s1" using assms(2) by auto
  let ?t = "sp_thread p"
  let ?s2 = "s1\<lparr>enable_map := cm_touch False ?t (enable_map s1)\<rparr>"
  let ?s3 = "?s2\<lparr>log := drawn (log s1)\<rparr>"
  have ok: "active_ok ?s2" "active_ok ?s3" using s1(1) by simp_all
  show ?thesis
  proof (cases "is_enabled s1 ?t \<and> draw (log s1) smod chanceOfPreempt s1 = 1")
    case True
    have d: "from_log getRandomNumber ?s2 = Inr (draw (log s1), ?s3)" by (simp add: from_log_draw)
    have "active_pick re p s = Inr ((?t, p), ?s3\<lparr>enable_map := cm_touch False ?t (enable_map ?s3)\<rparr>)"
      using True l s1(2) by (simp add: active_pick_def read_enable_def bnd_bool bnd_Inr [where m = "from_log getRandomNumber", OF d]
          active_assert_def safe_assert_in_def)
    with True s1(1) show ?thesis by (auto simp: active_ok_def)
  next
    case False
    define s4 where "s4 = (if is_enabled s1 ?t then ?s3 else ?s2)"
    have d: "from_log getRandomNumber ?s2 = Inr (draw (log s1), ?s3)" by (simp add: from_log_draw)
    have "active_ok s4" using ok by (simp add: s4_def)
    from choose_active_result [OF this, of ?t] obtain u s' where u: "choose_active re ?t s4 = Inr (u, s')" "active_ok s'"
      "if u = INVALID_THREAD then \<forall>t. \<not> is_enabled s' t \<and> \<not> is_paused s' t else is_enabled s' u \<and> \<not> is_paused s' u"
      "can_go_on sure s4 \<longrightarrow> u \<noteq> INVALID_THREAD" by blast
    have go: "can_go_on sure s \<longrightarrow> can_go_on sure s4" using s1(3) by (simp add: can_go_on_def s4_def)
    have "active_pick re p s = bnd (choose_active re ?t) (\<lambda>t. ret (t, p)) s4"
    proof (cases "is_enabled s1 ?t")
      case True
      then have "draw (log s1) smod chanceOfPreempt s1 \<noteq> 1" using False by simp
      with True l s1(2) show ?thesis
        unfolding active_pick_def bnd_Inr [where m = "livelockPrevention re", OF l]
        by (simp add: read_enable_def bnd_bool bnd_assoc bnd_Inr [where m = "from_log getRandomNumber", OF d] s4_def)
    next
      case nt: False
      then show ?thesis
        unfolding active_pick_def bnd_Inr [where m = "livelockPrevention re", OF l] by (simp add: read_enable_def bnd_bool s4_def)
    qed
    also have "\<dots> = Inr ((u, p), s')" by (simp add: bnd_Inr [where m = "choose_active re ?t", OF u(1)])
    finally show ?thesis using u(2-4) go by blast
  qed
qed

end

interpretation base_re: reenabler active_reenable False
proof
  show "\<exists>b s'. active_reenable t s = Inr (b, s') \<and> active_ok s' \<and> (\<forall>u. is_paused s' u \<longleftrightarrow> is_paused s u \<and> u \<noteq> t) \<and>
      (\<forall>u. u \<noteq> t \<longrightarrow> is_enabled s' u = is_enabled s u) \<and> (b \<longleftrightarrow> is_enabled s' t) \<and> (False \<longrightarrow> b) \<and>
      chanceOfPreempt s' = chanceOfPreempt s \<and> raceFound s' = raceFound s \<and> (\<forall>u. info_of s' u = info_of s u)"
    if "active_ok s" "is_paused s t" for s t
    using that by (auto simp: active_reenable_def read_paused_def bnd_bool active_assert_def safe_assert_in_def disableThread_def active_ok_def)
qed

interpretation data_re: reenabler data_reenable True
proof
  show "\<exists>b s'. data_reenable t s = Inr (b, s') \<and> active_ok s' \<and> (\<forall>u. is_paused s' u \<longleftrightarrow> is_paused s u \<and> u \<noteq> t) \<and>
      (\<forall>u. u \<noteq> t \<longrightarrow> is_enabled s' u = is_enabled s u) \<and> (b \<longleftrightarrow> is_enabled s' t) \<and> (True \<longrightarrow> b) \<and>
      chanceOfPreempt s' = chanceOfPreempt s \<and> raceFound s' = raceFound s \<and> (\<forall>u. info_of s' u = info_of s u)"
    if "active_ok s" "is_paused s t" for s t
    using that by (auto simp: data_reenable_def read_paused_def bnd_bool safe_assert_in_def enableThread_def active_ok_def)
qed

text \<open>A paused thread of the lock tester is enabled again unless its mutex is held.\<close>

lemma lock_reenable_result:
  assumes "is_paused s t"
  defines "l \<equiv> ari_addr (info_of s t)"
  defines "s1 \<equiv> s\<lparr>active_testing_paused := cm_put t False (cm_touch False t (active_testing_paused s)),
    active_testing_info := cm_touch new_ActiveRaceInfo t (active_testing_info s)\<rparr>"
  shows "\<exists>s'. lock_reenable t s = Inr (mutex_at l s \<noteq> MHeld, s') \<and>
     active_testing_paused s' = active_testing_paused s1 \<and> active_testing_info s' = active_testing_info s1 \<and>
     enable_map s' = cm_touch False t (cm_put t (mutex_at l s \<noteq> MHeld) (enable_map s)) \<and>
     chanceOfPreempt s' = chanceOfPreempt s \<and> raceFound s' = raceFound s"
proof -
  have l1: "mutex_at l s1 = mutex_at l s" by (simp add: mutex_at_def s1_def)
  have run: "lock_reenable t s = bnd (lockIsInvalid l) (\<lambda>inv. bnd (if inv then upd (enableThread t) else determineLockStatus t l) (\<lambda>_. read_enable t)) s1"
    using assms(1) unfolding l_def s1_def by (simp add: lock_reenable_def read_paused_def safe_assert_in_def bnd_bool read_info_def)
  show ?thesis
    unfolding run
    by (cases "mutex_at l s")
      (auto simp: lockIsInvalid_def pthread_mutex_trylock_def pthread_mutex_unlock_def determineLockStatus_def l1 EBUSY_def EINVAL_def
        enableThread_def disableThread_def addThreadReadyOnLock_def addThreadWaitingOnLock_def read_enable_def set_mutex_def mutex_at_def bnd_bool s1_def)
qed

interpretation lock_re: reenabler lock_reenable False
proof
  show "\<exists>b s'. lock_reenable t s = Inr (b, s') \<and> active_ok s' \<and> (\<forall>u. is_paused s' u \<longleftrightarrow> is_paused s u \<and> u \<noteq> t) \<and>
      (\<forall>u. u \<noteq> t \<longrightarrow> is_enabled s' u = is_enabled s u) \<and> (b \<longleftrightarrow> is_enabled s' t) \<and> (False \<longrightarrow> b) \<and>
      chanceOfPreempt s' = chanceOfPreempt s \<and> raceFound s' = raceFound s \<and> (\<forall>u. info_of s' u = info_of s u)"
    if "active_ok s" "is_paused s t" for s t
    using that lock_reenable_result [OF that(2)] by (auto simp: active_ok_def)
qed

section \<open>The choice\<close>

text \<open>
  C19: The scheduler of active testing. From a state in which paused threads are disabled and their accesses on record, the choice
  always returns: the loop over the paused threads ends, and no assertion fails. Either it chooses an enabled
  thread that is not paused, or it gives up with no thread enabled and none paused any more. When races on data are tested
  it gives up only if there was no thread that was enabled or paused, so pausing threads never blocks a
  program that could go on; when races on locks are tested, only if no thread was enabled (a paused one may still find
  its mutex held).
\<close>

theorem active_testing_goes_on:
  assumes "active_ok s" and "chanceOfPreempt s \<noteq> 0"
  shows "(\<exists>u s'. active_pick data_reenable p s = Inr ((u, p), s') \<and> active_ok s' \<and>
      (if u = INVALID_THREAD then \<forall>t. \<not> cm_get False (enable_map s) t \<and> \<not> cm_get False (active_testing_paused s) t
       else cm_get False (enable_map s') u \<and> \<not> cm_get False (active_testing_paused s') u)) \<and>
    (\<exists>u s'. active_pick lock_reenable p s = Inr ((u, p), s') \<and> active_ok s' \<and>
      (if u = INVALID_THREAD
       then \<forall>t. \<not> cm_get False (enable_map s) t \<and> \<not> cm_get False (enable_map s') t \<and> \<not> cm_get False (active_testing_paused s') t
       else cm_get False (enable_map s') u \<and> \<not> cm_get False (active_testing_paused s') u))"
  by (rule conjI) (use data_re.pick_result [OF assms, of p] lock_re.pick_result [OF assms, of p] in \<open>fastforce simp: can_go_on_def\<close>)+

definition active_demo :: RandomActiveTester where
  "active_demo = (new_RandomActiveTester Logger_raw 1)\<lparr>target1 := 100, target2 := 200\<rparr>"

lemma active_demo_fields:
  "enable_map active_demo = [(1, True)]" "active_testing_paused active_demo = []" "active_testing_info active_demo = []"
  "chanceOfPreempt active_demo = 1" "target1 active_demo = 100" "target2 active_demo = 200" "raceFound active_demo = False"
  by (simp_all add: active_demo_def new_RandomActiveTester_def new_RandomTracker_def new_ExecutionTracker_def constructorHelper_def
      ExecutionTracker_raw_def initializeThreadData_def enableThread_def ExecutionTracker.extend_def RandomTracker.extend_def with_log_def)

lemma active_ok_demo: "active_ok active_demo"
  by (simp add: active_ok_def active_demo_fields cm_ok_def cm_get_def)

theorem active_testing_goes_on_witness:
  "\<exists>u s'. active_pick data_reenable (mk_SchedPointInfo 7 ''Memory Read'' 1 [(1, True)] False) active_demo =
     Inr ((u, mk_SchedPointInfo 7 ''Memory Read'' 1 [(1, True)] False), s') \<and> cm_get False (enable_map s') u"
proof -
  have "\<exists>t. cm_get False (enable_map active_demo) t" by (rule exI [of _ 1]) (simp add: active_demo_fields cm_get_def)
  moreover have "chanceOfPreempt active_demo \<noteq> 0" by (simp add: active_demo_fields)
  ultimately show ?thesis
    using active_testing_goes_on [OF active_ok_demo, of "mk_SchedPointInfo 7 ''Memory Read'' 1 [(1, True)] False"] by metis
qed

section \<open>Meeting at the targets\<close>

definition conflicts :: "ActiveRaceInfo \<Rightarrow> ActiveRaceInfo \<Rightarrow> bool" where
  "conflicts i j \<longleftrightarrow> ari_addr i = ari_addr j \<and> (ari_iswrite i \<or> ari_iswrite j)"

lemma racing_threads_result:
  assumes "\<forall>t \<in> set ts. ari_me (info_of s t) = t \<and> t \<noteq> -1 \<and> t \<noteq> ari_me r"
  shows "\<exists>I. racing_threads r ts s = Inr (filter (\<lambda>t. conflicts (info_of s t) r) ts, s\<lparr>active_testing_info := I\<rparr>) \<and>
     cm_get new_ActiveRaceInfo I = info_of s"
  using assms
proof (induction ts arbitrary: s)
  case Nil
  show ?case by (rule exI [of _ "active_testing_info s"]) simp
next
  case (Cons t ts)
  let ?s = "s\<lparr>active_testing_info := cm_touch new_ActiveRaceInfo t (active_testing_info s)\<rparr>"
  have same: "info_of ?s = info_of s" by (simp add: fun_eq_iff)
  with Cons.prems have "\<forall>u \<in> set ts. ari_me (info_of ?s u) = u \<and> u \<noteq> -1 \<and> u \<noteq> ari_me r" by simp
  from Cons.IH [OF this] obtain I where I: "racing_threads r ts ?s = Inr (filter (\<lambda>t. conflicts (info_of s t) r) ts, s\<lparr>active_testing_info := I\<rparr>)"
    "cm_get new_ActiveRaceInfo I = info_of s" unfolding same by auto
  have "ari_me (info_of s t) = t" "t \<noteq> -1" "t \<noteq> ari_me r" using Cons.prems by auto
  then have "racing_threads r (t # ts) s = Inr (filter (\<lambda>t. conflicts (info_of s t) r) (t # ts), s\<lparr>active_testing_info := I\<rparr>)"
    using I(1) by (simp add: read_info_def active_assert_def safe_assert_in_def racesWith_def conflicts_def)
  with I(2) show ?case by blast
qed

context reenabler
begin

lemma enable_specific_result:
  assumes "active_ok s" and "distinct ts" and "\<forall>t \<in> set ts. is_paused s t"
  shows "\<exists>s'. enableSpecificActiveTestingPaused re ts s = Inr ((), s') \<and> active_ok s' \<and> raceFound s' = raceFound s \<and>
     (\<forall>u. is_paused s' u \<longleftrightarrow> is_paused s u \<and> u \<notin> set ts) \<and> (\<forall>u. u \<notin> set ts \<longrightarrow> is_enabled s' u = is_enabled s u) \<and>
     (sure \<longrightarrow> (\<forall>t \<in> set ts. is_enabled s' t))"
  using assms
proof (induction ts arbitrary: s)
  case (Cons t ts)
  let ?s = "s\<lparr>active_testing_paused := cm_touch False t (active_testing_paused s)\<rparr>"
  have "active_ok ?s" "is_paused ?s t" using Cons.prems by simp_all
  from reenable [OF this] obtain b s1 where re: "re t ?s = Inr (b, s1)" and s1: "active_ok s1" "raceFound s1 = raceFound s"
    "\<forall>u. is_paused s1 u \<longleftrightarrow> is_paused s u \<and> u \<noteq> t" "\<forall>u. u \<noteq> t \<longrightarrow> is_enabled s1 u = is_enabled s u" "b \<longleftrightarrow> is_enabled s1 t" "sure \<longrightarrow> b" by auto
  have "distinct ts" "\<forall>u \<in> set ts. is_paused s1 u" using Cons.prems s1(3) by auto
  from Cons.IH [OF s1(1) this] obtain s' where s': "enableSpecificActiveTestingPaused re ts s1 = Inr ((), s')" "active_ok s'" "raceFound s' = raceFound s1"
    "\<forall>u. is_paused s' u \<longleftrightarrow> is_paused s1 u \<and> u \<notin> set ts" "\<forall>u. u \<notin> set ts \<longrightarrow> is_enabled s' u = is_enabled s1 u" "sure \<longrightarrow> (\<forall>t \<in> set ts. is_enabled s' t)" by blast
  have "enableSpecificActiveTestingPaused re (t # ts) s = Inr ((), s')"
    using Cons.prems(3) re s'(1) by (simp add: enableSpecificActiveTestingPaused_def read_paused_def bnd_bool active_assert_def safe_assert_in_def)
  moreover have "is_enabled s' t" if sure using that s1(5,6) s'(5) Cons.prems(2) by simp
  ultimately show ?case using s' s1 by auto
qed (simp add: enableSpecificActiveTestingPaused_def)

lemma target_result:
  assumes "active_ok s" and "\<not> is_paused s me" and "me \<noteq> INVALID_THREAD" and "ari_me r = me"
  defines "R \<equiv> {t. is_paused s t \<and> conflicts (info_of s t) r}"
  shows "\<exists>s'. at_target re me r s = Inr ((), s') \<and> active_ok s' \<and>
     (if R = {}
      then raceFound s' = raceFound s \<and> {t. is_paused s' t} = insert me {t. is_paused s t} \<and> info_of s' me = r \<and>
        {t. is_enabled s' t} = {t. is_enabled s t} - {me}
      else raceFound s' \<and> {t. is_paused s' t} = {t. is_paused s t} - R \<and> (\<forall>t. t \<notin> R \<longrightarrow> is_enabled s' t = is_enabled s t) \<and>
        (sure \<longrightarrow> R \<subseteq> {t. is_enabled s' t}))"
proof -
  let ?ts = "paused_threads s" and ?rs = "filter (\<lambda>t. conflicts (info_of s t) r) (paused_threads s)"
  have rs: "set ?rs = R" "distinct ?rs"
    using paused_threads_card(1) [OF assms(1)] marked_keys(2) [of "active_testing_paused s"] assms(1)
    by (auto simp: R_def paused_threads_def active_ok_def)
  have "\<forall>t \<in> set ?ts. ari_me (info_of s t) = t \<and> t \<noteq> -1 \<and> t \<noteq> ari_me r"
    using paused_threads_card(1) [OF assms(1)] assms(1-4) by (auto simp: active_ok_def)
  from racing_threads_result [OF this] obtain I where
    I: "racing_threads r ?ts s = Inr (?rs, s\<lparr>active_testing_info := I\<rparr>)" "cm_get new_ActiveRaceInfo I = info_of s" by blast
  let ?s = "s\<lparr>active_testing_info := I\<rparr>"
  have q: "active_isRacing r s = Inr (?rs, ?s)" using I(1) by (simp add: active_isRacing_def)
  show ?thesis
  proof (cases "R = {}")
    case True
    then have "?rs = []" using rs(1) by simp
    then have "at_target re me r s = Inr ((), disableThread me (?s\<lparr>active_testing_paused := cm_put me True (active_testing_paused s),
        active_testing_info := cm_put me r I\<rparr>))" using q by (simp add: at_target_def)
    with True assms(1-4) I(2) show ?thesis by (auto simp: active_ok_def disableThread_def split: if_splits)
  next
    case False
    then have "?rs \<noteq> []" using rs(1) by (metis set_empty)
    then have run: "at_target re me r s = enableSpecificActiveTestingPaused re ?rs (?s\<lparr>raceFound := True\<rparr>)" using q by (simp add: at_target_def)
    have "active_ok (?s\<lparr>raceFound := True\<rparr>)" using assms(1) I(2) by (simp add: active_ok_def)
    moreover have "\<forall>t \<in> set ?rs. is_paused (?s\<lparr>raceFound := True\<rparr>) t" unfolding rs(1) by (simp add: R_def)
    ultimately have "\<exists>s'. enableSpecificActiveTestingPaused re ?rs (?s\<lparr>raceFound := True\<rparr>) = Inr ((), s') \<and> active_ok s' \<and> raceFound s' \<and>
      (\<forall>u. is_paused s' u \<longleftrightarrow> is_paused s u \<and> u \<notin> R) \<and> (\<forall>u. u \<notin> R \<longrightarrow> is_enabled s' u = is_enabled s u) \<and> (sure \<longrightarrow> (\<forall>t \<in> R. is_enabled s' t))"
      using enable_specific_result [OF _ rs(2), of "?s\<lparr>raceFound := True\<rparr>"] unfolding rs(1) by simp
    with run False show ?thesis by auto
  qed
qed

end

text \<open>
  C21: Active testing of a data race. A running thread is about to access an address, at a location; the
  handler returns and keeps paused threads disabled. If the location is no target, nothing changes. Otherwise, if
  threads are paused before a conflicting access to the same address (one of the two a write), a race is
  reported, exactly then, and exactly those threads are enabled again while the running thread stays as it is; and if not, the
  running thread is paused, disabled, with its access on record.
\<close>

theorem data_tester_meets:
  assumes "active_ok s" and "\<not> cm_get False (active_testing_paused s) me" and "me \<noteq> INVALID_THREAD"
    and "h = (if w then HandleMyMemoryWrite me iid a else HandleMyMemoryRead me iid a)"
    and "R = {t. cm_get False (active_testing_paused s) t \<and> conflicts (cm_get new_ActiveRaceInfo (active_testing_info s) t) (mk_ActiveRaceInfo me a w)}"
  shows "\<exists>s'. data_handle h s = Inr ((), s') \<and> active_ok s' \<and>
     (if iid \<noteq> target1 s \<and> iid \<noteq> target2 s then s' = s
      else if R = {} then raceFound s' = raceFound s \<and>
        {t. cm_get False (active_testing_paused s') t} = insert me {t. cm_get False (active_testing_paused s) t} \<and>
        cm_get new_ActiveRaceInfo (active_testing_info s') me = mk_ActiveRaceInfo me a w \<and>
        {t. cm_get False (enable_map s') t} = {t. cm_get False (enable_map s) t} - {me}
      else raceFound s' \<and>
        {t. cm_get False (active_testing_paused s') t} = {t. cm_get False (active_testing_paused s) t} - R \<and>
        {t. cm_get False (enable_map s') t} = {t. cm_get False (enable_map s) t} \<union> R)"
proof (cases "iid \<noteq> target1 s \<and> iid \<noteq> target2 s")
  case True
  then show ?thesis using assms(1,4) by (cases w) (simp_all add: handleMyMemoryRead_def handleMyMemoryWrite_def bnd_bool)
next
  case False
  then have run: "data_handle h s = at_target data_reenable me (mk_ActiveRaceInfo me a w) s"
    using assms(4) by (auto simp: handleMyMemoryRead_def handleMyMemoryWrite_def)
  have "ari_me (mk_ActiveRaceInfo me a w) = me" by (simp add: mk_ActiveRaceInfo_def)
  from data_re.target_result [OF assms(1-3) this, folded assms(5)] obtain s' where
    "at_target data_reenable me (mk_ActiveRaceInfo me a w) s = Inr ((), s')" "active_ok s'" and
    res: "if R = {} then raceFound s' = raceFound s \<and> {t. is_paused s' t} = insert me {t. is_paused s t} \<and> info_of s' me = mk_ActiveRaceInfo me a w \<and>
        {t. is_enabled s' t} = {t. is_enabled s t} - {me}
      else raceFound s' \<and> {t. is_paused s' t} = {t. is_paused s t} - R \<and> (\<forall>t. t \<notin> R \<longrightarrow> is_enabled s' t = is_enabled s t) \<and>
        R \<subseteq> {t. is_enabled s' t}" by auto
  moreover from res have "{t. is_enabled s' t} = {t. is_enabled s t} \<union> R" if "R \<noteq> {}" using that by auto
  ultimately show ?thesis using run False by (cases "R = {}") auto
qed

theorem data_tester_meets_witness:
  "\<exists>s1 s2. data_handle (HandleMyMemoryRead 1 100 9) active_demo = Inr ((), s1) \<and> \<not> raceFound s1 \<and>
     data_handle (HandleMyMemoryWrite 2 200 9) s1 = Inr ((), s2) \<and> raceFound s2 \<and> cm_get False (enable_map s2) 1"
proof -
  have none: "\<not> cm_get False (active_testing_paused active_demo) t" for t by (simp add: active_demo_fields cm_get_def)
  from data_tester_meets [OF active_ok_demo none _ refl refl, where w = False and me = 1 and iid = 100 and a = 9] none
  obtain s1 where s1: "data_handle (HandleMyMemoryRead 1 100 9) active_demo = Inr ((), s1)" "active_ok s1" "\<not> raceFound s1"
    and p1: "{t. cm_get False (active_testing_paused s1) t} = {1}" "cm_get new_ActiveRaceInfo (active_testing_info s1) 1 = mk_ActiveRaceInfo 1 9 False"
    by (auto simp: active_demo_fields)
  have t: "target2 s1 = 200"
    using s1(1) by (auto simp: handleMyMemoryRead_def at_target_def active_isRacing_def paused_threads_def keys_with_def active_demo_fields disableThread_def bnd_bool)
  have "\<not> cm_get False (active_testing_paused s1) 2" using eqset_imp_iff [OF p1(1), of 2] by simp
  from data_tester_meets [OF s1(2) this _ refl refl, where w = True and iid = 200 and a = 9] t
  obtain s2 where s2: "data_handle (HandleMyMemoryWrite 2 200 9) s1 = Inr ((), s2)" and
    c: "let R = {t. cm_get False (active_testing_paused s1) t \<and> conflicts (cm_get new_ActiveRaceInfo (active_testing_info s1) t) (mk_ActiveRaceInfo 2 9 True)}
      in R \<noteq> {} \<longrightarrow> raceFound s2 \<and> {t. cm_get False (enable_map s2) t} = {t. cm_get False (enable_map s1) t} \<union> R"
    by (auto simp: Let_def split: if_splits)
  have "{t. cm_get False (active_testing_paused s1) t \<and> conflicts (cm_get new_ActiveRaceInfo (active_testing_info s1) t) (mk_ActiveRaceInfo 2 9 True)} = {1}"
    using p1 by (auto simp: conflicts_def mk_ActiveRaceInfo_def)
  with c have "raceFound s2" "cm_get False (enable_map s2) 1" by (auto simp: Let_def)
  with s1 s2 show ?thesis by blast
qed

lemma disable_all:
  "for_each (\<lambda>t. upd (disableThread t)) ts s = Inr ((), s\<lparr>enable_map := foldl (\<lambda>m t. cm_put t False m) (enable_map s) ts\<rparr>)"
  "cm_get False (foldl (\<lambda>m t. cm_put t False m) em ts) u \<longleftrightarrow> cm_get False em u \<and> u \<notin> set ts"
  by (induction ts arbitrary: s em) (auto simp: disableThread_def)

text \<open>
  C34: Active testing of contention on a mutex. Before a lock operation at a target, if threads are paused
  before locking the same mutex, a race is reported, exactly then, and exactly they are no longer paused (the state of the mutex decides whether they
  are enabled); if not, the running thread is paused and disabled. After an unlock, which may have enabled threads that wait for the
  mutex, the paused ones are disabled again and nothing else changes.
\<close>

theorem lock_tester_meets:
  assumes "active_ok s" and "\<not> cm_get False (active_testing_paused s) me" and "me \<noteq> INVALID_THREAD"
    and "ra = target1 s \<or> ra = target2 s"
    and "R = {t. cm_get False (active_testing_paused s) t \<and> ari_addr (cm_get new_ActiveRaceInfo (active_testing_info s) t) = l}"
  shows "(\<exists>s'. lock_handle (HandleBeforeMutexLock me ra l w) s = Inr ((), s') \<and> active_ok s' \<and>
     (if R = {} then raceFound s' = raceFound s \<and>
        {t. cm_get False (active_testing_paused s') t} = insert me {t. cm_get False (active_testing_paused s) t} \<and>
        {t. cm_get False (enable_map s') t} = {t. cm_get False (enable_map s) t} - {me}
      else raceFound s' \<and>
        {t. cm_get False (active_testing_paused s') t} = {t. cm_get False (active_testing_paused s) t} - R \<and>
        (\<forall>t. t \<notin> R \<longrightarrow> cm_get False (enable_map s') t = cm_get False (enable_map s) t))) \<and>
     (\<forall>em. cm_ok em \<longrightarrow> (\<exists>s'. lock_handle (HandleAfterMutexUnlock me ra l w) (s\<lparr>enable_map := em\<rparr>) = Inr ((), s') \<and>
        {t. cm_get False (enable_map s') t} = {t. cm_get False em t} - {t. cm_get False (active_testing_paused s) t} \<and>
        s' = s\<lparr>enable_map := enable_map s'\<rparr>))"
proof (intro conjI allI impI)
  have R: "R = {t. is_paused s t \<and> conflicts (info_of s t) (mk_ActiveRaceInfo me l True)}"
    using assms(5) by (simp add: conflicts_def mk_ActiveRaceInfo_def)
  have h: "lock_handle (HandleBeforeMutexLock me ra l w) s = at_target lock_reenable me (mk_ActiveRaceInfo me l True) s"
    using assms(4) by (auto simp: handleBeforeMutexLock_def)
  have "ari_me (mk_ActiveRaceInfo me l True) = me" by (simp add: mk_ActiveRaceInfo_def)
  from lock_re.target_result [OF assms(1-3) this, folded R] obtain s' where s': "at_target lock_reenable me (mk_ActiveRaceInfo me l True) s = Inr ((), s')"
    "active_ok s'" and res: "if R = {} then raceFound s' = raceFound s \<and> {t. is_paused s' t} = insert me {t. is_paused s t} \<and> info_of s' me = mk_ActiveRaceInfo me l True \<and>
        {t. is_enabled s' t} = {t. is_enabled s t} - {me}
      else raceFound s' \<and> {t. is_paused s' t} = {t. is_paused s t} - R \<and> (\<forall>t. t \<notin> R \<longrightarrow> is_enabled s' t = is_enabled s t) \<and>
        (False \<longrightarrow> R \<subseteq> {t. is_enabled s' t})" by blast
  show "\<exists>s'. lock_handle (HandleBeforeMutexLock me ra l w) s = Inr ((), s') \<and> active_ok s' \<and>
     (if R = {} then raceFound s' = raceFound s \<and> {t. is_paused s' t} = insert me {t. is_paused s t} \<and> {t. is_enabled s' t} = {t. is_enabled s t} - {me}
      else raceFound s' \<and> {t. is_paused s' t} = {t. is_paused s t} - R \<and> (\<forall>t. t \<notin> R \<longrightarrow> is_enabled s' t = is_enabled s t))"
    unfolding h s'(1) by (rule exI [of _ s']) (use s'(2) res in \<open>simp split: if_splits\<close>)
next
  fix em :: "(thrID, bool) cmap" assume "cm_ok em"
  have "set (paused_threads s) = {t. is_paused s t}" by (rule paused_threads_card(1) [OF assms(1)])
  moreover have "paused_threads (s\<lparr>enable_map := em\<rparr>) = paused_threads s" by (simp add: paused_threads_def)
  ultimately show "\<exists>s'. lock_handle (HandleAfterMutexUnlock me ra l w) (s\<lparr>enable_map := em\<rparr>) = Inr ((), s') \<and>
      {t. is_enabled s' t} = {t. cm_get False em t} - {t. is_paused s t} \<and> s' = s\<lparr>enable_map := enable_map s'\<rparr>"
    by (auto simp: handleAfterMutexUnlock_def disable_all)
qed

theorem lock_tester_meets_witness:
  "\<exists>s'. lock_handle (HandleBeforeMutexLock 1 100 9 False) active_demo = Inr ((), s') \<and> \<not> raceFound s' \<and> \<not> cm_get False (enable_map s') 1"
proof -
  have none: "\<not> cm_get False (active_testing_paused active_demo) t" for t by (simp add: active_demo_fields cm_get_def)
  have "100 = target1 active_demo \<or> 100 = target2 active_demo" by (simp add: active_demo_fields)
  from conjunct1 [OF lock_tester_meets [OF active_ok_demo none _ this refl, where me = 1 and l = 9 and w = False]] none
  obtain s' where "lock_handle (HandleBeforeMutexLock 1 100 9 False) active_demo = Inr ((), s')" "\<not> raceFound s'"
    and "{t. cm_get False (enable_map s') t} = {t. cm_get False (enable_map active_demo) t} - {1}" by (auto simp: active_demo_fields)
  then show ?thesis by blast
qed

end
