(* ===== verification/Vector_Clock.thy ===== *)
theory Vector_Clock
  imports Prelude
begin

text \<open>
  \<open>src/racer/vctrack.cpp\<close>: the vector clocks of the race detector. A thread's own entry grows when it
  signals or creates a thread; what it signals and what it hands to a child is its clock before
  that. The main result is that comparing the clocks of two accesses decides whether one
  happens before the other, where happens-before is defined on the sequence of operations, with
  no clocks: program order, creation, joins, and the last signal on a condition before a wait.

  The entries of the clocks, C \<open>int\<close>s that start at 0 and grow by one, are unbounded here.
\<close>

section \<open>The tracker\<close>

type_synonym vectorClock = "(thrID, int) cmap"

record VectorClockTracker =
  vcs :: "(thrID, vectorClock) cmap"
  messagemap :: "(addr, vectorClock) cmap"

definition new_VectorClockTracker :: VectorClockTracker where
  "new_VectorClockTracker = \<lparr>vcs = [(0, [(0, 1)])], messagemap = []\<rparr>"

text \<open>The value \<open>vcs[t]\<close>, and the state after it has been read.\<close>

abbreviation clock :: "VectorClockTracker \<Rightarrow> thrID \<Rightarrow> vectorClock" where
  "clock s t \<equiv> cm_get [] (vcs s) t"

abbreviation message :: "VectorClockTracker \<Rightarrow> addr \<Rightarrow> vectorClock" where
  "message s c \<equiv> cm_get [] (messagemap s) c"

definition touch_clock :: "thrID \<Rightarrow> VectorClockTracker \<Rightarrow> VectorClockTracker" where
  "touch_clock t s = s\<lparr>vcs := cm_touch [] t (vcs s)\<rparr>"

definition incrementMyClock :: "thrID \<Rightarrow> VectorClockTracker \<Rightarrow> VectorClockTracker" where
  "incrementMyClock i s =
     (let myclock = clock s i
      in s\<lparr>vcs := cm_put i (cm_put i (cm_get 0 myclock i + 1) myclock) (vcs s)\<rparr>)"

definition merge_entry :: "vectorClock \<Rightarrow> thrID \<times> int \<Rightarrow> vectorClock" where
  "merge_entry newvc e =
     (case map_of newvc (fst e) of
        Some y \<Rightarrow> cm_put (fst e) (if y > snd e then y else snd e) newvc
      | None \<Rightarrow> cm_put (fst e) (snd e) newvc)"

definition receiveMessage :: "thrID \<Rightarrow> vectorClock \<Rightarrow> VectorClockTracker \<Rightarrow> VectorClockTracker" where
  "receiveMessage thr msg s = s\<lparr>vcs := cm_put thr (foldl merge_entry (clock s thr) msg) (vcs s)\<rparr>"

definition getVectorClock :: "thrID \<Rightarrow> VectorClockTracker \<Rightarrow> vectorClock \<times> VectorClockTracker" where
  "getVectorClock thr s = (clock s thr, touch_clock thr s)"

definition isHappensBefore :: "vectorClock \<Rightarrow> vectorClock \<Rightarrow> bool" where
  "isHappensBefore before after = list_all (\<lambda>(t, x). \<not> x > cm_get 0 after t) before"

definition afterJoin :: "thrID \<Rightarrow> thrID \<Rightarrow> VectorClockTracker \<Rightarrow> VectorClockTracker" where
  "afterJoin me thrjoined s = receiveMessage me (clock s thrjoined) (touch_clock thrjoined s)"

definition beforeSignal :: "thrID \<Rightarrow> addr \<Rightarrow> VectorClockTracker \<Rightarrow> VectorClockTracker" where
  "beforeSignal me cond s =
     incrementMyClock me ((touch_clock me s)\<lparr>messagemap := cm_put cond (clock s me) (messagemap s)\<rparr>)"

definition afterWait :: "thrID \<Rightarrow> addr \<Rightarrow> VectorClockTracker \<Rightarrow> VectorClockTracker" where
  "afterWait me cond s = receiveMessage me (message s cond) (s\<lparr>messagemap := cm_touch [] cond (messagemap s)\<rparr>)"

definition beforeCreate :: "thrID \<Rightarrow> thrID \<Rightarrow> VectorClockTracker \<Rightarrow> VectorClockTracker" where
  "beforeCreate me child s =
     incrementMyClock child (incrementMyClock me (s\<lparr>vcs := cm_put child (clock s me) (cm_touch [] me (vcs s))\<rparr>))"

section \<open>Clocks as functions\<close>

definition entry :: "vectorClock \<Rightarrow> thrID \<Rightarrow> int" where
  "entry v u = cm_get 0 v u"

definition vc_ok :: "vectorClock \<Rightarrow> bool" where
  "vc_ok v \<longleftrightarrow> cm_ok v \<and> (\<forall>e \<in> set v. 0 \<le> snd e)"

lemma vc_ok_Nil [simp]: "vc_ok []"
  by (simp add: vc_ok_def)

lemma entry_put [simp]: "entry (cm_put t x v) = (entry v)(t := x)"
  by (auto simp: entry_def fun_eq_iff)

lemma vc_ok_put [simp]: "vc_ok v \<Longrightarrow> 0 \<le> x \<Longrightarrow> vc_ok (cm_put t x v)"
proof -
  have "e \<in> set v \<or> e = (t, x)" if "e \<in> set (cm_put t x v)" for e
    using that by (induction t x v rule: cm_put.induct) (auto split: if_splits)
  then show "vc_ok v \<Longrightarrow> 0 \<le> x \<Longrightarrow> vc_ok (cm_put t x v)" by (fastforce simp: vc_ok_def)
qed

lemma entry_nonneg [simp]: "vc_ok v \<Longrightarrow> 0 \<le> entry v u"
  by (fastforce simp: vc_ok_def entry_def cm_get_def split: option.splits dest: map_of_SomeD)

lemma merge_entry_eq:
  assumes "vc_ok v" and "0 \<le> x"
  shows "merge_entry v (t, x) = cm_put t (max (entry v t) x) v"
  using assms by (auto simp: merge_entry_def entry_def cm_get_def max_def split: option.splits)

lemma merge_entry_result:
  assumes "vc_ok v" and "0 \<le> x"
  shows "vc_ok (merge_entry v (t, x))" "entry (merge_entry v (t, x)) = (entry v)(t := max (entry v t) x)"
  using assms by (simp_all add: merge_entry_eq)

lemma merge_result:
  "vc_ok v \<Longrightarrow> vc_ok m \<Longrightarrow> vc_ok (foldl merge_entry v m) \<and> entry (foldl merge_entry v m) = (\<lambda>u. max (entry v u) (entry m u))"
proof (induction m arbitrary: v)
  case Nil
  then show ?case using entry_nonneg [of v] by (simp add: entry_def [of "[]"] cm_get_def max_absorb1)
next
  case (Cons e m)
  obtain t x where e: "e = (t, x)" by (cases e)
  have m: "vc_ok m" "0 \<le> x" "map_of m t = None" using Cons.prems(2) by (auto simp: e vc_ok_def cm_ok_Cons map_of_eq_None_iff)
  have step: "vc_ok (merge_entry v e)" "entry (merge_entry v e) = (entry v)(t := max (entry v t) x)"
    using merge_entry_result [OF Cons.prems(1) m(2)] by (simp_all add: e)
  have "entry (e # m) = (entry m)(t := x)" "entry m t = 0" using m(3) by (auto simp: entry_def cm_get_def e fun_eq_iff)
  with Cons.IH [OF step(1) m(1)] step entry_nonneg [OF Cons.prems(1)] m(2) show ?case by (auto simp: fun_eq_iff)
qed

lemma isHappensBefore_iff:
  assumes "vc_ok before" and "vc_ok after"
  shows "isHappensBefore before after \<longleftrightarrow> (\<forall>u. entry before u \<le> entry after u)"
proof
  assume h: "isHappensBefore before after"
  show "\<forall>u. entry before u \<le> entry after u"
  proof
    fix u
    show "entry before u \<le> entry after u"
    proof (cases "map_of before u")
      case None
      then show ?thesis using entry_nonneg [OF assms(2), of u] by (simp add: entry_def cm_get_def)
    next
      case (Some x)
      with h show ?thesis by (auto simp: isHappensBefore_def list_all_iff entry_def cm_get_def [of 0 before] dest!: map_of_SomeD)
    qed
  qed
next
  assume "\<forall>u. entry before u \<le> entry after u"
  moreover have "entry before t = x" if "(t, x) \<in> set before" for t x
    using that assms(1) by (simp add: vc_ok_def in_set_cm_iff entry_def cm_get_def)
  ultimately show "isHappensBefore before after" by (auto simp: isHappensBefore_def list_all_iff not_less simp flip: entry_def)
qed


section \<open>Runs\<close>

datatype vc_op =
    Access thrID
  | Join thrID thrID
  | Signal thrID addr
  | Wait thrID addr
  | Create thrID thrID

fun actor :: "vc_op \<Rightarrow> thrID" where
  "actor (Access t) = t"
| "actor (Join me u) = me"
| "actor (Signal me c) = me"
| "actor (Wait me c) = me"
| "actor (Create me child) = me"

fun vc_step :: "vc_op \<Rightarrow> VectorClockTracker \<Rightarrow> VectorClockTracker" where
  "vc_step (Access t) s = snd (getVectorClock t s)"
| "vc_step (Join me u) s = afterJoin me u s"
| "vc_step (Signal me c) s = beforeSignal me c s"
| "vc_step (Wait me c) s = afterWait me c s"
| "vc_step (Create me child) s = beforeCreate me child s"

definition state_at :: "vc_op list \<Rightarrow> nat \<Rightarrow> VectorClockTracker" where
  "state_at ops n = foldl (\<lambda>s op. vc_step op s) new_VectorClockTracker (take n ops)"

text \<open>The clock of the thread that acts at position \<open>i\<close>, when it does: what an access records.\<close>

definition clock_at :: "vc_op list \<Rightarrow> nat \<Rightarrow> vectorClock" where
  "clock_at ops i = fst (getVectorClock (actor (ops ! i)) (state_at ops i))"

subsection \<open>Legal runs and happens-before\<close>

definition started :: "vc_op list \<Rightarrow> nat \<Rightarrow> thrID \<Rightarrow> bool" where
  "started ops n t \<longleftrightarrow> t = 0 \<or> (\<exists>i < n. \<exists>me. ops ! i = Create me t)"

definition joined :: "vc_op list \<Rightarrow> nat \<Rightarrow> thrID \<Rightarrow> bool" where
  "joined ops n t \<longleftrightarrow> (\<exists>i < n. \<exists>me. ops ! i = Join me t)"

text \<open>
  A thread acts after it has been created and not after it has been joined; a child is new; a
  thread does not join itself. The main thread is 0.
\<close>

definition legal :: "vc_op list \<Rightarrow> bool" where
  "legal ops \<longleftrightarrow> (\<forall>n < length ops.
     started ops n (actor (ops ! n)) \<and> \<not> joined ops n (actor (ops ! n)) \<and>
     (case ops ! n of
        Create me child \<Rightarrow> \<not> started ops n child
      | Join me u \<Rightarrow> started ops n u \<and> u \<noteq> me
      | _ \<Rightarrow> True))"

inductive hb :: "vc_op list \<Rightarrow> nat \<Rightarrow> nat \<Rightarrow> bool" for ops where
  program_order: "i < j \<Longrightarrow> j < length ops \<Longrightarrow> actor (ops ! i) = actor (ops ! j) \<Longrightarrow> hb ops i j"
| create: "i < j \<Longrightarrow> j < length ops \<Longrightarrow> ops ! i = Create me (actor (ops ! j)) \<Longrightarrow> hb ops i j"
| join: "i < j \<Longrightarrow> j < length ops \<Longrightarrow> ops ! j = Join me (actor (ops ! i)) \<Longrightarrow> hb ops i j"
| signal: "i < j \<Longrightarrow> j < length ops \<Longrightarrow> ops ! i = Signal me c \<Longrightarrow> ops ! j = Wait me' c \<Longrightarrow>
    (\<And>k u. i < k \<Longrightarrow> k < j \<Longrightarrow> ops ! k \<noteq> Signal u c) \<Longrightarrow> hb ops i j"
| create_join: "i < j \<Longrightarrow> j < length ops \<Longrightarrow> ops ! i = Create me t \<Longrightarrow> ops ! j = Join me' t \<Longrightarrow> hb ops i j"
| trans: "hb ops i j \<Longrightarrow> hb ops j k \<Longrightarrow> hb ops i k"

subsection \<open>The clocks of a run as functions\<close>

type_synonym clocks = "(thrID \<Rightarrow> thrID \<Rightarrow> int) \<times> (addr \<Rightarrow> thrID \<Rightarrow> int)"

definition tick :: "thrID \<Rightarrow> (thrID \<Rightarrow> thrID \<Rightarrow> int) \<Rightarrow> thrID \<Rightarrow> thrID \<Rightarrow> int" where
  "tick t V = V(t := (V t)(t := V t t + 1))"

definition join_vc :: "(thrID \<Rightarrow> int) \<Rightarrow> (thrID \<Rightarrow> int) \<Rightarrow> thrID \<Rightarrow> int" where
  "join_vc v w = (\<lambda>u. max (v u) (w u))"

fun abs_step :: "vc_op \<Rightarrow> clocks \<Rightarrow> clocks" where
  "abs_step (Access t) (V, M) = (V, M)"
| "abs_step (Join me u) (V, M) = (V(me := join_vc (V me) (V u)), M)"
| "abs_step (Signal me c) (V, M) = (tick me V, M(c := V me))"
| "abs_step (Wait me c) (V, M) = (V(me := join_vc (V me) (M c)), M)"
| "abs_step (Create me child) (V, M) = (tick child (tick me (V(child := V me))), M)"

definition abs_clocks :: "VectorClockTracker \<Rightarrow> clocks" where
  "abs_clocks s = ((\<lambda>t. entry (clock s t)), (\<lambda>c. entry (message s c)))"

definition vct_ok :: "VectorClockTracker \<Rightarrow> bool" where
  "vct_ok s \<longleftrightarrow> (\<forall>t. vc_ok (clock s t)) \<and> (\<forall>c. vc_ok (message s c))"

lemma abs_increment:
  assumes "vct_ok s"
  shows "vct_ok (incrementMyClock t s) \<and> abs_clocks (incrementMyClock t s) = (tick t (fst (abs_clocks s)), snd (abs_clocks s))"
  using assms by (auto simp: vct_ok_def abs_clocks_def incrementMyClock_def Let_def tick_def fun_eq_iff simp flip: entry_def)

lemma abs_receive:
  assumes "vct_ok s" and "vc_ok m"
  shows "vct_ok (receiveMessage t m s) \<and>
     abs_clocks (receiveMessage t m s) = ((fst (abs_clocks s))(t := join_vc (fst (abs_clocks s) t) (entry m)), snd (abs_clocks s))"
  using assms merge_result [of "clock s t" m]
  by (auto simp: vct_ok_def abs_clocks_def receiveMessage_def join_vc_def fun_eq_iff)

lemma abs_touch [simp]:
  "vct_ok (touch_clock t s) = vct_ok s" "abs_clocks (touch_clock t s) = abs_clocks s"
  "vct_ok (s\<lparr>messagemap := cm_touch [] c (messagemap s)\<rparr>) = vct_ok s"
  "abs_clocks (s\<lparr>messagemap := cm_touch [] c (messagemap s)\<rparr>) = abs_clocks s"
  by (simp_all add: vct_ok_def abs_clocks_def touch_clock_def)

lemma abs_vc_step:
  assumes "vct_ok s"
  shows "vct_ok (vc_step op s) \<and> abs_clocks (vc_step op s) = abs_step op (abs_clocks s)"
proof (cases op)
  case (Access t)
  then show ?thesis using assms by (cases "abs_clocks s") (simp add: getVectorClock_def)
next
  case (Join me u)
  have "vct_ok (touch_clock u s)" using assms by simp
  moreover have "vc_ok (clock s u)" using assms by (simp add: vct_ok_def)
  ultimately have "vct_ok (touch_clock u s)" "vc_ok (clock s u)" .
  from abs_receive [OF this, of me] Join show ?thesis by (simp add: afterJoin_def) (simp add: abs_clocks_def)
next
  case (Signal me c)
  let ?s = "(touch_clock me s)\<lparr>messagemap := cm_put c (clock s me) (messagemap s)\<rparr>"
  have "vct_ok ?s" "abs_clocks ?s = (fst (abs_clocks s), (snd (abs_clocks s))(c := fst (abs_clocks s) me))"
    using assms by (auto simp: vct_ok_def abs_clocks_def touch_clock_def fun_eq_iff)
  with abs_increment [of ?s me] Signal show ?thesis by (simp add: beforeSignal_def) (simp add: abs_clocks_def)
next
  case (Wait me c)
  have "vct_ok (s\<lparr>messagemap := cm_touch [] c (messagemap s)\<rparr>)" using assms by simp
  moreover have "vc_ok (message s c)" using assms by (simp add: vct_ok_def)
  ultimately have "vct_ok (s\<lparr>messagemap := cm_touch [] c (messagemap s)\<rparr>)" "vc_ok (message s c)" .
  from abs_receive [OF this, of me] Wait show ?thesis by (simp add: afterWait_def) (simp add: abs_clocks_def)
next
  case (Create me child)
  let ?s = "s\<lparr>vcs := cm_put child (clock s me) (cm_touch [] me (vcs s))\<rparr>"
  have "vct_ok ?s" "abs_clocks ?s = ((fst (abs_clocks s))(child := fst (abs_clocks s) me), snd (abs_clocks s))"
    using assms by (auto simp: vct_ok_def abs_clocks_def fun_eq_iff)
  with abs_increment [of ?s me] abs_increment [of "incrementMyClock me ?s" child] Create show ?thesis
    by (simp add: beforeCreate_def) (simp add: abs_clocks_def)
qed

definition clocks_at :: "vc_op list \<Rightarrow> nat \<Rightarrow> clocks" where
  "clocks_at ops n = foldl (\<lambda>s op. abs_step op s) ((\<lambda>_ _. 0)(0 := (\<lambda>_. 0)(0 := 1)), \<lambda>_ _. 0) (take n ops)"

lemma abs_state_at: "vct_ok (state_at ops n) \<and> abs_clocks (state_at ops n) = clocks_at ops n"
proof -
  have "vct_ok (foldl (\<lambda>s op. vc_step op s) s xs) \<and>
      abs_clocks (foldl (\<lambda>s op. vc_step op s) s xs) = foldl (\<lambda>s op. abs_step op s) (abs_clocks s) xs" if "vct_ok s" for s xs
    using that by (induction xs arbitrary: s) (simp_all add: abs_vc_step)
  moreover have "vct_ok new_VectorClockTracker" "abs_clocks new_VectorClockTracker = ((\<lambda>_ _. 0)(0 := (\<lambda>_. 0)(0 := 1)), \<lambda>_ _. 0)"
    by (auto simp: vct_ok_def vc_ok_def new_VectorClockTracker_def abs_clocks_def entry_def cm_get_def cm_ok_def fun_eq_iff)
  ultimately show ?thesis by (simp add: state_at_def clocks_at_def)
qed

lemma clocks_at_Suc: "n < length ops \<Longrightarrow> clocks_at ops (Suc n) = abs_step (ops ! n) (clocks_at ops n)"
  by (simp add: clocks_at_def take_Suc_conv_app_nth)


section \<open>Histories\<close>

text \<open>
  What a thread and a message know: the positions that happen before whatever the thread does
  next, and before whatever follows the message.
\<close>

type_synonym history = "(thrID \<Rightarrow> nat set) \<times> (addr \<Rightarrow> nat set)"

fun history_step :: "nat \<Rightarrow> vc_op \<Rightarrow> history \<Rightarrow> history" where
  "history_step n (Access t) (K, L) = (K(t := insert n (K t)), L)"
| "history_step n (Join me u) (K, L) = (K(me := insert n (K me \<union> K u)), L)"
| "history_step n (Signal me c) (K, L) = (K(me := insert n (K me)), L(c := insert n (K me)))"
| "history_step n (Wait me c) (K, L) = (K(me := insert n (K me \<union> L c)), L)"
| "history_step n (Create me child) (K, L) = (K(child := insert n (K me), me := insert n (K me)), L)"

primrec history_at :: "vc_op list \<Rightarrow> nat \<Rightarrow> history" where
  "history_at ops 0 = ((\<lambda>_. {}), (\<lambda>_. {}))"
| "history_at ops (Suc n) = history_step n (ops ! n) (history_at ops n)"

definition known :: "vc_op list \<Rightarrow> nat \<Rightarrow> thrID \<Rightarrow> nat set" where
  "known ops n = fst (history_at ops n)"

definition sent :: "vc_op list \<Rightarrow> nat \<Rightarrow> addr \<Rightarrow> nat set" where
  "sent ops n = snd (history_at ops n)"

lemma known_0 [simp]: "known ops 0 t = {}" "sent ops 0 c = {}"
  by (simp_all add: known_def sent_def)

lemma known_Suc:
  "known ops (Suc n) t =
     (case ops ! n of
        Join me u \<Rightarrow> if t = me then insert n (known ops n me \<union> known ops n u) else known ops n t
      | Wait me c \<Rightarrow> if t = me then insert n (known ops n me \<union> sent ops n c) else known ops n t
      | Create me child \<Rightarrow> if t = me \<or> t = child then insert n (known ops n me) else known ops n t
      | _ \<Rightarrow> if t = actor (ops ! n) then insert n (known ops n t) else known ops n t)"
  "sent ops (Suc n) c =
     (case ops ! n of Signal me d \<Rightarrow> if c = d then insert n (known ops n me) else sent ops n c | _ \<Rightarrow> sent ops n c)"
  by (cases "history_at ops n"; cases "ops ! n"; simp add: known_def sent_def)+

lemma known_less: "i \<in> known ops n t \<Longrightarrow> i < n" "i \<in> sent ops n c \<Longrightarrow> i < n"
proof -
  have "(\<forall>t. \<forall>i \<in> known ops n t. i < n) \<and> (\<forall>c. \<forall>i \<in> sent ops n c. i < n)"
    by (induction n) (force simp: known_Suc split: vc_op.splits if_splits)+
  then show "i \<in> known ops n t \<Longrightarrow> i < n" "i \<in> sent ops n c \<Longrightarrow> i < n" by blast+
qed

subsection \<open>Histories are the past\<close>

lemma started_Suc: "started ops (Suc n) t \<longleftrightarrow> started ops n t \<or> (\<exists>me. ops ! n = Create me t)"
  by (auto simp: started_def less_Suc_eq)

lemma joined_Suc: "joined ops (Suc n) t \<longleftrightarrow> joined ops n t \<or> (\<exists>me. ops ! n = Join me t)"
  by (auto simp: joined_def less_Suc_eq)

lemma legalD:
  assumes "legal ops" and "n < length ops"
  shows "started ops n (actor (ops ! n))" "\<not> joined ops n (actor (ops ! n))"
    "ops ! n = Create me child \<Longrightarrow> \<not> started ops n child" "ops ! n = Join me u \<Longrightarrow> started ops n u \<and> u \<noteq> me"
  using assms by (auto simp: legal_def split: vc_op.splits)

text \<open>Before it is created, a thread knows nothing; what it knows only grows.\<close>

lemma known_unstarted:
  assumes "legal ops" and "n \<le> length ops" and "\<not> started ops n t"
  shows "known ops n t = {}"
  using assms(2,3)
proof (induction n)
  case (Suc n)
  then have IH: "known ops n t = {}" and ne: "\<And>me. ops ! n \<noteq> Create me t" and un: "\<not> started ops n t" by (auto simp: started_Suc)
  have "actor (ops ! n) \<noteq> t" using legalD(1) [OF assms(1), of n] Suc.prems(1) un by auto
  with IH ne show ?case by (auto simp: known_Suc split: vc_op.splits)
qed simp

lemma known_mono:
  assumes "legal ops" and "n \<le> m" and "m \<le> length ops"
  shows "known ops n t \<subseteq> known ops m t"
  using assms(2,3)
proof (induction m)
  case (Suc m)
  show ?case
  proof (cases "n = Suc m")
    case False
    then have le: "known ops n t \<subseteq> known ops m t" using Suc by auto
    have "known ops m t = {}" if "ops ! m = Create me t" for me
      using known_unstarted [OF assms(1)] legalD(3) [OF assms(1) _ that] Suc.prems by simp
    with le show ?thesis by (auto simp: known_Suc split: vc_op.splits)
  qed simp
qed simp

text \<open>Positions at which what \<open>t\<close> knows at \<open>n\<close> is in the past.\<close>

definition target :: "vc_op list \<Rightarrow> nat \<Rightarrow> thrID \<Rightarrow> nat \<Rightarrow> bool" where
  "target ops n t j \<longleftrightarrow> n \<le> j \<and> j < length ops \<and> (actor (ops ! j) = t \<or> (\<exists>me. ops ! j = Join me t))"

definition receiver :: "vc_op list \<Rightarrow> nat \<Rightarrow> addr \<Rightarrow> nat \<Rightarrow> bool" where
  "receiver ops n c j \<longleftrightarrow> n \<le> j \<and> j < length ops \<and> (\<exists>me. ops ! j = Wait me c) \<and> (\<forall>k u. n \<le> k \<longrightarrow> k < j \<longrightarrow> ops ! k \<noteq> Signal u c)"

lemma hb_from_actor: "target ops (Suc n) (actor (ops ! n)) j \<Longrightarrow> hb ops n j"
  by (auto simp: target_def intro: hb.program_order hb.join)

lemma hb_from_create: "ops ! n = Create me t \<Longrightarrow> target ops (Suc n) t j \<Longrightarrow> hb ops n j"
  by (auto simp: target_def intro: hb.create hb.create_join)

lemma hb_from_signal: "ops ! n = Signal me c \<Longrightarrow> receiver ops (Suc n) c j \<Longrightarrow> hb ops n j"
  by (auto simp: receiver_def intro: hb.signal)

lemma target_mono: "target ops (Suc n) t j \<Longrightarrow> target ops n t j"
  by (auto simp: target_def)

lemma receiver_mono: "receiver ops (Suc n) c j \<Longrightarrow> (\<And>u. ops ! n \<noteq> Signal u c) \<Longrightarrow> receiver ops n c j"
  unfolding receiver_def by (metis Suc_leD not_less_eq_eq le_antisym)

lemma target_self: "n < length ops \<Longrightarrow> target ops n (actor (ops ! n)) n"
  "n < length ops \<Longrightarrow> ops ! n = Join me u \<Longrightarrow> target ops n u n"
  "n < length ops \<Longrightarrow> ops ! n = Wait me c \<Longrightarrow> receiver ops n c n"
  by (auto simp: target_def receiver_def)

lemma known_imp_hb:
  assumes "n \<le> length ops"
  shows "(\<forall>t j. \<forall>i \<in> known ops n t. target ops n t j \<longrightarrow> hb ops i j) \<and>
     (\<forall>c j. \<forall>i \<in> sent ops n c. receiver ops n c j \<longrightarrow> hb ops i j)"
  using assms
proof (induction n)
  case (Suc n)
  then have n: "n < length ops" by simp
  have K: "\<And>t i j. i \<in> known ops n t \<Longrightarrow> target ops n t j \<Longrightarrow> hb ops i j"
    and S: "\<And>c i j. i \<in> sent ops n c \<Longrightarrow> receiver ops n c j \<Longrightarrow> hb ops i j"
    using Suc by auto
  have now: "hb ops i n" if "i \<in> known ops n (actor (ops ! n))" for i
    using K [OF that] target_self(1) [OF n] by blast
  have "hb ops i j" if "i \<in> known ops (Suc n) t" "target ops (Suc n) t j" for t i j
  proof (cases "i \<in> known ops n t")
    case True
    then show ?thesis using K target_mono that(2) by blast
  next
    case new: False
    show ?thesis
    proof (cases "ops ! n")
      case (Join me u)
      with that new have t: "t = me" and "i = n \<or> i \<in> known ops n u" by (auto simp: known_Suc split: if_splits)
      moreover have "hb ops n j" using hb_from_actor [of ops n j] that(2) Join t by simp
      ultimately show ?thesis using K target_self(2) [OF n Join] by (blast intro: hb.trans)
    next
      case (Wait me c)
      with that new have t: "t = me" and "i = n \<or> i \<in> sent ops n c" by (auto simp: known_Suc split: if_splits)
      moreover have "hb ops n j" using hb_from_actor [of ops n j] that(2) Wait t by simp
      ultimately show ?thesis using S target_self(3) [OF n Wait] by (blast intro: hb.trans)
    next
      case (Create me child)
      with that new have t: "t = me \<or> t = child" and "i = n \<or> i \<in> known ops n me" by (auto simp: known_Suc split: if_splits)
      moreover have "hb ops n j" using hb_from_actor [of ops n j] hb_from_create [OF Create, of j] that(2) Create t by auto
      ultimately show ?thesis using now Create by (auto intro: hb.trans)
    qed (use that new hb_from_actor [of ops n j] in \<open>auto simp: known_Suc split: if_splits\<close>)
  qed
  moreover have "hb ops i j" if "i \<in> sent ops (Suc n) c" "receiver ops (Suc n) c j" for c i j
  proof (cases "\<exists>me. ops ! n = Signal me c")
    case True
    then obtain me where me: "ops ! n = Signal me c" by blast
    with that(1) have "i = n \<or> i \<in> known ops n me" by (auto simp: known_Suc)
    with hb_from_signal [OF me that(2)] now me show ?thesis by (auto intro: hb.trans)
  next
    case False
    then have "i \<in> sent ops n c" using that(1) by (auto simp: known_Suc split: vc_op.splits)
    with S receiver_mono that(2) False show ?thesis by blast
  qed
  ultimately show ?case by blast
qed simp

text \<open>What is in the past of the operation at \<open>j\<close>.\<close>

definition past :: "vc_op list \<Rightarrow> nat \<Rightarrow> nat set" where
  "past ops j = known ops j (actor (ops ! j)) \<union>
     (case ops ! j of Join me u \<Rightarrow> known ops j u | Wait me c \<Rightarrow> sent ops j c | _ \<Rightarrow> {})"

lemma past_imp_hb: "j < length ops \<Longrightarrow> i \<in> past ops j \<Longrightarrow> hb ops i j"
  using known_imp_hb [of j ops] target_self [of j ops]
  by (auto simp: past_def split: vc_op.splits)

lemma known_Suc_past: "known ops (Suc n) (actor (ops ! n)) = insert n (past ops n)"
  by (cases "ops ! n") (auto simp: known_Suc past_def)

lemma known_closed:
  assumes "legal ops" and "n \<le> length ops"
  shows "(\<forall>t. \<forall>k \<in> known ops n t. past ops k \<subseteq> known ops n t) \<and> (\<forall>c. \<forall>k \<in> sent ops n c. past ops k \<subseteq> sent ops n c)"
  using assms(2)
proof (induction n)
  case (Suc n)
  then have K: "\<And>t k. k \<in> known ops n t \<Longrightarrow> past ops k \<subseteq> known ops n t" and S: "\<And>c k. k \<in> sent ops n c \<Longrightarrow> past ops k \<subseteq> sent ops n c"
    by auto
  have "past ops k \<subseteq> known ops (Suc n) t" if "k \<in> known ops (Suc n) t" for k t
    using that by (cases "ops ! n") (auto simp: known_Suc past_def [of ops n] split: if_splits dest: subsetD [OF K] subsetD [OF S])
  moreover have "past ops k \<subseteq> sent ops (Suc n) c" if "k \<in> sent ops (Suc n) c" for k c
    using that by (cases "ops ! n") (auto simp: known_Suc past_def [of ops n] split: if_splits dest: subsetD [OF K] subsetD [OF S])
  ultimately show ?case by blast
qed simp

lemma sent_since:
  assumes "ops ! i = Signal me c" and "i < j" and "\<And>k u. i < k \<Longrightarrow> k < j \<Longrightarrow> ops ! k \<noteq> Signal u c"
  shows "i \<in> sent ops j c"
  using assms(2,3)
proof (induction j)
  case (Suc j)
  show ?case
  proof (cases "i = j")
    case True
    then show ?thesis using assms(1) by (simp add: known_Suc)
  next
    case False
    then have "i \<in> sent ops j c" and "\<And>u. ops ! j \<noteq> Signal u c" using Suc by auto
    then show ?thesis by (auto simp: known_Suc split: vc_op.splits)
  qed
qed simp

lemma hb_imp_past:
  assumes "legal ops" and "hb ops i j"
  shows "i \<in> past ops j \<and> j < length ops"
  using assms(2)
proof induction
  case (program_order i j)
  have "i \<in> known ops (Suc i) (actor (ops ! i))" by (simp add: known_Suc_past)
  then have "i \<in> known ops j (actor (ops ! j))" using known_mono [OF assms(1), of "Suc i" j] program_order by auto
  with program_order show ?case by (simp add: past_def)
next
  case (create i j me)
  then have "i \<in> known ops (Suc i) (actor (ops ! j))" by (simp add: known_Suc)
  then have "i \<in> known ops j (actor (ops ! j))" using known_mono [OF assms(1), of "Suc i" j] create by auto
  with create show ?case by (simp add: past_def)
next
  case (join i j me)
  have "i \<in> known ops (Suc i) (actor (ops ! i))" by (simp add: known_Suc_past)
  then have "i \<in> known ops j (actor (ops ! i))" using known_mono [OF assms(1), of "Suc i" j] join by auto
  with join show ?case by (simp add: past_def)
next
  case (signal i j me c me')
  then have "i \<in> sent ops j c" using sent_since by blast
  with signal show ?case by (simp add: past_def)
next
  case (create_join i j me t me')
  then have "i \<in> known ops (Suc i) t" by (simp add: known_Suc)
  then have "i \<in> known ops j t" using known_mono [OF assms(1), of "Suc i" j] create_join by auto
  with create_join show ?case by (simp add: past_def)
next
  case (trans i j k)
  then have "past ops j \<subseteq> past ops k"
    using known_closed [OF assms(1), of k] by (fastforce simp: past_def [of ops k] split: vc_op.splits)
  with trans show ?case by blast
qed

lemma hb_iff_past: "legal ops \<Longrightarrow> j < length ops \<Longrightarrow> hb ops i j \<longleftrightarrow> i \<in> past ops j"
  using hb_imp_past past_imp_hb by blast


section \<open>Clocks measure histories\<close>

definition vclk :: "vc_op list \<Rightarrow> nat \<Rightarrow> thrID \<Rightarrow> thrID \<Rightarrow> int" where
  "vclk ops n = fst (clocks_at ops n)"

definition mclk :: "vc_op list \<Rightarrow> nat \<Rightarrow> addr \<Rightarrow> thrID \<Rightarrow> int" where
  "mclk ops n = snd (clocks_at ops n)"

lemma vclk_0: "vclk ops 0 t u = (if t = 0 \<and> u = 0 then 1 else 0)" "mclk ops 0 c u = 0"
  by (simp_all add: vclk_def mclk_def clocks_at_def)

lemma vclk_Suc:
  assumes "legal ops" and "n < length ops"
  shows "vclk ops (Suc n) t u =
     (case ops ! n of
        Access me \<Rightarrow> vclk ops n t u
      | Join me v \<Rightarrow> if t = me then max (vclk ops n me u) (vclk ops n v u) else vclk ops n t u
      | Signal me c \<Rightarrow> if t = me \<and> u = me then vclk ops n t u + 1 else vclk ops n t u
      | Wait me c \<Rightarrow> if t = me then max (vclk ops n me u) (mclk ops n c u) else vclk ops n t u
      | Create me child \<Rightarrow>
          if t = child then (if u = child then vclk ops n me u + 1 else vclk ops n me u)
          else if t = me \<and> u = me then vclk ops n t u + 1 else vclk ops n t u)"
    "mclk ops (Suc n) c u = (case ops ! n of Signal me d \<Rightarrow> if c = d then vclk ops n me u else mclk ops n c u | _ \<Rightarrow> mclk ops n c u)"
proof -
  have ne: "me \<noteq> child" if "ops ! n = Create me child" for me child
    using legalD(1,3) [OF assms] that by auto
  then show "vclk ops (Suc n) t u =
     (case ops ! n of
        Access me \<Rightarrow> vclk ops n t u
      | Join me v \<Rightarrow> if t = me then max (vclk ops n me u) (vclk ops n v u) else vclk ops n t u
      | Signal me c \<Rightarrow> if t = me \<and> u = me then vclk ops n t u + 1 else vclk ops n t u
      | Wait me c \<Rightarrow> if t = me then max (vclk ops n me u) (mclk ops n c u) else vclk ops n t u
      | Create me child \<Rightarrow>
          if t = child then (if u = child then vclk ops n me u + 1 else vclk ops n me u)
          else if t = me \<and> u = me then vclk ops n t u + 1 else vclk ops n t u)"
    using assms(2) by (cases "clocks_at ops n"; cases "ops ! n") (auto simp: vclk_def mclk_def clocks_at_Suc tick_def join_vc_def)
  show "mclk ops (Suc n) c u = (case ops ! n of Signal me d \<Rightarrow> if c = d then vclk ops n me u else mclk ops n c u | _ \<Rightarrow> mclk ops n c u)"
    using assms(2) by (cases "clocks_at ops n"; cases "ops ! n") (auto simp: vclk_def mclk_def clocks_at_Suc)
qed

lemma vclk_basic:
  assumes "legal ops" and "n \<le> length ops"
  shows "(\<forall>t u. 0 \<le> vclk ops n t u) \<and> (\<forall>c u. 0 \<le> mclk ops n c u) \<and>
    (\<forall>u. \<not> started ops n u \<longrightarrow> (\<forall>t. vclk ops n t u = 0 \<and> vclk ops n u t = 0) \<and> (\<forall>c. mclk ops n c u = 0)) \<and>
    (\<forall>u. started ops n u \<longrightarrow> 1 \<le> vclk ops n u u)"
  using assms(2)
proof (induction n)
  case 0
  show ?case by (auto simp: vclk_0 started_def)
next
  case (Suc n)
  then have n: "n < length ops" by simp
  from Suc have nonneg: "\<And>t u. 0 \<le> vclk ops n t u" "\<And>c u. 0 \<le> mclk ops n c u"
    and zero: "\<And>u t. \<not> started ops n u \<Longrightarrow> vclk ops n t u = 0 \<and> vclk ops n u t = 0" "\<And>u c. \<not> started ops n u \<Longrightarrow> mclk ops n c u = 0"
    and one: "\<And>u. started ops n u \<Longrightarrow> 1 \<le> vclk ops n u u" by auto
  note me = legalD [OF assms(1) n]
  have "0 \<le> vclk ops (Suc n) t u" "0 \<le> mclk ops (Suc n) c u" for t u c
    using nonneg by (cases "ops ! n"; simp add: vclk_Suc [OF assms(1) n] le_max_iff_disj)+
  moreover have "vclk ops (Suc n) t u = 0 \<and> vclk ops (Suc n) u t = 0" "mclk ops (Suc n) c u = 0" if "\<not> started ops (Suc n) u" for t u c
  proof -
    have u: "\<not> started ops n u" and ne: "\<nexists>p. ops ! n = Create p u" using that by (auto simp: started_Suc)
    have z: "vclk ops n t u = 0" "vclk ops n u t = 0" "mclk ops n c u = 0" for t c using zero u by blast+
    have a: "actor (ops ! n) \<noteq> u" and b: "case ops ! n of Create p ch \<Rightarrow> ch \<noteq> u | Join p x \<Rightarrow> x \<noteq> u | _ \<Rightarrow> True"
      using me u ne by (auto split: vc_op.splits)
    show "vclk ops (Suc n) t u = 0 \<and> vclk ops (Suc n) u t = 0" "mclk ops (Suc n) c u = 0"
      using a b by (cases "ops ! n"; simp add: vclk_Suc [OF assms(1) n] z)+
  qed
  moreover have "1 \<le> vclk ops (Suc n) u u" if "started ops (Suc n) u" for u
  proof (cases "\<exists>me. ops ! n = Create me u")
    case True
    then show ?thesis using nonneg by (auto simp: vclk_Suc [OF assms(1) n])
  next
    case False
    then have "1 \<le> vclk ops n u u" using that one by (simp add: started_Suc)
    with False show ?thesis by (auto simp: vclk_Suc [OF assms(1) n] split: vc_op.splits)
  qed
  ultimately show ?case by blast
qed

text \<open>The entry of a thread that still acts is ahead of what anybody else knows of it.\<close>

lemma vclk_ahead:
  assumes "legal ops" and "n \<le> length ops"
  shows "\<forall>u. started ops n u \<and> \<not> joined ops n u \<longrightarrow>
     (\<forall>t. t \<noteq> u \<longrightarrow> vclk ops n t u < vclk ops n u u) \<and> (\<forall>c. mclk ops n c u < vclk ops n u u)"
  using assms(2)
proof (induction n)
  case 0
  show ?case by (auto simp: vclk_0 started_def)
next
  case (Suc n)
  then have n: "n < length ops" by simp
  note me = legalD [OF assms(1) n] and basic = vclk_basic [OF assms(1), of n]
  have V: "\<And>t u. started ops n u \<Longrightarrow> \<not> joined ops n u \<Longrightarrow> t \<noteq> u \<Longrightarrow> vclk ops n t u < vclk ops n u u"
    and M: "\<And>c u. started ops n u \<Longrightarrow> \<not> joined ops n u \<Longrightarrow> mclk ops n c u < vclk ops n u u"
    using Suc by auto
  have "(\<forall>t. t \<noteq> u \<longrightarrow> vclk ops (Suc n) t u < vclk ops (Suc n) u u) \<and> (\<forall>c. mclk ops (Suc n) c u < vclk ops (Suc n) u u)"
    if "started ops (Suc n) u" "\<not> joined ops (Suc n) u" for u
  proof (cases "\<exists>me. ops ! n = Create me u")
    case True
    then obtain p where p: "ops ! n = Create p u" by blast
    then have "\<not> started ops n u" using me(3) by blast
    with basic n p show ?thesis by (auto simp: vclk_Suc [OF assms(1) n])
  next
    case False
    then have u: "started ops n u" "\<not> joined ops n u" "\<And>me. ops ! n \<noteq> Join me u" using that by (auto simp: started_Suc joined_Suc)
    have less: "\<And>t. t \<noteq> u \<Longrightarrow> vclk ops n t u < vclk ops n u u" "\<And>c. mclk ops n c u < vclk ops n u u" using V M u by blast+
    show ?thesis
      using u(3) False me
      by (cases "ops ! n") (simp_all add: vclk_Suc [OF assms(1) n] less, auto simp: less_max_iff_disj less intro: less_imp_le less)
  qed
  then show ?case by blast
qed


lemma own_known:
  assumes "legal ops" and "i < n" and "n \<le> length ops"
  shows "i \<in> known ops n (actor (ops ! i))"
proof -
  have "i \<in> known ops (Suc i) (actor (ops ! i))" by (simp add: known_Suc_past)
  then show ?thesis using known_mono [OF assms(1), of "Suc i" n] assms(2,3) by auto
qed

lemma started_mono: "started ops i t \<Longrightarrow> i \<le> n \<Longrightarrow> started ops n t"
  by (auto simp: started_def)

definition epoch :: "vc_op list \<Rightarrow> nat \<Rightarrow> int" where
  "epoch ops i = vclk ops i (actor (ops ! i)) (actor (ops ! i))"

lemma measures_now:
  assumes "legal ops" and "n < length ops"
  shows "n \<in> known ops (Suc n) t \<longleftrightarrow> epoch ops n \<le> vclk ops (Suc n) t (actor (ops ! n))"
    "n \<in> sent ops (Suc n) c \<longleftrightarrow> epoch ops n \<le> mclk ops (Suc n) c (actor (ops ! n))"
proof -
  let ?p = "actor (ops ! n)"
  note leg = legalD [OF assms]
  have fresh: "n \<notin> known ops n t" "n \<notin> sent ops n c" for t c using known_less by blast+
  have ahead: "\<And>t. t \<noteq> ?p \<Longrightarrow> vclk ops n t ?p < vclk ops n ?p ?p" "\<And>c. mclk ops n c ?p < vclk ops n ?p ?p"
    using vclk_ahead [OF assms(1), of n] leg(1,2) assms(2) by auto
  show "n \<in> known ops (Suc n) t \<longleftrightarrow> epoch ops n \<le> vclk ops (Suc n) t ?p"
    using leg(1,3) ahead(1) [of t] fresh
    by (cases "ops ! n") (auto simp: epoch_def known_Suc vclk_Suc [OF assms])
  show "n \<in> sent ops (Suc n) c \<longleftrightarrow> epoch ops n \<le> mclk ops (Suc n) c ?p"
    using ahead(2) [of c] fresh by (cases "ops ! n") (auto simp: epoch_def known_Suc vclk_Suc [OF assms])
qed

lemma vclk_measures:
  assumes "legal ops" and "n \<le> length ops"
  shows "(\<forall>t. \<forall>i < n. i \<in> known ops n t \<longleftrightarrow> epoch ops i \<le> vclk ops n t (actor (ops ! i))) \<and>
     (\<forall>c. \<forall>i < n. i \<in> sent ops n c \<longleftrightarrow> epoch ops i \<le> mclk ops n c (actor (ops ! i)))"
  using assms(2)
proof (induction n)
  case (Suc n)
  then have n: "n < length ops" by simp
  have K: "\<And>t i. i < n \<Longrightarrow> i \<in> known ops n t \<longleftrightarrow> epoch ops i \<le> vclk ops n t (actor (ops ! i))"
    and S: "\<And>c i. i < n \<Longrightarrow> i \<in> sent ops n c \<longleftrightarrow> epoch ops i \<le> mclk ops n c (actor (ops ! i))"
    using Suc by auto
  have old: "(i \<in> known ops (Suc n) t \<longleftrightarrow> epoch ops i \<le> vclk ops (Suc n) t (actor (ops ! i))) \<and>
      (i \<in> sent ops (Suc n) c \<longleftrightarrow> epoch ops i \<le> mclk ops (Suc n) c (actor (ops ! i)))" if i: "i < n" for i t c
  proof -
    have own: "epoch ops i \<le> vclk ops n (actor (ops ! i)) (actor (ops ! i))"
      using own_known [OF assms(1) i] K [OF i] n by simp
    have "started ops i (actor (ops ! i))" using legalD(1) [OF assms(1), of i] i n by simp
    then have st: "started ops n (actor (ops ! i))" by (rule started_mono) (use i in simp)
    have ne: "actor (ops ! i) \<noteq> child" if "ops ! n = Create me child" for me child
      using legalD(3) [OF assms(1) n that] st by auto
    show ?thesis
      using own ne i
      by (cases "ops ! n") (auto simp: known_Suc vclk_Suc [OF assms(1) n] K [OF i] S [OF i] le_max_iff_disj)
  qed
  show ?case
  proof (intro conjI allI impI)
    fix t i assume "i < Suc n"
    then show "i \<in> known ops (Suc n) t \<longleftrightarrow> epoch ops i \<le> vclk ops (Suc n) t (actor (ops ! i))"
      using old measures_now(1) [OF assms(1) n] by (cases "i = n") auto
  next
    fix c i assume "i < Suc n"
    then show "i \<in> sent ops (Suc n) c \<longleftrightarrow> epoch ops i \<le> mclk ops (Suc n) c (actor (ops ! i))"
      using old measures_now(2) [OF assms(1) n] by (cases "i = n") auto
  qed
qed simp

text \<open>Whoever knows a position is at least at the clock of that position.\<close>

lemma vclk_includes:
  assumes "legal ops" and "n \<le> length ops"
  shows "(\<forall>t. \<forall>i \<in> known ops n t. \<forall>w. vclk ops i (actor (ops ! i)) w \<le> vclk ops n t w) \<and>
     (\<forall>c. \<forall>i \<in> sent ops n c. \<forall>w. vclk ops i (actor (ops ! i)) w \<le> mclk ops n c w)"
  using assms(2)
proof (induction n)
  case (Suc n)
  then have n: "n < length ops" by simp
  have K: "\<And>t i w. i \<in> known ops n t \<Longrightarrow> vclk ops i (actor (ops ! i)) w \<le> vclk ops n t w"
    and S: "\<And>c i w. i \<in> sent ops n c \<Longrightarrow> vclk ops i (actor (ops ! i)) w \<le> mclk ops n c w"
    using Suc by auto
  have "vclk ops i (actor (ops ! i)) w \<le> vclk ops (Suc n) t w" if "i \<in> known ops (Suc n) t" for i t w
    using that by (cases "ops ! n") (auto simp: known_Suc vclk_Suc [OF assms(1) n] le_max_iff_disj split: if_splits dest: K [of _ _ w] S [of _ _ w])
  moreover have "vclk ops i (actor (ops ! i)) w \<le> mclk ops (Suc n) c w" if "i \<in> sent ops (Suc n) c" for i c w
    using that by (cases "ops ! n") (auto simp: known_Suc vclk_Suc [OF assms(1) n] split: if_splits dest: K [of _ _ w] S [of _ _ w])
  ultimately show ?case by blast
qed simp


section \<open>Clocks decide happens-before\<close>

lemma clock_at_entry: "vc_ok (clock_at ops i)" "entry (clock_at ops i) = vclk ops i (actor (ops ! i))"
proof -
  have "vct_ok (state_at ops i)" and abs: "fst (abs_clocks (state_at ops i)) = vclk ops i"
    using abs_state_at [of ops i] by (simp_all add: vclk_def)
  then show "vc_ok (clock_at ops i)" by (simp add: clock_at_def getVectorClock_def vct_ok_def)
  from fun_cong [OF abs, of "actor (ops ! i)"] show "entry (clock_at ops i) = vclk ops i (actor (ops ! i))"
    by (simp add: clock_at_def getVectorClock_def abs_clocks_def)
qed

lemma clocks_ordered:
  assumes "legal ops" and "i < j" and "j < length ops" and "ops ! j = Access u"
  shows "isHappensBefore (clock_at ops i) (clock_at ops j) \<longleftrightarrow> hb ops i j"
proof -
  have past: "hb ops i j \<longleftrightarrow> i \<in> known ops j u" using hb_iff_past [OF assms(1,3)] assms(4) by (simp add: past_def)
  have leq: "isHappensBefore (clock_at ops i) (clock_at ops j) \<longleftrightarrow> (\<forall>w. vclk ops i (actor (ops ! i)) w \<le> vclk ops j u w)"
    using assms(4) by (simp add: isHappensBefore_iff clock_at_entry)
  have "i \<in> known ops j u \<longleftrightarrow> epoch ops i \<le> vclk ops j u (actor (ops ! i))"
    using vclk_measures [OF assms(1), of j] assms(2,3) by simp
  moreover have "\<forall>w. vclk ops i (actor (ops ! i)) w \<le> vclk ops j u w" if "i \<in> known ops j u"
    using vclk_includes [OF assms(1), of j] assms(3) that by auto
  ultimately show ?thesis unfolding past leq epoch_def by blast
qed

lemma clocks_not_backwards:
  assumes "legal ops" and "i < j" and "j < length ops" and "actor (ops ! i) \<noteq> actor (ops ! j)"
  shows "\<not> isHappensBefore (clock_at ops j) (clock_at ops i)"
proof
  let ?t = "actor (ops ! i)" and ?u = "actor (ops ! j)"
  assume "isHappensBefore (clock_at ops j) (clock_at ops i)"
  then have le: "vclk ops j ?u ?u \<le> vclk ops i ?t ?u" by (simp add: isHappensBefore_iff clock_at_entry)
  have j: "started ops j ?u" "\<not> joined ops j ?u" using legalD(1,2) [OF assms(1,3)] by blast+
  have one: "1 \<le> vclk ops j ?u ?u" using vclk_basic [OF assms(1), of j] assms(3) j(1) by auto
  show False
  proof (cases "started ops i ?u")
    case False
    then have "vclk ops i ?t ?u = 0" using vclk_basic [OF assms(1), of i] assms(2,3) by auto
    with le one show False by simp
  next
    case True
    have "\<not> joined ops i ?u" using j(2) assms(2) by (auto simp: joined_def)
    then have "vclk ops i ?t ?u < vclk ops i ?u ?u"
      using vclk_ahead [OF assms(1), of i] True assms(2-4) by auto
    moreover have "vclk ops i ?u ?u \<le> vclk ops n ?u ?u" if "i \<le> n" "n \<le> j" for n
      using that
    proof (induction n)
      case (Suc n)
      show ?case
      proof (cases "i = Suc n")
        case False
        then have IH: "vclk ops i ?u ?u \<le> vclk ops n ?u ?u" and n: "n < length ops" using Suc assms(3) by auto
        have "ops ! n \<noteq> Create me ?u" for me
          using legalD(3) [OF assms(1) n] started_mono [OF True, of n] Suc.prems False by auto
        then have "vclk ops n ?u ?u \<le> vclk ops (Suc n) ?u ?u"
          by (auto simp: vclk_Suc [OF assms(1) n] split: vc_op.splits)
        with IH show ?thesis by simp
      qed simp
    qed simp
    ultimately show False using le assms(2) by (meson leD less_imp_le order.trans order_refl)
  qed
qed

text \<open>
  C10: Vector clocks decide happens-before. In a legal run (threads act after they have been created and before they
  have been joined), take two positions, the later one an access. The clocks recorded at them
  compare exactly as the positions are ordered by happens-before, that is by program order, thread creation and
  join, and the last signal before a wait; and the clock of the later position is never below
  that of an earlier one of another thread. So two accesses of different threads have
  incomparable clocks exactly if neither happens before the other.
\<close>

theorem vector_clocks_decide_happens_before:
  assumes "legal ops" and "i < j" and "j < length ops" and "ops ! j = Access u"
  shows "(isHappensBefore (clock_at ops i) (clock_at ops j) \<longleftrightarrow> hb ops i j) \<and>
     (actor (ops ! i) \<noteq> u \<longrightarrow> \<not> isHappensBefore (clock_at ops j) (clock_at ops i))"
  using clocks_ordered [OF assms] clocks_not_backwards [OF assms(1-3)] assms(4) by simp

definition vc_demo :: "vc_op list" where
  "vc_demo = [Access 0, Create 0 1, Access 0, Access 1]"

lemma legal_vc_demo: "legal vc_demo"
  by (auto simp: legal_def vc_demo_def started_def joined_def less_Suc_eq nth_Cons' numeral_eq_Suc)

theorem vector_clocks_decide_happens_before_witness:
  "isHappensBefore (clock_at vc_demo 0) (clock_at vc_demo 3) \<and> \<not> isHappensBefore (clock_at vc_demo 3) (clock_at vc_demo 2) \<and> hb vc_demo 0 3"
proof -
  have "hb vc_demo 0 1" by (rule hb.program_order) (simp_all add: vc_demo_def)
  moreover have "hb vc_demo 1 3" by (rule hb.create [where me = 0]) (simp_all add: vc_demo_def)
  ultimately have "hb vc_demo 0 3" by (rule hb.trans)
  then show ?thesis
    using vector_clocks_decide_happens_before [OF legal_vc_demo, of 0 3 1] vector_clocks_decide_happens_before [OF legal_vc_demo, of 2 3 1]
    by (simp add: vc_demo_def)
qed

end
