(* ===== verification/Hybrid_Race.thy ===== *)
theory Hybrid_Race
  imports Vector_Clock C_String "HOL-Library.FSet"
begin

text \<open>
  The hybrid race detector: lock sets (\<open>src/racer/locktrack.cpp\<close>), events and race records
  (\<open>hybridtypes.h\<close>), the tracker (\<open>hybridtrack.cpp\<close>) and the handler that feeds it (\<open>libracer.cpp\<close>).
  The main result connects the report at the end of a run with the run itself: a pair of
  program locations is reported exactly if two kept accesses at them conflict, neither happens before the other, and no lock
  was held at both.

  Every handler runs between \<open>lock()\<close> and \<open>unlock()\<close>, so a run is a sequence of handlers. Console
  output is left out.
\<close>

section \<open>Lock sets\<close>

type_synonym lockSet = "addr fset"

record LockSetTracker =
  lockmap :: "(thrID, lockSet) cmap"

definition new_LockSetTracker :: LockSetTracker where
  "new_LockSetTracker = \<lparr>lockmap = []\<rparr>"

definition getLockSet :: "thrID \<Rightarrow> LockSetTracker \<Rightarrow> lockSet \<times> LockSetTracker" where
  "getLockSet t s = (cm_get {||} (lockmap s) t, s\<lparr>lockmap := cm_touch {||} t (lockmap s)\<rparr>)"

definition lockBefore :: "thrID \<Rightarrow> addr \<Rightarrow> LockSetTracker \<Rightarrow> LockSetTracker" where
  "lockBefore t l s = s\<lparr>lockmap := cm_put t (finsert l (cm_get {||} (lockmap s) t)) (lockmap s)\<rparr>"

definition unlockAfter :: "thrID \<Rightarrow> addr \<Rightarrow> LockSetTracker \<Rightarrow> LockSetTracker" where
  "unlockAfter t l s =
     (let thels = cm_get {||} (lockmap s) t
      in if l |\<notin>| thels then s\<lparr>lockmap := cm_touch {||} t (lockmap s)\<rparr>
         else s\<lparr>lockmap := cm_put t (thels |-| {|l|}) (lockmap s)\<rparr>)"

definition isIntersectionEmpty :: "lockSet \<Rightarrow> lockSet \<Rightarrow> bool" where
  "isIntersectionEmpty l1 l2 = fBall l1 (\<lambda>l. l |\<notin>| l2)"

section \<open>Events and records\<close>

record raceEvent =
  re_thread :: thrID
  re_addr :: addr
  re_isread :: bool
  re_vc :: vectorClock
  re_ls :: lockSet

record dataRaceEvent = raceEvent +
  re_iid :: addr

definition mk_dataRaceEvent :: "addr \<Rightarrow> thrID \<Rightarrow> addr \<Rightarrow> bool \<Rightarrow> vectorClock \<Rightarrow> lockSet \<Rightarrow> dataRaceEvent" where
  "mk_dataRaceEvent i t a r v l = \<lparr>re_thread = t, re_addr = a, re_isread = r, re_vc = v, re_ls = l, re_iid = i\<rparr>"

record lockRaceEvent = raceEvent +
  re_lock :: addr

definition mk_lockRaceEvent :: "addr \<Rightarrow> thrID \<Rightarrow> addr \<Rightarrow> bool \<Rightarrow> vectorClock \<Rightarrow> lockSet \<Rightarrow> lockRaceEvent" where
  "mk_lockRaceEvent k t a r v l = \<lparr>re_thread = t, re_addr = a, re_isread = r, re_vc = v, re_ls = l, re_lock = k\<rparr>"

datatype raceRecord = RaceRecord (rec_left: addr) (rec_right: addr)

text \<open>The constructors of \<open>dataRaceRecord\<close> and \<open>lockRaceRecord\<close> put the smaller identifier on the left.\<close>

definition mk_dataRaceRecord :: "addr \<Rightarrow> addr \<Rightarrow> raceRecord" where
  "mk_dataRaceRecord l r = (if l < r then RaceRecord l r else RaceRecord r l)"

definition mk_lockRaceRecord :: "addr \<Rightarrow> addr \<Rightarrow> raceRecord" where
  "mk_lockRaceRecord l r = (if l < r then RaceRecord l r else RaceRecord r l)"

text \<open>\<open>operator==\<close> and \<open>operator<\<close> of the records.\<close>

definition record_eq :: "raceRecord \<Rightarrow> raceRecord \<Rightarrow> bool" where
  "record_eq r1 r2 =
     (if rec_left r1 = rec_left r2 \<and> rec_right r1 = rec_right r2 then True
      else if rec_left r1 = rec_right r2 \<and> rec_right r1 = rec_left r2 then True
      else False)"

instantiation raceRecord :: linorder
begin

definition less_raceRecord :: "raceRecord \<Rightarrow> raceRecord \<Rightarrow> bool" where
  "less_raceRecord r c = (if rec_left r = rec_left c then rec_right r < rec_right c else rec_left r < rec_left c)"

definition less_eq_raceRecord :: "raceRecord \<Rightarrow> raceRecord \<Rightarrow> bool" where
  "less_eq_raceRecord r c = (r = c \<or> r < c)"

instance
  by standard (auto simp: less_raceRecord_def less_eq_raceRecord_def raceRecord.expand split: if_splits)

end

text \<open>\<open>operator<\<close> of events, for use in sets: it looks at the location and the thread only.\<close>

definition dataRaceEvent_less :: "dataRaceEvent \<Rightarrow> dataRaceEvent \<Rightarrow> bool" where
  "dataRaceEvent_less e c = (if re_iid e \<noteq> re_iid c then re_iid e < re_iid c else re_thread e < re_thread c)"

section \<open>The tracker\<close>

record HybridRaceTracker =
  vsTracker :: VectorClockTracker
  lsTracker :: LockSetTracker
  eventset :: "(addr, dataRaceEvent list) cmap"
  foundraces :: "raceRecord list"
  wr_profile_size :: nat
  rd_profile_size :: nat

definition new_HybridRaceTracker :: "nat \<Rightarrow> nat \<Rightarrow> HybridRaceTracker" where
  "new_HybridRaceTracker wr rd = \<lparr>vsTracker = new_VectorClockTracker, lsTracker = new_LockSetTracker,
     eventset = [], foundraces = [], wr_profile_size = wr, rd_profile_size = rd\<rparr>"

definition isRacing :: "'a raceEvent_scheme \<Rightarrow> 'a raceEvent_scheme \<Rightarrow> bool" where
  "isRacing e1 e2 =
     (if re_thread e1 = re_thread e2 then False
      else if re_addr e1 \<noteq> re_addr e2 then False
      else if re_isread e1 \<and> re_isread e2 then False
      else if isHappensBefore (re_vc e1) (re_vc e2) then False
      else if isHappensBefore (re_vc e2) (re_vc e1) then False
      else if \<not> isIntersectionEmpty (re_ls e1) (re_ls e2) then False
      else True)"

definition add_record :: "raceRecord \<Rightarrow> raceRecord list \<Rightarrow> raceRecord list" where
  "add_record r rs = (if list_ex (\<lambda>x. record_eq x r) rs then rs else rs @ [r])"

definition checkRace :: "dataRaceEvent \<Rightarrow> 'a HybridRaceTracker_scheme \<Rightarrow> 'a HybridRaceTracker_scheme" where
  "checkRace e h =
     h\<lparr>eventset := cm_touch [] (re_addr e) (eventset h),
       foundraces := foldl (\<lambda>rs e'. if isRacing e e' then add_record (mk_dataRaceRecord (re_iid e) (re_iid e')) rs else rs)
         (foundraces h) (cm_get [] (eventset h) (re_addr e))\<rparr>"

definition addEvent :: "dataRaceEvent \<Rightarrow> 'a HybridRaceTracker_scheme \<Rightarrow> 'a HybridRaceTracker_scheme" where
  "addEvent e h =
     (let eset = cm_get [] (eventset h) (re_addr e);
          eset' = (if re_isread e
                   then (if length eset < rd_profile_size h then eset @ [e] else eset)
                   else (if length eset < rd_profile_size h then eset @ [e] else eset))
      in h\<lparr>eventset := cm_put (re_addr e) eset' (eventset h)\<rparr>)"

definition hrt_afterJoin :: "thrID \<Rightarrow> thrID \<Rightarrow> 'a HybridRaceTracker_scheme \<Rightarrow> 'a HybridRaceTracker_scheme" where
  "hrt_afterJoin me u h = h\<lparr>vsTracker := afterJoin me u (vsTracker h)\<rparr>"

definition hrt_beforeSignal :: "thrID \<Rightarrow> addr \<Rightarrow> 'a HybridRaceTracker_scheme \<Rightarrow> 'a HybridRaceTracker_scheme" where
  "hrt_beforeSignal me c h = h\<lparr>vsTracker := beforeSignal me c (vsTracker h)\<rparr>"

definition hrt_afterWait :: "thrID \<Rightarrow> addr \<Rightarrow> 'a HybridRaceTracker_scheme \<Rightarrow> 'a HybridRaceTracker_scheme" where
  "hrt_afterWait me c h = h\<lparr>vsTracker := afterWait me c (vsTracker h)\<rparr>"

definition hrt_beforeCreate :: "thrID \<Rightarrow> thrID \<Rightarrow> 'a HybridRaceTracker_scheme \<Rightarrow> 'a HybridRaceTracker_scheme" where
  "hrt_beforeCreate me u h = h\<lparr>vsTracker := beforeCreate me u (vsTracker h)\<rparr>"

definition hrt_lockBefore :: "thrID \<Rightarrow> addr \<Rightarrow> 'a HybridRaceTracker_scheme \<Rightarrow> 'a HybridRaceTracker_scheme" where
  "hrt_lockBefore t l h = h\<lparr>lsTracker := lockBefore t l (lsTracker h)\<rparr>"

definition hrt_unlockAfter :: "thrID \<Rightarrow> addr \<Rightarrow> 'a HybridRaceTracker_scheme \<Rightarrow> 'a HybridRaceTracker_scheme" where
  "hrt_unlockAfter t l h = h\<lparr>lsTracker := unlockAfter t l (lsTracker h)\<rparr>"

definition hrt_getLockSet :: "thrID \<Rightarrow> 'a HybridRaceTracker_scheme \<Rightarrow> lockSet \<times> 'a HybridRaceTracker_scheme" where
  "hrt_getLockSet t h = (let (l, s) = getLockSet t (lsTracker h) in (l, h\<lparr>lsTracker := s\<rparr>))"

definition hrt_getVectorClock :: "thrID \<Rightarrow> 'a HybridRaceTracker_scheme \<Rightarrow> vectorClock \<times> 'a HybridRaceTracker_scheme" where
  "hrt_getVectorClock t h = (let (v, s) = getVectorClock t (vsTracker h) in (v, h\<lparr>vsTracker := s\<rparr>))"

text \<open>The pass over all events at the end of a run.\<close>

definition check_all :: "'a HybridRaceTracker_scheme \<Rightarrow> 'a HybridRaceTracker_scheme" where
  "check_all h = foldl (\<lambda>h (a, evs). foldl (\<lambda>h e. checkRace e h) h evs) h (eventset h)"

text \<open>A pointer written to a C++ stream, and the lines of \<open>dumpRaces\<close>.\<close>

definition ostream_p :: "addr \<Rightarrow> string" where
  "ostream_p a = (if a = NULL then ''0'' else printf_p a)"

definition dumpRaces :: "'a HybridRaceTracker_scheme \<Rightarrow> string" where
  "dumpRaces h = concat (map (\<lambda>r. ostream_p (rec_left r) @ '','' @ ostream_p (rec_right r) @ [newline]) (foundraces h))"

text \<open>The tracker at the end, and the text of \<open>races.log\<close>.\<close>

definition outputRaces :: "'a HybridRaceTracker_scheme \<Rightarrow> string \<times> 'a HybridRaceTracker_scheme" where
  "outputRaces h = (let h' = check_all h in (dumpRaces h', h'))"

definition addLockEvent :: "lockRaceEvent \<Rightarrow> 'a HybridRaceTracker_scheme \<Rightarrow> 'a HybridRaceTracker_scheme" where
  "addLockEvent e h = h"

section \<open>The handler\<close>

text \<open>The functions of the tracker that a subclass overrides.\<close>

record 't race_methods =
  rm_beforeSignal :: "thrID \<Rightarrow> addr \<Rightarrow> 't \<Rightarrow> 't"
  rm_afterWait :: "thrID \<Rightarrow> addr \<Rightarrow> 't \<Rightarrow> 't"
  rm_addLockEvent :: "lockRaceEvent \<Rightarrow> 't \<Rightarrow> 't"

definition hybrid_methods :: "'a HybridRaceTracker_scheme race_methods" where
  "hybrid_methods = \<lparr>rm_beforeSignal = hrt_beforeSignal, rm_afterWait = hrt_afterWait, rm_addLockEvent = addLockEvent\<rparr>"

record 't RacerHandler =
  eb :: 't
  finish_map :: "(thrID, bool) cmap"

definition new_RacerHandler :: "thrID \<Rightarrow> HybridRaceTracker RacerHandler" where
  "new_RacerHandler myself = \<lparr>eb = new_HybridRaceTracker 5 5, finish_map = [(myself, False)]\<rparr>"

definition on_eb :: "('t \<Rightarrow> 't) \<Rightarrow> 't RacerHandler \<Rightarrow> 't RacerHandler" where
  "on_eb f r = r\<lparr>eb := f (eb r)\<rparr>"

definition racer_BeforeCreate :: "thrID \<Rightarrow> thrID \<Rightarrow> 'a HybridRaceTracker_scheme RacerHandler \<Rightarrow> 'a HybridRaceTracker_scheme RacerHandler" where
  "racer_BeforeCreate me child r = on_eb (hrt_beforeCreate me child) (r\<lparr>finish_map := cm_put child False (finish_map r)\<rparr>)"

definition racer_AfterJoin :: "thrID \<Rightarrow> thrID \<Rightarrow> 'a HybridRaceTracker_scheme RacerHandler \<Rightarrow> 'a HybridRaceTracker_scheme RacerHandler" where
  "racer_AfterJoin me u = on_eb (hrt_afterJoin me u)"

definition lock_event :: "'a HybridRaceTracker_scheme race_methods \<Rightarrow> thrID \<Rightarrow> addr \<Rightarrow> addr \<Rightarrow> 'a HybridRaceTracker_scheme \<Rightarrow> 'a HybridRaceTracker_scheme" where
  "lock_event rm me ret_addr mutex h =
     (let (v, h1) = hrt_getVectorClock me h; (l, h2) = hrt_getLockSet me h1
      in rm_addLockEvent rm (mk_lockRaceEvent ret_addr me mutex False v l) h2)"

definition racer_BeforeMutexLock :: "'a HybridRaceTracker_scheme race_methods \<Rightarrow> thrID \<Rightarrow> addr \<Rightarrow> addr \<Rightarrow> 'a HybridRaceTracker_scheme RacerHandler \<Rightarrow> 'a HybridRaceTracker_scheme RacerHandler" where
  "racer_BeforeMutexLock rm me ret_addr mutex r = on_eb (hrt_lockBefore me mutex) (on_eb (lock_event rm me ret_addr mutex) r)"

definition racer_AfterMutexUnlock :: "thrID \<Rightarrow> addr \<Rightarrow> 'a HybridRaceTracker_scheme RacerHandler \<Rightarrow> 'a HybridRaceTracker_scheme RacerHandler" where
  "racer_AfterMutexUnlock me mutex = on_eb (hrt_unlockAfter me mutex)"

definition racer_AfterCondWait :: "'a HybridRaceTracker_scheme race_methods \<Rightarrow> thrID \<Rightarrow> addr \<Rightarrow> 'a HybridRaceTracker_scheme RacerHandler \<Rightarrow> 'a HybridRaceTracker_scheme RacerHandler" where
  "racer_AfterCondWait rm me c = on_eb (rm_afterWait rm me c)"

definition racer_AfterCondTimedwait :: "'a HybridRaceTracker_scheme race_methods \<Rightarrow> thrID \<Rightarrow> int \<Rightarrow> addr \<Rightarrow> 'a HybridRaceTracker_scheme RacerHandler \<Rightarrow> 'a HybridRaceTracker_scheme RacerHandler" where
  "racer_AfterCondTimedwait rm me ret_val c r = (if ret_val = 0 then on_eb (rm_afterWait rm me c) r else r)"

definition racer_BeforeCondSignal :: "'a HybridRaceTracker_scheme race_methods \<Rightarrow> thrID \<Rightarrow> addr \<Rightarrow> 'a HybridRaceTracker_scheme RacerHandler \<Rightarrow> 'a HybridRaceTracker_scheme RacerHandler" where
  "racer_BeforeCondSignal rm me c = on_eb (rm_beforeSignal rm me c)"

definition racer_BeforeCondBroadcast :: "'a HybridRaceTracker_scheme race_methods \<Rightarrow> thrID \<Rightarrow> addr \<Rightarrow> 'a HybridRaceTracker_scheme RacerHandler \<Rightarrow> 'a HybridRaceTracker_scheme RacerHandler" where
  "racer_BeforeCondBroadcast rm me c = on_eb (rm_beforeSignal rm me c)"

definition racer_ThreadFinish :: "thrID \<Rightarrow> ('t RacerHandler, unit) tm" where
  "racer_ThreadFinish me r =
     (if cm_get False (finish_map r) me then Inl (SafeAssert ''false'', r)
      else Inr ((), r\<lparr>finish_map := cm_put me True (finish_map r)\<rparr>))"

definition racer_BeforeExit :: "thrID \<Rightarrow> ('t RacerHandler, unit) tm" where
  "racer_BeforeExit me = racer_ThreadFinish me"

definition memory_event :: "bool \<Rightarrow> thrID \<Rightarrow> addr \<Rightarrow> addr \<Rightarrow> 'a HybridRaceTracker_scheme \<Rightarrow> 'a HybridRaceTracker_scheme" where
  "memory_event is_read me iid a h =
     (let (v, h1) = hrt_getVectorClock me h; (l, h2) = hrt_getLockSet me h1
      in addEvent (mk_dataRaceEvent iid me a is_read v l) h2)"

definition racer_myMemoryRead :: "thrID \<Rightarrow> addr \<Rightarrow> addr \<Rightarrow> 'a HybridRaceTracker_scheme RacerHandler \<Rightarrow> 'a HybridRaceTracker_scheme RacerHandler" where
  "racer_myMemoryRead me iid a = on_eb (memory_event True me iid a)"

definition racer_myMemoryWrite :: "thrID \<Rightarrow> addr \<Rightarrow> addr \<Rightarrow> 'a HybridRaceTracker_scheme RacerHandler \<Rightarrow> 'a HybridRaceTracker_scheme RacerHandler" where
  "racer_myMemoryWrite me iid a = on_eb (memory_event False me iid a)"

section \<open>The pass over the events\<close>

definition normal_record :: "raceRecord \<Rightarrow> bool" where
  "normal_record r \<longleftrightarrow> rec_left r \<le> rec_right r"

lemma normal_mk [simp]: "normal_record (mk_dataRaceRecord l r)" "normal_record (mk_lockRaceRecord l r)"
  by (auto simp: normal_record_def mk_dataRaceRecord_def mk_lockRaceRecord_def)

lemma mk_record_sym:
  "mk_dataRaceRecord l r = mk_dataRaceRecord r l" "mk_lockRaceRecord l r = mk_lockRaceRecord r l"
  by (auto simp: mk_dataRaceRecord_def mk_lockRaceRecord_def)

lemma record_eq_normal: "normal_record r \<Longrightarrow> normal_record r' \<Longrightarrow> record_eq r r' \<longleftrightarrow> r = r'"
  by (auto simp: record_eq_def normal_record_def raceRecord.expand)

definition records_ok :: "raceRecord list \<Rightarrow> bool" where
  "records_ok rs \<longleftrightarrow> distinct rs \<and> (\<forall>r \<in> set rs. normal_record r)"

lemma add_record_result:
  assumes "records_ok rs" and "normal_record r"
  shows "records_ok (add_record r rs) \<and> set (add_record r rs) = insert r (set rs)"
  using assms by (auto simp: records_ok_def add_record_def list_ex_iff record_eq_normal)

text \<open>A loop that adds the record of every element that passes a test.\<close>

lemma add_records_result:
  assumes "records_ok rs" and "\<And>x. normal_record (f x)"
  shows "records_ok (foldl (\<lambda>rs x. if P x then add_record (f x) rs else rs) rs xs) \<and>
     set (foldl (\<lambda>rs x. if P x then add_record (f x) rs else rs) rs xs) = set rs \<union> f ` {x \<in> set xs. P x}"
  using assms(1)
proof (induction xs arbitrary: rs)
  case (Cons x xs)
  show ?case
  proof (cases "P x")
    case True
    then show ?thesis using Cons.IH [of "add_record (f x) rs"] add_record_result [OF Cons.prems assms(2), of x] by auto
  qed (use Cons in auto)
qed simp

lemma racing_symmetric: "isRacing e e' \<longleftrightarrow> isRacing e' e"
proof -
  have "isIntersectionEmpty l l' = isIntersectionEmpty l' l" for l l' by (auto simp: isIntersectionEmpty_def)
  then show ?thesis by (auto simp: isRacing_def)
qed

text \<open>The events of the tracker are filed under their addresses.\<close>

definition events_ok :: "(addr, 'e raceEvent_scheme list) cmap \<Rightarrow> bool" where
  "events_ok m \<longleftrightarrow> cm_ok m \<and> (\<forall>a. \<forall>e \<in> set (cm_get [] m a). re_addr e = a)"

definition events :: "(addr, 'e raceEvent_scheme list) cmap \<Rightarrow> 'e raceEvent_scheme set" where
  "events m = {e. e \<in> set (cm_get [] m (re_addr e))}"

lemma events_filed:
  assumes "events_ok m"
  shows "(\<exists>(a, evs) \<in> set m. e \<in> set evs) \<longleftrightarrow> e \<in> events m"
proof
  assume "\<exists>(a, evs) \<in> set m. e \<in> set evs"
  then obtain a evs where "(a, evs) \<in> set m" and e: "e \<in> set evs" by blast
  then have "cm_get [] m a = evs" using assms by (simp add: events_ok_def in_set_cm_iff cm_get_def)
  then show "e \<in> events m" using assms e by (auto simp: events_ok_def events_def)
next
  assume "e \<in> events m"
  then have "e \<in> set (cm_get [] m (re_addr e))" by (simp add: events_def)
  then obtain evs where "map_of m (re_addr e) = Some evs" "e \<in> set evs" by (cases "map_of m (re_addr e)") (simp_all add: cm_get_def)
  then show "\<exists>(a, evs) \<in> set m. e \<in> set evs" by (auto dest: map_of_SomeD)
qed

definition race_pairs :: "('e raceEvent_scheme \<Rightarrow> addr) \<Rightarrow> (addr, 'e raceEvent_scheme list) cmap \<Rightarrow> 'e raceEvent_scheme \<Rightarrow> raceRecord set" where
  "race_pairs key m e = {mk_dataRaceRecord (key e) (key e') | e'. e' \<in> events m \<and> isRacing e e'}"

lemma checkRace_result:
  assumes "events_ok (eventset h)" and "records_ok (foundraces h)" and "e \<in> events (eventset h)"
  shows "records_ok (foundraces (checkRace e h)) \<and>
     set (foundraces (checkRace e h)) = set (foundraces h) \<union> race_pairs re_iid (eventset h) e \<and>
     eventset (checkRace e h) = eventset h"
proof -
  let ?evs = "cm_get [] (eventset h) (re_addr e)"
  have "map_of (eventset h) (re_addr e) \<noteq> None"
    using assms(3) by (cases "map_of (eventset h) (re_addr e)") (simp_all add: events_def cm_get_def)
  moreover have "e' \<in> set ?evs \<and> isRacing e e' \<longleftrightarrow> e' \<in> events (eventset h) \<and> isRacing e e'" for e'
    using assms(1) by (auto simp: events_def events_ok_def isRacing_def split: if_splits)
  ultimately show ?thesis
    using add_records_result [OF assms(2), where f = "\<lambda>e'. mk_dataRaceRecord (re_iid e) (re_iid e')" and P = "isRacing e" and xs = ?evs]
    by (auto simp: checkRace_def race_pairs_def)
qed

lemma check_events:
  assumes "events_ok (eventset h)" and "records_ok (foundraces h)" and "set evs \<subseteq> events (eventset h)"
  shows "records_ok (foundraces (foldl (\<lambda>h e. checkRace e h) h evs)) \<and>
     set (foundraces (foldl (\<lambda>h e. checkRace e h) h evs)) = set (foundraces h) \<union> (\<Union>e \<in> set evs. race_pairs re_iid (eventset h) e) \<and>
     eventset (foldl (\<lambda>h e. checkRace e h) h evs) = eventset h"
  using assms
proof (induction evs arbitrary: h)
  case (Cons e evs)
  then show ?case using checkRace_result [of h e] Cons.IH [of "checkRace e h"] by auto
qed simp

lemma flat_pass: "foldl (\<lambda>h (a, evs). foldl f h evs) h m = foldl f h (concat (map snd m))"
  by (induction m arbitrary: h) auto

lemma set_flat:
  assumes "events_ok m"
  shows "set (concat (map snd m)) = events m"
proof -
  have "e \<in> set (concat (map snd m)) \<longleftrightarrow> e \<in> events m" for e unfolding events_filed [OF assms, symmetric] by force
  then show ?thesis by blast
qed

lemma check_all_result:
  assumes ok: "events_ok (eventset h)" and "records_ok (foundraces h)"
  shows "records_ok (foundraces (check_all h)) \<and>
     set (foundraces (check_all h)) = set (foundraces h) \<union> (\<Union>e \<in> events (eventset h). race_pairs re_iid (eventset h) e) \<and>
     eventset (check_all h) = eventset h"
  using check_events [OF assms, of "concat (map snd (eventset h))"] set_flat [OF ok]
  by (simp add: check_all_def flat_pass del: set_concat)

section \<open>Runs of the handler\<close>

datatype racer_op =
    RCreate thrID thrID
  | RJoin thrID thrID
  | RLock thrID addr addr
  | RUnlock thrID addr
  | RWait thrID addr
  | RTimedwait thrID int addr
  | RSignal thrID addr
  | RBroadcast thrID addr
  | RRead thrID addr addr
  | RWrite thrID addr addr
  | RFinish thrID
  | RExit thrID

fun racer_step :: "'a HybridRaceTracker_scheme race_methods \<Rightarrow> racer_op \<Rightarrow> ('a HybridRaceTracker_scheme RacerHandler, unit) tm" where
  "racer_step rm (RCreate me child) = upd (racer_BeforeCreate me child)"
| "racer_step rm (RJoin me u) = upd (racer_AfterJoin me u)"
| "racer_step rm (RLock me ret_addr m) = upd (racer_BeforeMutexLock rm me ret_addr m)"
| "racer_step rm (RUnlock me m) = upd (racer_AfterMutexUnlock me m)"
| "racer_step rm (RWait me c) = upd (racer_AfterCondWait rm me c)"
| "racer_step rm (RTimedwait me ret_val c) = upd (racer_AfterCondTimedwait rm me ret_val c)"
| "racer_step rm (RSignal me c) = upd (racer_BeforeCondSignal rm me c)"
| "racer_step rm (RBroadcast me c) = upd (racer_BeforeCondBroadcast rm me c)"
| "racer_step rm (RRead me iid a) = upd (racer_myMemoryRead me iid a)"
| "racer_step rm (RWrite me iid a) = upd (racer_myMemoryWrite me iid a)"
| "racer_step rm (RFinish me) = racer_ThreadFinish me"
| "racer_step rm (RExit me) = racer_BeforeExit me"

fun racer_thread :: "racer_op \<Rightarrow> thrID" where
  "racer_thread (RCreate me child) = me"
| "racer_thread (RJoin me u) = me"
| "racer_thread (RLock me ret_addr m) = me"
| "racer_thread (RUnlock me m) = me"
| "racer_thread (RWait me c) = me"
| "racer_thread (RTimedwait me ret_val c) = me"
| "racer_thread (RSignal me c) = me"
| "racer_thread (RBroadcast me c) = me"
| "racer_thread (RRead me iid a) = me"
| "racer_thread (RWrite me iid a) = me"
| "racer_thread (RFinish me) = me"
| "racer_thread (RExit me) = me"

text \<open>
  What an operation means for happens-before. With \<open>sync\<close> unset, signals and waits order nothing,
  as in the tracker that looks for races between lock operations.
\<close>

fun to_vc :: "bool \<Rightarrow> racer_op \<Rightarrow> vc_op" where
  "to_vc sync (RCreate me child) = Create me child"
| "to_vc sync (RJoin me u) = Join me u"
| "to_vc sync (RWait me c) = (if sync then Wait me c else Access me)"
| "to_vc sync (RTimedwait me ret_val c) = (if sync \<and> ret_val = 0 then Wait me c else Access me)"
| "to_vc sync (RSignal me c) = (if sync then Signal me c else Access me)"
| "to_vc sync (RBroadcast me c) = (if sync then Signal me c else Access me)"
| "to_vc sync op = Access (racer_thread op)"

lemma actor_to_vc [simp]: "actor (to_vc sync op) = racer_thread op"
  by (cases op) auto

text \<open>The memory access an operation makes: its location, its address, and whether it reads.\<close>

fun mem_access :: "racer_op \<Rightarrow> (addr \<times> addr \<times> bool) option" where
  "mem_access (RRead me iid a) = Some (iid, a, True)"
| "mem_access (RWrite me iid a) = Some (iid, a, False)"
| "mem_access op = None"

fun lock_access :: "racer_op \<Rightarrow> (addr \<times> addr \<times> bool) option" where
  "lock_access (RLock me ret_addr m) = Some (ret_addr, m, False)"
| "lock_access op = None"

text \<open>The mutexes a thread has locked before position \<open>n\<close> and not unlocked since.\<close>

definition held :: "racer_op list \<Rightarrow> nat \<Rightarrow> thrID \<Rightarrow> addr set" where
  "held ops n t = {l. \<exists>i < n. (\<exists>ra. ops ! i = RLock t ra l) \<and> (\<forall>k. i < k \<and> k < n \<longrightarrow> ops ! k \<noteq> RUnlock t l)}"

text \<open>The positions of the accesses to an address that are kept: the first \<open>b\<close> of them.\<close>

definition kept :: "(racer_op \<Rightarrow> (addr \<times> addr \<times> bool) option) \<Rightarrow> nat \<Rightarrow> racer_op list \<Rightarrow> nat \<Rightarrow> addr \<Rightarrow> nat list" where
  "kept acc b ops n a = take b (filter (\<lambda>i. \<exists>iid r. acc (ops ! i) = Some (iid, a, r)) [0..<n])"

lemma held_Suc:
  "held ops (Suc n) t =
     (case ops ! n of
        RLock me ra l \<Rightarrow> if me = t then insert l (held ops n t) else held ops n t
      | RUnlock me l \<Rightarrow> if me = t then held ops n t - {l} else held ops n t
      | _ \<Rightarrow> held ops n t)"
  by (cases "ops ! n") (force simp: held_def less_Suc_eq)+

lemma held_0 [simp]: "held ops 0 t = {}"
  by (simp add: held_def)

lemma kept_Suc:
  "kept acc b ops (Suc n) a =
     (if (\<exists>iid r. acc (ops ! n) = Some (iid, a, r)) \<and> length (kept acc b ops n a) < b then kept acc b ops n a @ [n]
      else kept acc b ops n a)"
  by (auto simp: kept_def)

lemma kept_0 [simp]: "kept acc b ops 0 a = []"
  by (simp add: kept_def)

lemma kept_less: "i \<in> set (kept acc b ops n a) \<Longrightarrow> i < n \<and> (\<exists>iid r. acc (ops ! i) = Some (iid, a, r))"
  by (auto simp: kept_def dest!: in_set_takeD)

section \<open>What the tracker knows of a run\<close>

definition follows :: "bool \<Rightarrow> racer_op list \<Rightarrow> nat \<Rightarrow> 'a HybridRaceTracker_scheme \<Rightarrow> bool" where
  "follows sync ops n h \<longleftrightarrow>
     vct_ok (vsTracker h) \<and> abs_clocks (vsTracker h) = clocks_at (map (to_vc sync) ops) n \<and>
     (\<forall>t. fset (cm_get {||} (lockmap (lsTracker h)) t) = held ops n t)"

definition is_event ::
  "bool \<Rightarrow> (racer_op \<Rightarrow> (addr \<times> addr \<times> bool) option) \<Rightarrow> ('e raceEvent_scheme \<Rightarrow> addr) \<Rightarrow> racer_op list \<Rightarrow> nat \<Rightarrow>
   'e raceEvent_scheme \<Rightarrow> bool" where
  "is_event sync acc key ops i e \<longleftrightarrow>
     re_thread e = racer_thread (ops ! i) \<and> acc (ops ! i) = Some (key e, re_addr e, re_isread e) \<and>
     vc_ok (re_vc e) \<and> entry (re_vc e) = vclk (map (to_vc sync) ops) i (racer_thread (ops ! i)) \<and>
     fset (re_ls e) = held ops i (racer_thread (ops ! i))"

definition files ::
  "bool \<Rightarrow> (racer_op \<Rightarrow> (addr \<times> addr \<times> bool) option) \<Rightarrow> ('e raceEvent_scheme \<Rightarrow> addr) \<Rightarrow> nat \<Rightarrow> racer_op list \<Rightarrow> nat \<Rightarrow>
   (addr, 'e raceEvent_scheme list) cmap \<Rightarrow> bool" where
  "files sync acc key b ops n m \<longleftrightarrow>
     cm_ok m \<and> (\<forall>a. list_all2 (is_event sync acc key ops) (kept acc b ops n a) (cm_get [] m a))"

lemma for_each_positions:
  assumes "for_each f xs s = Inr ((), s')" and "P 0 s"
    and "\<And>n s s'. n < length xs \<Longrightarrow> P n s \<Longrightarrow> f (xs ! n) s = Inr ((), s') \<Longrightarrow> P (Suc n) s'"
  shows "P (length xs) s'"
  using assms
proof (induction xs arbitrary: s P)
  case (Cons x xs)
  from Cons.prems(1) obtain s1 where s1: "f x s = Inr ((), s1)" and run: "for_each f xs s1 = Inr ((), s')"
    by (auto simp: bnd_def split: sum.splits prod.splits)
  have "(\<lambda>n. P (Suc n)) 0 s1" using Cons.prems(3) [of 0] Cons.prems(2) s1 by simp
  from Cons.IH [OF run, of "\<lambda>n. P (Suc n)", OF this] Cons.prems(3) show ?case by fastforce
qed (simp add: ret_def)

lemma files_skip:
  assumes "files sync acc key b ops n m" and "acc (ops ! n) = None"
  shows "files sync acc key b ops (Suc n) m"
  using assms by (simp add: files_def kept_Suc)

lemma files_add:
  assumes "files sync acc key b ops n m" and "is_event sync acc key ops n e" and "evs = cm_get [] m (re_addr e)"
  shows "files sync acc key b ops (Suc n) (cm_put (re_addr e) (if length evs < b then evs @ [e] else evs) m)"
proof -
  have acc: "acc (ops ! n) = Some (key e, re_addr e, re_isread e)" using assms(2) by (simp add: is_event_def)
  have all: "list_all2 (is_event sync acc key ops) (kept acc b ops n a) (cm_get [] m a)" for a using assms(1) by (simp add: files_def)
  have "length (kept acc b ops n (re_addr e)) = length evs" using list_all2_lengthD [OF all] assms(3) by simp
  with all [of "re_addr e"] assms(2,3) have here: "list_all2 (is_event sync acc key ops) (kept acc b ops (Suc n) (re_addr e)) (if length evs < b then evs @ [e] else evs)"
    by (auto simp: kept_Suc acc list_all2_appendI)
  have "kept acc b ops (Suc n) a = kept acc b ops n a" if "a \<noteq> re_addr e" for a using that by (simp add: kept_Suc acc)
  with here all assms(1) show ?thesis by (auto simp: files_def)
qed

lemma files_0: "files sync acc key b ops 0 []"
  by (simp add: files_def cm_get_def)

text \<open>A tracker at the start of a run.\<close>

definition begun :: "nat \<Rightarrow> 'a HybridRaceTracker_scheme \<Rightarrow> bool" where
  "begun b h \<longleftrightarrow> vsTracker h = new_VectorClockTracker \<and> lsTracker h = new_LockSetTracker \<and> eventset h = [] \<and>
     foundraces h = [] \<and> rd_profile_size h = b"

text \<open>What an overriding tracker keeps of the hybrid tracker.\<close>

locale race_tracker =
  fixes rm :: "'a HybridRaceTracker_scheme race_methods"
    and sync :: bool
  assumes signal: "rm_beforeSignal rm me c h = (if sync then hrt_beforeSignal me c h else h)"
    and wait: "rm_afterWait rm me c h = (if sync then hrt_afterWait me c h else h)"
    and lock_event: "vsTracker (rm_addLockEvent rm e h) = vsTracker h"
      "lsTracker (rm_addLockEvent rm e h) = lsTracker h"
      "eventset (rm_addLockEvent rm e h) = eventset h"
      "foundraces (rm_addLockEvent rm e h) = foundraces h"
      "rd_profile_size (rm_addLockEvent rm e h) = rd_profile_size h"
begin

lemmas handler_defs =
  racer_BeforeCreate_def racer_AfterJoin_def racer_BeforeMutexLock_def racer_AfterMutexUnlock_def racer_AfterCondWait_def
  racer_AfterCondTimedwait_def racer_BeforeCondSignal_def racer_BeforeCondBroadcast_def racer_ThreadFinish_def
  racer_BeforeExit_def racer_myMemoryRead_def racer_myMemoryWrite_def on_eb_def upd_def

lemmas tracker_defs =
  hrt_afterJoin_def hrt_beforeSignal_def hrt_afterWait_def hrt_beforeCreate_def hrt_lockBefore_def hrt_unlockAfter_def
  hrt_getLockSet_def hrt_getVectorClock_def lock_event_def memory_event_def addEvent_def Let_def getVectorClock_def getLockSet_def

lemma step_clocks:
  assumes "racer_step rm op r = Inr ((), r')" and "vct_ok (vsTracker (eb r))"
  shows "vct_ok (vsTracker (eb r')) \<and> abs_clocks (vsTracker (eb r')) = abs_step (to_vc sync op) (abs_clocks (vsTracker (eb r)))"
proof -
  have "vsTracker (eb r') = vc_step (to_vc sync op) (vsTracker (eb r)) \<or>
      (vsTracker (eb r') = vsTracker (eb r) \<and> to_vc sync op = Access (racer_thread op))"
    using assms(1)
    by (cases op) (auto simp: handler_defs tracker_defs signal wait lock_event split: if_splits)
  then show ?thesis
    using abs_vc_step [OF assms(2), of "to_vc sync op"] assms(2) by (cases "abs_clocks (vsTracker (eb r))") auto
qed

lemma step_locks:
  assumes "racer_step rm (ops ! n) r = Inr ((), r')"
    and "\<forall>t. fset (cm_get {||} (lockmap (lsTracker (eb r))) t) = held ops n t"
  shows "fset (cm_get {||} (lockmap (lsTracker (eb r'))) t) = held ops (Suc n) t"
  using assms
  by (cases "ops ! n")
    (auto simp: held_Suc handler_defs tracker_defs signal wait lock_event lockBefore_def unlockAfter_def split: if_splits)

lemma step_follows:
  assumes "racer_step rm (ops ! n) r = Inr ((), r')" and "n < length ops" and "follows sync ops n (eb r)"
  shows "follows sync ops (Suc n) (eb r')"
  using step_clocks [OF assms(1)] step_locks [OF assms(1)] assms(2,3) by (simp add: follows_def clocks_at_Suc)

lemma step_keeps:
  assumes "racer_step rm op r = Inr ((), r')"
  shows "foundraces (eb r') = foundraces (eb r)" "rd_profile_size (eb r') = rd_profile_size (eb r)"
    "mem_access op = None \<Longrightarrow> eventset (eb r') = eventset (eb r)"
  using assms by (cases op; auto simp: handler_defs tracker_defs signal wait lock_event split: if_splits)+

lemma memory_event_files:
  assumes "follows sync ops n h" and "files sync mem_access re_iid (rd_profile_size h) ops n (eventset h)"
    and "mem_access (ops ! n) = Some (iid, a, is_read)" and "racer_thread (ops ! n) = me"
  shows "files sync mem_access re_iid (rd_profile_size h) ops (Suc n) (eventset (memory_event is_read me iid a h))"
proof -
  let ?e = "mk_dataRaceEvent iid me a is_read (clock (vsTracker h) me) (cm_get {||} (lockmap (lsTracker h)) me)"
  have "entry (clock (vsTracker h) me) = vclk (map (to_vc sync) ops) n me"
    using assms(1) by (metis follows_def vclk_def abs_clocks_def fst_conv)
  then have "is_event sync mem_access re_iid ops n ?e"
    using assms(1,3,4) by (simp add: is_event_def mk_dataRaceEvent_def follows_def vct_ok_def)
  from files_add [OF assms(2) this refl] show ?thesis
    by (cases is_read) (simp_all add: tracker_defs mk_dataRaceEvent_def cong: if_cong split del: if_split)
qed

lemma step_files:
  assumes "racer_step rm (ops ! n) r = Inr ((), r')" and "follows sync ops n (eb r)"
    and "files sync mem_access re_iid (rd_profile_size (eb r)) ops n (eventset (eb r))"
  shows "files sync mem_access re_iid (rd_profile_size (eb r)) ops (Suc n) (eventset (eb r'))"
proof (cases "mem_access (ops ! n)")
  case None
  then show ?thesis using files_skip [OF assms(3)] step_keeps(3) [OF assms(1)] by simp
next
  case (Some x)
  then obtain iid a is_read where x: "mem_access (ops ! n) = Some (iid, a, is_read)" by (cases x) auto
  then have "eb r' = memory_event is_read (racer_thread (ops ! n)) iid a (eb r)"
    using assms(1) by (cases "ops ! n") (auto simp: handler_defs)
  then show ?thesis using memory_event_files [OF assms(2,3) x refl] by simp
qed

lemma run_records:
  assumes "for_each (racer_step rm) ops r = Inr ((), r')" and "begun b (eb r)"
  shows "follows sync ops (length ops) (eb r') \<and> files sync mem_access re_iid b ops (length ops) (eventset (eb r')) \<and> foundraces (eb r') = []"
proof -
  let ?P = "\<lambda>n r. follows sync ops n (eb r) \<and> files sync mem_access re_iid b ops n (eventset (eb r)) \<and>
    foundraces (eb r) = [] \<and> rd_profile_size (eb r) = b"
  have "clocks_at (map (to_vc sync) ops) 0 = abs_clocks new_VectorClockTracker \<and> vct_ok new_VectorClockTracker"
    using abs_state_at [of "map (to_vc sync) ops" 0] by (simp add: state_at_def)
  then have "?P 0 r"
    using assms(2) files_0 by (simp add: begun_def follows_def new_LockSetTracker_def cm_get_def)
  then have "?P (length ops) r'"
    by (rule for_each_positions [OF assms(1)]) (use step_follows step_files step_keeps(1,2) in auto)
  then show ?thesis by blast
qed

end

section \<open>The report\<close>

definition reads :: "(racer_op \<Rightarrow> (addr \<times> addr \<times> bool) option) \<Rightarrow> racer_op \<Rightarrow> bool" where
  "reads acc op = (case acc op of Some (iid, a, r) \<Rightarrow> r | None \<Rightarrow> False)"

definition site :: "(racer_op \<Rightarrow> (addr \<times> addr \<times> bool) option) \<Rightarrow> racer_op \<Rightarrow> addr" where
  "site acc op = (case acc op of Some (iid, a, r) \<Rightarrow> iid | None \<Rightarrow> NULL)"

text \<open>
  Two accesses race: different threads, not both reads, not ordered by happens-before, and no mutex
  held at both.
\<close>

definition races :: "bool \<Rightarrow> (racer_op \<Rightarrow> (addr \<times> addr \<times> bool) option) \<Rightarrow> racer_op list \<Rightarrow> nat \<Rightarrow> nat \<Rightarrow> bool" where
  "races sync acc ops i j \<longleftrightarrow>
     racer_thread (ops ! i) \<noteq> racer_thread (ops ! j) \<and> \<not> (reads acc (ops ! i) \<and> reads acc (ops ! j)) \<and>
     \<not> hb (map (to_vc sync) ops) i j \<and>
     held ops i (racer_thread (ops ! i)) \<inter> held ops j (racer_thread (ops ! j)) = {}"

definition race_reports :: "bool \<Rightarrow> (racer_op \<Rightarrow> (addr \<times> addr \<times> bool) option) \<Rightarrow> nat \<Rightarrow> racer_op list \<Rightarrow> raceRecord set" where
  "race_reports sync acc b ops = {mk_dataRaceRecord (site acc (ops ! i)) (site acc (ops ! j)) | a i j.
     i \<in> set (kept acc b ops (length ops) a) \<and> j \<in> set (kept acc b ops (length ops) a) \<and> i < j \<and> races sync acc ops i j}"

lemma isRacing_races:
  assumes "legal (map (to_vc sync) ops)" and "i < j" and "j < length ops" and "to_vc sync (ops ! j) = Access u"
    and e: "is_event sync acc key ops i e" "is_event sync acc key ops j e'" and "re_addr e = re_addr e'"
  shows "isRacing e e' \<longleftrightarrow> races sync acc ops i j"
proof -
  let ?v = "map (to_vc sync) ops"
  have hb: "isHappensBefore (re_vc e) (re_vc e') \<longleftrightarrow> isHappensBefore (clock_at ?v i) (clock_at ?v j)"
    "isHappensBefore (re_vc e') (re_vc e) \<longleftrightarrow> isHappensBefore (clock_at ?v j) (clock_at ?v i)"
    using e assms(2,3) by (simp_all add: is_event_def isHappensBefore_iff clock_at_entry)
  have j: "j < length ?v" "?v ! j = Access u" using assms(3,4) by simp_all
  have "racer_thread (ops ! i) \<noteq> racer_thread (ops ! j) \<Longrightarrow> \<not> isHappensBefore (clock_at ?v j) (clock_at ?v i)"
    using clocks_not_backwards [OF assms(1,2) j(1)] assms(2,3) by simp
  moreover have "isIntersectionEmpty (re_ls e) (re_ls e') \<longleftrightarrow> held ops i (racer_thread (ops ! i)) \<inter> held ops j (racer_thread (ops ! j)) = {}"
    using e by (auto simp: isIntersectionEmpty_def is_event_def)
  ultimately show ?thesis
    using e assms(7) clocks_ordered [OF assms(1,2) j]
    by (auto simp: isRacing_def races_def hb is_event_def reads_def)
qed

lemma list_all2_set1: "list_all2 P xs ys \<Longrightarrow> x \<in> set xs \<Longrightarrow> \<exists>y \<in> set ys. P x y"
  by (induction rule: list_all2_induct) auto

lemma list_all2_set2: "list_all2 P xs ys \<Longrightarrow> y \<in> set ys \<Longrightarrow> \<exists>x \<in> set xs. P x y"
  by (induction rule: list_all2_induct) auto

lemma same_position: "is_event sync acc key ops i e \<Longrightarrow> is_event sync acc key ops i e' \<Longrightarrow> \<not> isRacing e e'"
  by (simp add: is_event_def isRacing_def)

lemma files_events_ok:
  assumes "files sync acc key b ops n m"
  shows "events_ok m"
proof -
  have "re_addr e = a" if "e \<in> set (cm_get [] m a)" for a e
  proof -
    have "list_all2 (is_event sync acc key ops) (kept acc b ops n a) (cm_get [] m a)" using assms by (simp add: files_def)
    with that obtain i where "i \<in> set (kept acc b ops n a)" "is_event sync acc key ops i e" by (auto dest: list_all2_set2)
    then show ?thesis by (auto simp: is_event_def dest!: kept_less)
  qed
  then show ?thesis using assms by (simp add: events_ok_def files_def)
qed

lemma events_kept:
  assumes "files sync acc key b ops n m" and "e \<in> events m"
  obtains i where "i \<in> set (kept acc b ops n (re_addr e))" and "is_event sync acc key ops i e"
proof -
  have "list_all2 (is_event sync acc key ops) (kept acc b ops n (re_addr e)) (cm_get [] m (re_addr e))"
    using assms(1) by (simp add: files_def)
  moreover have "e \<in> set (cm_get [] m (re_addr e))" using assms(2) by (simp add: events_def)
  ultimately show ?thesis using that by (auto dest: list_all2_set2)
qed

lemma kept_events:
  assumes "files sync acc key b ops n m" and "i \<in> set (kept acc b ops n a)"
  obtains e where "e \<in> events m" and "is_event sync acc key ops i e" and "re_addr e = a"
proof -
  have "list_all2 (is_event sync acc key ops) (kept acc b ops n a) (cm_get [] m a)" using assms(1) by (simp add: files_def)
  then obtain e where e: "e \<in> set (cm_get [] m a)" "is_event sync acc key ops i e"
    using assms(2) by (auto dest: list_all2_set1)
  moreover have "re_addr e = a" using files_events_ok [OF assms(1)] e(1) by (auto simp: events_ok_def)
  ultimately show ?thesis using that by (simp add: events_def)
qed

lemma reportI:
  assumes "i \<in> set (kept acc b ops (length ops) a)" and "j \<in> set (kept acc b ops (length ops) a)" and "i < j" and "races sync acc ops i j"
  shows "mk_dataRaceRecord (site acc (ops ! i)) (site acc (ops ! j)) \<in> race_reports sync acc b ops"
  using assms unfolding race_reports_def by blast

text \<open>The races that a pass over filed events finds are those of the run.\<close>

lemma pairs_are_reports:
  assumes "legal (map (to_vc sync) ops)" and m: "files sync acc key b ops (length ops) m"
    and acc: "\<And>op x. acc op = Some x \<Longrightarrow> to_vc sync op = Access (racer_thread op)"
  shows "(\<Union>e \<in> events m. race_pairs key m e) = race_reports sync acc b ops"
proof (intro equalityI subsetI)
  fix r assume "r \<in> (\<Union>e \<in> events m. race_pairs key m e)"
  then obtain e e' where ev: "e \<in> events m" "e' \<in> events m" and r: "r = mk_dataRaceRecord (key e) (key e')" "isRacing e e'"
    unfolding race_pairs_def by blast
  from events_kept [OF m ev(1)] obtain i where i: "i \<in> set (kept acc b ops (length ops) (re_addr e))" "is_event sync acc key ops i e" .
  from events_kept [OF m ev(2)] obtain j where j: "j \<in> set (kept acc b ops (length ops) (re_addr e'))" "is_event sync acc key ops j e'" .
  have a: "re_addr e = re_addr e'" using r(2) by (auto simp: isRacing_def split: if_splits)
  have sites: "site acc (ops ! i) = key e" "site acc (ops ! j) = key e'" using i(2) j(2) by (simp_all add: is_event_def site_def)
  have V: "to_vc sync (ops ! i) = Access (racer_thread (ops ! i))" "to_vc sync (ops ! j) = Access (racer_thread (ops ! j))"
    using acc i(2) j(2) unfolding is_event_def by blast+
  have len: "i < length ops" "j < length ops" using i(1) j(1) by (auto dest: kept_less)
  have "i \<noteq> j" using same_position i(2) j(2) r(2) by blast
  then consider "i < j" | "j < i" by linarith
  then show "r \<in> race_reports sync acc b ops"
  proof cases
    case 1
    then have "races sync acc ops i j" using isRacing_races [OF assms(1) 1 len(2) V(2) i(2) j(2) a] r(2) by simp
    with reportI [OF i(1) _ 1] j(1) a r(1) sites show ?thesis by simp
  next
    case 2
    then have "races sync acc ops j i" using isRacing_races [OF assms(1) 2 len(1) V(1) j(2) i(2) a [symmetric]] r(2) racing_symmetric by blast
    with reportI [OF j(1) _ 2] i(1) a r(1) sites mk_record_sym(1) [of "key e"] show ?thesis by simp
  qed
next
  fix r assume "r \<in> race_reports sync acc b ops"
  then obtain a i j where ij: "i \<in> set (kept acc b ops (length ops) a)" "j \<in> set (kept acc b ops (length ops) a)" "i < j" "races sync acc ops i j"
    and r: "r = mk_dataRaceRecord (site acc (ops ! i)) (site acc (ops ! j))" unfolding race_reports_def by blast
  from kept_events [OF m ij(1)] obtain e where e: "e \<in> events m" "is_event sync acc key ops i e" "re_addr e = a" .
  from kept_events [OF m ij(2)] obtain e' where e': "e' \<in> events m" "is_event sync acc key ops j e'" "re_addr e' = a" .
  have "to_vc sync (ops ! j) = Access (racer_thread (ops ! j))" using acc e'(2) unfolding is_event_def by blast
  moreover have "j < length ops" using ij(2) by (auto dest: kept_less)
  ultimately have "isRacing e e'" using isRacing_races [OF assms(1) ij(3) _ _ e(2) e'(2)] ij(4) e(3) e'(3) by simp
  moreover have "site acc (ops ! i) = key e" "site acc (ops ! j) = key e'" using e(2) e'(2) by (simp_all add: is_event_def site_def)
  ultimately have "r \<in> race_pairs key m e" using r e'(1) unfolding race_pairs_def by auto
  then show "r \<in> (\<Union>e \<in> events m. race_pairs key m e)" using e(1) by blast
qed

interpretation hybrid: race_tracker "hybrid_methods :: 'a HybridRaceTracker_scheme race_methods" True
  by unfold_locales (simp_all add: hybrid_methods_def addLockEvent_def)

text \<open>
  C3: The race report. Let a run of the program's operations under the race detector be legal for
  its threads. The report at the end lists exactly the pairs of locations at which there were two accesses to one address,
  among the first five accesses to that address, by different threads, not both reads, neither
  happening before the other (the order of program order, creation, join, and signal to wait) and with
  no mutex held at both. Each pair is listed once, with the smaller location first.
\<close>

theorem race_report_exact:
  assumes "legal (map (to_vc True) ops)" and "for_each (racer_step hybrid_methods) ops (new_RacerHandler me) = Inr ((), r)"
  shows "set (foundraces (snd (outputRaces (eb r)))) = race_reports True mem_access 5 ops \<and>
     distinct (foundraces (snd (outputRaces (eb r)))) \<and>
     list_all (\<lambda>x. rec_left x \<le> rec_right x) (foundraces (snd (outputRaces (eb r))))"
proof -
  have "begun 5 (eb (new_RacerHandler me))" by (simp add: begun_def new_RacerHandler_def new_HybridRaceTracker_def)
  from hybrid.run_records [OF assms(2) this]
  have m: "files True mem_access re_iid 5 ops (length ops) (eventset (eb r))" and none: "foundraces (eb r) = []" by blast+
  have "to_vc True op = Access (racer_thread op)" if "mem_access op = Some x" for op x using that by (cases op) auto
  note reports = pairs_are_reports [OF assms(1) m this]
  have "records_ok (foundraces (eb r))" by (simp add: none records_ok_def)
  from check_all_result [OF files_events_ok [OF m] this] reports none show ?thesis
    by (simp add: outputRaces_def Let_def records_ok_def normal_record_def list_all_iff)
qed

definition race_demo :: "racer_op list" where
  "race_demo = [RCreate 0 1, RWrite 0 100 7, RLock 1 300 8, RRead 1 200 7, RUnlock 1 8, RRead 1 201 7, RFinish 1, RJoin 0 1, RRead 0 101 7]"

lemma legal_race_demo: "legal (map (to_vc True) race_demo)"
  by (auto simp: legal_def race_demo_def started_def joined_def less_Suc_eq nth_Cons' numeral_eq_Suc)

lemma race_demo_run:
  "\<exists>r. for_each (racer_step hybrid_methods) race_demo (new_RacerHandler 0) = Inr ((), r) \<and>
     foundraces (snd (outputRaces (eb r))) = [RaceRecord 100 200, RaceRecord 100 201]"
  by (simp add: race_demo_def hybrid.handler_defs hybrid.tracker_defs new_RacerHandler_def new_HybridRaceTracker_def
      new_VectorClockTracker_def new_LockSetTracker_def beforeCreate_def afterJoin_def receiveMessage_def merge_entry_def
      incrementMyClock_def touch_clock_def cm_get_def cm_touch_def lockBefore_def unlockAfter_def hybrid_methods_def addLockEvent_def
      mk_dataRaceEvent_def outputRaces_def check_all_def checkRace_def isRacing_def isHappensBefore_def isIntersectionEmpty_def
      add_record_def record_eq_def mk_dataRaceRecord_def)

theorem race_report_exact_witness:
  "legal (map (to_vc True) race_demo) \<and> race_reports True mem_access 5 race_demo = {RaceRecord 100 200, RaceRecord 100 201}"
proof -
  from race_demo_run obtain r where "for_each (racer_step hybrid_methods) race_demo (new_RacerHandler 0) = Inr ((), r)"
    "foundraces (snd (outputRaces (eb r))) = [RaceRecord 100 200, RaceRecord 100 201]" by blast
  with race_report_exact [OF legal_race_demo] legal_race_demo show ?thesis by fastforce
qed

section \<open>When the handler stops the process\<close>

fun finishes :: "racer_op \<Rightarrow> thrID \<Rightarrow> bool" where
  "finishes (RFinish me) t \<longleftrightarrow> t = me"
| "finishes (RExit me) t \<longleftrightarrow> t = me"
| "finishes op t \<longleftrightarrow> False"

definition finishes_twice :: "racer_op list \<Rightarrow> nat \<Rightarrow> bool" where
  "finishes_twice ops n \<longleftrightarrow> (\<exists>j < n. \<exists>i < j. \<exists>t. finishes (ops ! i) t \<and> finishes (ops ! j) t)"

lemma finishes_thread: "finishes op t \<Longrightarrow> racer_thread op = t"
  by (cases op) auto

lemma for_each_take_Suc:
  "n < length xs \<Longrightarrow> for_each f (take (Suc n) xs) s = bnd (for_each f (take n xs)) (\<lambda>_. f (xs ! n)) s"
proof -
  have "for_each f (xs @ [x]) = bnd (for_each f xs) (\<lambda>_. f x)" for xs x
    by (induction xs) (auto simp: bnd_assoc fun_eq_iff bnd_def ret_def split: sum.splits)
  then show "n < length xs \<Longrightarrow> ?thesis" by (simp add: take_Suc_conv_app_nth)
qed

lemma racer_step_finish:
  assumes "\<And>t. cm_get False (finish_map r) t \<longleftrightarrow> F t" and "\<And>p child. op = RCreate p child \<Longrightarrow> \<not> F child"
  shows "if \<exists>t. finishes op t \<and> F t then \<exists>r'. racer_step rm op r = Inl (SafeAssert ''false'', r')
     else \<exists>r'. racer_step rm op r = Inr ((), r') \<and> (\<forall>t. cm_get False (finish_map r') t \<longleftrightarrow> F t \<or> finishes op t)"
  using assms by (cases op) (auto simp: hybrid.handler_defs)

lemma racer_prefix:
  assumes "legal (map (to_vc sync) ops)" and "n \<le> length ops" and "\<forall>t. \<not> cm_get False (finish_map r0) t"
  shows "if finishes_twice ops n then \<exists>r. for_each (racer_step rm) (take n ops) r0 = Inl (SafeAssert ''false'', r)
     else \<exists>r. for_each (racer_step rm) (take n ops) r0 = Inr ((), r) \<and>
       (\<forall>t. cm_get False (finish_map r) t \<longleftrightarrow> (\<exists>i < n. finishes (ops ! i) t))"
  using assms(2)
proof (induction n)
  case 0
  then show ?case using assms(3) by (simp add: finishes_twice_def)
next
  case (Suc n)
  then have n: "n < length ops" by simp
  have twice: "finishes_twice ops (Suc n) \<longleftrightarrow> finishes_twice ops n \<or> (\<exists>t. finishes (ops ! n) t \<and> (\<exists>i < n. finishes (ops ! i) t))"
    by (auto simp: finishes_twice_def less_Suc_eq)
  have fresh: "\<not> (\<exists>i < n. finishes (ops ! i) child)" if c: "ops ! n = RCreate p child" for p child
  proof
    assume "\<exists>i < n. finishes (ops ! i) child"
    then obtain i where i: "i < n" "racer_thread (ops ! i) = child" using finishes_thread by blast
    have "started (map (to_vc sync) ops) i child" using legalD(1) [OF assms(1), of i] i n by simp
    then have "started (map (to_vc sync) ops) n child" by (rule started_mono) (use i in simp)
    moreover have "\<not> started (map (to_vc sync) ops) n child" using legalD(3) [OF assms(1), of n p child] c n by simp
    ultimately show False by blast
  qed
  show ?case
  proof (cases "finishes_twice ops n")
    case True
    then show ?thesis using Suc n by (auto simp: for_each_take_Suc twice bnd_eq_Inl)
  next
    case False
    then obtain r where r: "for_each (racer_step rm) (take n ops) r0 = Inr ((), r)"
      and f: "\<And>t. cm_get False (finish_map r) t \<longleftrightarrow> (\<exists>i < n. finishes (ops ! i) t)" using Suc n by auto
    have "(\<exists>i < n. finishes (ops ! i) t) \<or> finishes (ops ! n) t \<longleftrightarrow> (\<exists>i < Suc n. finishes (ops ! i) t)" for t
      by (auto simp: less_Suc_eq)
    with racer_step_finish [where op = "ops ! n" and r = r and rm = rm, OF f fresh] False show ?thesis
      by (simp add: for_each_take_Suc [OF n] bnd_Inr [where m = "for_each (racer_step rm) (take n ops)", OF r] twice cong: if_cong)
  qed
qed

text \<open>
  C33: When race detection stops the process. In a legal run every handler returns, whatever the
  tracker, unless a thread finishes twice; then, and only then, the handler leaves through its
  assertion.
\<close>

theorem race_detection_returns:
  assumes "legal (map (to_vc True) ops)"
  shows "if finishes_twice ops (length ops)
     then \<exists>r. for_each (racer_step hybrid_methods) ops (new_RacerHandler me) = Inl (SafeAssert ''false'', r)
     else \<exists>r. for_each (racer_step hybrid_methods) ops (new_RacerHandler me) = Inr ((), r)"
proof -
  have "\<forall>t. \<not> cm_get False (finish_map (new_RacerHandler me)) t" by (simp add: new_RacerHandler_def cm_get_def)
  from racer_prefix [OF assms order_refl this, where rm = hybrid_methods] show ?thesis by (auto split: if_splits)
qed

theorem race_detection_returns_witness:
  "\<not> finishes_twice race_demo (length race_demo) \<and>
   (\<exists>r. for_each (racer_step hybrid_methods) race_demo (new_RacerHandler 0) = Inr ((), r))"
proof -
  have "\<not> finishes_twice race_demo (length race_demo)"
    by (auto simp: finishes_twice_def race_demo_def less_Suc_eq nth_Cons' numeral_eq_Suc split: if_splits)
  with race_detection_returns [OF legal_race_demo, of 0] show ?thesis by simp
qed

end
