(* ===== verification/Lock_Race.thy ===== *)
theory Lock_Race
  imports Hybrid_Race
begin

text \<open>
  The race detector for locks: \<open>ModifiedRaceTracker\<close> (\<open>src/lockrace/modtrack.cpp\<close>) and \<open>LockraceHandler\<close>
  (\<open>liblockrace.cpp\<close>). It is the hybrid tracker with signals and waits ordering nothing, and with
  every lock operation recorded as a write to its mutex. The handler is that of
  \<open>Hybrid_Race\<close> over the overriding functions. Console output is left out.
\<close>

section \<open>The tracker\<close>

record ModifiedRaceTracker = HybridRaceTracker +
  lock_profile_map :: "(addr, int) cmap"
  lockprofiling :: int
  eventcount :: int
  lockeventset :: "(addr, lockRaceEvent list) cmap"
  foundlockraces :: "raceRecord list"
  outfilename :: string

text \<open>The constructor with \<open>initializationHelper\<close>.\<close>

definition new_ModifiedRaceTracker :: "nat \<Rightarrow> nat \<Rightarrow> ModifiedRaceTracker" where
  "new_ModifiedRaceTracker wr rd =
     HybridRaceTracker.extend (new_HybridRaceTracker wr rd)
       \<lparr>lock_profile_map = [], lockprofiling = 20, eventcount = 0, lockeventset = [], foundlockraces = [],
        outfilename = ''thrille-randomactive''\<rparr>"

definition mod_beforeSignal :: "thrID \<Rightarrow> addr \<Rightarrow> ModifiedRaceTracker \<Rightarrow> ModifiedRaceTracker" where
  "mod_beforeSignal me c h = h"

definition mod_afterWait :: "thrID \<Rightarrow> addr \<Rightarrow> ModifiedRaceTracker \<Rightarrow> ModifiedRaceTracker" where
  "mod_afterWait me c h = h"

definition mod_addLockEvent :: "lockRaceEvent \<Rightarrow> ModifiedRaceTracker \<Rightarrow> ModifiedRaceTracker" where
  "mod_addLockEvent e h =
     (let count = cm_get 0 (lock_profile_map h) (re_addr e);
          h1 = h\<lparr>lock_profile_map := cm_touch 0 (re_addr e) (lock_profile_map h)\<rparr>
      in if count > lockprofiling h then h1
         else h1\<lparr>lock_profile_map := cm_put (re_addr e) (count + 1) (lock_profile_map h1),
                 lockeventset := cm_put (re_addr e) (cm_get [] (lockeventset h) (re_addr e) @ [e]) (lockeventset h)\<rparr>)"

definition mod_methods :: "ModifiedRaceTracker race_methods" where
  "mod_methods = \<lparr>rm_beforeSignal = mod_beforeSignal, rm_afterWait = mod_afterWait, rm_addLockEvent = mod_addLockEvent\<rparr>"

definition checkLockRace :: "lockRaceEvent \<Rightarrow> ModifiedRaceTracker \<Rightarrow> ModifiedRaceTracker" where
  "checkLockRace e h =
     h\<lparr>lockeventset := cm_touch [] (re_addr e) (lockeventset h),
       foundlockraces := foldl (\<lambda>rs e'. if isRacing e' e then add_record (mk_lockRaceRecord (re_lock e') (re_lock e)) rs else rs)
         (foundlockraces h) (cm_get [] (lockeventset h) (re_addr e))\<rparr>"

text \<open>The two passes of \<open>outputRaces\<close>.\<close>

definition check_data_events :: "ModifiedRaceTracker \<Rightarrow> ModifiedRaceTracker" where
  "check_data_events h =
     foldl (\<lambda>h (a, evs). foldl (\<lambda>h e. checkRace e (h\<lparr>eventcount := eventcount h + 1\<rparr>)) h evs) h (eventset h)"

definition check_lock_events :: "ModifiedRaceTracker \<Rightarrow> ModifiedRaceTracker" where
  "check_lock_events h =
     foldl (\<lambda>h (a, evs). foldl (\<lambda>h e. checkLockRace e (h\<lparr>eventcount := eventcount h + 1\<rparr>)) h evs) h (lockeventset h)"

definition dump_record :: "string \<Rightarrow> raceRecord \<Rightarrow> string" where
  "dump_record kind r = kind @ [newline] @ ostream_p (rec_left r) @ [newline] @ ostream_p (rec_right r) @ [newline]"

definition mod_dumpRaces :: "ModifiedRaceTracker \<Rightarrow> string" where
  "mod_dumpRaces h =
     concat (map (dump_record ''DATA'') (foundraces h)) @ concat (map (dump_record ''LOCK'') (foundlockraces h))"

text \<open>The name and the contents of the file that is written, and the tracker.\<close>

definition mod_outputRaces :: "ModifiedRaceTracker \<Rightarrow> (string \<times> string) \<times> ModifiedRaceTracker" where
  "mod_outputRaces h = (let h' = check_lock_events (check_data_events h) in ((outfilename h', mod_dumpRaces h'), h'))"

definition new_LockraceHandler :: "thrID \<Rightarrow> ModifiedRaceTracker RacerHandler" where
  "new_LockraceHandler myself =
     (let r = new_RacerHandler myself; wr = wr_profile_size (eb r); rd = rd_profile_size (eb r)
      in \<lparr>eb = new_ModifiedRaceTracker wr rd, finish_map = finish_map r\<rparr>)"

interpretation modified: race_tracker mod_methods False
  by unfold_locales (simp_all add: mod_methods_def mod_beforeSignal_def mod_afterWait_def mod_addLockEvent_def Let_def)

section \<open>The lock events of a run\<close>

definition profile_ok :: "ModifiedRaceTracker \<Rightarrow> bool" where
  "profile_ok h \<longleftrightarrow> lockprofiling h = 20 \<and> foundlockraces h = [] \<and>
     (\<forall>a. cm_get 0 (lock_profile_map h) a = int (length (cm_get [] (lockeventset h) a)))"

lemma profile_keeps:
  assumes "racer_step mod_methods op r = Inr ((), r')" and "lock_access op = None"
  shows "lockeventset (eb r') = lockeventset (eb r)" "profile_ok (eb r') = profile_ok (eb r)"
  using assms
  by (cases op; auto simp: profile_ok_def modified.handler_defs modified.tracker_defs mod_methods_def mod_beforeSignal_def mod_afterWait_def split: if_splits)+

lemma lock_event_files:
  assumes "racer_step mod_methods (ops ! n) r = Inr ((), r')" and "follows False ops n (eb r)"
    and "files False lock_access re_lock 21 ops n (lockeventset (eb r))" and "profile_ok (eb r)"
  shows "files False lock_access re_lock 21 ops (Suc n) (lockeventset (eb r')) \<and> profile_ok (eb r')"
proof (cases "lock_access (ops ! n)")
  case None
  then show ?thesis using files_skip [OF assms(3)] profile_keeps [OF assms(1)] assms(4) by simp
next
  case (Some x)
  then obtain me ra l where op: "ops ! n = RLock me ra l" by (cases "ops ! n") auto
  let ?e = "mk_lockRaceEvent ra me l False (clock (vsTracker (eb r)) me) (cm_get {||} (lockmap (lsTracker (eb r))) me)"
  let ?evs = "cm_get [] (lockeventset (eb r)) l"
  have "entry (clock (vsTracker (eb r)) me) = vclk (map (to_vc False) ops) n me"
    using assms(2) by (metis follows_def vclk_def abs_clocks_def fst_conv)
  then have ev: "is_event False lock_access re_lock ops n ?e"
    using assms(2) op by (simp add: is_event_def mk_lockRaceEvent_def follows_def vct_ok_def)
  have a: "re_addr ?e = l" by (simp add: mk_lockRaceEvent_def)
  have "list_all2 (is_event False lock_access re_lock ops) (kept lock_access 21 ops n l) ?evs" using assms(3) by (simp add: files_def)
  then have len: "length (kept lock_access 21 ops n l) = length ?evs" by (rule list_all2_lengthD)
  have count: "cm_get 0 (lock_profile_map (eb r)) l = int (length ?evs)" "lockprofiling (eb r) = 20" using assms(4) by (simp_all add: profile_ok_def)
  have r': "lockeventset (eb r') = (if length ?evs < 21 then cm_put l (?evs @ [?e]) (lockeventset (eb r)) else lockeventset (eb r))"
    using assms(1) op count
    by (auto simp: modified.handler_defs modified.tracker_defs mod_methods_def mod_addLockEvent_def mk_lockRaceEvent_def)
  moreover have "profile_ok (eb r')"
    using assms(1,4) op
    by (auto simp: profile_ok_def modified.handler_defs modified.tracker_defs mod_methods_def mod_addLockEvent_def mk_lockRaceEvent_def)
  moreover have "files False lock_access re_lock 21 ops (Suc n) (lockeventset (eb r))" if "\<not> length ?evs < 21"
    using that assms(3) op len by (auto simp: files_def kept_Suc)
  ultimately show ?thesis using files_add [OF assms(3) ev refl] a by auto
qed


lemma mod_run_records:
  assumes "for_each (racer_step mod_methods) ops (new_LockraceHandler me) = Inr ((), r)"
  shows "files False mem_access re_iid 5 ops (length ops) (eventset (eb r)) \<and> foundraces (eb r) = []"
    "files False lock_access re_lock 21 ops (length ops) (lockeventset (eb r)) \<and> foundlockraces (eb r) = []"
proof -
  let ?r = "new_LockraceHandler me"
  have new: "begun 5 (eb ?r)" "profile_ok (eb ?r)" "lockeventset (eb ?r) = []"
    by (simp_all add: begun_def profile_ok_def new_LockraceHandler_def new_ModifiedRaceTracker_def new_RacerHandler_def
        new_HybridRaceTracker_def HybridRaceTracker.extend_def Let_def cm_get_def)
  show "files False mem_access re_iid 5 ops (length ops) (eventset (eb r)) \<and> foundraces (eb r) = []"
    using modified.run_records [OF assms new(1)] by blast
  let ?P = "\<lambda>n r. follows False ops n (eb r) \<and> files False lock_access re_lock 21 ops n (lockeventset (eb r)) \<and> profile_ok (eb r)"
  have "?P 0 ?r"
    using new files_0 abs_state_at [of "map (to_vc False) ops" 0] by (simp add: begun_def follows_def new_LockSetTracker_def cm_get_def state_at_def)
  then have "?P (length ops) r"
    by (rule for_each_positions [OF assms]) (use modified.step_follows lock_event_files in auto)
  then show "files False lock_access re_lock 21 ops (length ops) (lockeventset (eb r)) \<and> foundlockraces (eb r) = []"
    by (simp add: profile_ok_def)
qed

section \<open>The two passes\<close>

lemma lock_record_data: "mk_lockRaceRecord = mk_dataRaceRecord"
  by (simp add: fun_eq_iff mk_lockRaceRecord_def mk_dataRaceRecord_def)

lemma checkLockRace_result:
  assumes "events_ok (lockeventset h)" and "records_ok (foundlockraces h)" and "e \<in> events (lockeventset h)"
  shows "records_ok (foundlockraces (checkLockRace e h)) \<and>
     set (foundlockraces (checkLockRace e h)) = set (foundlockraces h) \<union> race_pairs re_lock (lockeventset h) e \<and>
     lockeventset (checkLockRace e h) = lockeventset h \<and> foundraces (checkLockRace e h) = foundraces h"
proof -
  let ?evs = "cm_get [] (lockeventset h) (re_addr e)"
  have "map_of (lockeventset h) (re_addr e) \<noteq> None"
    using assms(3) by (cases "map_of (lockeventset h) (re_addr e)") (simp_all add: events_def cm_get_def)
  moreover have "e' \<in> set ?evs \<and> isRacing e' e \<longleftrightarrow> e' \<in> events (lockeventset h) \<and> isRacing e e'" for e'
    using assms(1) racing_symmetric [of e e'] by (auto simp: events_def events_ok_def isRacing_def [of e' e] split: if_splits)
  moreover have "mk_lockRaceRecord l (re_lock e) = mk_dataRaceRecord (re_lock e) l" for l
    using mk_record_sym(2) lock_record_data by metis
  ultimately show ?thesis
    using add_records_result [OF assms(2), where f = "\<lambda>e'. mk_lockRaceRecord (re_lock e') (re_lock e)" and P = "\<lambda>e'. isRacing e' e" and xs = ?evs]
    by (auto simp: checkLockRace_def race_pairs_def)
qed

lemma data_pass:
  assumes "events_ok (eventset h)" and "records_ok (foundraces h)" and "set evs \<subseteq> events (eventset h)"
    and "h' = foldl (\<lambda>h e. checkRace e (h\<lparr>eventcount := eventcount h + 1\<rparr>)) h evs"
  shows "records_ok (foundraces h') \<and>
     set (foundraces h') = set (foundraces h) \<union> (\<Union>e \<in> set evs. race_pairs re_iid (eventset h) e) \<and>
     lockeventset h' = lockeventset h \<and> foundlockraces h' = foundlockraces h"
  using assms
proof (induction evs arbitrary: h)
  case (Cons e evs)
  let ?h = "h\<lparr>eventcount := eventcount h + 1\<rparr>"
  have "lockeventset (checkRace e ?h) = lockeventset h" "foundlockraces (checkRace e ?h) = foundlockraces h" by (simp_all add: checkRace_def)
  with checkRace_result [of ?h e] Cons.IH [of "checkRace e ?h"] Cons.prems show ?case by auto
qed simp

lemma lock_pass:
  assumes "events_ok (lockeventset h)" and "records_ok (foundlockraces h)" and "set evs \<subseteq> events (lockeventset h)"
    and "h' = foldl (\<lambda>h e. checkLockRace e (h\<lparr>eventcount := eventcount h + 1\<rparr>)) h evs"
  shows "records_ok (foundlockraces h') \<and>
     set (foundlockraces h') = set (foundlockraces h) \<union> (\<Union>e \<in> set evs. race_pairs re_lock (lockeventset h) e) \<and>
     foundraces h' = foundraces h"
  using assms
proof (induction evs arbitrary: h)
  case (Cons e evs)
  let ?h = "h\<lparr>eventcount := eventcount h + 1\<rparr>"
  from checkLockRace_result [of ?h e] Cons.IH [of "checkLockRace e ?h"] Cons.prems show ?case by auto
qed simp

text \<open>
  C14: The report of the lock race detector. At the end of a legal run the data races listed are
  exactly those of the hybrid report with signals and waits ordering nothing, and the lock races
  listed are exactly the pairs of program locations at which two of the first twenty-one lock operations on one mutex, by
  different threads, are not ordered by creation and join and have no mutex held at both. No pair is
  listed twice.
\<close>

theorem lock_race_report_exact:
  assumes "legal (map (to_vc False) ops)" and "for_each (racer_step mod_methods) ops (new_LockraceHandler me) = Inr ((), r)"
    and "h = snd (mod_outputRaces (eb r))"
  shows "set (foundraces h) = race_reports False mem_access 5 ops \<and> distinct (foundraces h) \<and>
     set (foundlockraces h) = race_reports False lock_access 21 ops \<and> distinct (foundlockraces h)"
proof -
  note m = mod_run_records [OF assms(2)]
  have acc: "to_vc False op = Access (racer_thread op)" if "mem_access op = Some x" for op x using that by (cases op) auto
  have lacc: "to_vc False op = Access (racer_thread op)" if "lock_access op = Some x" for op x using that by (cases op) auto
  note reports = pairs_are_reports [OF assms(1) conjunct1 [OF m(1)] acc] pairs_are_reports [OF assms(1) conjunct1 [OF m(2)] lacc]
  have ok: "events_ok (eventset (eb r))" "events_ok (lockeventset (eb r))" using m files_events_ok by blast+
  let ?h = "check_data_events (eb r)"
  have d: "records_ok (foundraces ?h)" "set (foundraces ?h) = race_reports False mem_access 5 ops"
    "lockeventset ?h = lockeventset (eb r)" "foundlockraces ?h = []"
    using data_pass [OF ok(1), of "concat (map snd (eventset (eb r)))", OF _ _ refl] m set_flat [OF ok(1)] reports(1)
    by (simp_all add: check_data_events_def flat_pass records_ok_def del: set_concat)
  have h: "h = check_lock_events ?h" by (simp add: assms(3) mod_outputRaces_def Let_def)
  have "records_ok (foundlockraces h)" "set (foundlockraces h) = race_reports False lock_access 21 ops" "foundraces h = foundraces ?h"
    using lock_pass [of ?h "concat (map snd (lockeventset ?h))", OF _ _ _ refl] ok(2) set_flat [OF ok(2)] reports(2) d(3,4)
    by (simp_all add: h check_lock_events_def flat_pass records_ok_def del: set_concat)
  with d(1,2) show ?thesis by (simp add: records_ok_def)
qed

definition lock_demo :: "racer_op list" where
  "lock_demo = [RCreate 0 1, RLock 0 100 8, RUnlock 0 8, RLock 1 200 8, RWrite 1 400 9, RUnlock 1 8, RFinish 1, RJoin 0 1, RLock 0 101 8]"

lemma legal_lock_demo: "legal (map (to_vc False) lock_demo)"
  by (auto simp: legal_def lock_demo_def started_def joined_def less_Suc_eq nth_Cons' numeral_eq_Suc)

lemma lock_demo_run:
  "\<exists>r. for_each (racer_step mod_methods) lock_demo (new_LockraceHandler 0) = Inr ((), r) \<and>
     foundraces (snd (mod_outputRaces (eb r))) = [] \<and> foundlockraces (snd (mod_outputRaces (eb r))) = [RaceRecord 100 200]"
  by (simp add: lock_demo_def modified.handler_defs modified.tracker_defs new_LockraceHandler_def new_ModifiedRaceTracker_def
      new_RacerHandler_def new_HybridRaceTracker_def HybridRaceTracker.extend_def
      new_VectorClockTracker_def new_LockSetTracker_def beforeCreate_def afterJoin_def receiveMessage_def merge_entry_def
      incrementMyClock_def touch_clock_def cm_get_def cm_touch_def lockBefore_def unlockAfter_def mod_methods_def mod_addLockEvent_def
      mk_lockRaceEvent_def mk_dataRaceEvent_def mod_outputRaces_def check_data_events_def check_lock_events_def checkRace_def checkLockRace_def
      isRacing_def isHappensBefore_def isIntersectionEmpty_def add_record_def record_eq_def mk_lockRaceRecord_def)

theorem lock_race_report_exact_witness:
  "legal (map (to_vc False) lock_demo) \<and> race_reports False mem_access 5 lock_demo = {} \<and>
   race_reports False lock_access 21 lock_demo = {RaceRecord 100 200}"
proof -
  from lock_demo_run obtain r where "for_each (racer_step mod_methods) lock_demo (new_LockraceHandler 0) = Inr ((), r)"
    "foundraces (snd (mod_outputRaces (eb r))) = []" "foundlockraces (snd (mod_outputRaces (eb r))) = [RaceRecord 100 200]" by blast
  with lock_race_report_exact [OF legal_lock_demo _ refl] legal_lock_demo show ?thesis by fastforce
qed

end
