(* ===== verification/Race_File.thy ===== *)
theory Race_File
  imports Random_Active Lock_Race Relaxed_Logger
begin

text \<open>
  The file that the lock race detector writes and active testing reads
  (\<open>RandomActiveTester::setTestingTargets\<close> in \<open>src/randact/randomactive.cpp\<close>, the constructors in \<open>randomdata.cpp\<close> and
  \<open>randomlock.cpp\<close>, \<open>librandact.cpp\<close>). Each run takes the first record of the file as its targets and
  writes the file back with that record last. A file is its contents, \<open>None\<close> if it cannot be
  opened for reading; that it can be opened for writing is taken for granted.
\<close>

section \<open>Reading the targets\<close>

definition setMemoryAsSchedulingPoint :: "string \<Rightarrow> (RandomActiveTester, unit) tm" where
  "setMemoryAsSchedulingPoint mem = upd (with_log (addAddressToSchedule (getAddress mem)))"

text \<open>
  The result is the text of the record, and the rest of the file. The text has to fit into the
  buffer of the caller.
\<close>

definition setTargets :: "string \<Rightarrow> nat \<Rightarrow> (RandomActiveTester, string \<times> string) tm" where
  "setTargets f sz =
     (case fgets MAX_READ_SIZE f of
        None \<Rightarrow> exit_with (Undefined ''buffer not written by fgets'')
      | Some (l1, f1) \<Rightarrow>
          (case refill l1 f1 of (l2, f2) \<Rightarrow> (case refill l2 f2 of (l3, f3) \<Rightarrow>
             bnd (active_assert (strncmp_eq l1 ''LOCK'' 4 \<or> strncmp_eq l1 ''DATA'' 4) ''isLock || isData'') (\<lambda>_.
             bnd (upd (\<lambda>s. s\<lparr>target1 := getAddress l2\<rparr>)) (\<lambda>_.
             bnd (if length (l1 @ l2) \<ge> sz then exit_with (Undefined ''strncat beyond the buffer'') else ret ()) (\<lambda>_.
             bnd (upd (\<lambda>s. s\<lparr>target2 := getAddress l3\<rparr>)) (\<lambda>_.
             bnd (if length (l1 @ l2 @ l3) \<ge> sz then exit_with (Undefined ''strncat beyond the buffer'') else ret ()) (\<lambda>_.
             ret (l1 @ l2 @ l3, f3)))))))))"

section \<open>Rotating the file\<close>

definition rotate_append :: "nat \<Rightarrow> string \<Rightarrow> bool \<Rightarrow> nat \<times> string \<Rightarrow> (RandomActiveTester, nat \<times> string) tm" where
  "rotate_append sz l is_address = (\<lambda>(written, rotated).
     bnd (active_assert (written + length l < sz) ''written < size'') (\<lambda>_.
     bnd (if is_address then setMemoryAsSchedulingPoint l else ret ()) (\<lambda>_.
     ret (written + length l, rotated @ l))))"

lemma refill_shrinks: "refill buf f = (l, r) \<Longrightarrow> length r \<le> length f"
  using refill_length [of buf f] by simp

text \<open>The loop: three lines a round. At the end of the file the buffer keeps the line before.\<close>

function rotate_loop :: "nat \<Rightarrow> string \<Rightarrow> nat \<times> string \<Rightarrow> (RandomActiveTester, nat \<times> string) tm" where
  "rotate_loop sz f acc =
     (case fgets MAX_READ_SIZE f of
        None \<Rightarrow> ret acc
      | Some (l1, f1) \<Rightarrow>
          (case refill l1 f1 of (l2, f2) \<Rightarrow> (case refill l2 f2 of (l3, f3) \<Rightarrow>
             bnd (rotate_append sz l1 False acc) (\<lambda>acc1.
             bnd (rotate_append sz l2 True acc1) (\<lambda>acc2.
             bnd (rotate_append sz l3 True acc2) (\<lambda>acc3.
             rotate_loop sz f3 acc3))))))"
  by pat_completeness auto

termination
  by (relation "measure (\<lambda>(sz, f, acc). length f)")
    (auto dest!: fgets_shrinks_max refill_shrinks [OF sym])

declare rotate_loop.simps [simp del]

definition rotateInputFile :: "string \<Rightarrow> string \<Rightarrow> nat \<Rightarrow> (RandomActiveTester, string) tm" where
  "rotateInputFile f read_token sz =
     bnd (rotate_loop sz f (0, [])) (\<lambda>(written, rotated).
     bnd (if length (rotated @ read_token) \<ge> sz then exit_with (Undefined ''strncat beyond the buffer'') else ret ()) (\<lambda>_.
     bnd (active_assert (written + length read_token < sz) ''written < size'') (\<lambda>_.
     bnd (upd (with_log scheduleAtNoMemory)) (\<lambda>_.
     bnd (gets (\<lambda>s. (sparsifyNum s, sparsifyDenom s))) (\<lambda>(num, denom).
     bnd (from_log (sparsifyMemorySchedulingPoints num denom)) (\<lambda>_.
     ret (rotated @ read_token)))))))"

text \<open>The result is the new contents of the target file.\<close>

definition setTestingTargets :: "string option \<Rightarrow> (RandomActiveTester, string) tm" where
  "setTestingTargets file =
     (case file of
        None \<Rightarrow> bnd (active_assert False ''target_in != NULL'') (\<lambda>_. ret [])
      | Some f \<Rightarrow>
          bnd (setTargets f MAX_READ_SIZE) (\<lambda>(read_string, f').
          bnd (rotateInputFile f' read_string 8192) (\<lambda>out.
          bnd (gets target1) (\<lambda>t1. bnd (upd (with_log (addAddressToSchedule t1))) (\<lambda>_.
          bnd (gets target2) (\<lambda>t2. bnd (upd (with_log (addAddressToSchedule t2))) (\<lambda>_.
          ret out)))))))"

section \<open>The testers\<close>

definition new_RandomDataTester :: "Logger \<Rightarrow> thrID \<Rightarrow> string option \<Rightarrow> (exit_reason \<times> RandomActiveTester) + (string \<times> RandomActiveTester)" where
  "new_RandomDataTester l myself file = setTestingTargets file (new_RandomActiveTester l myself)"

definition new_RandomLockTester :: "Logger \<Rightarrow> thrID \<Rightarrow> string option \<Rightarrow> (exit_reason \<times> RandomActiveTester) + (string \<times> RandomActiveTester)" where
  "new_RandomLockTester l myself file = setTestingTargets file (new_RandomActiveTester l myself)"

definition isLockRace :: "string option \<Rightarrow> exit_reason + bool" where
  "isLockRace file =
     (case file of
        None \<Rightarrow> Inl (SafeAssert ''file_in != NULL'')
      | Some f \<Rightarrow>
          (case fgets MAX_READ_SIZE f of
             None \<Rightarrow> Inl (Undefined ''buffer not written by fgets'')
           | Some (ty, r) \<Rightarrow> Inr (strncmp_eq ty ''LOCK'' 4)))"

text \<open>The tracker that is made, with the functions of its class.\<close>

definition randact_getNewExecutionTracker ::
  "string option \<Rightarrow> Logger \<Rightarrow> thrID \<Rightarrow> exit_reason +
     (RandomActiveTester methods \<times> ((exit_reason \<times> RandomActiveTester) + (string \<times> RandomActiveTester)))" where
  "randact_getNewExecutionTracker file l myself =
     (case isLockRace file of
        Inl e \<Rightarrow> Inl e
      | Inr b \<Rightarrow> Inr (if b then (lock_methods, new_RandomLockTester l myself file)
                       else (data_methods, new_RandomDataTester l myself file)))"

section \<open>What the detector wrote is what the testers read\<close>

type_synonym kinded = "bool \<times> raceRecord"   \<comment> \<open>whether the record is of a lock race\<close>

definition kind_text :: "bool \<Rightarrow> string" where
  "kind_text is_lock = (if is_lock then ''LOCK'' else ''DATA'')"

definition records_text :: "kinded list \<Rightarrow> string" where
  "records_text rs = concat (map (\<lambda>(k, r). dump_record (kind_text k) r) rs)"

lemma dump_is_records_text:
  "mod_dumpRaces h = records_text (map (Pair False) (foundraces h) @ map (Pair True) (foundlockraces h))"
  by (simp add: mod_dumpRaces_def records_text_def kind_text_def comp_def)

lemma dump_lines:
  "dump_record (kind_text k) r = ln (kind_text k) @ ln (ostream_p (rec_left r)) @ ln (ostream_p (rec_right r))"
  by (simp add: dump_record_def ln_def)

lemma pointer_line:
  "newline \<notin> set (ostream_p a)" "length (ostream_p a) \<le> 18" "getAddress (ln (ostream_p a)) = a"
proof -
  show "newline \<notin> set (ostream_p a)" "length (ostream_p a) \<le> 18" using address_line [of a] by (simp_all add: ostream_p_def)
  show "getAddress (ln (ostream_p a)) = a"
    using getAddress_ln [of a]
    by (cases "a = NULL") (simp_all add: ostream_p_def ln_def getAddress_def strtoul16_def strip_0x_def isspace_def hex_vals_def is_hex_def hex_val_def newline_def)
qed

lemma fgets_kind: "fgets MAX_READ_SIZE (ln (kind_text k) @ r) = Some (ln (kind_text k), r)"
  by (rule fgets_ln) (simp_all add: kind_text_def newline_def)

lemma refill_pointer: "refill buf (ln (ostream_p a) @ r) = (ln (ostream_p a), r)"
  using pointer_line [of a] by (intro refill_ln) auto

lemma kind_checks: "strncmp_eq (ln (kind_text k)) ''LOCK'' 4 \<longleftrightarrow> k" "strncmp_eq (ln (kind_text k)) ''DATA'' 4 \<longleftrightarrow> \<not> k"
  by (simp_all add: strncmp_eq_def ln_def kind_text_def)

lemma record_length: "length (dump_record (kind_text k) r) \<le> 43"
  using pointer_line(2) [of "rec_left r"] pointer_line(2) [of "rec_right r"] unfolding dump_lines by (simp add: ln_def kind_text_def)

lemma setTargets_record:
  "setTargets (dump_record (kind_text k) r @ f) MAX_READ_SIZE s =
     Inr ((dump_record (kind_text k) r, f), s\<lparr>target1 := rec_left r, target2 := rec_right r\<rparr>)"
proof -
  have "length (ln (kind_text k) @ ln (ostream_p (rec_left r)) @ ln (ostream_p (rec_right r))) < MAX_READ_SIZE"
    using record_length [of k r] unfolding dump_lines by (simp add: MAX_READ_SIZE_def)
  then show ?thesis
    unfolding setTargets_def dump_lines
    by (simp add: fgets_kind refill_pointer kind_checks pointer_line(3) active_assert_def safe_assert_in_def)
qed

definition addresses :: "kinded list \<Rightarrow> addr list" where
  "addresses rs = concat (map (\<lambda>(k, r). [rec_left r, rec_right r]) rs)"

definition add_addresses :: "addr list \<Rightarrow> Logger \<Rightarrow> Logger" where
  "add_addresses as l = foldl (\<lambda>l a. addAddressToSchedule a l) l as"

lemma with_log_comp: "with_log f (with_log g s) = with_log (\<lambda>l. f (g l)) s"
  by (simp add: with_log_def)

lemma rotate_loop_record:
  assumes "w + length (dump_record (kind_text k) r) < sz"
  shows "rotate_loop sz (dump_record (kind_text k) r @ f) (w, acc) s =
     rotate_loop sz f (w + length (dump_record (kind_text k) r), acc @ dump_record (kind_text k) r) (with_log (add_addresses [rec_left r, rec_right r]) s)"
proof -
  have "w + length (ln (kind_text k)) + length (ln (ostream_p (rec_left r))) + length (ln (ostream_p (rec_right r))) < sz"
    using assms unfolding dump_lines by simp
  then show ?thesis
    unfolding dump_lines
    by (subst rotate_loop.simps)
      (simp add: fgets_kind refill_pointer rotate_append_def active_assert_def safe_assert_in_def setMemoryAsSchedulingPoint_def
        pointer_line(3) with_log_comp add_addresses_def [abs_def] add.assoc)
qed

lemma rotate_loop_records:
  "w + length (records_text rs) < sz \<Longrightarrow>
   rotate_loop sz (records_text rs) (w, acc) s =
     Inr ((w + length (records_text rs), acc @ records_text rs), with_log (add_addresses (addresses rs)) s)"
proof (induction rs arbitrary: w acc s)
  case Nil
  show ?case by (subst rotate_loop.simps) (simp add: records_text_def fgets_def addresses_def add_addresses_def with_log_def)
next
  case (Cons kr rs)
  obtain k r where kr: "kr = (k, r)" by (cases kr)
  have t: "records_text (kr # rs) = dump_record (kind_text k) r @ records_text rs" by (simp add: records_text_def kr)
  have len: "w + length (dump_record (kind_text k) r) < sz" "w + length (dump_record (kind_text k) r) + length (records_text rs) < sz"
    using Cons.prems t by simp_all
  show ?case
    unfolding t using Cons.IH [OF len(2)]
    by (simp add: rotate_loop_record [OF len(1)] kr addresses_def add_addresses_def [abs_def] with_log_comp add.assoc)
qed

text \<open>One run: the first record gives the targets and goes to the end of the file.\<close>

lemma setTestingTargets_records:
  assumes "length (records_text ((k, r) # rs)) < 8192" and "sparsifyNum s = sparsifyDenom s"
  shows "\<exists>l. setTestingTargets (Some (records_text ((k, r) # rs))) s =
      Inr (records_text (rs @ [(k, r)]), s\<lparr>target1 := rec_left r, target2 := rec_right r, log := l\<rparr>) \<and>
    \<not> scheduleAll l \<and> set (addressToSchedule l) = set (addressToSchedule (log s)) \<union> set (addresses ((k, r) # rs))"
proof -
  let ?d = "dump_record (kind_text k) r" and ?s = "s\<lparr>target1 := rec_left r, target2 := rec_right r\<rparr>"
  have t: "records_text ((k, r) # rs) = ?d @ records_text rs" "records_text (rs @ [(k, r)]) = records_text rs @ ?d" by (simp_all add: records_text_def)
  have len: "0 + length (records_text rs) < 8192" "length (records_text rs @ ?d) < 8192" "length (records_text rs) + length ?d < 8192"
    using assms(1) t(1) by simp_all
  let ?l1 = "scheduleAtNoMemory (add_addresses (addresses rs) (log s))"
  let ?s1 = "with_log (add_addresses (addresses rs)) ?s"
  have loop: "rotate_loop 8192 (records_text rs) (0, []) ?s = Inr ((length (records_text rs), records_text rs), ?s1)"
    using rotate_loop_records [OF len(1), of "[]" ?s] by simp
  have keep: "from_log (sparsifyMemorySchedulingPoints n n) u = Inr ((), u)" for n and u :: RandomActiveTester
    by (simp add: from_log_def sparsifyMemorySchedulingPoints_def)
  have rot: "rotateInputFile (records_text rs) ?d 8192 ?s = Inr (records_text rs @ ?d, ?s\<lparr>log := ?l1\<rparr>)"
    unfolding rotateInputFile_def bnd_Inr [where m = "rotate_loop 8192 (records_text rs) (0, [])", OF loop] prod.case
    using len(3) assms(2) by (simp add: active_assert_def safe_assert_in_def keep with_log_def)
  have added: "set (addressToSchedule (add_addresses as l)) = set (addressToSchedule l) \<union> set as \<and> scheduleAll (add_addresses as l) = scheduleAll l" for as l
    by (induction as arbitrary: l) (auto simp: add_addresses_def addAddressToSchedule_def set_insort_key)
  let ?l = "addAddressToSchedule (rec_right r) (addAddressToSchedule (rec_left r) ?l1)"
  have "setTestingTargets (Some (records_text ((k, r) # rs))) s = Inr (records_text (rs @ [(k, r)]), ?s\<lparr>log := ?l\<rparr>)"
    unfolding t by (simp add: setTestingTargets_def bnd_Inr [where m = "setTargets (?d @ records_text rs) MAX_READ_SIZE", OF setTargets_record] bnd_Inr [where m = "rotateInputFile (records_text rs) ?d 8192", OF rot] with_log_def)
  moreover have "\<not> scheduleAll ?l" by (simp add: addAddressToSchedule_def scheduleAtNoMemory_def)
  moreover have "set (addressToSchedule ?l) = set (addressToSchedule (log s)) \<union> set (addresses ((k, r) # rs))"
    using added [of "addresses rs" "log s"] by (auto simp: addAddressToSchedule_def scheduleAtNoMemory_def addresses_def set_insort_key)
  ultimately show ?thesis by auto
qed

section \<open>Runs after runs\<close>

text \<open>The state and the file after the run number \<open>i\<close>, counted from 0; each run begins in the state \<open>s\<close>.\<close>

fun nth_run :: "nat \<Rightarrow> string \<Rightarrow> RandomActiveTester \<Rightarrow> (exit_reason \<times> RandomActiveTester) + (string \<times> RandomActiveTester)" where
  "nth_run 0 f s = setTestingTargets (Some f) s"
| "nth_run (Suc i) f s = (case setTestingTargets (Some f) s of Inl e \<Rightarrow> Inl e | Inr (f', s') \<Rightarrow> nth_run i f' s)"

lemma nth_run_records:
  assumes "rs \<noteq> []" and "length (records_text rs) < 8192" and "sparsifyNum s = sparsifyDenom s"
  shows "\<exists>l. nth_run i (records_text rs) s =
      Inr (records_text (rotate (Suc i) rs), s\<lparr>target1 := rec_left (snd (hd (rotate i rs))), target2 := rec_right (snd (hd (rotate i rs))), log := l\<rparr>) \<and>
    \<not> scheduleAll l \<and> set (addressToSchedule l) = set (addressToSchedule (log s)) \<union> set (addresses rs)"
  using assms(1,2)
proof (induction i arbitrary: rs)
  case 0
  then obtain k r rs' where "rs = (k, r) # rs'" by (cases rs) auto
  with setTestingTargets_records [of k r rs' s] 0 assms(3) show ?case by simp
next
  case (Suc i)
  then obtain k r rs' where rs: "rs = (k, r) # rs'" by (cases rs) auto
  have "length (records_text (rs' @ [(k, r)])) < 8192" using Suc.prems(2) by (simp add: rs records_text_def)
  from Suc.IH [OF _ this] obtain l where l: "nth_run i (records_text (rs' @ [(k, r)])) s =
      Inr (records_text (rotate (Suc i) (rs' @ [(k, r)])), s\<lparr>target1 := rec_left (snd (hd (rotate i (rs' @ [(k, r)])))),
        target2 := rec_right (snd (hd (rotate i (rs' @ [(k, r)])))), log := l\<rparr>)"
    "\<not> scheduleAll l" "set (addressToSchedule l) = set (addressToSchedule (log s)) \<union> set (addresses (rs' @ [(k, r)]))" by auto
  have "rotate (Suc n) rs = rotate n (rs' @ [(k, r)])" for n by (simp add: rotate_def funpow_swap1 rs)
  moreover have "set (addresses (rs' @ [(k, r)])) = set (addresses rs)" by (auto simp: addresses_def rs)
  moreover obtain s' where "setTestingTargets (Some (records_text rs)) s = Inr (records_text (rs' @ [(k, r)]), s')"
    using setTestingTargets_records [of k r rs' s] Suc.prems(2) assms(3) unfolding rs by blast
  ultimately show ?case using l by (auto simp del: rotate_Suc)
qed

text \<open>
  C5: From the report to the tests. Take the file that the lock race detector writes, with at least
  one race, and no longer than the buffer of the testers. The first line tells correctly
  whether the first race is one on a mutex. Run the testers again and again, each on the file the run before left: every run reads the file
  to the end without a failure, run number \<open>i\<close> (from 0) tests the race number \<open>i\<close>, counted round and round, with
  its two locations as the targets; memory accesses are scheduling points at exactly the locations in the file (and
  those of the schedule); and after as many runs as there are races the file is as it was.
\<close>

theorem reported_races_are_tested:
  assumes "rs = map (Pair False) (foundraces h) @ map (Pair True) (foundlockraces h)" and "rs \<noteq> []"
    and "length (mod_dumpRaces h) < 8192" and "s = new_RandomActiveTester l0 me"
  shows "isLockRace (Some (mod_dumpRaces h)) = Inr (foundraces h = []) \<and>
     (\<exists>f s'. nth_run i (mod_dumpRaces h) s = Inr (f, s') \<and>
        target1 s' = rec_left (snd (rs ! (i mod length rs))) \<and> target2 s' = rec_right (snd (rs ! (i mod length rs))) \<and>
        \<not> scheduleAll (log s') \<and>
        set (addressToSchedule (log s')) = set (addressToSchedule (log s)) \<union> (\<Union>(k, r) \<in> set rs. {rec_left r, rec_right r}) \<and>
        (Suc i mod length rs = 0 \<longrightarrow> f = mod_dumpRaces h))"
proof -
  have t: "mod_dumpRaces h = records_text rs" by (simp add: dump_is_records_text assms(1))
  obtain k r rs' where rs: "rs = (k, r) # rs'" using assms(2) by (cases rs) auto
  have k: "k \<longleftrightarrow> foundraces h = []" using assms(1) rs by (cases "foundraces h") auto
  have "records_text rs = ln (kind_text k) @ (ln (ostream_p (rec_left r)) @ ln (ostream_p (rec_right r)) @ records_text rs')"
    by (simp add: rs records_text_def dump_lines)
  then have "isLockRace (Some (mod_dumpRaces h)) = Inr (foundraces h = [])" by (simp add: isLockRace_def t fgets_kind kind_checks k)
  moreover have "sparsifyNum s = sparsifyDenom s" by (simp add: assms(4) new_RandomActiveTester_def RandomTracker.extend_def)
  from nth_run_records [OF assms(2) assms(3) [unfolded t] this, of i] obtain l where
    run: "nth_run i (records_text rs) s = Inr (records_text (rotate (Suc i) rs),
      s\<lparr>target1 := rec_left (snd (hd (rotate i rs))), target2 := rec_right (snd (hd (rotate i rs))), log := l\<rparr>)"
    "\<not> scheduleAll l" "set (addressToSchedule l) = set (addressToSchedule (log s)) \<union> set (addresses rs)" by blast
  let ?s' = "s\<lparr>target1 := rec_left (snd (hd (rotate i rs))), target2 := rec_right (snd (hd (rotate i rs))), log := l\<rparr>"
  have "hd (rotate i rs) = rs ! (i mod length rs)" by (rule hd_rotate_conv_nth [OF assms(2)])
  then have "target1 ?s' = rec_left (snd (rs ! (i mod length rs)))" "target2 ?s' = rec_right (snd (rs ! (i mod length rs)))" by simp_all
  moreover have "set (addresses rs) = (\<Union>(k, r) \<in> set rs. {rec_left r, rec_right r})" by (auto simp: addresses_def)
  then have "set (addressToSchedule (log ?s')) = set (addressToSchedule (log s)) \<union> (\<Union>(k, r) \<in> set rs. {rec_left r, rec_right r})"
    using run(3) by simp
  moreover have "\<not> scheduleAll (log ?s')" using run(2) by simp
  moreover have "rotate (Suc i) rs = rs" if "Suc i mod length rs = 0" using rotate_conv_mod [of "Suc i" rs] that by simp
  then have "Suc i mod length rs = 0 \<longrightarrow> records_text (rotate (Suc i) rs) = records_text rs" by simp
  ultimately show ?thesis using run(1) unfolding t by - (intro conjI exI, assumption+)
qed

definition report_demo :: ModifiedRaceTracker where
  "report_demo = (new_ModifiedRaceTracker 5 5)\<lparr>foundraces := [RaceRecord 100 200], foundlockraces := [RaceRecord 300 400]\<rparr>"

theorem reported_races_are_tested_witness:
  "\<exists>f s'. nth_run 1 (mod_dumpRaces report_demo) (new_RandomActiveTester Logger_raw 1) = Inr (f, s') \<and>
     target1 s' = 300 \<and> target2 s' = 400 \<and> f = mod_dumpRaces report_demo"
proof -
  have "length (mod_dumpRaces report_demo) < 8192"
    using record_length [of False "RaceRecord 100 200"] record_length [of True "RaceRecord 300 400"]
    by (simp add: dump_is_records_text report_demo_def records_text_def kind_text_def)
  moreover have "map (Pair False) (foundraces report_demo) @ map (Pair True) (foundlockraces report_demo) = [(False, RaceRecord 100 200), (True, RaceRecord 300 400)]"
    by (simp add: report_demo_def)
  ultimately show ?thesis
    using reported_races_are_tested [OF refl _ _ refl, where h = report_demo and i = 1 and me = 1 and ?l0.0 = Logger_raw] by auto
qed

end
