(* ===== verification/Immediate_Race.thy ===== *)
theory Immediate_Race
  imports Vector_Clock
begin

text \<open>
  The immediate race detector, \<open>src/irace\<close>: \<open>Iracer\<close> (\<open>iracer.cpp\<close>) keeps a vector clock for each
  thread and reports a race at the access that completes it. Other than the detector of
  \<open>src/racer\<close> it stores clocks with mutexes as well, and joins the clock of the other access whether
  it races or not, so that every pair of accesses it compares is ordered from then on.

  The main result says which accesses are reported: those whose partner has not reached the
  thread by any chain of messages, where messages are defined on the sequence of operations.

  The handlers (\<open>libirace.cpp\<close>) run between \<open>glock()\<close> and \<open>gunlock()\<close>, so a run is a sequence of
  operations; the identifiers they read from \<open>TLSIraceData\<close> and from the thread tracker are
  arguments of the operations. Console output is left out. The entries of the clocks, C \<open>int\<close>s, are
  unbounded.
\<close>

section \<open>The data\<close>

record LockInfo =
  li_thread :: thrID
  li_vc :: vectorClock

definition new_LockInfo :: LockInfo where
  "new_LockInfo = \<lparr>li_thread = -1, li_vc = []\<rparr>"

record RaceInfo =
  ri_thread :: thrID
  ri_iid :: int
  ri_vc :: vectorClock
  ri_iswrite :: bool

definition new_RaceInfo :: RaceInfo where
  "new_RaceInfo = \<lparr>ri_thread = -1, ri_iid = -1, ri_vc = [], ri_iswrite = False\<rparr>"

record LockRaceEvent =
  lr_thread1 :: thrID
  lr_thread2 :: thrID
  lr_lock :: addr

record RaceEvent =
  rv_thread1 :: thrID
  rv_thread2 :: thrID
  rv_iid1 :: int
  rv_iid2 :: int
  rv_wasWrite1 :: bool
  rv_wasWrite2 :: bool
  rv_addr :: addr

record Iracer =
  ir_vc :: "(thrID, vectorClock) cmap"
  ir_lockmap :: "(addr, vectorClock) cmap"
  ir_acq_lockmap :: "(addr, LockInfo) cmap"
  ir_condmap :: "(addr, vectorClock) cmap"
  ir_accessmap :: "(addr, (thrID, RaceInfo) cmap) cmap"
  ir_writemap :: "(addr, RaceInfo) cmap"
  ir_races :: "RaceEvent list"
  ir_lockraces :: "LockRaceEvent list"

section \<open>The operations\<close>

abbreviation ir_clock :: "Iracer \<Rightarrow> thrID \<Rightarrow> vectorClock" where
  "ir_clock s t \<equiv> cm_get [] (ir_vc s) t"

definition ir_touch :: "thrID \<Rightarrow> Iracer \<Rightarrow> Iracer" where
  "ir_touch t s = s\<lparr>ir_vc := cm_touch [] t (ir_vc s)\<rparr>"

definition ir_incrementMyClock :: "thrID \<Rightarrow> Iracer \<Rightarrow> Iracer" where
  "ir_incrementMyClock me s =
     (let myclock = ir_clock s me; mytime = cm_get 0 myclock me + 1
      in s\<lparr>ir_vc := cm_put me (cm_put me mytime myclock) (ir_vc s)\<rparr>)"

definition new_Iracer :: "thrID \<Rightarrow> Iracer" where
  "new_Iracer main = ir_incrementMyClock main \<lparr>ir_vc = [], ir_lockmap = [], ir_acq_lockmap = [], ir_condmap = [],
     ir_accessmap = [], ir_writemap = [], ir_races = [], ir_lockraces = []\<rparr>"

definition donateClock :: "thrID \<Rightarrow> thrID \<Rightarrow> Iracer \<Rightarrow> Iracer" where
  "donateClock me u s =
     foldl (\<lambda>s (k, x). s\<lparr>ir_vc := cm_put u (cm_put k x (ir_clock s u)) (ir_vc s)\<rparr>) (ir_touch me s) (ir_clock s me)"

definition startNewThread :: "thrID \<Rightarrow> Iracer \<Rightarrow> Iracer" where
  "startNewThread child s = s\<lparr>ir_vc := map (\<lambda>(t, v). (t, cm_put child 0 v)) (ir_vc s)\<rparr>"

text \<open>One round of the loop of \<open>maxMyClock\<close>: its result so far and the local copy of the clock.\<close>

definition max_entry :: "vectorClock \<Rightarrow> bool \<times> vectorClock \<Rightarrow> thrID \<times> int \<Rightarrow> bool \<times> vectorClock" where
  "max_entry maxvc = (\<lambda>(ret_val, myclock) (t, mine).
     let other = cm_get 0 maxvc t
     in if mine < other then (True, cm_put t other myclock) else (ret_val, cm_put t mine myclock))"

definition maxMyClock :: "thrID \<Rightarrow> vectorClock \<Rightarrow> Iracer \<Rightarrow> bool \<times> Iracer" where
  "maxMyClock me maxvc s =
     (let myclock = ir_clock s me; (ret_val, myclock') = foldl (max_entry maxvc) (False, myclock) myclock
      in (ret_val, s\<lparr>ir_vc := cm_put me myclock' (ir_vc s)\<rparr>))"

definition ir_isLockRace :: "vectorClock \<Rightarrow> vectorClock \<Rightarrow> bool" where
  "ir_isLockRace mine access = list_ex (\<lambda>(t, x). x < cm_get 0 access t) mine"

definition ir_accesses :: "Iracer \<Rightarrow> addr \<Rightarrow> (thrID, RaceInfo) cmap" where
  "ir_accesses s a = cm_get [] (ir_accessmap s) a"

definition put_access :: "addr \<Rightarrow> thrID \<Rightarrow> RaceInfo \<Rightarrow> Iracer \<Rightarrow> Iracer" where
  "put_access a t i s = s\<lparr>ir_accessmap := cm_put a (cm_put t i (ir_accesses s a)) (ir_accessmap s)\<rparr>"

definition zeroAccessMapVC :: "addr \<Rightarrow> thrID \<Rightarrow> Iracer \<Rightarrow> Iracer" where
  "zeroAccessMapVC a t s = put_access a t new_RaceInfo s"

definition check_access :: "thrID \<Rightarrow> int \<Rightarrow> addr \<Rightarrow> bool \<times> Iracer \<Rightarrow> thrID \<times> RaceInfo \<Rightarrow> bool \<times> Iracer" where
  "check_access me iid a = (\<lambda>(anyrace, s) (t, info).
     let (israce, s) = maxMyClock me (ri_vc info) s
     in (anyrace \<or> israce,
         if israce then s\<lparr>ir_races := ir_races s @ [\<lparr>rv_thread1 = me, rv_thread2 = t, rv_iid1 = iid, rv_iid2 = ri_iid info,
           rv_wasWrite1 = True, rv_wasWrite2 = ri_iswrite info, rv_addr = a\<rparr>]\<rparr> else s))"

definition checkWriteRace :: "thrID \<Rightarrow> int \<Rightarrow> addr \<Rightarrow> Iracer \<Rightarrow> bool \<times> Iracer" where
  "checkWriteRace me iid a s =
     (let (anyrace, s) = foldl (check_access me iid a) (False, s\<lparr>ir_accessmap := cm_touch [] a (ir_accessmap s)\<rparr>) (ir_accesses s a)
      in (anyrace, s\<lparr>ir_accessmap := cm_put a [] (ir_accessmap s)\<rparr>))"

definition checkReadRace :: "thrID \<Rightarrow> int \<Rightarrow> addr \<Rightarrow> Iracer \<Rightarrow> bool \<times> Iracer" where
  "checkReadRace me iid a s =
     (let compare = cm_get new_RaceInfo (ir_writemap s) a;
          (israce, s) = maxMyClock me (ri_vc compare) (s\<lparr>ir_writemap := cm_touch new_RaceInfo a (ir_writemap s)\<rparr>);
          s = (if israce then s\<lparr>ir_races := ir_races s @ [\<lparr>rv_thread1 = me, rv_thread2 = ri_thread compare, rv_iid1 = iid, rv_iid2 = ri_iid compare,
                 rv_wasWrite1 = False, rv_wasWrite2 = ri_iswrite compare, rv_addr = a\<rparr>]\<rparr> else s)
      in (israce, zeroAccessMapVC a (ri_thread compare) s))"

subsection \<open>The hooks\<close>

definition ir_ThreadStart :: "thrID \<Rightarrow> Iracer \<Rightarrow> Iracer" where
  "ir_ThreadStart me = ir_incrementMyClock me"

definition ir_ThreadFinish :: "thrID \<Rightarrow> Iracer \<Rightarrow> Iracer" where
  "ir_ThreadFinish me = ir_incrementMyClock me"

definition ir_BeforeCreate :: "thrID \<Rightarrow> thrID \<Rightarrow> Iracer \<Rightarrow> Iracer" where
  "ir_BeforeCreate me child s = ir_incrementMyClock me (donateClock me child (startNewThread child s))"

definition ir_AfterJoin :: "thrID \<Rightarrow> thrID \<Rightarrow> Iracer \<Rightarrow> Iracer" where
  "ir_AfterJoin me u s = ir_incrementMyClock me (snd (maxMyClock me (ir_clock s u) (ir_touch u s)))"

definition ir_AfterMutexLock :: "thrID \<Rightarrow> addr \<Rightarrow> Iracer \<Rightarrow> Iracer" where
  "ir_AfterMutexLock me l s =
     (let acq = cm_get new_LockInfo (ir_acq_lockmap s) l;
          s = ir_touch me s;
          s = (if ir_isLockRace (ir_clock s me) (li_vc acq)
               then s\<lparr>ir_lockraces := ir_lockraces s @ [\<lparr>lr_thread1 = li_thread acq, lr_thread2 = me, lr_lock = l\<rparr>]\<rparr> else s);
          s = s\<lparr>ir_acq_lockmap := cm_put l \<lparr>li_thread = me, li_vc = ir_clock s me\<rparr> (ir_acq_lockmap s)\<rparr>
      in ir_incrementMyClock me (snd (maxMyClock me (cm_get [] (ir_lockmap s) l) (s\<lparr>ir_lockmap := cm_touch [] l (ir_lockmap s)\<rparr>))))"

definition ir_BeforeMutexUnlock :: "thrID \<Rightarrow> addr \<Rightarrow> Iracer \<Rightarrow> Iracer" where
  "ir_BeforeMutexUnlock me l s = ir_incrementMyClock me ((ir_touch me s)\<lparr>ir_lockmap := cm_put l (ir_clock s me) (ir_lockmap s)\<rparr>)"

definition ir_BeforeCondSignal :: "thrID \<Rightarrow> addr \<Rightarrow> Iracer \<Rightarrow> Iracer" where
  "ir_BeforeCondSignal me c s = ir_incrementMyClock me ((ir_touch me s)\<lparr>ir_condmap := cm_put c (ir_clock s me) (ir_condmap s)\<rparr>)"

definition ir_BeforeCondBroadcast :: "thrID \<Rightarrow> addr \<Rightarrow> Iracer \<Rightarrow> Iracer" where
  "ir_BeforeCondBroadcast me c s = ir_incrementMyClock me ((ir_touch me s)\<lparr>ir_condmap := cm_put c (ir_clock s me) (ir_condmap s)\<rparr>)"

definition ir_AfterCondWait :: "thrID \<Rightarrow> addr \<Rightarrow> Iracer \<Rightarrow> Iracer" where
  "ir_AfterCondWait me c s =
     ir_incrementMyClock me (snd (maxMyClock me (cm_get [] (ir_condmap s) c) (s\<lparr>ir_condmap := cm_touch [] c (ir_condmap s)\<rparr>)))"

definition ir_AfterCondTimedwait :: "thrID \<Rightarrow> int \<Rightarrow> addr \<Rightarrow> Iracer \<Rightarrow> Iracer" where
  "ir_AfterCondTimedwait me ret_val c s =
     (if ret_val = 0
      then ir_incrementMyClock me (snd (maxMyClock me (cm_get [] (ir_condmap s) c) (s\<lparr>ir_condmap := cm_touch [] c (ir_condmap s)\<rparr>)))
      else s)"

definition ir_memoryRead :: "thrID \<Rightarrow> int \<Rightarrow> addr \<Rightarrow> Iracer \<Rightarrow> Iracer" where
  "ir_memoryRead me iid a s =
     (let s = snd (checkReadRace me iid a s)
      in ir_incrementMyClock me (put_access a me \<lparr>ri_thread = me, ri_iid = iid, ri_vc = ir_clock s me, ri_iswrite = False\<rparr> s))"

definition ir_memoryWrite :: "thrID \<Rightarrow> int \<Rightarrow> addr \<Rightarrow> Iracer \<Rightarrow> Iracer" where
  "ir_memoryWrite me iid a s =
     (let s = snd (checkWriteRace me iid a s);
          myinfo = \<lparr>ri_thread = me, ri_iid = iid, ri_vc = ir_clock s me, ri_iswrite = True\<rparr>;
          s = put_access a me myinfo s
      in ir_incrementMyClock me (s\<lparr>ir_writemap := cm_put a myinfo (ir_writemap s)\<rparr>))"

subsection \<open>The report\<close>

text \<open>
  \<open>operator==\<close> of the two kinds of events. The last test of the first one is written
  \<open>b.iid2 = a.iid1\<close>: it assigns, and its value is that of \<open>a.iid1\<close>.
\<close>

definition RaceEvent_eq :: "RaceEvent \<Rightarrow> RaceEvent \<Rightarrow> bool" where
  "RaceEvent_eq a b =
     (let thr = (rv_thread1 a = rv_thread1 b \<and> rv_thread2 a = rv_thread2 b);
          thr = (thr \<or> (rv_thread1 a = rv_thread2 b \<and> rv_thread1 b = rv_thread2 a));
          id = (rv_iid1 a = rv_iid1 b \<and> rv_iid2 a = rv_iid2 b);
          id = (id \<or> (rv_iid1 a = rv_iid2 b \<and> rv_iid1 a \<noteq> 0))
      in if \<not> thr then False else if \<not> id then False else True)"

definition LockRaceEvent_eq :: "LockRaceEvent \<Rightarrow> LockRaceEvent \<Rightarrow> bool" where
  "LockRaceEvent_eq a b =
     (let thr = (lr_thread1 a = lr_thread1 b \<and> lr_thread2 a = lr_thread2 b);
          thr = (thr \<or> (lr_thread1 a = lr_thread2 b \<and> lr_thread1 b = lr_thread2 a))
      in if \<not> thr then False else if lr_lock a = lr_lock b then True else False)"

text \<open>The events that \<open>dumpRaces\<close> and \<open>dumpLockRaces\<close> print: the first of each class, in order.\<close>

definition add_unique :: "('a \<Rightarrow> 'a \<Rightarrow> bool) \<Rightarrow> 'a list \<Rightarrow> 'a \<Rightarrow> 'a list" where
  "add_unique eq result tmp = (if list_ex (\<lambda>r. eq tmp r) result then result else result @ [tmp])"

definition ir_dumpRaces :: "Iracer \<Rightarrow> RaceEvent list" where
  "ir_dumpRaces s = foldl (add_unique RaceEvent_eq) [] (ir_races s)"

definition ir_dumpLockRaces :: "Iracer \<Rightarrow> LockRaceEvent list" where
  "ir_dumpLockRaces s = foldl (add_unique LockRaceEvent_eq) [] (ir_lockraces s)"

section \<open>Clocks as functions\<close>

text \<open>The places that hold a clock, and the clock of a place.\<close>

datatype place = Thr thrID | Lck addr | Cnd addr | Wrt addr | Acc addr thrID | Acq addr

fun clock_of :: "Iracer \<Rightarrow> place \<Rightarrow> vectorClock" where
  "clock_of s (Thr t) = ir_clock s t"
| "clock_of s (Lck l) = cm_get [] (ir_lockmap s) l"
| "clock_of s (Cnd c) = cm_get [] (ir_condmap s) c"
| "clock_of s (Wrt a) = ri_vc (cm_get new_RaceInfo (ir_writemap s) a)"
| "clock_of s (Acc a t) = ri_vc (cm_get new_RaceInfo (ir_accesses s a) t)"
| "clock_of s (Acq l) = li_vc (cm_get new_LockInfo (ir_acq_lockmap s) l)"

definition val :: "Iracer \<Rightarrow> place \<Rightarrow> thrID \<Rightarrow> int" where
  "val s p = entry (clock_of s p)"

text \<open>
  The clock of a thread has an entry for each of the threads \<open>C\<close> created so far, no clock has a
  positive entry for another one, and there are clocks exactly for the threads created.
\<close>

definition known_threads :: "vectorClock \<Rightarrow> thrID set" where
  "known_threads v = {u. map_of v u \<noteq> None}"

definition clock_ok :: "thrID set \<Rightarrow> vectorClock \<Rightarrow> bool" where
  "clock_ok C v \<longleftrightarrow> vc_ok v \<and> known_threads v = C"

definition msg_ok :: "thrID set \<Rightarrow> vectorClock \<Rightarrow> bool" where
  "msg_ok C v \<longleftrightarrow> vc_ok v \<and> known_threads v \<subseteq> C"

definition irace_ok :: "thrID set \<Rightarrow> Iracer \<Rightarrow> bool" where
  "irace_ok C s \<longleftrightarrow>
     {t. map_of (ir_vc s) t \<noteq> None} = C \<and> (\<forall>t \<in> C. clock_ok C (ir_clock s t)) \<and>
     (\<forall>p. msg_ok C (clock_of s p)) \<and> (\<forall>a. cm_ok (ir_accesses s a))"

lemma known_threads_put [simp]: "known_threads (cm_put t x v) = insert t (known_threads v)"
  by (auto simp: known_threads_def)

lemma known_threads_Nil [simp]: "known_threads [] = {}"
  by (simp add: known_threads_def)

lemma msg_ok_Nil [simp]: "msg_ok C []"
  by (simp add: msg_ok_def)

lemma clock_imp_msg: "clock_ok C v \<Longrightarrow> msg_ok C v"
  by (simp add: clock_ok_def msg_ok_def)

lemma msg_ok_mono: "msg_ok C v \<Longrightarrow> C \<subseteq> D \<Longrightarrow> msg_ok D v"
  by (auto simp: msg_ok_def)

lemma entry_unknown: "u \<notin> known_threads v \<Longrightarrow> entry v u = 0"
  by (simp add: known_threads_def entry_def cm_get_def)

lemma entry_Nil [simp]: "entry [] u = 0"
  by (simp add: entry_unknown)

lemma msg_ok_entry: "msg_ok C v \<Longrightarrow> 0 \<le> entry v u" "msg_ok C v \<Longrightarrow> u \<notin> C \<Longrightarrow> entry v u = 0"
  by (auto simp: msg_ok_def intro: entry_unknown)

lemma new_infos [simp]: "ri_vc new_RaceInfo = []" "li_vc new_LockInfo = []"
  by (simp_all add: new_RaceInfo_def new_LockInfo_def)

subsection \<open>Taking the maximum\<close>

lemma max_loop:
  assumes "vc_ok maxvc" and "cm_ok xs" and "vc_ok clk" and "\<forall>e \<in> set xs. 0 \<le> snd e"
  shows "fst (foldl (max_entry maxvc) (b, clk) xs) = (b \<or> (\<exists>(t, x) \<in> set xs. x < entry maxvc t)) \<and>
     vc_ok (snd (foldl (max_entry maxvc) (b, clk) xs)) \<and>
     known_threads (snd (foldl (max_entry maxvc) (b, clk) xs)) = known_threads clk \<union> fst ` set xs \<and>
     (\<forall>u. entry (snd (foldl (max_entry maxvc) (b, clk) xs)) u =
       (case map_of xs u of Some x \<Rightarrow> max x (entry maxvc u) | None \<Rightarrow> entry clk u))"
  using assms
proof (induction xs arbitrary: b clk)
  case (Cons e xs)
  obtain t x where e: "e = (t, x)" by (cases e)
  let ?b = "b \<or> x < entry maxvc t" and ?clk = "cm_put t (max x (entry maxvc t)) clk"
  have step: "foldl (max_entry maxvc) (b, clk) (e # xs) = foldl (max_entry maxvc) (?b, ?clk) xs"
    by (simp add: max_entry_def e Let_def entry_def max_def)
  have ok: "vc_ok ?clk" "cm_ok xs" "\<forall>e \<in> set xs. 0 \<le> snd e" and new: "map_of xs t = None"
    using Cons.prems by (auto simp: e cm_ok_Cons map_of_eq_None_iff)
  show ?case
    unfolding step using Cons.IH [OF Cons.prems(1) ok(2,1,3), of ?b] new
    by (simp add: e insert_commute split: option.splits)
qed simp

lemma exceeds_iff:
  assumes c: "clock_ok C c" and w: "msg_ok C w"
  shows "(\<exists>(t, x) \<in> set c. x < entry w t) \<longleftrightarrow> (\<exists>u. entry c u < entry w u)"
proof
  have ok: "cm_ok c" using c by (simp add: clock_ok_def vc_ok_def)
  assume "\<exists>(t, x) \<in> set c. x < entry w t"
  then obtain t x where "(t, x) \<in> set c" "x < entry w t" by blast
  then have "entry c t < entry w t" using ok by (simp add: in_set_cm_iff entry_def [of c] cm_get_def)
  then show "\<exists>u. entry c u < entry w u" by blast
next
  assume "\<exists>u. entry c u < entry w u"
  then obtain u where u: "entry c u < entry w u" by blast
  have "u \<in> C"
  proof (rule ccontr)
    assume "u \<notin> C"
    then have "entry w u = 0" using msg_ok_entry(2) [OF w] by simp
    with u msg_ok_entry(1) [OF clock_imp_msg [OF c], of u] show False by simp
  qed
  then obtain x where x: "map_of c u = Some x" using c by (auto simp: clock_ok_def known_threads_def)
  with u have "(u, x) \<in> set c" "x < entry w u" by (auto dest: map_of_SomeD simp: entry_def [of c] cm_get_def)
  then show "\<exists>(t, x) \<in> set c. x < entry w t" by blast
qed

lemma max_result:
  assumes c: "clock_ok C c" and w: "msg_ok C w"
  shows "\<exists>v. foldl (max_entry w) (False, c) c = ((\<exists>u. entry c u < entry w u), v) \<and>
     clock_ok C v \<and> (\<forall>u. entry v u = max (entry c u) (entry w u))"
proof -
  have ok: "vc_ok c" "cm_ok c" "\<forall>e \<in> set c. 0 \<le> snd e" "known_threads c = C" and wok: "vc_ok w"
    using c w by (auto simp: clock_ok_def msg_ok_def vc_ok_def)
  note loop = max_loop [OF wok ok(2,1,3), of False]
  let ?r = "foldl (max_entry w) (False, c) c"
  have keys: "fst ` set c = C" using ok(4) by (auto simp: known_threads_def map_of_eq_None_iff)
  have "entry (snd ?r) u = max (entry c u) (entry w u)" for u
  proof (cases "map_of c u")
    case None
    then have "u \<notin> C" using ok(4) by (auto simp: known_threads_def)
    then have "entry w u = 0" "entry c u = 0" using msg_ok_entry(2) [OF w] ok(4) entry_unknown by auto
    with loop None show ?thesis by simp
  next
    case (Some x)
    then show ?thesis using loop by (simp add: entry_def [of c] cm_get_def)
  qed
  moreover have "clock_ok C (snd ?r)" using loop keys ok(4) by (simp add: clock_ok_def)
  moreover have "fst ?r \<longleftrightarrow> (\<exists>u. entry c u < entry w u)" using loop exceeds_iff [OF c w] by simp
  ultimately show ?thesis by (intro exI [of _ "snd ?r"]) (simp add: prod_eq_iff)
qed

text \<open>\<open>maxMyClock\<close> raises the clock of the thread to the other one, and says whether that changed it.\<close>

lemma maxMyClock_result:
  assumes "clock_ok C (ir_clock s me)" and "msg_ok C w"
  shows "\<exists>v. maxMyClock me w s = ((\<exists>u. entry (ir_clock s me) u < entry w u), s\<lparr>ir_vc := cm_put me v (ir_vc s)\<rparr>) \<and>
     clock_ok C v \<and> (\<forall>u. entry v u = max (entry (ir_clock s me) u) (entry w u))"
proof -
  obtain v where "foldl (max_entry w) (False, ir_clock s me) (ir_clock s me) = ((\<exists>u. entry (ir_clock s me) u < entry w u), v)"
    and v: "clock_ok C v \<and> (\<forall>u. entry v u = max (entry (ir_clock s me) u) (entry w u))"
    using max_result [OF assms] by blast
  then have "maxMyClock me w s = ((\<exists>u. entry (ir_clock s me) u < entry w u), s\<lparr>ir_vc := cm_put me v (ir_vc s)\<rparr>)"
    by (simp add: maxMyClock_def Let_def)
  with v show ?thesis by blast
qed

lemma isLockRace_result: "clock_ok C v \<Longrightarrow> msg_ok C w \<Longrightarrow> ir_isLockRace v w \<longleftrightarrow> (\<exists>u. entry v u < entry w u)"
  using exceeds_iff [of C v w] by (simp add: ir_isLockRace_def list_ex_iff entry_def)

subsection \<open>Updates of one place\<close>

lemma irace_okD:
  assumes "irace_ok C s"
  shows "t \<in> C \<Longrightarrow> clock_ok C (ir_clock s t)" "msg_ok C (clock_of s p)" "t \<in> C \<longleftrightarrow> map_of (ir_vc s) t \<noteq> None" "cm_ok (ir_accesses s a)"
  using assms by (auto simp: irace_ok_def)

lemma val_nonneg: "irace_ok C s \<Longrightarrow> 0 \<le> val s p u"
  unfolding val_def using irace_okD(2) msg_ok_entry(1) by blast

lemma all_places: "(\<forall>p. P p) \<longleftrightarrow> (\<forall>t. P (Thr t)) \<and> (\<forall>l. P (Lck l)) \<and> (\<forall>c. P (Cnd c)) \<and> (\<forall>a. P (Wrt a)) \<and> (\<forall>a t. P (Acc a t)) \<and> (\<forall>l. P (Acq l))"
proof (intro iffI allI)
  fix p
  assume "(\<forall>t. P (Thr t)) \<and> (\<forall>l. P (Lck l)) \<and> (\<forall>c. P (Cnd c)) \<and> (\<forall>a. P (Wrt a)) \<and> (\<forall>a t. P (Acc a t)) \<and> (\<forall>l. P (Acq l))"
  then show "P p" by (cases p) simp_all
qed simp

lemma touch_known: "irace_ok C s \<Longrightarrow> t \<in> C \<Longrightarrow> ir_touch t s = s"
  using irace_okD(3) [of C s t] by (simp add: ir_touch_def)

lemma put_clock:
  assumes "irace_ok C s" and "t \<in> C" and "clock_ok C v"
  shows "irace_ok C (s\<lparr>ir_vc := cm_put t v (ir_vc s)\<rparr>)" "val (s\<lparr>ir_vc := cm_put t v (ir_vc s)\<rparr>) = (val s)(Thr t := entry v)"
proof -
  show "irace_ok C (s\<lparr>ir_vc := cm_put t v (ir_vc s)\<rparr>)"
    using assms clock_imp_msg [OF assms(3)] by (auto simp: irace_ok_def all_places ir_accesses_def)
  show "val (s\<lparr>ir_vc := cm_put t v (ir_vc s)\<rparr>) = (val s)(Thr t := entry v)"
  proof
    show "val (s\<lparr>ir_vc := cm_put t v (ir_vc s)\<rparr>) p = ((val s)(Thr t := entry v)) p" for p
      by (cases p) (simp_all add: val_def ir_accesses_def)
  qed
qed

lemma put_message:
  assumes "irace_ok C s" and "msg_ok C v"
  shows "irace_ok C (s\<lparr>ir_lockmap := cm_put l v (ir_lockmap s)\<rparr>)" "val (s\<lparr>ir_lockmap := cm_put l v (ir_lockmap s)\<rparr>) = (val s)(Lck l := entry v)"
    "irace_ok C (s\<lparr>ir_condmap := cm_put c v (ir_condmap s)\<rparr>)" "val (s\<lparr>ir_condmap := cm_put c v (ir_condmap s)\<rparr>) = (val s)(Cnd c := entry v)"
proof -
  show "irace_ok C (s\<lparr>ir_lockmap := cm_put l v (ir_lockmap s)\<rparr>)" "irace_ok C (s\<lparr>ir_condmap := cm_put c v (ir_condmap s)\<rparr>)"
    using assms by (auto simp: irace_ok_def all_places ir_accesses_def)
  show "val (s\<lparr>ir_lockmap := cm_put l v (ir_lockmap s)\<rparr>) = (val s)(Lck l := entry v)"
  proof
    show "val (s\<lparr>ir_lockmap := cm_put l v (ir_lockmap s)\<rparr>) p = ((val s)(Lck l := entry v)) p" for p
      by (cases p) (simp_all add: val_def ir_accesses_def)
  qed
  show "val (s\<lparr>ir_condmap := cm_put c v (ir_condmap s)\<rparr>) = (val s)(Cnd c := entry v)"
  proof
    show "val (s\<lparr>ir_condmap := cm_put c v (ir_condmap s)\<rparr>) p = ((val s)(Cnd c := entry v)) p" for p
      by (cases p) (simp_all add: val_def ir_accesses_def)
  qed
qed

lemma put_info:
  assumes "irace_ok C s"
  shows "msg_ok C (li_vc j) \<Longrightarrow> irace_ok C (s\<lparr>ir_acq_lockmap := cm_put l j (ir_acq_lockmap s)\<rparr>)"
    "val (s\<lparr>ir_acq_lockmap := cm_put l j (ir_acq_lockmap s)\<rparr>) = (val s)(Acq l := entry (li_vc j))"
    "msg_ok C (ri_vc i) \<Longrightarrow> irace_ok C (s\<lparr>ir_writemap := cm_put a i (ir_writemap s)\<rparr>)"
    "val (s\<lparr>ir_writemap := cm_put a i (ir_writemap s)\<rparr>) = (val s)(Wrt a := entry (ri_vc i))"
    "msg_ok C (ri_vc i) \<Longrightarrow> irace_ok C (put_access a t i s)"
    "val (put_access a t i s) = (val s)(Acc a t := entry (ri_vc i))"
proof -
  show "irace_ok C (s\<lparr>ir_acq_lockmap := cm_put l j (ir_acq_lockmap s)\<rparr>)" if "msg_ok C (li_vc j)"
    using assms that by (auto simp: irace_ok_def all_places ir_accesses_def)
  show "irace_ok C (s\<lparr>ir_writemap := cm_put a i (ir_writemap s)\<rparr>)" if "msg_ok C (ri_vc i)"
    using assms that by (auto simp: irace_ok_def all_places ir_accesses_def)
  show "irace_ok C (put_access a t i s)" if "msg_ok C (ri_vc i)"
    using assms that by (auto simp: irace_ok_def all_places ir_accesses_def put_access_def)
  show "val (s\<lparr>ir_acq_lockmap := cm_put l j (ir_acq_lockmap s)\<rparr>) = (val s)(Acq l := entry (li_vc j))"
  proof
    show "val (s\<lparr>ir_acq_lockmap := cm_put l j (ir_acq_lockmap s)\<rparr>) p = ((val s)(Acq l := entry (li_vc j))) p" for p
      by (cases p) (simp_all add: val_def ir_accesses_def)
  qed
  show "val (s\<lparr>ir_writemap := cm_put a i (ir_writemap s)\<rparr>) = (val s)(Wrt a := entry (ri_vc i))"
  proof
    show "val (s\<lparr>ir_writemap := cm_put a i (ir_writemap s)\<rparr>) p = ((val s)(Wrt a := entry (ri_vc i))) p" for p
      by (cases p) (simp_all add: val_def ir_accesses_def)
  qed
  show "val (put_access a t i s) = (val s)(Acc a t := entry (ri_vc i))"
  proof
    show "val (put_access a t i s) p = ((val s)(Acc a t := entry (ri_vc i))) p" for p
      by (cases p) (simp_all add: val_def ir_accesses_def put_access_def)
  qed
qed

lemma clear_accesses:
  assumes "irace_ok C s"
  shows "irace_ok C (s\<lparr>ir_accessmap := cm_put a [] (ir_accessmap s)\<rparr>)"
    "val (s\<lparr>ir_accessmap := cm_put a [] (ir_accessmap s)\<rparr>) p = (if \<exists>t. p = Acc a t then (\<lambda>_. 0) else val s p)"
proof -
  show "irace_ok C (s\<lparr>ir_accessmap := cm_put a [] (ir_accessmap s)\<rparr>)"
    using assms by (auto simp: irace_ok_def all_places ir_accesses_def cm_get_def [of new_RaceInfo "[]"])
  show "val (s\<lparr>ir_accessmap := cm_put a [] (ir_accessmap s)\<rparr>) p = (if \<exists>t. p = Acc a t then (\<lambda>_. 0) else val s p)"
    by (cases p) (auto simp: val_def ir_accesses_def cm_get_def [of new_RaceInfo "[]"] fun_eq_iff)
qed

text \<open>Reads with \<open>operator[]\<close> and additions to the lists of races change no clock.\<close>

lemma val_same [simp]:
  "val (s\<lparr>ir_races := r\<rparr>) = val s" "val (s\<lparr>ir_lockraces := lr\<rparr>) = val s"
  "val (s\<lparr>ir_lockmap := cm_touch [] l (ir_lockmap s)\<rparr>) = val s" "val (s\<lparr>ir_condmap := cm_touch [] c (ir_condmap s)\<rparr>) = val s"
  "val (s\<lparr>ir_writemap := cm_touch new_RaceInfo a (ir_writemap s)\<rparr>) = val s" "val (s\<lparr>ir_accessmap := cm_touch [] a (ir_accessmap s)\<rparr>) = val s"
proof -
  have "val (s\<lparr>ir_races := r\<rparr>) p = val s p" "val (s\<lparr>ir_lockraces := lr\<rparr>) p = val s p"
    "val (s\<lparr>ir_lockmap := cm_touch [] l (ir_lockmap s)\<rparr>) p = val s p" "val (s\<lparr>ir_condmap := cm_touch [] c (ir_condmap s)\<rparr>) p = val s p"
    "val (s\<lparr>ir_writemap := cm_touch new_RaceInfo a (ir_writemap s)\<rparr>) p = val s p" "val (s\<lparr>ir_accessmap := cm_touch [] a (ir_accessmap s)\<rparr>) p = val s p" for p
    by (cases p; simp add: val_def ir_accesses_def)+
  then show "val (s\<lparr>ir_races := r\<rparr>) = val s" "val (s\<lparr>ir_lockraces := lr\<rparr>) = val s"
    "val (s\<lparr>ir_lockmap := cm_touch [] l (ir_lockmap s)\<rparr>) = val s" "val (s\<lparr>ir_condmap := cm_touch [] c (ir_condmap s)\<rparr>) = val s"
    "val (s\<lparr>ir_writemap := cm_touch new_RaceInfo a (ir_writemap s)\<rparr>) = val s" "val (s\<lparr>ir_accessmap := cm_touch [] a (ir_accessmap s)\<rparr>) = val s"
    by (simp_all add: fun_eq_iff)
qed

lemma irace_ok_same [simp]:
  "irace_ok C (s\<lparr>ir_races := r\<rparr>) = irace_ok C s" "irace_ok C (s\<lparr>ir_lockraces := lr\<rparr>) = irace_ok C s"
  "irace_ok C (s\<lparr>ir_lockmap := cm_touch [] l (ir_lockmap s)\<rparr>) = irace_ok C s" "irace_ok C (s\<lparr>ir_condmap := cm_touch [] c (ir_condmap s)\<rparr>) = irace_ok C s"
  "irace_ok C (s\<lparr>ir_writemap := cm_touch new_RaceInfo a (ir_writemap s)\<rparr>) = irace_ok C s" "irace_ok C (s\<lparr>ir_accessmap := cm_touch [] a (ir_accessmap s)\<rparr>) = irace_ok C s"
  by (simp_all add: irace_ok_def all_places ir_accesses_def)

lemma increment:
  assumes "irace_ok C s" and "t \<in> C"
  shows "irace_ok C (ir_incrementMyClock t s)"
    "val (ir_incrementMyClock t s) = (val s)(Thr t := (val s (Thr t))(t := val s (Thr t) t + 1))"
proof -
  have ok: "clock_ok C (ir_clock s t)" using irace_okD(1) assms by blast
  then have "clock_ok C (cm_put t (cm_get 0 (ir_clock s t) t + 1) (ir_clock s t))"
    using assms(2) entry_nonneg [of "ir_clock s t" t] by (auto simp: clock_ok_def entry_def)
  note put = put_clock [OF assms this]
  show "irace_ok C (ir_incrementMyClock t s)" using put(1) by (simp add: ir_incrementMyClock_def Let_def)
  show "val (ir_incrementMyClock t s) = (val s)(Thr t := (val s (Thr t))(t := val s (Thr t) t + 1))"
    using put(2) by (simp add: ir_incrementMyClock_def Let_def val_def fun_eq_iff) (simp add: entry_def)
qed

text \<open>Receiving a clock.\<close>

lemma receive:
  assumes s: "irace_ok C s" and "me \<in> C" and "msg_ok C w"
  shows "\<exists>s' v. maxMyClock me w s = ((\<exists>u. val s (Thr me) u < entry w u), s') \<and> irace_ok C s' \<and> val s' = (val s)(Thr me := v) \<and>
     (\<forall>u. v u = max (val s (Thr me) u) (entry w u)) \<and> s'\<lparr>ir_vc := x\<rparr> = s\<lparr>ir_vc := x\<rparr>"
proof -
  have val: "val s (Thr me) = entry (ir_clock s me)" by (simp add: val_def)
  obtain v where v: "maxMyClock me w s = ((\<exists>u. entry (ir_clock s me) u < entry w u), s\<lparr>ir_vc := cm_put me v (ir_vc s)\<rparr>)"
    "clock_ok C v" "\<forall>u. entry v u = max (entry (ir_clock s me) u) (entry w u)"
    using maxMyClock_result [OF irace_okD(1) [OF s \<open>me \<in> C\<close>] assms(3)] by blast
  then show ?thesis using put_clock [OF s \<open>me \<in> C\<close> v(2)] by (simp only: val) fastforce
qed

subsection \<open>A new thread\<close>

lemma cm_put_twice [simp]: "cm_put k x (cm_put k y m) = cm_put k x m"
  by (induction k y m rule: cm_put.induct) auto

lemma donate_loop:
  "xs \<noteq> [] \<Longrightarrow> foldl (\<lambda>s (k, x). s\<lparr>ir_vc := cm_put u (cm_put k x (ir_clock s u)) (ir_vc s)\<rparr>) s xs =
     s\<lparr>ir_vc := cm_put u (foldl (\<lambda>v (k, x). cm_put k x v) (ir_clock s u) xs) (ir_vc s)\<rparr>"
proof (induction xs arbitrary: s)
  case (Cons e xs)
  then show ?case by (cases "xs = []") (simp_all add: case_prod_beta)
qed simp

lemma copy_loop:
  assumes "cm_ok v"
  shows "foldl (\<lambda>v (k, x). cm_put k x v) [] v = v"
proof (rule cm_eqI)
  have "cm_ok (foldl (\<lambda>v (k, x). cm_put k x v) w xs)" if "cm_ok w" for w :: "('a, 'b) cmap" and xs
    using that by (induction xs arbitrary: w) auto
  then show "cm_ok (foldl (\<lambda>v (k, x). cm_put k x v) [] v)" by simp
  have "map_of (foldl (\<lambda>v (k, x). cm_put k x v) w xs) = map_of w ++ map_of xs" if "distinct (map fst xs)"
    for w :: "('a, 'b) cmap" and xs
    using that
  proof (induction xs arbitrary: w)
    case (Cons e xs)
    then have "map_of xs (fst e) = None" by (simp add: map_of_eq_None_iff)
    with Cons show ?case by (cases e) (auto simp: fun_eq_iff map_add_def split: option.splits)
  qed simp
  then show "map_of (foldl (\<lambda>v (k, x). cm_put k x v) [] v) = map_of v" using cm_ok_distinct [OF assms] by simp
qed fact

lemma map_of_zeroed: "map_of (map (\<lambda>(t, v). (t, cm_put child 0 v)) m) t = map_option (cm_put child 0) (map_of m t)"
  by (induction m) auto

lemma startNewThread_clock:
  assumes "irace_ok C s" and "t \<in> C"
  shows "ir_clock (startNewThread child s) t = cm_put child 0 (ir_clock s t)"
  using irace_okD(3) [OF assms(1), of t] assms(2) by (auto simp: startNewThread_def cm_get_def map_of_zeroed)

lemma start_donate:
  assumes s: "irace_ok C s" and "me \<in> C" and "child \<notin> C"
  shows "donateClock me child (startNewThread child s) =
     s\<lparr>ir_vc := cm_put child (cm_put child 0 (ir_clock s me)) (map (\<lambda>(t, v). (t, cm_put child 0 v)) (ir_vc s))\<rparr>"
proof -
  let ?s = "startNewThread child s" and ?c = "cm_put child 0 (ir_clock s me)"
  have "cm_ok ?c" using irace_okD(1) [OF s \<open>me \<in> C\<close>] by (simp add: clock_ok_def vc_ok_def)
  then have copy: "foldl (\<lambda>v (k, x). cm_put k x v) [] ?c = ?c" by (rule copy_loop)
  have "map_of (ir_vc ?s) me \<noteq> None" using irace_okD(3) [OF s, of me] \<open>me \<in> C\<close> by (simp add: startNewThread_def map_of_zeroed)
  then have touch: "ir_touch me ?s = ?s" by (simp add: ir_touch_def)
  have "map_of (ir_vc s) child = None" using irace_okD(3) [OF s, of child] \<open>child \<notin> C\<close> by blast
  then have fresh: "ir_clock ?s child = []" by (simp add: startNewThread_def cm_get_def map_of_zeroed)
  have "?c \<noteq> []" using keys_cm_put [of child 0 "ir_clock s me"] by fastforce
  from donate_loop [OF this, of child ?s] show ?thesis
    unfolding donateClock_def touch startNewThread_clock [OF s \<open>me \<in> C\<close>] fresh copy by (simp add: startNewThread_def)
qed

lemma entry_zeroed: "clock_ok C v \<Longrightarrow> child \<notin> C \<Longrightarrow> entry (cm_put child 0 v) = entry v"
  using entry_unknown [of child v] by (auto simp: clock_ok_def fun_eq_iff)

lemma new_thread:
  assumes s: "irace_ok C s" and me: "me \<in> C" and child: "child \<notin> C"
  shows "irace_ok (insert child C) (donateClock me child (startNewThread child s))"
    "val (donateClock me child (startNewThread child s)) = (val s)(Thr child := val s (Thr me))"
proof -
  let ?s = "donateClock me child (startNewThread child s)"
  have known: "map_of (ir_vc s) t \<noteq> None" if "t \<in> C" for t using irace_okD(3) [OF s, of t] that by simp
  have clock: "ir_clock ?s t = (if t = child then cm_put child 0 (ir_clock s me) else if t \<in> C then cm_put child 0 (ir_clock s t) else [])" for t
    using known [of t] irace_okD(3) [OF s, of t] by (auto simp: start_donate [OF s me child] cm_get_def map_of_zeroed)
  have other: "clock_of ?s p = clock_of s p" if "\<nexists>t. p = Thr t" for p
    using that by (cases p) (simp_all add: start_donate [OF s me child] ir_accesses_def)
  have unknown: "ir_clock s t = []" if "t \<notin> C" for t using irace_okD(3) [OF s, of t] that by (simp add: cm_get_def)
  have ok: "clock_ok (insert child C) (cm_put child 0 (ir_clock s t))" if "t \<in> C" for t
    using irace_okD(1) [OF s that] by (simp add: clock_ok_def)
  have "msg_ok (insert child C) (clock_of ?s p)" for p
  proof (cases "\<exists>t. p = Thr t")
    case True
    then show ?thesis using clock_imp_msg [OF ok] me by (auto simp: clock)
  next
    case False
    then show ?thesis using other [of p] irace_okD(2) [OF s, of p] by (auto intro: msg_ok_mono)
  qed
  moreover have "{t. map_of (ir_vc ?s) t \<noteq> None} = insert child C"
    using irace_okD(3) [OF s] by (auto simp: start_donate [OF s me child] map_of_zeroed split: if_splits)
  moreover have "cm_ok (ir_accesses ?s a)" for a
    using irace_okD(4) [OF s, of a] by (simp add: start_donate [OF s me child] ir_accesses_def)
  moreover have "\<forall>t \<in> insert child C. clock_ok (insert child C) (ir_clock ?s t)" using ok me by (simp add: clock)
  ultimately show "irace_ok (insert child C) ?s" by (simp add: irace_ok_def)
  have zero: "entry (cm_put child 0 (ir_clock s t)) = entry (ir_clock s t)" if "t \<in> C" for t
    using entry_zeroed [OF irace_okD(1) [OF s that] child] .
  show "val ?s = (val s)(Thr child := val s (Thr me))"
  proof
    fix p
    show "val ?s p = ((val s)(Thr child := val s (Thr me))) p"
    proof (cases "\<exists>t. p = Thr t")
      case True
      then show ?thesis using zero me unknown by (auto simp: val_def clock simp del: entry_put)
    next
      case False
      then show ?thesis using other [of p] by (auto simp: val_def)
    qed
  qed
qed

section \<open>Runs\<close>

datatype irace_op =
    IStart thrID
  | IFinish thrID
  | ICreate thrID thrID
  | IJoin thrID thrID
  | ILock thrID addr
  | IUnlock thrID addr
  | ISignal thrID addr
  | IBroadcast thrID addr
  | IWait thrID addr
  | ITimedwait thrID int addr
  | IRead thrID int addr
  | IWrite thrID int addr

fun iactor :: "irace_op \<Rightarrow> thrID" where
  "iactor (IStart me) = me"
| "iactor (IFinish me) = me"
| "iactor (ICreate me child) = me"
| "iactor (IJoin me u) = me"
| "iactor (ILock me l) = me"
| "iactor (IUnlock me l) = me"
| "iactor (ISignal me c) = me"
| "iactor (IBroadcast me c) = me"
| "iactor (IWait me c) = me"
| "iactor (ITimedwait me ret_val c) = me"
| "iactor (IRead me iid a) = me"
| "iactor (IWrite me iid a) = me"

text \<open>The handlers of \<open>IraceHandler\<close>: each calls the operation of the tracker with its name.\<close>

fun irace_step :: "irace_op \<Rightarrow> Iracer \<Rightarrow> Iracer" where
  "irace_step (IStart me) = ir_ThreadStart me"
| "irace_step (IFinish me) = ir_ThreadFinish me"
| "irace_step (ICreate me child) = ir_BeforeCreate me child"
| "irace_step (IJoin me u) = ir_AfterJoin me u"
| "irace_step (ILock me l) = ir_AfterMutexLock me l"
| "irace_step (IUnlock me l) = ir_BeforeMutexUnlock me l"
| "irace_step (ISignal me c) = ir_BeforeCondSignal me c"
| "irace_step (IBroadcast me c) = ir_BeforeCondBroadcast me c"
| "irace_step (IWait me c) = ir_AfterCondWait me c"
| "irace_step (ITimedwait me ret_val c) = ir_AfterCondTimedwait me ret_val c"
| "irace_step (IRead me iid a) = ir_memoryRead me iid a"
| "irace_step (IWrite me iid a) = ir_memoryWrite me iid a"

subsection \<open>Messages\<close>

text \<open>
  What an operation writes to a place reaches the next operations that read the place, until
  another operation overwrites or drops it. \<open>Thr t\<close> passes on what \<open>t\<close> knows, to its own
  operations, its children and its joiner; mutexes and condition variables pass it from an unlock or
  a signal to a lock or a wait; the accesses to a variable pass it to the accesses they are compared
  with. \<open>Acq l\<close> is only compared. A wait that times out does nothing.
\<close>

fun tells :: "irace_op \<Rightarrow> place set" where
  "tells (ICreate me child) = {Thr me, Thr child}"
| "tells (ILock me l) = {Thr me, Acq l}"
| "tells (IUnlock me l) = {Thr me, Lck l}"
| "tells (ISignal me c) = {Thr me, Cnd c}"
| "tells (IBroadcast me c) = {Thr me, Cnd c}"
| "tells (ITimedwait me ret_val c) = (if ret_val = 0 then {Thr me} else {})"
| "tells (IRead me iid a) = {Thr me, Acc a me}"
| "tells (IWrite me iid a) = {Thr me, Wrt a, Acc a me}"
| "tells op = {Thr (iactor op)}"

fun hears :: "irace_op \<Rightarrow> place set" where
  "hears (IJoin me u) = {Thr me, Thr u}"
| "hears (ILock me l) = {Thr me, Lck l}"
| "hears (IWait me c) = {Thr me, Cnd c}"
| "hears (ITimedwait me ret_val c) = (if ret_val = 0 then {Thr me, Cnd c} else {})"
| "hears (IRead me iid a) = {Thr me, Wrt a}"
| "hears (IWrite me iid a) = insert (Thr me) (range (Acc a))"
| "hears op = {Thr (iactor op)}"

text \<open>
  A write drops all earlier accesses. A read drops the access of the thread that wrote last, which
  need not be that write: it can be a later read of the same thread.
\<close>

primrec last_writer :: "irace_op list \<Rightarrow> nat \<Rightarrow> addr \<Rightarrow> thrID" where
  "last_writer ops 0 a = -1"
| "last_writer ops (Suc n) a = (case ops ! n of IWrite t iid b \<Rightarrow> if b = a then t else last_writer ops n a | _ \<Rightarrow> last_writer ops n a)"

definition drops :: "irace_op list \<Rightarrow> nat \<Rightarrow> place set" where
  "drops ops n = (case ops ! n of
     IRead me iid a \<Rightarrow> {Acc a (last_writer ops n a)}
   | IWrite me iid a \<Rightarrow> range (Acc a)
   | _ \<Rightarrow> {})"

text \<open>The place \<open>p\<close> holds, before the operation at \<open>n\<close>, what the one at \<open>i\<close> put there.\<close>

definition holds :: "irace_op list \<Rightarrow> nat \<Rightarrow> place \<Rightarrow> nat \<Rightarrow> bool" where
  "holds ops n p i \<longleftrightarrow> i < n \<and> p \<in> tells (ops ! i) \<and> (\<forall>k. i < k \<longrightarrow> k < n \<longrightarrow> p \<notin> tells (ops ! k) \<and> p \<notin> drops ops k)"

inductive ihb :: "irace_op list \<Rightarrow> nat \<Rightarrow> nat \<Rightarrow> bool" for ops where
  pass: "holds ops j p i \<Longrightarrow> j < length ops \<Longrightarrow> p \<in> hears (ops ! j) \<Longrightarrow> ihb ops i j"
| chain: "ihb ops i j \<Longrightarrow> ihb ops j k \<Longrightarrow> ihb ops i k"

text \<open>Thread \<open>t\<close> knows the operation at \<open>i\<close> when it is about to act at \<open>n\<close>: it did it, or has heard of it.\<close>

definition aware :: "irace_op list \<Rightarrow> nat \<Rightarrow> thrID \<Rightarrow> nat \<Rightarrow> bool" where
  "aware ops n t i \<longleftrightarrow> (\<exists>k < n. Thr t \<in> tells (ops ! k) \<and> (i = k \<or> ihb ops i k))"

subsection \<open>Legal runs\<close>

definition icreated :: "thrID \<Rightarrow> irace_op list \<Rightarrow> nat \<Rightarrow> thrID set" where
  "icreated main ops n = insert main {t. \<exists>i < n. \<exists>me. ops ! i = ICreate me t}"

definition istarted :: "thrID \<Rightarrow> irace_op list \<Rightarrow> nat \<Rightarrow> thrID set" where
  "istarted main ops n = insert main {t. \<exists>i < n. ops ! i = IStart t}"

definition ijoined :: "irace_op list \<Rightarrow> nat \<Rightarrow> thrID set" where
  "ijoined ops n = {t. \<exists>i < n. \<exists>me. ops ! i = IJoin me t}"

text \<open>
  A thread starts once, after its creation; it acts after it has started and before it is joined;
  the identifier of a new thread is new; a thread joins others only.
\<close>

definition irace_legal :: "thrID \<Rightarrow> irace_op list \<Rightarrow> bool" where
  "irace_legal main ops \<longleftrightarrow> (\<forall>n < length ops.
     iactor (ops ! n) \<notin> ijoined ops n \<and>
     (case ops ! n of
        IStart t \<Rightarrow> t \<in> icreated main ops n \<and> t \<notin> istarted main ops n
      | _ \<Rightarrow> iactor (ops ! n) \<in> icreated main ops n \<and> iactor (ops ! n) \<in> istarted main ops n) \<and>
     (case ops ! n of
        ICreate me child \<Rightarrow> child \<notin> icreated main ops n
      | IJoin me u \<Rightarrow> u \<in> icreated main ops n \<and> u \<noteq> me
      | _ \<Rightarrow> True))"

definition irace_at :: "thrID \<Rightarrow> irace_op list \<Rightarrow> nat \<Rightarrow> Iracer" where
  "irace_at main ops n = foldl (\<lambda>s op. irace_step op s) (new_Iracer main) (take n ops)"

subsection \<open>What an operation does to the clocks\<close>

definition joins :: "(place \<Rightarrow> thrID \<Rightarrow> int) \<Rightarrow> place set \<Rightarrow> (thrID \<Rightarrow> int) \<Rightarrow> bool" where
  "joins V P v \<longleftrightarrow> (\<forall>u c. c \<le> v u \<longleftrightarrow> (\<exists>p \<in> P. c \<le> V p u))"

text \<open>
  The thread takes the maximum of the clocks it hears, writes it where it tells, and increments its
  own entry afterwards; a lock operation notes the clock it had before.
\<close>

definition sent_clock :: "irace_op \<Rightarrow> (place \<Rightarrow> thrID \<Rightarrow> int) \<Rightarrow> (thrID \<Rightarrow> int) \<Rightarrow> place \<Rightarrow> thrID \<Rightarrow> int" where
  "sent_clock op V v p =
     (case p of
        Thr t \<Rightarrow> if t = iactor op then v(t := v t + 1) else v
      | Acq l \<Rightarrow> V (Thr (iactor op))
      | _ \<Rightarrow> v)"

definition effect :: "irace_op \<Rightarrow> place set \<Rightarrow> (place \<Rightarrow> thrID \<Rightarrow> int) \<Rightarrow> (place \<Rightarrow> thrID \<Rightarrow> int) \<Rightarrow> bool" where
  "effect op D V V' \<longleftrightarrow> (\<exists>v. (tells op \<noteq> {} \<longrightarrow> joins V (hears op) v) \<and>
     (\<forall>p. V' p = (if p \<in> tells op then sent_clock op V v p else if p \<in> D then (\<lambda>_. 0) else V p)))"

lemma joins_one: "joins V {p} (V p)"
  by (simp add: joins_def)

lemma joins_two: "(\<forall>u. v u = max (V p u) (V q u)) \<Longrightarrow> joins V {p, q} v"
  by (simp add: joins_def le_max_iff_disj)

text \<open>The operations that only receive a clock.\<close>

lemma receive_effect:
  assumes s: "irace_ok C s" and me: "me \<in> C" and w: "msg_ok C w" and q: "entry w = val s q" and "q \<noteq> Thr me"
  shows "irace_ok C (ir_incrementMyClock me (snd (maxMyClock me w s)))"
    "\<exists>v. joins (val s) {Thr me, q} v \<and> val (ir_incrementMyClock me (snd (maxMyClock me w s))) = (val s)(Thr me := v(me := v me + 1))"
proof -
  obtain s' v where r: "snd (maxMyClock me w s) = s'" "irace_ok C s'" "val s' = (val s)(Thr me := v)"
    "\<forall>u. v u = max (val s (Thr me) u) (entry w u)"
    using receive [OF s me w] by fastforce
  show "irace_ok C (ir_incrementMyClock me (snd (maxMyClock me w s)))" using increment(1) [OF r(2) me] r(1) by simp
  have "joins (val s) {Thr me, q} v" using r(4) by (intro joins_two) (simp add: q)
  moreover have "val (ir_incrementMyClock me (snd (maxMyClock me w s))) = (val s)(Thr me := v(me := v me + 1))"
    using increment(2) [OF r(2) me] r(1,3) by simp
  ultimately show "\<exists>v. joins (val s) {Thr me, q} v \<and>
      val (ir_incrementMyClock me (snd (maxMyClock me w s))) = (val s)(Thr me := v(me := v me + 1))" by blast
qed

text \<open>The loop over the accesses of a variable.\<close>

lemma check_accesses:
  assumes "irace_ok C s" and "me \<in> C" and "\<forall>e \<in> set xs. msg_ok C (ri_vc (snd e))"
  shows "\<exists>s' v. foldl (check_access me iid a) (b, s) xs =
       (b \<or> (\<exists>e \<in> set xs. \<exists>u. val s (Thr me) u < entry (ri_vc (snd e)) u), s') \<and>
     irace_ok C s' \<and> val s' = (val s)(Thr me := v) \<and> ir_accessmap s' = ir_accessmap s \<and>
     (\<forall>u c. c \<le> v u \<longleftrightarrow> c \<le> val s (Thr me) u \<or> (\<exists>e \<in> set xs. c \<le> entry (ri_vc (snd e)) u))"
  using assms
proof (induction xs arbitrary: b s)
  case Nil
  then show ?case by (auto intro!: exI [of _ s] exI [of _ "val s (Thr me)"])
next
  case (Cons e xs)
  let ?w = "ri_vc (snd e)" and ?r = "\<exists>u. val s (Thr me) u < entry (ri_vc (snd e)) u"
  obtain s1 v1 where m: "maxMyClock me ?w s = (?r, s1)" and s1: "irace_ok C s1" and val1: "val s1 = (val s)(Thr me := v1)"
    and v1: "\<forall>u. v1 u = max (val s (Thr me) u) (entry ?w u)" and same: "s1\<lparr>ir_vc := []\<rparr> = s\<lparr>ir_vc := []\<rparr>"
    using receive [OF Cons.prems(1,2), of ?w "[]"] Cons.prems(3) by fastforce
  have acc1: "ir_accessmap s1 = ir_accessmap s" using arg_cong [OF same, of ir_accessmap] by simp
  define s2 where "s2 = snd (check_access me iid a (b, s) e)"
  have step: "check_access me iid a (b, s) e = (b \<or> ?r, s2)" by (simp add: s2_def check_access_def case_prod_beta m)
  have s2: "irace_ok C s2" "val s2 = val s1" "ir_accessmap s2 = ir_accessmap s"
    using s1 acc1 by (simp_all add: s2_def check_access_def case_prod_beta m)
  obtain s' v where rest: "foldl (check_access me iid a) (b \<or> ?r, s2) xs =
       ((b \<or> ?r) \<or> (\<exists>e \<in> set xs. \<exists>u. v1 u < entry (ri_vc (snd e)) u), s')"
    and s': "irace_ok C s'" "val s' = (val s2)(Thr me := v)" "ir_accessmap s' = ir_accessmap s2"
    and v: "\<forall>u c. c \<le> v u \<longleftrightarrow> c \<le> v1 u \<or> (\<exists>e \<in> set xs. c \<le> entry (ri_vc (snd e)) u)"
    using Cons.IH [OF s2(1) Cons.prems(2), of "b \<or> ?r"] Cons.prems(3) by (fastforce simp: s2(2) val1)
  have "((b \<or> ?r) \<or> (\<exists>e \<in> set xs. \<exists>u. v1 u < entry (ri_vc (snd e)) u)) \<longleftrightarrow>
      b \<or> (\<exists>e \<in> set (e # xs). \<exists>u. val s (Thr me) u < entry (ri_vc (snd e)) u)"
  proof (cases ?r)
    case False
    then have "v1 = val s (Thr me)" using v1 by (auto simp: fun_eq_iff not_less max_absorb1)
    with False show ?thesis by simp
  qed simp
  moreover have "val s' = (val s)(Thr me := v)" using s'(2) s2(2) val1 by simp
  moreover have "\<forall>u c. c \<le> v u \<longleftrightarrow> c \<le> val s (Thr me) u \<or> (\<exists>e \<in> set (e # xs). c \<le> entry (ri_vc (snd e)) u)"
    using v v1 by (auto simp: le_max_iff_disj)
  moreover have "foldl (check_access me iid a) (b, s) (e # xs) = foldl (check_access me iid a) (b \<or> ?r, s2) xs" using step by simp
  ultimately show ?case using rest s'(1,3) s2(3) by (intro exI [of _ s'] exI [of _ v]) (simp del: foldl_Cons)
qed

lemma checkWriteRace_result:
  assumes s: "irace_ok C s" and me: "me \<in> C"
  shows "\<exists>s' v. checkWriteRace me iid a s = ((\<exists>t u. val s (Thr me) u < val s (Acc a t) u), s') \<and> irace_ok C s' \<and>
     joins (val s) (insert (Thr me) (range (Acc a))) v \<and>
     (\<forall>p. val s' p = (if p = Thr me then v else if p \<in> range (Acc a) then (\<lambda>_. 0) else val s p))"
proof -
  let ?xs = "ir_accesses s a" and ?s = "s\<lparr>ir_accessmap := cm_touch [] a (ir_accessmap s)\<rparr>"
  have cm: "cm_ok ?xs" using irace_okD(4) [OF s] .
  have acc: "val s (Acc a t) = entry (ri_vc i)" if "(t, i) \<in> set ?xs" for t i
    using that cm by (simp add: val_def in_set_cm_iff cm_get_def)
  have none: "val s (Acc a t) = (\<lambda>_. 0)" if "t \<notin> fst ` set ?xs" for t
    using that by (simp add: val_def cm_get_def fun_eq_iff flip: map_of_eq_None_iff)
  have ok: "irace_ok C ?s" "val ?s = val s" using s by simp_all
  have msgs: "\<forall>e \<in> set ?xs. msg_ok C (ri_vc (snd e))"
  proof
    fix e
    assume "e \<in> set ?xs"
    then have "map_of ?xs (fst e) = Some (snd e)" using in_set_cm_iff [OF cm, of "fst e" "snd e"] by simp
    then have "clock_of s (Acc a (fst e)) = ri_vc (snd e)" by (simp add: cm_get_def)
    with irace_okD(2) [OF s, of "Acc a (fst e)"] show "msg_ok C (ri_vc (snd e))" by simp
  qed
  obtain s1 v where loop: "foldl (check_access me iid a) (False, ?s) ?xs =
       ((\<exists>e \<in> set ?xs. \<exists>u. val s (Thr me) u < entry (ri_vc (snd e)) u), s1)"
    and s1: "irace_ok C s1" "val s1 = (val s)(Thr me := v)"
    and v: "\<forall>u c. c \<le> v u \<longleftrightarrow> c \<le> val s (Thr me) u \<or> (\<exists>e \<in> set ?xs. c \<le> entry (ri_vc (snd e)) u)"
    using check_accesses [OF ok(1) me msgs, of iid a False] ok(2) by auto
  have each: "(\<exists>e \<in> set ?xs. c \<le> entry (ri_vc (snd e)) u) \<longleftrightarrow> (\<exists>t \<in> fst ` set ?xs. c \<le> val s (Acc a t) u)" for c u
    using acc by force
  have any: "(\<exists>t \<in> fst ` set ?xs. c \<le> val s (Acc a t) u) \<or> c \<le> val s (Thr me) u \<longleftrightarrow> (\<exists>t. c \<le> val s (Acc a t) u) \<or> c \<le> val s (Thr me) u" for c u
    using none val_nonneg [OF s, of "Thr me" u] by (metis order_trans)
  have "c \<le> v u \<longleftrightarrow> (\<exists>t. c \<le> val s (Acc a t) u) \<or> c \<le> val s (Thr me) u" for u c
    unfolding any [symmetric] each [symmetric] using v by blast
  then have "joins (val s) (insert (Thr me) (range (Acc a))) v" by (auto simp: joins_def)
  moreover have "(\<exists>e \<in> set ?xs. \<exists>u. val s (Thr me) u < entry (ri_vc (snd e)) u) \<longleftrightarrow> (\<exists>t u. val s (Thr me) u < val s (Acc a t) u)"
  proof
    show "\<exists>t u. val s (Thr me) u < val s (Acc a t) u" if "\<exists>e \<in> set ?xs. \<exists>u. val s (Thr me) u < entry (ri_vc (snd e)) u"
      using that acc by (metis prod.collapse)
  next
    assume "\<exists>t u. val s (Thr me) u < val s (Acc a t) u"
    then obtain t u where tu: "val s (Thr me) u < val s (Acc a t) u" by blast
    with none [of t] val_nonneg [OF s, of "Thr me" u] have "t \<in> fst ` set ?xs" by fastforce
    then obtain i where "(t, i) \<in> set ?xs" by force
    with tu acc [OF this] show "\<exists>e \<in> set ?xs. \<exists>u. val s (Thr me) u < entry (ri_vc (snd e)) u" by (intro bexI [of _ "(t, i)"] exI [of _ u]) simp_all
  qed
  moreover have "val (s1\<lparr>ir_accessmap := cm_put a [] (ir_accessmap s1)\<rparr>) p =
      (if p = Thr me then v else if p \<in> range (Acc a) then (\<lambda>_. 0) else val s p)" for p
    unfolding clear_accesses(2) [OF s1(1)] s1(2) by auto
  ultimately show ?thesis
    using loop clear_accesses(1) [OF s1(1)]
    by (intro exI [of _ "s1\<lparr>ir_accessmap := cm_put a [] (ir_accessmap s1)\<rparr>"] exI [of _ v]) (simp add: checkWriteRace_def)
qed

lemma checkReadRace_result:
  assumes s: "irace_ok C s" and me: "me \<in> C"
  shows "\<exists>s' v. checkReadRace me iid a s = ((\<exists>u. val s (Thr me) u < val s (Wrt a) u), s') \<and> irace_ok C s' \<and>
     joins (val s) {Thr me, Wrt a} v \<and>
     val s' = (val s)(Thr me := v, Acc a (ri_thread (cm_get new_RaceInfo (ir_writemap s) a)) := (\<lambda>_. 0))"
proof -
  let ?w = "cm_get new_RaceInfo (ir_writemap s) a" and ?s = "s\<lparr>ir_writemap := cm_touch new_RaceInfo a (ir_writemap s)\<rparr>"
  let ?r = "\<exists>u. val s (Thr me) u < val s (Wrt a) u"
  have ok: "irace_ok C ?s" "val ?s = val s" using s by simp_all
  have w: "msg_ok C (ri_vc ?w)" "entry (ri_vc ?w) = val s (Wrt a)" using irace_okD(2) [OF s, of "Wrt a"] by (simp_all add: val_def)
  obtain s1 v where m: "maxMyClock me (ri_vc ?w) ?s = (?r, s1)" and s1: "irace_ok C s1" "val s1 = (val s)(Thr me := v)"
    and v: "\<forall>u. v u = max (val s (Thr me) u) (val s (Wrt a) u)"
    using receive [OF ok(1) me w(1), of "[]"] unfolding ok(2) w(2) by fastforce
  define s2 where "s2 = (if ?r then s1\<lparr>ir_races := ir_races s1 @ [\<lparr>rv_thread1 = me, rv_thread2 = ri_thread ?w, rv_iid1 = iid, rv_iid2 = ri_iid ?w,
                 rv_wasWrite1 = False, rv_wasWrite2 = ri_iswrite ?w, rv_addr = a\<rparr>]\<rparr> else s1)"
  have s2: "irace_ok C s2" "val s2 = (val s)(Thr me := v)" using s1 by (simp_all add: s2_def)
  have "checkReadRace me iid a s = (?r, put_access a (ri_thread ?w) new_RaceInfo s2)"
    by (simp add: checkReadRace_def m s2_def zeroAccessMapVC_def Let_def)
  moreover have "irace_ok C (put_access a (ri_thread ?w) new_RaceInfo s2)" using put_info(5) [OF s2(1)] by simp
  moreover have "val (put_access a (ri_thread ?w) new_RaceInfo s2) = (val s)(Thr me := v, Acc a (ri_thread ?w) := (\<lambda>_. 0))"
    using put_info(6) [OF s2(1), of a "ri_thread ?w" new_RaceInfo] s2(2) by (simp add: fun_eq_iff)
  moreover have "joins (val s) {Thr me, Wrt a} v" using v by (rule joins_two)
  ultimately show ?thesis by blast
qed

definition fits :: "thrID set \<Rightarrow> irace_op \<Rightarrow> bool" where
  "fits C op \<longleftrightarrow> iactor op \<in> C \<and> (case op of ICreate me child \<Rightarrow> child \<notin> C | IJoin me u \<Rightarrow> u \<in> C \<and> u \<noteq> me | _ \<Rightarrow> True)"

definition children :: "irace_op \<Rightarrow> thrID set" where
  "children op = (case op of ICreate me child \<Rightarrow> {child} | _ \<Rightarrow> {})"

text \<open>The accesses a read or a write drops, read off the state.\<close>

definition dropped :: "irace_op \<Rightarrow> Iracer \<Rightarrow> place set" where
  "dropped op s = (case op of
     IRead me iid a \<Rightarrow> {Acc a (ri_thread (cm_get new_RaceInfo (ir_writemap s) a))}
   | IWrite me iid a \<Rightarrow> range (Acc a)
   | _ \<Rightarrow> {})"

definition step_spec :: "thrID set \<Rightarrow> irace_op \<Rightarrow> Iracer \<Rightarrow> bool" where
  "step_spec C op s \<longleftrightarrow> irace_ok (children op \<union> C) (irace_step op s) \<and> effect op (dropped op s) (val s) (val (irace_step op s))"

lemma effectI:
  assumes "joins V (hears op) v" and "\<And>p. V' p = (if p \<in> tells op then sent_clock op V v p else if p \<in> D then (\<lambda>_. 0) else V p)"
  shows "effect op D V V'"
  using assms by (auto simp: effect_def)

lemma step_local:
  assumes s: "irace_ok C s" and me: "me \<in> C"
  shows "step_spec C (IStart me) s" "step_spec C (IFinish me) s" "step_spec C (IUnlock me l) s"
    "step_spec C (ISignal me c) s" "step_spec C (IBroadcast me c) s"
proof -
  note inc = increment [OF s me] and touch = touch_known [OF s me]
  have j: "joins (val s) {Thr me} (val s (Thr me))" by (rule joins_one)
  show "step_spec C (IStart me) s" "step_spec C (IFinish me) s"
    using inc by (auto simp: step_spec_def children_def dropped_def sent_clock_def ir_ThreadStart_def ir_ThreadFinish_def intro!: effectI j)
  have msg: "msg_ok C (ir_clock s me)" and val: "entry (ir_clock s me) = val s (Thr me)"
    using irace_okD(2) [OF s, of "Thr me"] by (simp_all add: val_def)
  note put = put_message [OF s msg]
  note inc1 = increment [OF put(1) [of l] me] and inc3 = increment [OF put(3) [of c] me]
  show "step_spec C (IUnlock me l) s"
    using inc1 unfolding put val
    by (auto simp: step_spec_def children_def dropped_def sent_clock_def ir_BeforeMutexUnlock_def touch intro!: effectI j)
  show "step_spec C (ISignal me c) s" "step_spec C (IBroadcast me c) s"
    using inc3 unfolding put val
    by (auto simp: step_spec_def children_def dropped_def sent_clock_def ir_BeforeCondSignal_def ir_BeforeCondBroadcast_def touch intro!: effectI j)
qed

lemma step_create:
  assumes s: "irace_ok C s" and me: "me \<in> C" and child: "child \<notin> C"
  shows "step_spec C (ICreate me child) s"
proof -
  note new = new_thread [OF s me child]
  have "me \<in> insert child C" using me by simp
  note inc = increment [OF new(1) this]
  have ne: "child \<noteq> me" using me child by blast
  show ?thesis
    using inc ne unfolding new(2)
    by (auto simp: step_spec_def children_def dropped_def sent_clock_def ir_BeforeCreate_def intro!: effectI joins_one)
qed

lemma step_receive:
  assumes s: "irace_ok C s" and me: "me \<in> C"
  shows "u \<in> C \<Longrightarrow> u \<noteq> me \<Longrightarrow> step_spec C (IJoin me u) s" "step_spec C (IWait me c) s" "step_spec C (ITimedwait me ret_val c) s"
proof -
  show "step_spec C (IJoin me u) s" if u: "u \<in> C" "u \<noteq> me"
  proof -
    have w: "msg_ok C (ir_clock s u)" "entry (ir_clock s u) = val s (Thr u)" "Thr u \<noteq> Thr me"
      using irace_okD(2) [OF s, of "Thr u"] u(2) by (simp_all add: val_def)
    from receive_effect [OF s me w] obtain v where v: "irace_ok C (irace_step (IJoin me u) s)" "joins (val s) {Thr me, Thr u} v"
      "val (irace_step (IJoin me u) s) = (val s)(Thr me := v(me := v me + 1))"
      by (auto simp: ir_AfterJoin_def touch_known [OF s u(1)])
    then show ?thesis by (auto simp: step_spec_def children_def dropped_def sent_clock_def simp del: irace_step.simps intro!: effectI [of _ _ v])
  qed
  let ?s = "s\<lparr>ir_condmap := cm_touch [] c (ir_condmap s)\<rparr>"
  have t: "irace_ok C ?s" "val ?s = val s" using s by simp_all
  have w: "msg_ok C (cm_get [] (ir_condmap s) c)" "entry (cm_get [] (ir_condmap s) c) = val ?s (Cnd c)" "Cnd c \<noteq> Thr me"
    using irace_okD(2) [OF s, of "Cnd c"] by (simp_all add: val_def)
  from receive_effect [OF t(1) me w] obtain v where v: "irace_ok C (irace_step (IWait me c) s)" "joins (val s) {Thr me, Cnd c} v"
    "val (irace_step (IWait me c) s) = (val s)(Thr me := v(me := v me + 1))"
    by (auto simp: ir_AfterCondWait_def)
  then show "step_spec C (IWait me c) s"
    by (auto simp: step_spec_def children_def dropped_def sent_clock_def simp del: irace_step.simps intro!: effectI [of _ _ v])
  have same: "irace_step (ITimedwait me ret_val c) s = (if ret_val = 0 then irace_step (IWait me c) s else s)"
    by (simp add: ir_AfterCondTimedwait_def ir_AfterCondWait_def)
  show "step_spec C (ITimedwait me ret_val c) s"
  proof (cases "ret_val = 0")
    case True
    with v same show ?thesis
      by (auto simp: step_spec_def children_def dropped_def sent_clock_def simp del: irace_step.simps intro!: effectI [of _ _ v])
  next
    case False
    with s same show ?thesis by (auto simp: step_spec_def children_def dropped_def effect_def simp del: irace_step.simps)
  qed
qed

lemma step_lock:
  assumes s: "irace_ok C s" and me: "me \<in> C"
  shows "step_spec C (ILock me l) s"
proof -
  let ?acq = "cm_get new_LockInfo (ir_acq_lockmap s) l"
  define s1 where "s1 = (if ir_isLockRace (ir_clock s me) (li_vc ?acq)
               then s\<lparr>ir_lockraces := ir_lockraces s @ [\<lparr>lr_thread1 = li_thread ?acq, lr_thread2 = me, lr_lock = l\<rparr>]\<rparr> else s)"
  have s1: "irace_ok C s1" "val s1 = val s" "ir_clock s1 me = ir_clock s me" "ir_lockmap s1 = ir_lockmap s" using s by (simp_all add: s1_def)
  define j where "j = \<lparr>li_thread = me, li_vc = ir_clock s me\<rparr>"
  have j: "msg_ok C (li_vc j)" "entry (li_vc j) = val s (Thr me)" using irace_okD(2) [OF s, of "Thr me"] by (simp_all add: j_def val_def)
  define s2 where "s2 = s1\<lparr>ir_acq_lockmap := cm_put l j (ir_acq_lockmap s1)\<rparr>"
  have s2: "irace_ok C s2" "val s2 = (val s)(Acq l := val s (Thr me))" "ir_lockmap s2 = ir_lockmap s"
    using put_info(1) [OF s1(1) j(1)] put_info(2) [OF s1(1), of l j] j(2) s1 by (simp_all add: s2_def)
  let ?s3 = "s2\<lparr>ir_lockmap := cm_touch [] l (ir_lockmap s2)\<rparr>"
  have s3: "irace_ok C ?s3" "val ?s3 = val s2" using s2(1) by (simp_all only: irace_ok_same val_same)
  have w: "msg_ok C (cm_get [] (ir_lockmap s) l)" "entry (cm_get [] (ir_lockmap s) l) = val ?s3 (Lck l)" "Lck l \<noteq> Thr me"
    using irace_okD(2) [OF s, of "Lck l"] s2(2) by (simp_all add: val_def)
  have run: "irace_step (ILock me l) s = ir_incrementMyClock me (snd (maxMyClock me (cm_get [] (ir_lockmap s) l) ?s3))"
    by (simp add: ir_AfterMutexLock_def Let_def touch_known [OF s me] s2_def s1_def j_def)
  from receive_effect [OF s3(1) me w] obtain v where v: "irace_ok C (irace_step (ILock me l) s)" "joins (val s2) {Thr me, Lck l} v"
    "val (irace_step (ILock me l) s) = (val s2)(Thr me := v(me := v me + 1))"
    unfolding run s3(2) by blast
  have "joins (val s) {Thr me, Lck l} v" using v(2) by (simp add: joins_def s2(2))
  with v show ?thesis
    by (auto simp: step_spec_def children_def dropped_def sent_clock_def s2(2) simp del: irace_step.simps intro!: effectI [of _ _ v])
qed

lemma step_access:
  assumes s: "irace_ok C s" and me: "me \<in> C"
  shows "step_spec C (IRead me iid a) s" "step_spec C (IWrite me iid a) s"
proof -
  let ?w = "ri_thread (cm_get new_RaceInfo (ir_writemap s) a)"
  obtain r s1 v where c: "checkReadRace me iid a s = (r, s1)" and s1: "irace_ok C s1" and v: "joins (val s) {Thr me, Wrt a} v"
    and val1: "val s1 = (val s)(Thr me := v, Acc a ?w := (\<lambda>_. 0))"
    using checkReadRace_result [OF s me, of iid a] by blast
  define i where "i = \<lparr>ri_thread = me, ri_iid = iid, ri_vc = ir_clock s1 me, ri_iswrite = False\<rparr>"
  have i: "msg_ok C (ri_vc i)" "entry (ri_vc i) = val s1 (Thr me)" using irace_okD(2) [OF s1, of "Thr me"] by (simp_all add: i_def val_def)
  note p = put_info(5) [OF s1 i(1), of a me] put_info(6) [OF s1, of a me i]
  note inc = increment [OF p(1) me]
  have "irace_step (IRead me iid a) s = ir_incrementMyClock me (put_access a me i s1)" by (simp add: ir_memoryRead_def c i_def Let_def)
  with inc show "step_spec C (IRead me iid a) s" unfolding p(2) i(2) val1
    by (auto simp: step_spec_def children_def dropped_def sent_clock_def simp del: irace_step.simps intro!: effectI [of _ _ v] v)
next
  obtain r s1 v where c: "checkWriteRace me iid a s = (r, s1)" and s1: "irace_ok C s1" and v: "joins (val s) (insert (Thr me) (range (Acc a))) v"
    and val1: "\<And>p. val s1 p = (if p = Thr me then v else if p \<in> range (Acc a) then (\<lambda>_. 0) else val s p)"
    using checkWriteRace_result [OF s me, of iid a] by blast
  define i where "i = \<lparr>ri_thread = me, ri_iid = iid, ri_vc = ir_clock s1 me, ri_iswrite = True\<rparr>"
  have i: "msg_ok C (ri_vc i)" "entry (ri_vc i) = val s1 (Thr me)" using irace_okD(2) [OF s1, of "Thr me"] by (simp_all add: i_def val_def)
  define s2 where "s2 = put_access a me i s1"
  have s2: "irace_ok C s2" "val s2 = (val s1)(Acc a me := v)"
    using put_info(5) [OF s1 i(1), of a me] put_info(6) [OF s1, of a me i] i(2) val1 by (simp_all add: s2_def)
  note p = put_info(3) [OF s2(1) i(1), of a] put_info(4) [OF s2(1), of a i]
  note inc = increment [OF p(1) me]
  have "irace_step (IWrite me iid a) s = ir_incrementMyClock me (s2\<lparr>ir_writemap := cm_put a i (ir_writemap s2)\<rparr>)"
    by (simp add: ir_memoryWrite_def c i_def s2_def Let_def)
  with inc show "step_spec C (IWrite me iid a) s" unfolding p(2) i(2) s2(2)
    by (auto simp: step_spec_def children_def dropped_def sent_clock_def val1 simp del: irace_step.simps intro!: effectI [of _ _ v] v)
qed

lemma irace_step_spec: "irace_ok C s \<Longrightarrow> fits C op \<Longrightarrow> step_spec C op s"
  by (cases op) (simp_all add: fits_def step_local step_create step_receive step_lock step_access)

end
