(* ===== verification/Immediate_Exact.thy ===== *)
theory Immediate_Exact
  imports Immediate_Race
begin

text \<open>
  Which accesses the immediate race detector reports. The clocks of a run are related to the
  messages of the run (\<open>ihb\<close>): the entry for a thread in a clock says how many of its operations the
  holder of the clock has heard of.
\<close>

section \<open>The clocks of a run\<close>

lemma writemap_same [simp]:
  "ir_writemap (ir_incrementMyClock t s) = ir_writemap s" "ir_writemap (ir_touch t s) = ir_writemap s"
  "ir_writemap (snd (maxMyClock t w s)) = ir_writemap s" "ir_writemap (put_access a t i s) = ir_writemap s"
  "ir_writemap (startNewThread t s) = ir_writemap s" "ir_writemap (donateClock t u s) = ir_writemap s"
proof -
  have "ir_writemap (foldl (\<lambda>s (k, x). s\<lparr>ir_vc := cm_put u (cm_put k x (ir_clock s u)) (ir_vc s)\<rparr>) s xs) = ir_writemap s" for s xs
    by (induction xs arbitrary: s) auto
  then show "ir_writemap (donateClock t u s) = ir_writemap s" by (simp add: donateClock_def ir_touch_def)
qed (simp_all add: ir_incrementMyClock_def ir_touch_def maxMyClock_def put_access_def startNewThread_def Let_def case_prod_beta)

lemma writemap_check_access: "ir_writemap (snd (foldl (check_access me iid a) (b, s) xs)) = ir_writemap s"
  by (induction xs arbitrary: b s) (simp_all add: check_access_def case_prod_beta)

lemma writer_step:
  "ri_thread (cm_get new_RaceInfo (ir_writemap (irace_step op s)) a) =
     (case op of IWrite t iid b \<Rightarrow> if b = a then t else ri_thread (cm_get new_RaceInfo (ir_writemap s) a)
      | _ \<Rightarrow> ri_thread (cm_get new_RaceInfo (ir_writemap s) a))"
proof (cases op)
  case (IRead t iid b)
  have "ir_writemap (snd (checkReadRace t iid b s)) = cm_touch new_RaceInfo b (ir_writemap s)"
    by (simp add: checkReadRace_def Let_def case_prod_beta zeroAccessMapVC_def)
  then show ?thesis by (simp add: IRead ir_memoryRead_def Let_def)
next
  case (IWrite t iid b)
  have "ir_writemap (snd (checkWriteRace t iid b s)) = ir_writemap s"
    by (simp add: checkWriteRace_def Let_def case_prod_beta writemap_check_access)
  then show ?thesis by (simp add: IWrite ir_memoryWrite_def Let_def)
qed (simp_all add: ir_ThreadStart_def ir_ThreadFinish_def ir_BeforeCreate_def ir_AfterJoin_def ir_AfterMutexLock_def
    ir_BeforeMutexUnlock_def ir_BeforeCondSignal_def ir_BeforeCondBroadcast_def ir_AfterCondWait_def ir_AfterCondTimedwait_def Let_def)

lemma irace_at_Suc: "n < length ops \<Longrightarrow> irace_at main ops (Suc n) = irace_step (ops ! n) (irace_at main ops n)"
  by (simp add: irace_at_def take_Suc_conv_app_nth)

lemma last_writer_state:
  "n \<le> length ops \<Longrightarrow> ri_thread (cm_get new_RaceInfo (ir_writemap (irace_at main ops n)) a) = last_writer ops n a"
proof (induction n)
  case 0
  show ?case by (simp add: irace_at_def new_Iracer_def ir_incrementMyClock_def Let_def cm_get_def new_RaceInfo_def)
next
  case (Suc n)
  then show ?case by (simp add: irace_at_Suc writer_step split: irace_op.splits)
qed

lemma dropped_at: "n < length ops \<Longrightarrow> dropped (ops ! n) (irace_at main ops n) = drops ops n"
  by (simp add: dropped_def drops_def last_writer_state split: irace_op.splits)

lemma icreated_Suc: "icreated main ops (Suc n) = children (ops ! n) \<union> icreated main ops n"
  by (auto simp: icreated_def children_def less_Suc_eq split: irace_op.splits)

lemma irace_legalD:
  assumes "irace_legal main ops" and "n < length ops"
  shows "iactor (ops ! n) \<notin> ijoined ops n" "iactor (ops ! n) \<in> icreated main ops n" "fits (icreated main ops n) (ops ! n)"
    "ops ! n = IStart t \<Longrightarrow> t \<notin> istarted main ops n"
    "\<nexists>t. ops ! n = IStart t \<Longrightarrow> iactor (ops ! n) \<in> istarted main ops n"
proof -
  have legal: "iactor (ops ! n) \<notin> ijoined ops n \<and>
     (case ops ! n of
        IStart t \<Rightarrow> t \<in> icreated main ops n \<and> t \<notin> istarted main ops n
      | _ \<Rightarrow> iactor (ops ! n) \<in> icreated main ops n \<and> iactor (ops ! n) \<in> istarted main ops n) \<and>
     (case ops ! n of
        ICreate me child \<Rightarrow> child \<notin> icreated main ops n
      | IJoin me u \<Rightarrow> u \<in> icreated main ops n \<and> u \<noteq> me
      | _ \<Rightarrow> True)"
    using assms unfolding irace_legal_def by blast
  then show "iactor (ops ! n) \<notin> ijoined ops n" by (rule conjunct1)
  show created: "iactor (ops ! n) \<in> icreated main ops n" using legal by (cases "ops ! n") simp_all
  show "fits (icreated main ops n) (ops ! n)" using legal created by (cases "ops ! n") (simp_all add: fits_def)
  show "t \<notin> istarted main ops n" if "ops ! n = IStart t" using legal that by simp
  show "iactor (ops ! n) \<in> istarted main ops n" if "\<nexists>t. ops ! n = IStart t" using legal that by (cases "ops ! n") simp_all
qed

lemma fitsD: "fits C op \<Longrightarrow> op = ICreate me u \<Longrightarrow> u \<notin> C" "fits C op \<Longrightarrow> op = IJoin me u \<Longrightarrow> u \<noteq> me"
  by (simp_all add: fits_def)

text \<open>Throughout a legal run the state is well-formed.\<close>

lemma irace_ok_at:
  assumes "irace_legal main ops" and "n \<le> length ops"
  shows "irace_ok (icreated main ops n) (irace_at main ops n)"
  using assms(2)
proof (induction n)
  case 0
  have "icreated main ops 0 = {main}" by (simp add: icreated_def)
  moreover have "irace_ok {main} (new_Iracer main)"
    by (auto simp: irace_ok_def all_places new_Iracer_def ir_incrementMyClock_def Let_def ir_accesses_def cm_get_def
        clock_ok_def msg_ok_def vc_ok_def cm_ok_def known_threads_def)
  ultimately show ?case by (simp add: irace_at_def)
next
  case (Suc n)
  then have n: "n < length ops" by simp
  have "step_spec (icreated main ops n) (ops ! n) (irace_at main ops n)"
    using irace_step_spec irace_legalD(3) [OF assms(1) n] Suc by simp
  then show ?case by (simp add: irace_at_Suc [OF n] icreated_Suc step_spec_def)
qed

definition clk :: "thrID \<Rightarrow> irace_op list \<Rightarrow> nat \<Rightarrow> place \<Rightarrow> thrID \<Rightarrow> int" where
  "clk main ops n = val (irace_at main ops n)"

lemma clk_0: "clk main ops 0 = (\<lambda>_ _. 0)(Thr main := (\<lambda>_. 0)(main := 1))"
proof
  fix p
  show "clk main ops 0 p = ((\<lambda>_ _. 0)(Thr main := (\<lambda>_. 0)(main := 1))) p"
    by (cases p) (auto simp: clk_def irace_at_def val_def new_Iracer_def ir_incrementMyClock_def Let_def ir_accesses_def cm_get_def entry_def fun_eq_iff)
qed

lemma clk_Suc:
  assumes "irace_legal main ops" and "n < length ops"
  shows "effect (ops ! n) (drops ops n) (clk main ops n) (clk main ops (Suc n))"
  using irace_step_spec [OF irace_ok_at irace_legalD(3)] assms
  by (simp add: step_spec_def clk_def irace_at_Suc dropped_at)

section \<open>What is known\<close>

text \<open>The operations that have reached a place, by any chain of messages.\<close>

primrec reached :: "irace_op list \<Rightarrow> nat \<Rightarrow> place \<Rightarrow> nat set" where
  "reached ops 0 p = {}"
| "reached ops (Suc n) p =
     (if p \<in> tells (ops ! n) then insert n (\<Union>q \<in> hears (ops ! n). reached ops n q)
      else if p \<in> drops ops n then {} else reached ops n p)"

definition ipast :: "irace_op list \<Rightarrow> nat \<Rightarrow> nat set" where
  "ipast ops n = (\<Union>q \<in> hears (ops ! n). reached ops n q)"

lemma holds_Suc:
  "holds ops (Suc n) p i \<longleftrightarrow> (if p \<in> tells (ops ! n) then i = n else p \<notin> drops ops n \<and> holds ops n p i)"
proof (cases "i = n")
  case False
  then show ?thesis by (auto simp: holds_def less_Suc_eq)
qed (auto simp: holds_def)

lemma reached_iff: "i \<in> reached ops n p \<longleftrightarrow> (\<exists>k. holds ops n p k \<and> (i = k \<or> i \<in> ipast ops k))"
proof (induction n)
  case 0
  show ?case by (simp add: holds_def)
next
  case (Suc n)
  then show ?case by (auto simp: holds_Suc ipast_def [of ops n])
qed

lemma holds_less: "holds ops n p k \<Longrightarrow> k < n"
  by (simp add: holds_def)

lemma reached_less: "i \<in> reached ops n p \<Longrightarrow> i < n"
  by (induction n arbitrary: p) (fastforce split: if_splits)+

lemma ipast_iff: "i \<in> ipast ops n \<longleftrightarrow> (\<exists>p \<in> hears (ops ! n). \<exists>k. holds ops n p k \<and> (i = k \<or> i \<in> ipast ops k))"
  unfolding ipast_def [of ops n] by (simp add: reached_iff)

lemma ipast_trans: "i \<in> ipast ops j \<Longrightarrow> j \<in> ipast ops k \<Longrightarrow> i \<in> ipast ops k"
proof (induction k rule: less_induct)
  case (less k)
  then obtain p m where pm: "p \<in> hears (ops ! k)" "holds ops k p m" "j = m \<or> j \<in> ipast ops m" using ipast_iff [of j ops k] by blast
  then have "i \<in> ipast ops m" using less.IH [OF holds_less [OF pm(2)]] less.prems(1) by blast
  with pm show ?case using ipast_iff [of i ops k] by blast
qed

lemma ihb_iff_past: "j < length ops \<Longrightarrow> ihb ops i j \<longleftrightarrow> i \<in> ipast ops j"
proof
  assume "ihb ops i j"
  then show "i \<in> ipast ops j"
  proof induction
    case (pass j p i)
    then show ?case using ipast_iff [of i ops j] by blast
  next
    case (chain i j k)
    then show ?case using ipast_trans [of i ops j k] by simp
  qed
next
  assume "j < length ops" and "i \<in> ipast ops j"
  then show "ihb ops i j"
  proof (induction j rule: less_induct)
    case (less j)
    then obtain p k where pk: "p \<in> hears (ops ! j)" "holds ops j p k" "i = k \<or> i \<in> ipast ops k" using ipast_iff [of i ops j] by blast
    have kj: "ihb ops k j" using ihb.pass [OF pk(2) less.prems(1) pk(1)] .
    from pk(3) show ?case
    proof
      assume "i \<in> ipast ops k"
      with less holds_less [OF pk(2)] have "ihb ops i k" by simp
      from this kj show ?thesis by (rule ihb.chain)
    qed (use kj in simp)
  qed
qed
section \<open>Bounds on the clocks\<close>

lemma thread_places:
  "Thr t \<in> tells op \<Longrightarrow> t = iactor op \<or> op = ICreate (iactor op) t"
  "Thr t \<in> hears op \<Longrightarrow> t = iactor op \<or> op = IJoin (iactor op) t"
  "tells op \<noteq> {} \<Longrightarrow> Thr (iactor op) \<in> tells op \<and> Thr (iactor op) \<in> hears op"
  by (cases op; auto split: if_splits)+

lemma thread_not_dropped: "Thr t \<notin> drops ops n"
  by (auto simp: drops_def split: irace_op.splits)

lemma silent: "tells (ops ! n) = {} \<Longrightarrow> (\<exists>me r c. ops ! n = ITimedwait me r c) \<and> hears (ops ! n) = {} \<and> drops ops n = {}"
  by (cases "ops ! n") (auto simp: drops_def split: if_splits)

lemma istarted_Suc: "istarted main ops (Suc n) = istarted main ops n \<union> {t. ops ! n = IStart t}"
  by (auto simp: istarted_def less_Suc_eq)

lemma ijoined_Suc: "ijoined ops (Suc n) = ijoined ops n \<union> {t. \<exists>me. ops ! n = IJoin me t}"
  by (auto simp: ijoined_def less_Suc_eq)

lemma actor_started: "irace_legal main ops \<Longrightarrow> n < length ops \<Longrightarrow> iactor (ops ! n) \<in> istarted main ops (Suc n)"
  using irace_legalD(5) [of main ops n] by (cases "\<exists>t. ops ! n = IStart t") (auto simp: istarted_Suc)

lemma started_created:
  assumes "irace_legal main ops" and "n \<le> length ops"
  shows "istarted main ops n \<subseteq> icreated main ops n"
  using assms(2)
proof (induction n)
  case 0
  show ?case by (simp add: istarted_def icreated_def)
next
  case (Suc n)
  have "t \<in> icreated main ops n" if "ops ! n = IStart t" for t
    using irace_legalD(2) [OF assms(1), of n] Suc.prems that by simp
  with Suc show ?case by (auto simp: istarted_Suc icreated_Suc)
qed

lemma clk_nonneg: "irace_legal main ops \<Longrightarrow> n \<le> length ops \<Longrightarrow> 0 \<le> clk main ops n p u"
  unfolding clk_def using irace_ok_at val_nonneg by blast

lemma joins_le: "joins V P v \<Longrightarrow> (\<And>p. p \<in> P \<Longrightarrow> V p u \<le> b) \<Longrightarrow> v u \<le> b"
  unfolding joins_def using order_trans by blast

lemma joins_less: "joins V P v \<Longrightarrow> (\<And>p. p \<in> P \<Longrightarrow> V p u < b) \<Longrightarrow> v u < b"
  unfolding joins_def using le_less_trans by blast

lemma joins_ge: "joins V P v \<Longrightarrow> p \<in> P \<Longrightarrow> V p u \<le> v u"
  unfolding joins_def by blast

text \<open>
  No place knows more of a thread than the thread itself; nothing is known of one that has not
  started; and a thread that is running is strictly ahead of what others know of it.
\<close>

definition bounded :: "thrID \<Rightarrow> irace_op list \<Rightarrow> nat \<Rightarrow> bool" where
  "bounded main ops n \<longleftrightarrow>
     (\<forall>p u. clk main ops n p u \<le> clk main ops n (Thr u) u) \<and>
     (\<forall>p u. u \<notin> istarted main ops n \<longrightarrow> clk main ops n p u = 0) \<and>
     (\<forall>p u. u \<in> istarted main ops n \<longrightarrow> u \<notin> ijoined ops n \<longrightarrow> p \<noteq> Thr u \<longrightarrow> clk main ops n p u < clk main ops n (Thr u) u)"

lemma boundedD:
  assumes "bounded main ops n"
  shows "clk main ops n p u \<le> clk main ops n (Thr u) u" "u \<notin> istarted main ops n \<Longrightarrow> clk main ops n p u = 0"
    "u \<in> istarted main ops n \<Longrightarrow> u \<notin> ijoined ops n \<Longrightarrow> p \<noteq> Thr u \<Longrightarrow> clk main ops n p u < clk main ops n (Thr u) u"
  using assms by (auto simp: bounded_def)

text \<open>One operation, with the clock it computes.\<close>

lemma clk_step:
  assumes "irace_legal main ops" and "n < length ops" and "tells (ops ! n) \<noteq> {}"
  obtains v where "joins (clk main ops n) (hears (ops ! n)) v"
    "\<And>p. clk main ops (Suc n) p =
       (if p \<in> tells (ops ! n) then sent_clock (ops ! n) (clk main ops n) v p else if p \<in> drops ops n then (\<lambda>_. 0) else clk main ops n p)"
proof -
  obtain v where "joins (clk main ops n) (hears (ops ! n)) v \<and>
      (\<forall>p. clk main ops (Suc n) p =
         (if p \<in> tells (ops ! n) then sent_clock (ops ! n) (clk main ops n) v p else if p \<in> drops ops n then (\<lambda>_. 0) else clk main ops n p))"
    using clk_Suc [OF assms(1,2)] assms(3) unfolding effect_def by blast
  then show ?thesis using that by blast
qed

lemma clk_silent:
  assumes "irace_legal main ops" and "n < length ops" and "tells (ops ! n) = {}"
  shows "clk main ops (Suc n) = clk main ops n"
  using clk_Suc [OF assms(1,2)] silent [OF assms(3)] assms(3) by (auto simp: effect_def)

lemma sent_cases:
  "sent_clock op V v p u = (if p = Thr (iactor op) \<and> u = iactor op then v u + 1 else if \<exists>l. p = Acq l then V (Thr (iactor op)) u else v u)"
  by (cases p) (auto simp: sent_clock_def)

lemma own_Suc:
  assumes legal: "irace_legal main ops" and n: "n < length ops" and b: "bounded main ops n" and loud: "tells (ops ! n) \<noteq> {}"
  shows "clk main ops (Suc n) (Thr (iactor (ops ! n))) (iactor (ops ! n)) = clk main ops n (Thr (iactor (ops ! n))) (iactor (ops ! n)) + 1"
    "u \<noteq> iactor (ops ! n) \<Longrightarrow> u \<in> istarted main ops n \<Longrightarrow> clk main ops (Suc n) (Thr u) u = clk main ops n (Thr u) u"
    "clk main ops n (Thr u) u \<le> clk main ops (Suc n) (Thr u) u"
    "joins (clk main ops n) (hears (ops ! n)) v \<Longrightarrow> v u \<le> clk main ops n (Thr u) u"
    "joins (clk main ops n) (hears (ops ! n)) v \<Longrightarrow> v (iactor (ops ! n)) = clk main ops n (Thr (iactor (ops ! n))) (iactor (ops ! n))"
proof -
  let ?V = "clk main ops n" and ?W = "clk main ops (Suc n)" and ?op = "ops ! n" and ?me = "iactor (ops ! n)"
  obtain w where w: "joins ?V (hears ?op) w"
    and W: "\<And>p. ?W p = (if p \<in> tells ?op then sent_clock ?op ?V w p else if p \<in> drops ops n then (\<lambda>_. 0) else ?V p)"
    using clk_step [OF legal n loud] by blast
  have me: "Thr ?me \<in> tells ?op" "Thr ?me \<in> hears ?op" using thread_places(3) [OF loud] by simp_all
  show v_le: "v u \<le> ?V (Thr u) u" if "joins ?V (hears ?op) v" for u v using joins_le [OF that boundedD(1) [OF b]] .
  show v_me: "v ?me = ?V (Thr ?me) ?me" if "joins ?V (hears ?op) v" for v
    using joins_ge [OF that me(2)] v_le [OF that] by (simp add: order_antisym)
  show W_me: "?W (Thr ?me) ?me = ?V (Thr ?me) ?me + 1" using me(1) v_me [OF w] by (simp add: W sent_cases)
  show W_other: "?W (Thr u) u = ?V (Thr u) u" if "u \<noteq> ?me" "u \<in> istarted main ops n" for u
  proof -
    have "?op \<noteq> ICreate ?me u"
      using fitsD(1) [OF irace_legalD(3) [OF legal n]] started_created [OF legal, of n] n that(2) by auto
    then have "Thr u \<notin> tells ?op" using thread_places(1) [of u ?op] that(1) by blast
    then show ?thesis by (simp add: W thread_not_dropped)
  qed
  have "0 \<le> ?W (Thr u) u" for u using clk_nonneg [OF legal] n by simp
  then show "?V (Thr u) u \<le> ?W (Thr u) u" for u
    using W_me W_other boundedD(2) [OF b, of u "Thr u"] by (cases "u = ?me"; cases "u \<in> istarted main ops n") auto
qed

lemma bounded_Suc:
  assumes legal: "irace_legal main ops" and n: "n < length ops" and b: "bounded main ops n" and loud: "tells (ops ! n) \<noteq> {}"
  shows "bounded main ops (Suc n)"
proof -
  let ?V = "clk main ops n" and ?W = "clk main ops (Suc n)" and ?op = "ops ! n" and ?me = "iactor (ops ! n)"
  obtain v where v: "joins ?V (hears ?op) v"
    and W: "\<And>p. ?W p = (if p \<in> tells ?op then sent_clock ?op ?V v p else if p \<in> drops ops n then (\<lambda>_. 0) else ?V p)"
    using clk_step [OF legal n loud] by blast
  have V0: "0 \<le> ?V p u" and W0: "0 \<le> ?W p u" for p u using clk_nonneg [OF legal] n by simp_all
  note le = boundedD(1) [OF b] and zero = boundedD(2) [OF b] and less = boundedD(3) [OF b]
  note own = own_Suc [OF legal n b loud]
  note W_me = own(1) and W_other = own(2) and grows = own(3) and v_le = own(4) [OF v]
  have below: "?W p u \<le> ?V (Thr u) u" if "p \<noteq> Thr ?me \<or> u \<noteq> ?me" for p u
    using that v_le le V0 by (auto simp: W sent_cases)
  have "?W p u \<le> ?W (Thr u) u" for p u
    using order_trans [OF below [of p u] grows [of u]] by (cases "p = Thr ?me \<and> u = ?me") auto
  moreover have "?W p u = 0" if "u \<notin> istarted main ops (Suc n)" for p u
  proof -
    have "u \<noteq> ?me" "u \<notin> istarted main ops n" using actor_started [OF legal n] that by (auto simp: istarted_Suc)
    with below [of p u] zero [of u "Thr u"] W0 [of p u] show ?thesis by simp
  qed
  moreover have "?W p u < ?W (Thr u) u" if u: "u \<in> istarted main ops (Suc n)" "u \<notin> ijoined ops (Suc n)" "p \<noteq> Thr u" for p u
  proof (cases "u = ?me")
    case True
    with below [of p u] u(3) W_me show ?thesis by simp
  next
    case False
    have s: "u \<in> istarted main ops n" and j: "u \<notin> ijoined ops n" and "?op \<noteq> IJoin ?me u"
      using u False by (auto simp: istarted_Suc ijoined_Suc)
    then have "Thr u \<notin> hears ?op" using thread_places(2) [of u ?op] False by blast
    then have "v u < ?V (Thr u) u" using joins_less [OF v less [OF s j]] by blast
    moreover have "?V (Thr ?me) u < ?V (Thr u) u" "?V p u < ?V (Thr u) u" using less [OF s j] False u(3) by simp_all
    ultimately show ?thesis using W_other [OF False s] V0 [of p u] False by (simp add: W sent_cases)
  qed
  ultimately show ?thesis by (simp add: bounded_def)
qed

lemma bounded_at:
  assumes "irace_legal main ops" and "n \<le> length ops"
  shows "bounded main ops n"
  using assms(2)
proof (induction n)
  case 0
  show ?case by (auto simp: bounded_def clk_0 istarted_def)
next
  case (Suc n)
  show ?case
  proof (cases "tells (ops ! n) = {}")
    case True
    then have "clk main ops (Suc n) = clk main ops n" "istarted main ops (Suc n) = istarted main ops n" "ijoined ops (Suc n) = ijoined ops n"
      using clk_silent [OF assms(1)] silent Suc.prems by (auto simp: istarted_Suc ijoined_Suc)
    with Suc show ?thesis by (simp add: bounded_def)
  next
    case False
    with Suc bounded_Suc [OF assms(1)] show ?thesis by simp
  qed
qed

section \<open>Clocks measure what is known\<close>

text \<open>The time of an operation, and the clock with which it is compared later.\<close>

definition etime :: "thrID \<Rightarrow> irace_op list \<Rightarrow> nat \<Rightarrow> int" where
  "etime main ops j = clk main ops j (Thr (iactor (ops ! j))) (iactor (ops ! j))"

definition stamp :: "thrID \<Rightarrow> irace_op list \<Rightarrow> nat \<Rightarrow> thrID \<Rightarrow> int" where
  "stamp main ops j u = (case ops ! j of
     ILock me l \<Rightarrow> clk main ops j (Thr me) u
   | _ \<Rightarrow> clk main ops (Suc j) (Thr (iactor (ops ! j))) u - (if u = iactor (ops ! j) then 1 else 0))"

lemma stamp_result:
  assumes legal: "irace_legal main ops" and n: "n < length ops" and loud: "tells (ops ! n) \<noteq> {}"
    and v: "joins (clk main ops n) (hears (ops ! n)) v"
    and W: "clk main ops (Suc n) (Thr (iactor (ops ! n))) = sent_clock (ops ! n) (clk main ops n) v (Thr (iactor (ops ! n)))"
  shows "stamp main ops n u \<le> v u" "stamp main ops n (iactor (ops ! n)) = etime main ops n" "\<nexists>me l. ops ! n = ILock me l \<Longrightarrow> stamp main ops n u = v u"
proof -
  have "bounded main ops n" using bounded_at [OF legal] n by simp
  note v_me = own_Suc(5) [OF legal n this loud v]
  have eq: "stamp main ops n u = v u" if "\<nexists>me l. ops ! n = ILock me l" for u
    using that W by (cases "ops ! n") (simp_all add: stamp_def sent_clock_def)
  then show "stamp main ops n u = v u" if "\<nexists>me l. ops ! n = ILock me l" using that by simp
  show "stamp main ops n u \<le> v u"
  proof (cases "\<exists>me l. ops ! n = ILock me l")
    case True
    then show ?thesis using joins_ge [OF v, of "Thr (iactor (ops ! n))" u] by (auto simp: stamp_def)
  next
    case False
    with eq show ?thesis by simp
  qed
  show "stamp main ops n (iactor (ops ! n)) = etime main ops n"
  proof (cases "\<exists>me l. ops ! n = ILock me l")
    case True
    then show ?thesis by (auto simp: stamp_def etime_def)
  next
    case False
    with eq v_me show ?thesis by (simp add: etime_def)
  qed
qed

lemma etime_pos:
  assumes "irace_legal main ops" and "n < length ops" and "\<nexists>t. ops ! n = IStart t"
  shows "1 \<le> etime main ops n"
proof -
  have "iactor (ops ! n) \<in> istarted main ops n" "iactor (ops ! n) \<notin> ijoined ops n"
    using irace_legalD(5,1) [OF assms(1,2)] assms(3) by simp_all
  then have "clk main ops n (Lck 0) (iactor (ops ! n)) < etime main ops n"
    using boundedD(3) [OF bounded_at [OF assms(1)]] assms(2) by (simp add: etime_def)
  with clk_nonneg [OF assms(1), of n "Lck 0" "iactor (ops ! n)"] assms(2) show ?thesis by simp
qed

definition tracks :: "thrID \<Rightarrow> irace_op list \<Rightarrow> nat \<Rightarrow> bool" where
  "tracks main ops n \<longleftrightarrow>
     (\<forall>p j. (\<nexists>l. p = Acq l) \<longrightarrow> j < n \<longrightarrow> tells (ops ! j) \<noteq> {} \<longrightarrow> 1 \<le> etime main ops j \<longrightarrow>
        (j \<in> reached ops n p \<longleftrightarrow> etime main ops j \<le> clk main ops n p (iactor (ops ! j)))) \<and>
     (\<forall>p j u. (\<nexists>l. p = Acq l) \<longrightarrow> j \<in> reached ops n p \<longrightarrow> stamp main ops j u \<le> clk main ops n p u) \<and>
     (\<forall>j < n. tells (ops ! j) \<noteq> {} \<longrightarrow> etime main ops j < clk main ops n (Thr (iactor (ops ! j))) (iactor (ops ! j)))"

lemma tracksD:
  assumes "tracks main ops n"
  shows "\<nexists>l. p = Acq l \<Longrightarrow> j < n \<Longrightarrow> tells (ops ! j) \<noteq> {} \<Longrightarrow> 1 \<le> etime main ops j \<Longrightarrow>
        j \<in> reached ops n p \<longleftrightarrow> etime main ops j \<le> clk main ops n p (iactor (ops ! j))"
    "\<nexists>l. p = Acq l \<Longrightarrow> j \<in> reached ops n p \<Longrightarrow> stamp main ops j u \<le> clk main ops n p u"
    "j < n \<Longrightarrow> tells (ops ! j) \<noteq> {} \<Longrightarrow> etime main ops j < clk main ops n (Thr (iactor (ops ! j))) (iactor (ops ! j))"
  using assms by (auto simp: tracks_def)

lemma hears_no_acq: "p \<in> hears op \<Longrightarrow> \<nexists>l. p = Acq l"
  by (cases op) (auto split: if_splits)

lemma no_acq_hears: "Acq l \<notin> hears op"
  using hears_no_acq by blast

lemma tracks_Suc:
  assumes legal: "irace_legal main ops" and n: "n < length ops" and t: "tracks main ops n" and loud: "tells (ops ! n) \<noteq> {}"
  shows "tracks main ops (Suc n)"
proof -
  let ?V = "clk main ops n" and ?W = "clk main ops (Suc n)" and ?op = "ops ! n" and ?me = "iactor (ops ! n)"
  have b: "bounded main ops n" using bounded_at [OF legal] n by simp
  obtain v where v: "joins ?V (hears ?op) v"
    and W: "\<And>p. ?W p = (if p \<in> tells ?op then sent_clock ?op ?V v p else if p \<in> drops ops n then (\<lambda>_. 0) else ?V p)"
    using clk_step [OF legal n loud] by blast
  have V0: "0 \<le> ?V p u" for p u using clk_nonneg [OF legal] n by simp
  have me: "Thr ?me \<in> tells ?op" "Thr ?me \<in> hears ?op" using thread_places(3) [OF loud] by simp_all
  note own = own_Suc [OF legal n b loud] and v_me = own_Suc(5) [OF legal n b loud v]
  have "?W (Thr ?me) = sent_clock ?op ?V v (Thr ?me)" using me(1) by (simp add: W)
  note st = stamp_result [OF legal n loud v this]
  have told: "?W p u = (if p = Thr ?me \<and> u = ?me then v u + 1 else v u)" if "p \<in> tells ?op" "\<nexists>l. p = Acq l" for p u
    using that by (simp add: W sent_cases)
  have new: "n \<in> reached ops (Suc n) p \<longleftrightarrow> etime main ops n \<le> ?W p ?me" if "\<nexists>l. p = Acq l" and e: "1 \<le> etime main ops n" for p
  proof (cases "p \<in> tells ?op")
    case True
    then show ?thesis using told [OF True that(1), of ?me] v_me by (simp add: etime_def)
  next
    case False
    have s: "?me \<in> istarted main ops n" using boundedD(2) [OF b, of ?me "Thr ?me"] e by (fastforce simp: etime_def)
    have "?V p ?me < etime main ops n"
      using boundedD(3) [OF b s irace_legalD(1) [OF legal n], of p] False me(1) by (auto simp: etime_def)
    with False e reached_less [of n ops n p] show ?thesis by (auto simp: W)
  qed
  have old: "j \<in> reached ops (Suc n) p \<longleftrightarrow> etime main ops j \<le> ?W p (iactor (ops ! j))"
    if p: "\<nexists>l. p = Acq l" and j: "j < n" "tells (ops ! j) \<noteq> {}" "1 \<le> etime main ops j" for p j
  proof (cases "p \<in> tells ?op")
    case True
    have q: "j \<in> reached ops n q \<longleftrightarrow> etime main ops j \<le> ?V q (iactor (ops ! j))" if "q \<in> hears ?op" for q
      using tracksD(1) [OF t hears_no_acq [OF that] j] .
    have all: "j \<in> reached ops (Suc n) p \<longleftrightarrow> etime main ops j \<le> v (iactor (ops ! j))"
      using True j(1) q v by (auto simp: joins_def)
    show ?thesis
    proof (cases "p = Thr ?me \<and> iactor (ops ! j) = ?me")
      case True
      then have "etime main ops j < v (iactor (ops ! j))" using tracksD(3) [OF t j(1,2)] v_me by simp
      with all told [OF \<open>p \<in> tells ?op\<close> p, of "iactor (ops ! j)"] show ?thesis by (auto split: if_splits)
    next
      case False
      with all told [OF \<open>p \<in> tells ?op\<close> p, of "iactor (ops ! j)"] show ?thesis by auto
    qed
  next
    case False
    with tracksD(1) [OF t p j] j show ?thesis by (auto simp: W)
  qed
  have "stamp main ops j u \<le> ?W p u" if p: "\<nexists>l. p = Acq l" and j: "j \<in> reached ops (Suc n) p" for p j u
  proof (cases "p \<in> tells ?op")
    case True
    have "v u \<le> ?W p u" using told [OF True p, of u] by simp
    moreover have "stamp main ops j u \<le> v u"
    proof (cases "j = n")
      case False
      then obtain q where q: "q \<in> hears ?op" "j \<in> reached ops n q" using j True by auto
      then show ?thesis using tracksD(2) [OF t hears_no_acq [OF q(1)] q(2), of u] joins_ge [OF v q(1), of u] by simp
    qed (use st(1) in simp)
    ultimately show ?thesis by simp
  next
    case False
    with tracksD(2) [OF t p] j show ?thesis by (auto simp: W split: if_splits)
  qed
  moreover have "etime main ops j < ?W (Thr (iactor (ops ! j))) (iactor (ops ! j))" if j: "j < Suc n" "tells (ops ! j) \<noteq> {}" for j
    using tracksD(3) [OF t _ j(2)] own(3) [of "iactor (ops ! j)"] own(1) j(1) by (cases "j = n") (auto simp: etime_def)
  moreover have "j \<in> reached ops (Suc n) p \<longleftrightarrow> etime main ops j \<le> ?W p (iactor (ops ! j))"
    if "\<nexists>l. p = Acq l" "j < Suc n" "tells (ops ! j) \<noteq> {}" "1 \<le> etime main ops j" for p j
    using that new [of p] old [of p j] by (cases "j = n") auto
  ultimately show ?thesis unfolding tracks_def by blast
qed

lemma tracks_at:
  assumes "irace_legal main ops" and "n \<le> length ops"
  shows "tracks main ops n"
  using assms(2)
proof (induction n)
  case 0
  show ?case by (simp add: tracks_def)
next
  case (Suc n)
  then have n: "n < length ops" and t: "tracks main ops n" by simp_all
  show ?case
  proof (cases "tells (ops ! n) = {}")
    case True
    have "reached ops (Suc n) = reached ops n" using True silent [OF True] by (auto simp: fun_eq_iff)
    with t True clk_silent [OF assms(1) n True] show ?thesis by (auto simp: tracks_def less_Suc_eq)
  next
    case False
    then show ?thesis using tracks_Suc [OF assms(1) n t] by simp
  qed
qed

section \<open>Reports\<close>

text \<open>A thread knows what has reached its clock.\<close>

lemma reached_mono:
  assumes legal: "irace_legal main ops" and n: "n < length ops" and t: "t \<in> icreated main ops n"
  shows "reached ops n (Thr t) \<subseteq> reached ops (Suc n) (Thr t)"
proof (cases "Thr t \<in> tells (ops ! n)")
  case True
  have "t = iactor (ops ! n)"
    using thread_places(1) [OF True] fitsD(1) [OF irace_legalD(3) [OF legal n]] t by blast
  then have "Thr t \<in> hears (ops ! n)" using thread_places(3) [of "ops ! n"] True by blast
  with True show ?thesis by auto
qed (simp add: thread_not_dropped)

lemma aware_iff:
  assumes legal: "irace_legal main ops" and n: "n \<le> length ops"
  shows "aware ops n t i \<longleftrightarrow> i \<in> reached ops n (Thr t)"
proof
  assume "aware ops n t i"
  then obtain k where k: "k < n" "Thr t \<in> tells (ops ! k)" "i = k \<or> ihb ops i k" by (auto simp: aware_def)
  have "i \<in> reached ops m (Thr t) \<and> t \<in> icreated main ops m" if "Suc k \<le> m" "m \<le> n" for m
    using that
  proof (induction m rule: dec_induct)
    case base
    have "i = k \<or> i \<in> ipast ops k" using k(3) ihb_iff_past [of k ops i] k(1) n by simp
    moreover have "t \<in> icreated main ops (Suc k)"
      using thread_places(1) [OF k(2)] irace_legalD(2) [OF legal, of k] k(1) n by (auto simp: icreated_Suc children_def split: irace_op.splits)
    ultimately show ?case using k(2) by (simp add: ipast_def)
  next
    case (step m)
    then have m: "m < length ops" and "i \<in> reached ops m (Thr t)" "t \<in> icreated main ops m" using n by simp_all
    then have "i \<in> reached ops (Suc m) (Thr t)" using reached_mono [OF legal m] by blast
    with step show ?case by (simp add: icreated_Suc)
  qed
  from this [of n] show "i \<in> reached ops n (Thr t)" using k(1) by simp
next
  assume "i \<in> reached ops n (Thr t)"
  then obtain k where k: "holds ops n (Thr t) k" "i = k \<or> i \<in> ipast ops k" using reached_iff [of i ops n "Thr t"] by blast
  then have "k < n" "Thr t \<in> tells (ops ! k)" by (simp_all add: holds_def)
  with k(2) ihb_iff_past [of k ops i] n show "aware ops n t i" by (auto simp: aware_def)
qed

text \<open>What a place other than a thread holds is the stamp of the operation that wrote it.\<close>

lemma held_clock:
  assumes legal: "irace_legal main ops" and p: "\<nexists>t. p = Thr t" and "n \<le> length ops"
  shows "(\<forall>i. holds ops n p i \<longrightarrow> clk main ops n p = stamp main ops i) \<and> ((\<nexists>i. holds ops n p i) \<longrightarrow> clk main ops n p = (\<lambda>_. 0))"
  using assms(3)
proof (induction n)
  case 0
  then show ?case using p by (simp add: holds_def clk_0)
next
  case (Suc n)
  then have n: "n < length ops" by simp
  show ?case
  proof (cases "tells (ops ! n) = {}")
    case True
    with Suc clk_silent [OF legal n True] silent [OF True] show ?thesis by (simp add: holds_Suc)
  next
    case loud: False
    obtain v where v: "joins (clk main ops n) (hears (ops ! n)) v"
      and W: "\<And>p. clk main ops (Suc n) p = (if p \<in> tells (ops ! n) then sent_clock (ops ! n) (clk main ops n) v p
        else if p \<in> drops ops n then (\<lambda>_. 0) else clk main ops n p)"
      using clk_step [OF legal n loud] by blast
    have "clk main ops (Suc n) (Thr (iactor (ops ! n))) = sent_clock (ops ! n) (clk main ops n) v (Thr (iactor (ops ! n)))"
      using thread_places(3) [OF loud] by (simp add: W)
    note st = stamp_result(3) [OF legal n loud v this]
    have "clk main ops (Suc n) p = stamp main ops n" if told: "p \<in> tells (ops ! n)"
    proof (cases "\<exists>me l. ops ! n = ILock me l")
      case True
      then show ?thesis using told p by (auto simp: W sent_clock_def stamp_def fun_eq_iff)
    next
      case False
      have "\<nexists>l. p = Acq l" using told False by (cases "ops ! n") (auto split: if_splits)
      then show ?thesis using told p st [OF False] by (auto simp: W sent_cases fun_eq_iff)
    qed
    then show ?thesis using Suc W by (auto simp: holds_Suc)
  qed
qed

text \<open>A comparison of clocks finds out whether the thread has heard of the operation.\<close>

lemma exceeds_iff_unaware:
  assumes legal: "irace_legal main ops" and n: "n < length ops" and p: "\<nexists>t. p = Thr t"
  shows "(\<exists>u. clk main ops n (Thr t) u < clk main ops n p u) \<longleftrightarrow> (\<exists>i. holds ops n p i \<and> \<not> aware ops n t i)"
proof
  have track: "tracks main ops n" using tracks_at [OF legal] n by simp
  have held: "holds ops n p i \<Longrightarrow> clk main ops n p = stamp main ops i" "\<nexists>i. holds ops n p i \<Longrightarrow> clk main ops n p = (\<lambda>_. 0)" for i
    using held_clock [OF legal p, of n] n by auto
  have aware: "aware ops n t i \<longleftrightarrow> i \<in> reached ops n (Thr t)" for i using aware_iff [OF legal] n by simp
  {
    assume "\<exists>u. clk main ops n (Thr t) u < clk main ops n p u"
    then obtain u where u: "clk main ops n (Thr t) u < clk main ops n p u" by blast
    have "\<exists>i. holds ops n p i" using u held(2) clk_nonneg [OF legal, of n "Thr t" u] n by fastforce
    then obtain i where i: "holds ops n p i" by blast
    have "i \<notin> reached ops n (Thr t)" using tracksD(2) [OF track, of "Thr t" i u] u held(1) [OF i] by auto
    with i aware show "\<exists>i. holds ops n p i \<and> \<not> aware ops n t i" by blast
  next
    assume "\<exists>i. holds ops n p i \<and> \<not> aware ops n t i"
    then obtain i where i: "holds ops n p i" and un: "i \<notin> reached ops n (Thr t)" using aware by blast
    have ops: "i < n" "p \<in> tells (ops ! i)" using i by (simp_all add: holds_def)
    then have loud: "tells (ops ! i) \<noteq> {}" and "\<nexists>t. ops ! i = IStart t" using p by auto
    then have "1 \<le> etime main ops i" using etime_pos [OF legal] ops(1) n by simp
    with un tracksD(1) [OF track _ ops(1) loud] have "clk main ops n (Thr t) (iactor (ops ! i)) < etime main ops i" by fastforce
    moreover have "stamp main ops i (iactor (ops ! i)) = etime main ops i"
    proof -
      have i_n: "i < length ops" using ops(1) n by simp
      obtain v where v: "joins (clk main ops i) (hears (ops ! i)) v"
        and W: "\<And>p. clk main ops (Suc i) p = (if p \<in> tells (ops ! i) then sent_clock (ops ! i) (clk main ops i) v p
          else if p \<in> drops ops i then (\<lambda>_. 0) else clk main ops i p)"
        using clk_step [OF legal i_n loud] by blast
      have "clk main ops (Suc i) (Thr (iactor (ops ! i))) = sent_clock (ops ! i) (clk main ops i) v (Thr (iactor (ops ! i)))"
        using thread_places(3) [OF loud] by (simp add: W)
      from stamp_result(2) [OF legal i_n loud v this] show ?thesis .
    qed
    ultimately show "\<exists>u. clk main ops n (Thr t) u < clk main ops n p u"
      using held(1) [OF i] by (intro exI [of _ "iactor (ops ! i)"]) simp
  }
qed

lemma races_same [simp]:
  "ir_races (ir_incrementMyClock t s) = ir_races s" "ir_races (put_access a t i s) = ir_races s"
  "ir_races (snd (maxMyClock t w s)) = ir_races s"
  "ir_lockraces (ir_incrementMyClock t s) = ir_lockraces s" "ir_lockraces (ir_touch t s) = ir_lockraces s"
  "ir_lockraces (snd (maxMyClock t w s)) = ir_lockraces s"
  by (simp_all add: ir_incrementMyClock_def ir_touch_def maxMyClock_def put_access_def Let_def case_prod_beta)

lemma check_races:
  "\<exists>rs. ir_races (snd (foldl (check_access me iid a) (b, s) xs)) = ir_races s @ rs \<and>
     (fst (foldl (check_access me iid a) (b, s) xs) \<longleftrightarrow> b \<or> rs \<noteq> [])"
proof (induction xs arbitrary: b s)
  case (Cons e xs)
  obtain israce s1 where m: "maxMyClock me (ri_vc (snd e)) s = (israce, s1)" by fastforce
  have s1: "ir_races s1 = ir_races s" using races_same(3) [of me "ri_vc (snd e)" s] by (simp add: m)
  let ?c = "check_access me iid a (b, s) e"
  have c: "fst ?c = (b \<or> israce)" "\<exists>r. ir_races (snd ?c) = ir_races s @ r \<and> (israce \<longleftrightarrow> r \<noteq> [])"
    by (auto simp: check_access_def case_prod_beta m s1)
  obtain rs where "ir_races (snd (foldl (check_access me iid a) (fst ?c, snd ?c) xs)) = ir_races (snd ?c) @ rs"
    "fst (foldl (check_access me iid a) (fst ?c, snd ?c) xs) \<longleftrightarrow> fst ?c \<or> rs \<noteq> []"
    using Cons.IH [of "fst ?c" "snd ?c"] by blast
  moreover obtain r where "ir_races (snd ?c) = ir_races s @ r" "israce \<longleftrightarrow> r \<noteq> []" using c(2) by blast
  moreover have "foldl (check_access me iid a) (b, s) (e # xs) = foldl (check_access me iid a) (fst ?c, snd ?c) xs" by simp
  ultimately show ?case using c(1) by (intro exI [of _ "r @ rs"]) (simp del: foldl_Cons)
qed simp

lemma reads_report: "ir_races (ir_memoryRead me iid a s) \<noteq> ir_races s \<longleftrightarrow> fst (checkReadRace me iid a s)"
proof -
  have "ir_races (snd (checkReadRace me iid a s)) \<noteq> ir_races s \<longleftrightarrow> fst (checkReadRace me iid a s)"
    by (simp add: checkReadRace_def Let_def case_prod_beta zeroAccessMapVC_def)
  then show ?thesis by (simp add: ir_memoryRead_def Let_def)
qed

lemma writes_report: "ir_races (ir_memoryWrite me iid a s) \<noteq> ir_races s \<longleftrightarrow> fst (checkWriteRace me iid a s)"
proof -
  have "ir_races (snd (checkWriteRace me iid a s)) \<noteq> ir_races s \<longleftrightarrow> fst (checkWriteRace me iid a s)"
    using check_races [of me iid a False "s\<lparr>ir_accessmap := cm_touch [] a (ir_accessmap s)\<rparr>" "ir_accesses s a"]
    by (auto simp: checkWriteRace_def case_prod_beta)
  then show ?thesis by (simp add: ir_memoryWrite_def Let_def)
qed

lemma locks_report:
  "ir_lockraces (ir_AfterMutexLock me l s) \<noteq> ir_lockraces s \<longleftrightarrow>
     ir_isLockRace (ir_clock s me) (li_vc (cm_get new_LockInfo (ir_acq_lockmap s) l))"
  by (simp add: ir_AfterMutexLock_def Let_def) (simp add: ir_touch_def)

text \<open>
  C4: What the immediate race detector reports. In any legal run, an access adds a race to the list that is
  printed at the end exactly if the place it is compared with holds an operation that the thread
  has not heard of: for a read, the last write of the variable; for a write, an access of some
  thread since the last write that has not been dropped. A mutex operation adds a lock race exactly
  if the thread has not heard of the last acquisition of the mutex. Having heard of an operation is
  defined on the sequence of operations, by chains of messages, with no clocks.
\<close>

theorem immediate_races_exact:
  assumes legal: "irace_legal main ops" and n: "n < length ops"
  shows "(\<forall>t iid a. ops ! n = IRead t iid a \<longrightarrow>
       (ir_races (irace_at main ops (Suc n)) \<noteq> ir_races (irace_at main ops n) \<longleftrightarrow>
          (\<exists>i. holds ops n (Wrt a) i \<and> \<not> aware ops n t i))) \<and>
    (\<forall>t iid a. ops ! n = IWrite t iid a \<longrightarrow>
       (ir_races (irace_at main ops (Suc n)) \<noteq> ir_races (irace_at main ops n) \<longleftrightarrow>
          (\<exists>u i. holds ops n (Acc a u) i \<and> \<not> aware ops n t i))) \<and>
    (\<forall>t l. ops ! n = ILock t l \<longrightarrow>
       (ir_lockraces (irace_at main ops (Suc n)) \<noteq> ir_lockraces (irace_at main ops n) \<longleftrightarrow>
          (\<exists>i. holds ops n (Acq l) i \<and> \<not> aware ops n t i)))"
proof (intro conjI allI impI)
  let ?s = "irace_at main ops n"
  have ok: "irace_ok (icreated main ops n) ?s" using irace_ok_at [OF legal] n by simp
  have me: "t \<in> icreated main ops n" if "iactor (ops ! n) = t" for t using irace_legalD(2) [OF legal n] that by simp
  note exceeds = exceeds_iff_unaware [OF legal n, unfolded clk_def]
  fix t iid a l
  show "ir_races (irace_at main ops (Suc n)) \<noteq> ir_races ?s \<longleftrightarrow> (\<exists>i. holds ops n (Wrt a) i \<and> \<not> aware ops n t i)"
    if op: "ops ! n = IRead t iid a"
    using checkReadRace_result [OF ok me, of t iid a] exceeds [of "Wrt a" t] op by (auto simp: irace_at_Suc [OF n] reads_report)
  show "ir_races (irace_at main ops (Suc n)) \<noteq> ir_races ?s \<longleftrightarrow> (\<exists>u i. holds ops n (Acc a u) i \<and> \<not> aware ops n t i)"
    if op: "ops ! n = IWrite t iid a"
  proof -
    have "fst (checkWriteRace t iid a ?s) \<longleftrightarrow> (\<exists>u k. val ?s (Thr t) k < val ?s (Acc a u) k)"
      using checkWriteRace_result [OF ok me, of t iid a] op by force
    then show ?thesis using exceeds [of "Acc a u" t for u] op by (simp add: irace_at_Suc [OF n] writes_report)
  qed
  show "ir_lockraces (irace_at main ops (Suc n)) \<noteq> ir_lockraces ?s \<longleftrightarrow> (\<exists>i. holds ops n (Acq l) i \<and> \<not> aware ops n t i)"
    if op: "ops ! n = ILock t l"
    using isLockRace_result [OF irace_okD(1) [OF ok me] irace_okD(2) [OF ok, of "Acq l"], of t] exceeds [of "Acq l" t] op
    by (simp add: irace_at_Suc [OF n] locks_report val_def)
qed

lemma reached_now: "n \<in> reached ops (Suc n) p \<longleftrightarrow> p \<in> tells (ops ! n)"
  using reached_less [of n ops n p] by auto

lemma reached_later:
  "j < n \<Longrightarrow> j \<in> reached ops (Suc n) p \<longleftrightarrow>
     (if p \<in> tells (ops ! n) then \<exists>q \<in> hears (ops ! n). j \<in> reached ops n q else p \<notin> drops ops n \<and> j \<in> reached ops n p)"
  by auto

text \<open>Legality of a run, operation by operation.\<close>

definition step_legal :: "thrID set \<Rightarrow> thrID set \<Rightarrow> thrID set \<Rightarrow> irace_op \<Rightarrow> bool" where
  "step_legal C S J op \<longleftrightarrow> iactor op \<notin> J \<and>
     (case op of IStart t \<Rightarrow> t \<in> C \<and> t \<notin> S | _ \<Rightarrow> iactor op \<in> C \<and> iactor op \<in> S) \<and>
     (case op of ICreate me child \<Rightarrow> child \<notin> C | IJoin me u \<Rightarrow> u \<in> C \<and> u \<noteq> me | _ \<Rightarrow> True)"

fun legal_from :: "thrID set \<Rightarrow> thrID set \<Rightarrow> thrID set \<Rightarrow> irace_op list \<Rightarrow> bool" where
  "legal_from C S J [] = True"
| "legal_from C S J (op # ops) \<longleftrightarrow> step_legal C S J op \<and>
     legal_from (children op \<union> C) ((case op of IStart t \<Rightarrow> {t} | _ \<Rightarrow> {}) \<union> S) ((case op of IJoin me u \<Rightarrow> {u} | _ \<Rightarrow> {}) \<union> J) ops"

lemma legal_from_iff:
  "legal_from C S J ops \<longleftrightarrow> (\<forall>n < length ops.
     step_legal (C \<union> {t. \<exists>i < n. \<exists>me. ops ! i = ICreate me t}) (S \<union> {t. \<exists>i < n. ops ! i = IStart t})
       (J \<union> {t. \<exists>i < n. \<exists>me. ops ! i = IJoin me t}) (ops ! n))"
proof (induction ops arbitrary: C S J)
  case (Cons op ops)
  have sets: "C \<union> {t. \<exists>i < Suc n. \<exists>me. (op # ops) ! i = ICreate me t} = (children op \<union> C) \<union> {t. \<exists>i < n. \<exists>me. ops ! i = ICreate me t}"
    "S \<union> {t. \<exists>i < Suc n. (op # ops) ! i = IStart t} = ((case op of IStart t \<Rightarrow> {t} | _ \<Rightarrow> {}) \<union> S) \<union> {t. \<exists>i < n. ops ! i = IStart t}"
    "J \<union> {t. \<exists>i < Suc n. \<exists>me. (op # ops) ! i = IJoin me t} = ((case op of IJoin me u \<Rightarrow> {u} | _ \<Rightarrow> {}) \<union> J) \<union> {t. \<exists>i < n. \<exists>me. ops ! i = IJoin me t}" for n
    by (auto simp: Ex_less_Suc2 children_def split: irace_op.splits)
  show ?case unfolding length_Cons All_less_Suc2 sets legal_from.simps Cons.IH by simp
qed simp

lemma irace_legal_iff: "irace_legal main ops \<longleftrightarrow> legal_from {main} {main} {} ops"
  unfolding legal_from_iff irace_legal_def step_legal_def icreated_def istarted_def ijoined_def insert_is_Un [of main "Collect _"] Un_empty_left ..

theorem immediate_races_exact_witness:
  "irace_legal 0 [ICreate 0 1, IStart 1, IWrite 0 7 4096, IWrite 1 8 4096] \<and>
   (\<exists>u i. holds [ICreate 0 1, IStart 1, IWrite 0 7 4096, IWrite 1 8 4096] 3 (Acc 4096 u) i \<and>
     \<not> aware [ICreate 0 1, IStart 1, IWrite 0 7 4096, IWrite 1 8 4096] 3 1 i)"
proof -
  let ?ops = "[ICreate 0 1, IStart 1, IWrite 0 7 4096, IWrite 1 8 4096]"
  have legal: "irace_legal 0 ?ops" by (simp add: irace_legal_iff step_legal_def children_def)
  have report: "ir_races (irace_at 0 ?ops (Suc 3)) \<noteq> ir_races (irace_at 0 ?ops 3)" by code_simp
  have n: "3 < length ?ops" and op: "?ops ! 3 = IWrite 1 8 4096" by simp_all
  from immediate_races_exact [OF legal n] op report legal show ?thesis by simp
qed

text \<open>
  C35: A race that the immediate race detector misses. Thread 1 writes a variable and reads it; thread 2
  reads it, which drops the read of thread 1 from the access map although thread 2 knows of the write only; thread 2
  releases a mutex that the main thread takes. The main thread then writes the variable: it has not heard of the read of thread 1, but
  nothing is reported.
\<close>

theorem immediate_detector_misses_race:
  "\<exists>ops. irace_legal 0 ops \<and> ops ! 5 = IRead 1 11 4096 \<and> ops ! 9 = IWrite 0 13 4096 \<and> \<not> aware ops 9 0 5 \<and>
     ir_races (irace_at 0 ops 10) = ir_races (irace_at 0 ops 9)"
proof -
  let ?ops = "[ICreate 0 1, ICreate 0 2, IStart 1, IStart 2, IWrite 1 10 4096, IRead 1 11 4096, IRead 2 12 4096,
    IUnlock 2 64, ILock 0 64, IWrite 0 13 4096]"
  have legal: "irace_legal 0 ?ops" by (simp add: irace_legal_iff step_legal_def children_def)
  have writer: "last_writer ?ops 6 4096 = 1" by (simp add: numeral_eq_Suc)
  have "5 \<in> reached ?ops 6 p \<longleftrightarrow> p \<in> {Thr 1, Acc 4096 1}" for p using reached_now [of 5 ?ops p] by simp
  then have "5 \<in> reached ?ops 7 p \<longleftrightarrow> p = Thr 1" for p using reached_later [of 5 6 ?ops p] writer by (auto simp: drops_def)
  then have "5 \<in> reached ?ops 8 p \<longleftrightarrow> p = Thr 1" for p using reached_later [of 5 7 ?ops p] by (auto simp: drops_def)
  then have "5 \<notin> reached ?ops 9 (Thr 0)" using reached_later [of 5 8 ?ops "Thr 0"] by (auto simp: drops_def)
  then have "\<not> aware ?ops 9 0 5" using aware_iff [OF legal, of 9 0 5] by simp
  moreover have "ir_races (irace_at 0 ?ops 10) = ir_races (irace_at 0 ?ops 9)" by code_simp
  ultimately show ?thesis using legal by (intro exI [of _ ?ops]) simp
qed

section \<open>Well-formed states\<close>

text \<open>
  C20: The clocks of the immediate race detector stay well-typed. After every prefix of a legal run, \<open>vc\<close> has a clock for
  exactly the threads created so far, each clock is an ordered map with an entry for exactly these
  threads, and every entry, also in the clocks stored with mutexes, conditions and variables, is
  between 0 and the one that the thread itself has.
\<close>

theorem irace_clocks_typed:
  assumes "irace_legal main ops" and "n \<le> length ops"
  shows "{t. map_of (ir_vc (irace_at main ops n)) t \<noteq> None} = icreated main ops n \<and>
    (\<forall>t \<in> icreated main ops n. cm_ok (ir_clock (irace_at main ops n) t) \<and>
       known_threads (ir_clock (irace_at main ops n) t) = icreated main ops n) \<and>
    (\<forall>p u. 0 \<le> entry (clock_of (irace_at main ops n) p) u \<and>
       entry (clock_of (irace_at main ops n) p) u \<le> entry (ir_clock (irace_at main ops n) u) u)"
  using irace_ok_at [OF assms] boundedD(1) [OF bounded_at [OF assms]] clk_nonneg [OF assms]
  by (simp add: irace_ok_def clock_ok_def vc_ok_def clk_def val_def)

theorem irace_clocks_typed_witness:
  "{t. map_of (ir_vc (irace_at 0 [ICreate 0 1, IStart 1, ILock 1 64, IUnlock 1 64, ILock 0 64] 5)) t \<noteq> None} = {0, 1}"
proof -
  have "irace_legal 0 [ICreate 0 1, IStart 1, ILock 1 64, IUnlock 1 64, ILock 0 64]" by (simp add: irace_legal_iff step_legal_def children_def)
  from irace_clocks_typed [OF this, of 5] have
    "{t. map_of (ir_vc (irace_at 0 [ICreate 0 1, IStart 1, ILock 1 64, IUnlock 1 64, ILock 0 64] 5)) t \<noteq> None} =
     icreated 0 [ICreate 0 1, IStart 1, ILock 1 64, IUnlock 1 64, ILock 0 64] 5" by simp
  also have "\<dots> = {0, 1}" by (auto simp: icreated_def less_Suc_eq numeral_eq_Suc)
  finally show ?thesis .
qed

section \<open>The printed report\<close>

lemma add_unique_keeps:
  "set (foldl (add_unique eq) rs xs) \<subseteq> set rs \<union> set xs \<and> set rs \<subseteq> set (foldl (add_unique eq) rs xs) \<and>
   (\<forall>x \<in> set xs. x \<in> set (foldl (add_unique eq) rs xs) \<or> (\<exists>r \<in> set (foldl (add_unique eq) rs xs). eq x r))"
proof (induction xs arbitrary: rs)
  case (Cons x xs)
  let ?rs = "add_unique eq rs x"
  have "set ?rs \<subseteq> insert x (set rs)" "set rs \<subseteq> set ?rs" "x \<in> set ?rs \<or> (\<exists>r \<in> set ?rs. eq x r)"
    by (auto simp: add_unique_def list_ex_iff)
  with Cons.IH [of ?rs] show ?case by auto
qed simp

text \<open>
  C36: The report of the immediate race detector is sound but not complete. Every race it prints was found; a
  found race that is not printed has the two threads of a printed one in either order, and either both of
  its locations or only its first location, which must then be the second of the printed race, in
  common with it. The second case is the assignment in \<open>operator==\<close>: such a race is lost although its
  other location is different.
\<close>

theorem immediate_report:
  "set (ir_dumpRaces s) \<subseteq> set (ir_races s) \<and>
   (\<forall>r \<in> set (ir_races s) - set (ir_dumpRaces s). \<exists>q \<in> set (ir_dumpRaces s).
      (rv_thread1 r = rv_thread1 q \<and> rv_thread2 r = rv_thread2 q \<or> rv_thread1 r = rv_thread2 q \<and> rv_thread2 r = rv_thread1 q) \<and>
      (rv_iid1 r = rv_iid1 q \<and> rv_iid2 r = rv_iid2 q \<or> rv_iid1 r = rv_iid2 q \<and> rv_iid1 r \<noteq> 0)) \<and>
   (\<forall>r q. ir_races s = [q, r] \<longrightarrow> rv_thread1 r = rv_thread1 q \<longrightarrow> rv_thread2 r = rv_thread2 q \<longrightarrow>
      rv_iid1 r = rv_iid2 q \<longrightarrow> rv_iid1 r \<noteq> 0 \<longrightarrow> ir_dumpRaces s = [q])"
proof (intro conjI)
  note keeps = add_unique_keeps [of RaceEvent_eq "[]" "ir_races s", folded ir_dumpRaces_def]
  show "set (ir_dumpRaces s) \<subseteq> set (ir_races s)" using keeps by simp
  show "\<forall>r \<in> set (ir_races s) - set (ir_dumpRaces s). \<exists>q \<in> set (ir_dumpRaces s).
      (rv_thread1 r = rv_thread1 q \<and> rv_thread2 r = rv_thread2 q \<or> rv_thread1 r = rv_thread2 q \<and> rv_thread2 r = rv_thread1 q) \<and>
      (rv_iid1 r = rv_iid1 q \<and> rv_iid2 r = rv_iid2 q \<or> rv_iid1 r = rv_iid2 q \<and> rv_iid1 r \<noteq> 0)"
  proof
    fix r
    assume "r \<in> set (ir_races s) - set (ir_dumpRaces s)"
    then obtain q where "q \<in> set (ir_dumpRaces s)" "RaceEvent_eq r q" using keeps by blast
    then show "\<exists>q \<in> set (ir_dumpRaces s).
      (rv_thread1 r = rv_thread1 q \<and> rv_thread2 r = rv_thread2 q \<or> rv_thread1 r = rv_thread2 q \<and> rv_thread2 r = rv_thread1 q) \<and>
      (rv_iid1 r = rv_iid1 q \<and> rv_iid2 r = rv_iid2 q \<or> rv_iid1 r = rv_iid2 q \<and> rv_iid1 r \<noteq> 0)"
      by (intro bexI [of _ q]) (auto simp: RaceEvent_eq_def Let_def split: if_splits)
  qed
qed (simp add: ir_dumpRaces_def add_unique_def RaceEvent_eq_def)

theorem immediate_report_witness:
  "ir_dumpRaces ((new_Iracer 0)\<lparr>ir_races := [\<lparr>rv_thread1 = 1, rv_thread2 = 2, rv_iid1 = 9, rv_iid2 = 5, rv_wasWrite1 = True, rv_wasWrite2 = True, rv_addr = 64\<rparr>,
     \<lparr>rv_thread1 = 1, rv_thread2 = 2, rv_iid1 = 5, rv_iid2 = 7, rv_wasWrite1 = True, rv_wasWrite2 = False, rv_addr = 128\<rparr>]\<rparr>) =
   [\<lparr>rv_thread1 = 1, rv_thread2 = 2, rv_iid1 = 9, rv_iid2 = 5, rv_wasWrite1 = True, rv_wasWrite2 = True, rv_addr = 64\<rparr>]"
  using immediate_report [of "(new_Iracer 0)\<lparr>ir_races := [\<lparr>rv_thread1 = 1, rv_thread2 = 2, rv_iid1 = 9, rv_iid2 = 5, rv_wasWrite1 = True, rv_wasWrite2 = True, rv_addr = 64\<rparr>,
     \<lparr>rv_thread1 = 1, rv_thread2 = 2, rv_iid1 = 5, rv_iid2 = 7, rv_wasWrite1 = True, rv_wasWrite2 = False, rv_addr = 128\<rparr>]\<rparr>"]
  by simp

end
