(* ===== verification/Preempt_Counter.thy ===== *)
theory Preempt_Counter
  imports Random_Tracker Fair_Scheduler
begin

text \<open>
  \<open>src/preemptcount\<close>: random preemptions, at most \<open>preemption_budget\<close> of them, on top of fair
  scheduling (\<open>preemptcounter.cpp\<close>), with an earlier version of the fair scheduler (\<open>fairschedule.cpp\<close>). That
  version erases an element from a set and then increments the iterator that pointed to it, which
  C++ leaves undefined: the model leaves with \<open>Undefined\<close> there.

  \<open>schedule\<close> calls functions that the core no longer has in this form: the next choice of the log (\<open>getNextChoice\<close>) and
  the value of \<open>rand()\<close> are arguments, and so is \<open>launchThread(thread)\<close>. The loop
  that draws until it gets another thread need not end, so \<open>schedule\<close> returns an option. The counters, C
  \<open>int\<close>s that grow by one for each call, are unbounded.
\<close>

section \<open>The fair scheduler of this directory\<close>

record PreemptFair =
  pf_sets :: FairScheduler
  pf_schedule_record :: "thrID list"
  pf_justYield :: bool

definition new_PreemptFair :: PreemptFair where
  "new_PreemptFair = \<lparr>pf_sets = new_FairScheduler, pf_schedule_record = [], pf_justYield = False\<rparr>"

definition pf_lastWasYield :: "PreemptFair \<Rightarrow> PreemptFair" where
  "pf_lastWasYield f = f\<lparr>pf_justYield := True\<rparr>"

definition pf_getLastScheduled :: "PreemptFair \<Rightarrow> thrID" where
  "pf_getLastScheduled f = (if length (pf_schedule_record f) > 0 then last (pf_schedule_record f) else 0)"

text \<open>Some set over which the loop of \<open>updateDataStructures\<close> runs has a thread to erase.\<close>

definition pf_erases :: "(thrID, bool) cmap \<Rightarrow> PreemptFair \<Rightarrow> bool" where
  "pf_erases en f =
     list_ex (\<lambda>thread. fBex (fs_get (fair_enabled (pf_sets f)) thread) (\<lambda>t. \<not> cm_get False en t)) (cm_keys en)"

definition pf_updateDataStructures :: "(thrID, bool) cmap \<Rightarrow> PreemptFair \<Rightarrow> (exit_reason \<times> PreemptFair) + PreemptFair" where
  "pf_updateDataStructures en f =
     (let last_scheduled = pf_getLastScheduled f; fs = pf_sets f;
          fs1 = fs\<lparr>fair_priority := cm_erase last_scheduled (fair_priority fs)\<rparr>
      in if pf_erases en f then Inl (Undefined ''fairschedule.cpp: ++sitr after en.erase'', f)
         else
           (let fs2 = foldl (update_thread en last_scheduled) fs1 (cm_keys en)
            in Inr (f\<lparr>pf_sets := if pf_justYield f then update_yield en last_scheduled fs2 else fs2, pf_justYield := False\<rparr>)))"

definition pf_getFairEnabledMap :: "(thrID, bool) cmap \<Rightarrow> PreemptFair \<Rightarrow> (exit_reason \<times> PreemptFair) + ((thrID, bool) cmap \<times> PreemptFair)" where
  "pf_getFairEnabledMap en f =
     (case pf_updateDataStructures en f of
        Inl e \<Rightarrow> Inl e
      | Inr f1 \<Rightarrow> Inr (map (\<lambda>(t, b). (t, isFairEnabled t en (pf_sets f1))) en,
          f1\<lparr>pf_sets := (pf_sets f1)\<lparr>prev_ES := fset_of_list (keys_with (\<lambda>b. b) en)\<rparr>\<rparr>))"

definition pf_fairChosen :: "thrID \<Rightarrow> PreemptFair \<Rightarrow> PreemptFair" where
  "pf_fairChosen t f = f\<lparr>pf_schedule_record := pf_schedule_record f @ [t]\<rparr>"

section \<open>The counter\<close>

record PreemptionCounter = RandomTracker +
  preemption_budget :: int
  my_preempts :: int
  thread_blocks :: int
  context_switches :: int
  scheduling_points :: int
  threads_to_explore :: int
  fair :: PreemptFair

definition new_PreemptionCounter :: "Logger \<Rightarrow> thrID \<Rightarrow> PreemptionCounter" where
  "new_PreemptionCounter l myself =
     RandomTracker.extend (new_RandomTracker l myself)
       \<lparr>preemption_budget = 2, my_preempts = 0, thread_blocks = 0, context_switches = 0, scheduling_points = 0,
        threads_to_explore = 0, fair = new_PreemptFair\<rparr>"

definition pc_assert :: "bool \<Rightarrow> string \<Rightarrow> (PreemptionCounter, unit) tm" where
  "pc_assert = safe_assert_in ''preemptcounter.cpp''"

definition pc_destroy :: "(PreemptionCounter, unit) tm" where
  "pc_destroy =
     bnd (gets (\<lambda>s. context_switches s = my_preempts s + thread_blocks s)) (\<lambda>b.
     bnd (pc_assert b ''context_switches == my_preempts + thread_blocks'') (\<lambda>_.
     bnd (gets (\<lambda>s. my_preempts s \<le> preemption_budget s)) (\<lambda>b.
     bnd (pc_assert b ''my_preempts <= preemption_budget'') (\<lambda>_.
     bnd (gets (\<lambda>s. scheduling_points s \<ge> context_switches s)) (\<lambda>b.
     pc_assert b ''scheduling_points >= context_switches'')))))"

definition pickNextFairChoice :: "(thrID, bool) cmap \<Rightarrow> (PreemptionCounter, thrID) tm" where
  "pickNextFairChoice fairenmap =
     bnd (chooseRandomThread fairenmap) (\<lambda>thread.
     if thread = -1 then bnd (pc_assert False ''false'') (\<lambda>_. ret (-1))
     else
       bnd (read_enable thread) (\<lambda>en.
       bnd (pc_assert en ''enable_map[thread]'') (\<lambda>_.
       bnd (pc_assert (cm_get False fairenmap thread) ''fairenmap[thread]'') (\<lambda>_.
       ret thread))))"

definition insertPreemption :: "int \<Rightarrow> thrID \<Rightarrow> (thrID, bool) cmap \<Rightarrow> (PreemptionCounter, bool) tm" where
  "insertPreemption r myself fairenmap =
     bnd (pc_assert (cm_get False fairenmap myself) ''fairenmap[myself]'') (\<lambda>_.
     bnd (gets (\<lambda>s. my_preempts s \<ge> preemption_budget s)) (\<lambda>spent.
     if spent then ret False
     else if length (keys_with (\<lambda>b. b) fairenmap) < 2 then ret False
     else ret (r smod 2000 = 0)))"

text \<open>\<open>while (nextchoice == myself)\<close>\<close>

partial_function (option) pick_other ::
  "thrID \<Rightarrow> (thrID, bool) cmap \<Rightarrow> PreemptionCounter \<Rightarrow> ((exit_reason \<times> PreemptionCounter) + (thrID \<times> PreemptionCounter)) option" where
  "pick_other myself fairenmap s =
     (case pickNextFairChoice fairenmap s of
        Inl e \<Rightarrow> Some (Inl e)
      | Inr (nextchoice, s1) \<Rightarrow> if nextchoice = myself then pick_other myself fairenmap s1 else Some (Inr (nextchoice, s1)))"

definition count_enabled :: "(thrID, bool) cmap \<Rightarrow> PreemptionCounter \<Rightarrow> PreemptionCounter" where
  "count_enabled fairenmap s = s\<lparr>threads_to_explore := threads_to_explore s + int (length (keys_with (\<lambda>b. b) fairenmap))\<rparr>"

text \<open>The choice at a point that is not in the log.\<close>

definition fair_choice :: "int \<Rightarrow> thrID \<Rightarrow> (thrID, bool) cmap \<Rightarrow> bool \<Rightarrow> PreemptionCounter \<Rightarrow>
    ((exit_reason \<times> PreemptionCounter) + (thrID \<times> PreemptionCounter)) option" where
  "fair_choice r myself fairenmap me_enabled s =
     (if me_enabled
      then
        (case insertPreemption r myself fairenmap s of
           Inl e \<Rightarrow> Some (Inl e)
         | Inr (False, s1) \<Rightarrow> Some (Inr (myself, s1))
         | Inr (True, s1) \<Rightarrow>
             (case pick_other myself fairenmap (s1\<lparr>my_preempts := my_preempts s1 + 1, context_switches := context_switches s1 + 1\<rparr>) of
                None \<Rightarrow> None
              | Some (Inl e) \<Rightarrow> Some (Inl e)
              | Some (Inr (t, s2)) \<Rightarrow> Some (Inr (t, count_enabled fairenmap s2))))
      else
        (let s1 = count_enabled fairenmap s;
             s2 = s1\<lparr>thread_blocks := thread_blocks s1 + 1, context_switches := context_switches s1 + 1\<rparr>
         in Some (pickNextFairChoice fairenmap s2)))"

text \<open>A choice that the log prescribes.\<close>

definition logged_choice :: "thrID \<Rightarrow> thrID \<Rightarrow> (PreemptionCounter, unit) tm" where
  "logged_choice nextchoice myself =
     (if nextchoice \<noteq> myself
      then
        bnd (upd (\<lambda>s. s\<lparr>context_switches := context_switches s + 1\<rparr>)) (\<lambda>_.
        bnd (read_enable myself) (\<lambda>en.
        if en then upd (\<lambda>s. s\<lparr>my_preempts := my_preempts s + 1\<rparr>) else upd (\<lambda>s. s\<lparr>thread_blocks := thread_blocks s + 1\<rparr>)))
      else ret ())"

definition pc_schedule :: "(thrID \<Rightarrow> (PreemptionCounter, unit) tm) \<Rightarrow> thrID \<Rightarrow> int \<Rightarrow> thrID \<Rightarrow> PreemptionCounter \<Rightarrow>
    ((exit_reason \<times> PreemptionCounter) + (thrID \<times> PreemptionCounter)) option" where
  "pc_schedule launch logged r myself s =
     (let s0 = s\<lparr>scheduling_points := scheduling_points s + 1\<rparr>
      in if logged = -1
         then
           (case pf_getFairEnabledMap (enable_map s0) (fair s0) of
              Inl (e, f) \<Rightarrow> Some (Inl (e, s0\<lparr>fair := f\<rparr>))
            | Inr (fairenmap, f) \<Rightarrow>
                (let s1 = s0\<lparr>fair := f\<rparr>
                 in case fair_choice r myself fairenmap (isFairEnabled myself (enable_map s1) (pf_sets f)) s1 of
                      None \<Rightarrow> None
                    | Some (Inl e) \<Rightarrow> Some (Inl e)
                    | Some (Inr (t, s2)) \<Rightarrow>
                        Some (bnd (upd (\<lambda>s. s\<lparr>fair := pf_fairChosen t (fair s)\<rparr>)) (\<lambda>_. bnd (launch t) (\<lambda>_. ret t)) s2)))
         else Some (bnd (logged_choice logged myself) (\<lambda>_. bnd (launch logged) (\<lambda>_. ret logged)) s0))"

section \<open>The counters\<close>

definition counts :: "PreemptionCounter \<Rightarrow> int \<times> int \<times> int \<times> int \<times> int" where
  "counts s = (preemption_budget s, my_preempts s, thread_blocks s, context_switches s, scheduling_points s)"

lemma pc_assert_run: "pc_assert c txt s = (if c then Inr ((), s) else Inl (SafeAssert txt, s\<lparr>log := assertFail ''preemptcounter.cpp'' txt (log s)\<rparr>))"
  by (simp add: pc_assert_def safe_assert_in_def)

lemma counts_same [simp]:
  "counts (s\<lparr>log := l\<rparr>) = counts s" "counts (s\<lparr>enable_map := m\<rparr>) = counts s" "counts (s\<lparr>fair := f\<rparr>) = counts s"
  "counts (count_enabled fen s) = counts s"
  by (simp_all add: counts_def count_enabled_def)

lemma choose_counts: "chooseRandomThread m s = Inr (t, s') \<Longrightarrow> counts s' = counts s"
  by (auto simp: chooseRandomThread_result Let_def split: list.splits)

lemma pick_counts:
  assumes "pickNextFairChoice fen s = Inr (t, s')"
  shows "counts s' = counts s"
proof -
  obtain u s1 where c: "chooseRandomThread fen s = Inr (u, s1)"
    using assms by (cases "chooseRandomThread fen s") (auto simp: pickNextFairChoice_def)
  have "s' = s1\<lparr>enable_map := cm_touch False u (enable_map s1)\<rparr>"
    using assms c by (auto simp: pickNextFairChoice_def bnd_def pc_assert_run read_enable_def split: if_splits)
  with choose_counts [OF c] show ?thesis by simp
qed

lemma pick_other_result:
  "pick_other me fen s = Some y \<Longrightarrow> (case y of Inl e \<Rightarrow> True | Inr (t, s') \<Rightarrow> counts s' = counts s \<and> t \<noteq> me)"
proof (induction rule: pick_other.raw_induct [rotated, consumes 1, case_names step])
  case (step rec me fen s y)
  show ?case
  proof (cases "pickNextFairChoice fen s")
    case (Inl e)
    then have "y = Inl e" using step(2) by simp
    then show ?thesis by simp
  next
    case (Inr us)
    obtain u s1 where us: "us = (u, s1)" by (cases us)
    have p: "counts s1 = counts s" using pick_counts [of fen s u s1] Inr us by simp
    show ?thesis
    proof (cases "u = me")
      case True
      then have "rec me fen s1 = Some y" using step(2) Inr us by simp
      from step(1) [OF this] p show ?thesis by (auto split: sum.splits prod.splits)
    next
      case False
      then show ?thesis using step(2) Inr us p by auto
    qed
  qed
qed

lemma pick_other_counts: "pick_other me fen s = Some (Inr (t, s')) \<Longrightarrow> counts s' = counts s \<and> t \<noteq> me"
  using pick_other_result [of me fen s "Inr (t, s')"] by simp

lemma insert_result:
  assumes "insertPreemption r me fen s = Inr (b, s')"
  shows "s' = s \<and> cm_get False fen me \<and> (b \<longleftrightarrow> my_preempts s < preemption_budget s \<and> 2 \<le> length (keys_with (\<lambda>b. b) fen) \<and> r smod 2000 = 0)"
  using assms by (auto simp: insertPreemption_def bnd_def pc_assert_run split: if_splits)

text \<open>What one scheduling point does to the counters.\<close>

lemma fair_choice_counts:
  assumes "fair_choice r me fen en s = Some (Inr (t, s'))"
  shows "counts s' = counts s \<or>
     (my_preempts s < preemption_budget s \<and> counts s' = counts (s\<lparr>my_preempts := my_preempts s + 1, context_switches := context_switches s + 1\<rparr>)) \<or>
     counts s' = counts (s\<lparr>thread_blocks := thread_blocks s + 1, context_switches := context_switches s + 1\<rparr>)"
proof (cases en)
  case True
  obtain b s1 where i: "insertPreemption r me fen s = Inr (b, s1)"
    using assms True by (cases "insertPreemption r me fen s") (auto simp: fair_choice_def)
  note b = insert_result [OF i]
  show ?thesis
  proof (cases b)
    case True
    let ?s = "s\<lparr>my_preempts := my_preempts s + 1, context_switches := context_switches s + 1\<rparr>"
    obtain s2 where "pick_other me fen ?s = Some (Inr (t, s2))" "s' = count_enabled fen s2"
      using assms \<open>en\<close> True i b by (auto simp: fair_choice_def split: option.splits sum.splits)
    with pick_other_counts b True show ?thesis by auto
  next
    case False
    then show ?thesis using assms \<open>en\<close> i b by (auto simp: fair_choice_def)
  qed
next
  case False
  then have "pickNextFairChoice fen ((count_enabled fen s)\<lparr>thread_blocks := thread_blocks s + 1, context_switches := context_switches s + 1\<rparr>) = Inr (t, s')"
    using assms by (simp add: fair_choice_def Let_def count_enabled_def)
  from pick_counts [OF this] show ?thesis by (simp add: counts_def count_enabled_def)
qed

definition keeps_counts :: "(thrID \<Rightarrow> (PreemptionCounter, unit) tm) \<Rightarrow> bool" where
  "keeps_counts launch \<longleftrightarrow> (\<forall>t s x s'. launch t s = Inr (x, s') \<longrightarrow> counts s' = counts s)"

definition counts_ok :: "PreemptionCounter \<Rightarrow> bool" where
  "counts_ok s \<longleftrightarrow> preemption_budget s = 2 \<and> context_switches s = my_preempts s + thread_blocks s \<and> context_switches s \<le> scheduling_points s"

lemma counts_eqD:
  "counts s = counts s' \<Longrightarrow> preemption_budget s = preemption_budget s' \<and> my_preempts s = my_preempts s' \<and> thread_blocks s = thread_blocks s' \<and>
     context_switches s = context_switches s' \<and> scheduling_points s = scheduling_points s'"
  by (simp add: counts_def)

lemma pc_schedule_counts:
  assumes launch: "keeps_counts launch" and run: "pc_schedule launch logged r me s = Some (Inr (t, s'))" and ok: "counts_ok s"
  shows "counts_ok s' \<and> (logged = -1 \<longrightarrow> my_preempts s \<le> 2 \<longrightarrow> my_preempts s' \<le> 2)"
proof -
  let ?s0 = "s\<lparr>scheduling_points := scheduling_points s + 1\<rparr>"
  have l: "counts s2 = counts s1" if "bnd (launch u) (\<lambda>_. ret u) s1 = Inr (v, s2)" for u v s1 s2
    using that launch by (auto simp: keeps_counts_def bnd_eq_Inr)
  show ?thesis
  proof (cases "logged = -1")
    case True
    obtain fen f where f: "pf_getFairEnabledMap (enable_map s) (fair s) = Inr (fen, f)"
      using run True by (cases "pf_getFairEnabledMap (enable_map s) (fair s)") (auto simp: pc_schedule_def)
    let ?s1 = "?s0\<lparr>fair := f\<rparr>"
    obtain u s2 where c: "fair_choice r me fen (isFairEnabled me (enable_map s) (pf_sets f)) ?s1 = Some (Inr (u, s2))"
      and s': "bnd (launch u) (\<lambda>_. ret u) (s2\<lparr>fair := pf_fairChosen u (fair s2)\<rparr>) = Inr (t, s')"
      using run True f by (auto simp: pc_schedule_def Let_def bnd_def upd_def split: option.splits sum.splits)
    have "counts s' = counts s2" using l [OF s'] by simp
    with fair_choice_counts [OF c] ok show ?thesis by (auto simp: counts_def counts_ok_def)
  next
    case False
    obtain s2 where c: "logged_choice logged me ?s0 = Inr ((), s2)" and s': "bnd (launch logged) (\<lambda>_. ret logged) s2 = Inr (t, s')"
      using run False by (auto simp: pc_schedule_def Let_def bnd_def [of "logged_choice logged me"] split: sum.splits)
    have "counts s2 = counts ?s0 \<or> counts s2 = counts (?s0\<lparr>my_preempts := my_preempts s + 1, context_switches := context_switches s + 1\<rparr>) \<or>
        counts s2 = counts (?s0\<lparr>thread_blocks := thread_blocks s + 1, context_switches := context_switches s + 1\<rparr>)"
      using c by (auto simp: logged_choice_def bnd_def read_enable_def upd_def counts_def split: if_splits)
    with l [OF s'] ok False show ?thesis by (auto simp: counts_def counts_ok_def)
  qed
qed

section \<open>Runs\<close>

text \<open>A run: for each scheduling point the choice of the log, the value of \<open>rand()\<close> and the thread.\<close>

fun pc_run :: "(thrID \<Rightarrow> (PreemptionCounter, unit) tm) \<Rightarrow> (thrID \<times> int \<times> thrID) list \<Rightarrow> PreemptionCounter \<Rightarrow>
    ((exit_reason \<times> PreemptionCounter) + PreemptionCounter) option" where
  "pc_run launch [] s = Some (Inr s)"
| "pc_run launch ((logged, r, me) # points) s =
     (case pc_schedule launch logged r me s of
        None \<Rightarrow> None
      | Some (Inl e) \<Rightarrow> Some (Inl e)
      | Some (Inr (t, s')) \<Rightarrow> pc_run launch points s')"

lemma pc_run_counts:
  assumes "keeps_counts launch" and "pc_run launch points s = Some (Inr s')" and "counts_ok s"
  shows "counts_ok s' \<and> ((\<forall>p \<in> set points. fst p = -1) \<longrightarrow> my_preempts s \<le> 2 \<longrightarrow> my_preempts s' \<le> 2)"
  using assms(2,3)
proof (induction points arbitrary: s)
  case (Cons p points)
  obtain logged r me where p: "p = (logged, r, me)" by (cases p)
  obtain t s1 where step: "pc_schedule launch logged r me s = Some (Inr (t, s1))" and rest: "pc_run launch points s1 = Some (Inr s')"
    using Cons.prems(1) by (auto simp: p split: option.splits sum.splits)
  from pc_schedule_counts [OF assms(1) step Cons.prems(2)] Cons.IH [OF rest] show ?case by (auto simp: p)
qed simp

lemma destroy_result:
  assumes "counts_ok s"
  shows "if my_preempts s \<le> 2 then pc_destroy s = Inr ((), s) else \<exists>s'. pc_destroy s = Inl (SafeAssert ''my_preempts <= preemption_budget'', s')"
  using assms by (auto simp: counts_ok_def pc_destroy_def bnd_def pc_assert_run)

text \<open>
  C37: The statistics of the preemption counter. After any run that returns, whatever the choices of the log, the
  assertions of the destructor on the sum of the context switches and on the number of scheduling points
  hold, and the destructor returns exactly if at most two preemptions were counted. Without choices from a log this is
  always so: the budget is respected.
\<close>

theorem preemption_statistics:
  assumes "keeps_counts launch" and "pc_run launch points (new_PreemptionCounter l myself) = Some (Inr s)"
  shows "context_switches s = my_preempts s + thread_blocks s \<and> context_switches s \<le> scheduling_points s \<and>
    (if my_preempts s \<le> 2 then pc_destroy s = Inr ((), s)
     else \<exists>s'. pc_destroy s = Inl (SafeAssert ''my_preempts <= preemption_budget'', s')) \<and>
    ((\<forall>p \<in> set points. fst p = -1) \<longrightarrow> my_preempts s \<le> 2)"
proof -
  have "counts_ok (new_PreemptionCounter l myself)" and "my_preempts (new_PreemptionCounter l myself) \<le> 2"
    by (simp_all add: counts_ok_def new_PreemptionCounter_def RandomTracker.extend_def)
  with pc_run_counts [OF assms this(1)] destroy_result [of s] show ?thesis by (simp add: counts_ok_def)
qed

text \<open>The part of \<open>launchThread\<close> that records the decision, as an instance.\<close>

definition record_launch :: "thrID \<Rightarrow> (PreemptionCounter, unit) tm" where
  "record_launch t = upd (with_log (scheduling t (mk_SchedPointInfo NULL [] t [] False)))"

lemma record_launch_keeps: "keeps_counts record_launch"
  by (auto simp: keeps_counts_def record_launch_def with_log_def)

text \<open>Three preemptions from a log: the assertion of the destructor fails.\<close>

definition logged_preemptions :: "(thrID \<times> int \<times> thrID) list" where
  "logged_preemptions = [(1, 0, 0), (0, 0, 1), (1, 0, 0), (0, 0, 1), (1, 0, 0)]"

lemma logged_run:
  "\<exists>s. pc_run record_launch logged_preemptions (new_PreemptionCounter Logger_raw 0) = Some (Inr s) \<and> my_preempts s = 3"
proof -
  have "cm_get False (enable_map (new_PreemptionCounter Logger_raw 0)) 0" "\<not> cm_get False (enable_map (new_PreemptionCounter Logger_raw 0)) 1"
    "my_preempts (new_PreemptionCounter Logger_raw 0) = 0"
    by (simp_all add: new_PreemptionCounter_def new_RandomTracker_def new_ExecutionTracker_def constructorHelper_def ExecutionTracker_raw_def
        initializeThreadData_def enableThread_def ExecutionTracker.extend_def RandomTracker.extend_def with_log_def cm_get_def)
  then show ?thesis
    by (simp add: logged_preemptions_def pc_schedule_def logged_choice_def bnd_def read_enable_def record_launch_def with_log_def Let_def)
qed

theorem preemption_statistics_witness:
  "\<exists>s s'. pc_run record_launch logged_preemptions (new_PreemptionCounter Logger_raw 0) = Some (Inr s) \<and>
     pc_destroy s = Inl (SafeAssert ''my_preempts <= preemption_budget'', s')"
proof -
  obtain s where s: "pc_run record_launch logged_preemptions (new_PreemptionCounter Logger_raw 0) = Some (Inr s)" "my_preempts s = 3"
    using logged_run by blast
  from preemption_statistics [OF record_launch_keeps s(1)] s show ?thesis by auto
qed

section \<open>The choice\<close>

lemma pf_update_eq:
  assumes "\<not> pf_erases en f"
  shows "pf_updateDataStructures en f =
     Inr (f\<lparr>pf_sets := updateDataStructures (mk_SchedPointInfo NULL [] (pf_getLastScheduled f) en (pf_justYield f)) (pf_sets f), pf_justYield := False\<rparr>)"
  using assms by (simp add: pf_updateDataStructures_def updateDataStructures_def mk_SchedPointInfo_def Let_def)

lemma pf_map_eq:
  assumes "\<not> pf_erases en f"
  shows "\<exists>g. pf_getFairEnabledMap en f = Inr (fst (getFairEnabledMap (mk_SchedPointInfo NULL [] (pf_getLastScheduled f) en (pf_justYield f)) (pf_sets g)), g) \<and>
     pf_sets g = snd (getFairEnabledMap (mk_SchedPointInfo NULL [] (pf_getLastScheduled f) en (pf_justYield f))
       (updateDataStructures (mk_SchedPointInfo NULL [] (pf_getLastScheduled f) en (pf_justYield f)) (pf_sets f)))"
  by (simp add: pf_getFairEnabledMap_def pf_update_eq [OF assms] getFairEnabledMap_def mk_SchedPointInfo_def isFairEnabled_def case_prod_beta)

lemma fair_map:
  assumes erases: "\<not> pf_erases en f" and inv: "fs_inv (pf_sets f)" and ok: "cm_ok en" and last: "pf_getLastScheduled f \<in> fst ` set en"
  shows "\<exists>fen g. pf_getFairEnabledMap en f = Inr (fen, g) \<and> fs_inv (pf_sets g) \<and> cm_ok fen \<and>
     (\<forall>t. cm_get False fen t = isFairEnabled t en (pf_sets g)) \<and> set (keys_with (\<lambda>b. b) fen) = {t. cm_get False fen t}"
proof -
  let ?p = "mk_SchedPointInfo NULL [] (pf_getLastScheduled f) en (pf_justYield f)"
  have sp: "sp_enabled ?p = en" "sp_thread ?p = pf_getLastScheduled f" by (simp_all add: mk_SchedPointInfo_def)
  obtain g where g: "pf_getFairEnabledMap en f = Inr (fst (getFairEnabledMap ?p (pf_sets g)), g)"
    "pf_sets g = snd (getFairEnabledMap ?p (updateDataStructures ?p (pf_sets f)))" using pf_map_eq [OF erases] by blast
  have "fs_inv (pf_sets g)" using fs_inv_updateDataStructures [OF inv, of ?p] last by (simp add: g(2) sp)
  moreover have "cm_ok (fst (getFairEnabledMap ?p (pf_sets g)))" using cm_ok_fenmap [of ?p] ok by (simp add: sp)
  moreover from this have "set (keys_with (\<lambda>b. b) (fst (getFairEnabledMap ?p (pf_sets g)))) = {t. cm_get False (fst (getFairEnabledMap ?p (pf_sets g))) t}"
    by (rule set_enabled_keys)
  ultimately show ?thesis using g(1) get_fenmap [of ?p "pf_sets g"] by (auto simp: sp)
qed

text \<open>The random choice among the threads of the fair map, all of which are enabled.\<close>

lemma fair_pick_result:
  assumes ts: "keys_with (\<lambda>b. b) fen = ts" "ts \<noteq> []" and fen: "\<forall>t \<in> set ts. cm_get False fen t \<and> cm_get False (enable_map s) t \<and> 0 \<le> t"
  defines "t \<equiv> (if length ts = 1 then hd ts else nth_marked (draw (log s)) ts)"
  shows "t \<in> set ts"
    "pickNextFairChoice fen s =
       Inr (t, (if length ts = 1 then s else s\<lparr>log := drawn (log s)\<rparr>)\<lparr>enable_map := cm_touch False t (enable_map s)\<rparr>)"
proof -
  show t: "t \<in> set ts" using ts(2) nth_marked_in [of ts] by (auto simp: t_def)
  have c: "chooseRandomThread fen s = Inr (t, if length ts = 1 then s else s\<lparr>log := drawn (log s)\<rparr>)"
    using ts by (simp add: chooseRandomThread_def choose_with_eq t_def Let_def)
  show "pickNextFairChoice fen s =
       Inr (t, (if length ts = 1 then s else s\<lparr>log := drawn (log s)\<rparr>)\<lparr>enable_map := cm_touch False t (enable_map s)\<rparr>)"
    unfolding pickNextFairChoice_def bnd_def [of "chooseRandomThread fen"] c
    using fen t by (auto simp: read_enable_def pc_assert_run bnd_def)
qed

text \<open>The loop ends as soon as the random numbers select another thread.\<close>

lemma pick_other_returns:
  assumes ts: "keys_with (\<lambda>b. b) fen = ts" "2 \<le> length ts"
    and fen: "\<forall>t \<in> set ts. cm_get False fen t \<and> cm_get False (enable_map s) t \<and> 0 \<le> t"
    and draws: "nth_marked (draw ((drawn ^^ k) (log s))) ts \<noteq> me"
  shows "\<exists>t s'. pick_other me fen s = Some (Inr (t, s')) \<and> t \<in> set ts \<and> t \<noteq> me \<and> (\<forall>u. cm_get False (enable_map s') u = cm_get False (enable_map s) u)"
  using fen draws
proof (induction k arbitrary: s)
  have ne: "ts \<noteq> []" "length ts \<noteq> 1" using ts(2) by auto
  {
    case 0
    note p = fair_pick_result [OF ts(1) ne(1) 0(1)]
    then show ?case using 0(2) ne by (simp add: pick_other.simps)
  next
    case (Suc k)
    define t where "t = nth_marked (draw (log s)) ts"
    define s1 where "s1 = s\<lparr>log := drawn (log s)\<rparr>\<lparr>enable_map := cm_touch False t (enable_map s)\<rparr>"
    have p: "t \<in> set ts" "pickNextFairChoice fen s = Inr (t, s1)"
      using fair_pick_result [OF ts(1) ne(1) Suc.prems(1)] ne by (simp_all add: t_def s1_def)
    show ?case
    proof (cases "t = me")
      case True
      have "\<forall>u. cm_get False (enable_map s1) u = cm_get False (enable_map s) u" "log s1 = drawn (log s)" by (simp_all add: s1_def)
      moreover from this have "\<exists>t s'. pick_other me fen s1 = Some (Inr (t, s')) \<and> t \<in> set ts \<and> t \<noteq> me \<and>
          (\<forall>u. cm_get False (enable_map s') u = cm_get False (enable_map s1) u)"
        using Suc.prems by (intro Suc.IH) (simp_all add: funpow_swap1)
      ultimately show ?thesis using p True by (simp add: pick_other.simps [of me fen s])
    next
      case False
      then show ?thesis using p by (simp add: pick_other.simps [of me fen s] s1_def)
    qed
  }
qed

text \<open>
  C38: A choice of the preemption counter, at a point that is not in the log. Let the priorities be acyclic, the thread scheduled last be
  known, and no set have a thread to erase (erasing is undefined). If no thread is enabled the
  scheduler leaves with an assertion. Otherwise, if the random numbers eventually select a fair-enabled thread other than the
  current one, it returns a fair-enabled thread, and the current thread loses its turn only if it is not fair-enabled itself or
  \<open>rand()\<close> calls for a preemption while the budget is not spent.
\<close>

theorem preemption_choice:
  assumes inv: "fs_inv (pf_sets (fair s))" and ok: "cm_ok (enable_map s)" and last: "pf_getLastScheduled (fair s) \<in> fst ` set (enable_map s)"
    and ids: "\<forall>t \<in> fst ` set (enable_map s). 0 \<le> t" and erases: "\<not> pf_erases (enable_map s) (fair s)"
    and launch: "\<And>t s. cm_get False (enable_map s) t \<Longrightarrow> \<exists>s'. launch t s = Inr ((), s')"
    and draws: "\<And>fen g. pf_getFairEnabledMap (enable_map s) (fair s) = Inr (fen, g) \<Longrightarrow> 2 \<le> length (keys_with (\<lambda>b. b) fen) \<Longrightarrow>
       \<exists>k. nth_marked (draw ((drawn ^^ k) (log s))) (keys_with (\<lambda>b. b) fen) \<noteq> me"
  shows "\<exists>fen g. pf_getFairEnabledMap (enable_map s) (fair s) = Inr (fen, g) \<and> fs_inv (pf_sets g) \<and>
     (if \<exists>t. cm_get False (enable_map s) t
      then \<exists>t s'. pc_schedule launch (-1) r me s = Some (Inr (t, s')) \<and> cm_get False fen t \<and>
        (t \<noteq> me \<longrightarrow> \<not> cm_get False fen me \<or> (my_preempts s < preemption_budget s \<and> r smod 2000 = 0))
      else \<exists>s'. pc_schedule launch (-1) r me s = Some (Inl (SafeAssert ''false'', s')))"
proof -
  obtain fen g where m: "pf_getFairEnabledMap (enable_map s) (fair s) = Inr (fen, g)" and g: "fs_inv (pf_sets g)"
    and fen: "\<forall>t. cm_get False fen t = isFairEnabled t (enable_map s) (pf_sets g)" and keys: "set (keys_with (\<lambda>b. b) fen) = {t. cm_get False fen t}"
    using fair_map [OF erases inv ok last] by blast
  define ts where "ts = keys_with (\<lambda>b. b) fen"
  define s1 where "s1 = s\<lparr>scheduling_points := scheduling_points s + 1, fair := g\<rparr>"
  have en: "cm_get False (enable_map s) t \<and> 0 \<le> t" if "cm_get False fen t" for t
    using that fen ids by (auto simp: isFairEnabled_def cm_get_def split: if_splits option.splits dest!: map_of_SomeD)
  have all: "\<forall>t \<in> set ts. cm_get False fen t \<and> cm_get False (enable_map s) t \<and> 0 \<le> t" using keys en by (simp add: ts_def)
  have finish: "\<exists>s'. bnd (upd (\<lambda>s. s\<lparr>fair := pf_fairChosen t (fair s)\<rparr>)) (\<lambda>_. bnd (launch t) (\<lambda>_. ret t)) s2 = Inr (t, s')"
    if "cm_get False (enable_map s2) t" for t s2
  proof -
    obtain s' where "launch t (s2\<lparr>fair := pf_fairChosen t (fair s2)\<rparr>) = Inr ((), s')"
      using launch [of "s2\<lparr>fair := pf_fairChosen t (fair s2)\<rparr>" t] \<open>cm_get False (enable_map s2) t\<close> by auto
    then show ?thesis by (auto simp: bnd_def upd_def)
  qed
  have run: "pc_schedule launch (-1) r me s =
      (case fair_choice r me fen (cm_get False fen me) s1 of
         None \<Rightarrow> None
       | Some (Inl e) \<Rightarrow> Some (Inl e)
       | Some (Inr (t, s2)) \<Rightarrow> Some (bnd (upd (\<lambda>s. s\<lparr>fair := pf_fairChosen t (fair s)\<rparr>)) (\<lambda>_. bnd (launch t) (\<lambda>_. ret t)) s2))"
    using m fen by (simp add: pc_schedule_def Let_def s1_def)
  have "if \<exists>t. cm_get False (enable_map s) t
      then \<exists>t s2. fair_choice r me fen (cm_get False fen me) s1 = Some (Inr (t, s2)) \<and> cm_get False fen t \<and> cm_get False (enable_map s2) t \<and>
        (t \<noteq> me \<longrightarrow> \<not> cm_get False fen me \<or> (my_preempts s < preemption_budget s \<and> r smod 2000 = 0))
      else \<exists>s2. fair_choice r me fen (cm_get False fen me) s1 = Some (Inl (SafeAssert ''false'', s2))"
  proof (cases "\<exists>t. cm_get False (enable_map s) t")
    case none: False
    then have "ts = []" using en all by (cases ts) auto
    moreover from none en have "\<not> cm_get False fen me" by blast
    ultimately show ?thesis
      using none by (auto simp: fair_choice_def Let_def pickNextFairChoice_def chooseRandomThread_def choose_with_eq ts_def bnd_def pc_assert_run)
  next
    case some: True
    then obtain u where "isFairEnabled u (enable_map s) (pf_sets g)" using some_fair_enabled [OF g] by blast
    then have ne: "ts \<noteq> []" using fen keys by (auto simp: ts_def)
    show ?thesis
    proof (cases "cm_get False fen me")
      case False
      define s2 where "s2 = (count_enabled fen s1)\<lparr>thread_blocks := thread_blocks s1 + 1, context_switches := context_switches s1 + 1\<rparr>"
      have "enable_map s2 = enable_map s" by (simp add: s2_def s1_def count_enabled_def)
      then have "\<forall>t \<in> set ts. cm_get False fen t \<and> cm_get False (enable_map s2) t \<and> 0 \<le> t" using all by simp
      note p = fair_pick_result [OF ts_def [symmetric] ne this]
      have "fair_choice r me fen (cm_get False fen me) s1 = Some (pickNextFairChoice fen s2)"
        using False by (simp add: fair_choice_def s2_def Let_def count_enabled_def)
      with p all some False \<open>enable_map s2 = enable_map s\<close> show ?thesis by simp
    next
      case me: True
      show ?thesis
      proof (cases "my_preempts s < preemption_budget s \<and> 2 \<le> length ts \<and> r smod 2000 = 0")
        case True
        then have i: "insertPreemption r me fen s1 = Inr (True, s1)"
          using me by (simp add: insertPreemption_def bnd_def pc_assert_run ts_def s1_def)
        define s2 where "s2 = s1\<lparr>my_preempts := my_preempts s1 + 1, context_switches := context_switches s1 + 1\<rparr>"
        have s2: "enable_map s2 = enable_map s" "log s2 = log s" by (simp_all add: s2_def s1_def)
        obtain k where "nth_marked (draw ((drawn ^^ k) (log s2))) ts \<noteq> me" using draws [OF m] True s2(2) by (auto simp: ts_def)
        moreover have "\<forall>t \<in> set ts. cm_get False fen t \<and> cm_get False (enable_map s2) t \<and> 0 \<le> t" using all s2(1) by simp
        moreover have "2 \<le> length ts" using True by simp
        ultimately obtain t s3 where "pick_other me fen s2 = Some (Inr (t, s3))" "t \<in> set ts" "\<forall>u. cm_get False (enable_map s3) u = cm_get False (enable_map s2) u"
          using pick_other_returns [OF ts_def [symmetric]] by blast
        then show ?thesis using some me True i all s2(1) by (auto simp: fair_choice_def s2_def [symmetric] count_enabled_def)
      next
        case False
        then have "insertPreemption r me fen s1 = Inr (False, s1)"
          using me by (auto simp: insertPreemption_def bnd_def pc_assert_run ts_def s1_def)
        with some me en show ?thesis by (simp add: fair_choice_def s1_def)
      qed
    qed
  qed
  then show ?thesis
  proof (cases "\<exists>t. cm_get False (enable_map s) t")
    case True
    with \<open>if _ then _ else _\<close> obtain t s2 where t: "fair_choice r me fen (cm_get False fen me) s1 = Some (Inr (t, s2))" "cm_get False fen t" "cm_get False (enable_map s2) t"
      "t \<noteq> me \<longrightarrow> \<not> cm_get False fen me \<or> (my_preempts s < preemption_budget s \<and> r smod 2000 = 0)" by auto
    obtain s' where "bnd (upd (\<lambda>s. s\<lparr>fair := pf_fairChosen t (fair s)\<rparr>)) (\<lambda>_. bnd (launch t) (\<lambda>_. ret t)) s2 = Inr (t, s')" using finish [OF t(3)] by blast
    then have "pc_schedule launch (-1) r me s = Some (Inr (t, s'))" by (simp add: run t(1))
    with True m g t show ?thesis by auto
  next
    case False
    with \<open>if _ then _ else _\<close> obtain s2 where "fair_choice r me fen (cm_get False fen me) s1 = Some (Inl (SafeAssert ''false'', s2))" by auto
    then have "pc_schedule launch (-1) r me s = Some (Inl (SafeAssert ''false'', s2))" by (simp add: run)
    with False m g show ?thesis by auto
  qed
qed

definition preempt_demo :: PreemptionCounter where
  "preempt_demo = (new_PreemptionCounter Logger_raw 0)\<lparr>enable_map := [(0, True), (1, True)], log := Logger_raw\<lparr>myrand := ones_mt\<rparr>\<rparr>"

theorem preemption_choice_witness:
  "\<exists>t s'. pc_schedule record_launch (-1) 0 0 preempt_demo = Some (Inr (t, s'))"
proof -
  have demo: "enable_map preempt_demo = [(0, True), (1, True)]" "log preempt_demo = Logger_raw\<lparr>myrand := ones_mt\<rparr>" "fair preempt_demo = new_PreemptFair"
    by (simp_all add: preempt_demo_def new_PreemptionCounter_def RandomTracker.extend_def)
  have erases: "\<not> pf_erases [(0, True), (1, True)] new_PreemptFair"
    by (simp add: pf_erases_def cm_keys_def new_PreemptFair_def new_FairScheduler_def cm_get_def)
  have keys: "keys_with (\<lambda>b. b) fen = [0, 1]" if "pf_getFairEnabledMap [(0, True), (1, True)] new_PreemptFair = Inr (fen, g)" for fen g
    using that erases
    by (auto simp: pf_getFairEnabledMap_def pf_updateDataStructures_def new_PreemptFair_def new_FairScheduler_def Let_def isFairEnabled_def
        cm_get_def keys_with_def cm_erase_def)
  have draw: "draw (Logger_raw\<lparr>myrand := ones_mt\<rparr>) = 4194449"
    by (simp add: draw_def ones_mt_def MTRand_randInt_def temper_def N_mt_def c_int_def)
  have "\<exists>fen g. pf_getFairEnabledMap (enable_map preempt_demo) (fair preempt_demo) = Inr (fen, g) \<and> fs_inv (pf_sets g) \<and>
     (if \<exists>t. cm_get False (enable_map preempt_demo) t
      then \<exists>t s'. pc_schedule record_launch (-1) 0 0 preempt_demo = Some (Inr (t, s')) \<and> cm_get False fen t \<and>
        (t \<noteq> 0 \<longrightarrow> \<not> cm_get False fen 0 \<or> (my_preempts preempt_demo < preemption_budget preempt_demo \<and> (0 :: int) smod 2000 = 0))
      else \<exists>s'. pc_schedule record_launch (-1) 0 0 preempt_demo = Some (Inl (SafeAssert ''false'', s')))"
  proof (rule preemption_choice)
    show "fs_inv (pf_sets (fair preempt_demo))" using fs_inv_new by (simp add: demo new_PreemptFair_def)
    show "cm_ok (enable_map preempt_demo)" by (simp add: demo cm_ok_def)
    show "pf_getLastScheduled (fair preempt_demo) \<in> fst ` set (enable_map preempt_demo)"
      by (simp add: demo pf_getLastScheduled_def new_PreemptFair_def)
    show "\<forall>t \<in> fst ` set (enable_map preempt_demo). 0 \<le> t" by (simp add: demo)
    show "\<not> pf_erases (enable_map preempt_demo) (fair preempt_demo)" using erases by (simp add: demo)
    show "\<exists>s'. record_launch t s = Inr ((), s')" for t s by (simp add: record_launch_def)
    show "\<exists>k. nth_marked (draw ((drawn ^^ k) (log preempt_demo))) (keys_with (\<lambda>b. b) fen) \<noteq> 0"
      if "pf_getFairEnabledMap (enable_map preempt_demo) (fair preempt_demo) = Inr (fen, g)" for fen g
      using keys [of fen g] that draw by (intro exI [of _ 0]) (simp add: demo nth_marked_def)
  qed
  moreover have "\<exists>t. cm_get False (enable_map preempt_demo) t" by (auto simp: demo cm_get_def intro: exI [of _ 0])
  ultimately show ?thesis by auto
qed

end
