(* ===== verification/Interposition.thy ===== *)
theory Interposition
  imports Prelude
begin

text \<open>
  The interposition layer, \<open>src/thrille-core/libpth.cpp\<close>: 105 functions of pthread, semaphores and sleeping are replaced by
  entry points that start the library if it has not been started and call a method of the handler. A method asks its \<open>Before\<close> hook
  whether to call the original function or the \<open>Simulate\<close> hook, and gives the result to the \<open>After\<close> hook. The class
  \<open>Handler\<close> has a default for each hook; in safe mode the default \<open>Before\<close> hook stops the program.

  The methods all have this shape and differ in the names only, and so have the hooks and the entry points; the names are
  listed as they are in the source, method by method, and \<open>run_wrapper\<close> and \<open>enter\<close> run them.
  Arguments and results are of any type; a method without result passes on some value of the result type. A hook can wait, and the
  state it leaves is then the one that the other threads have made. The original functions are
  arguments, and so is \<open>thrille_create\<close>, the one method with another shape, which is in \<open>Serial_Machine\<close>.
\<close>

section \<open>Handlers\<close>

datatype wrapper = Wrapper (w_method: string) (w_before: string) (w_original: string) (w_simulate: string) (w_after: string)

datatype entry_point = EntryPoint (e_name: string) (e_method: string) (e_checks: bool)

text \<open>
  A handler: whether it is in safe mode, and the hooks that its class overrides (\<open>None\<close> if the default of \<open>Handler\<close> is
  used). The library: whether it has been started, the handler, and the state of everything else.
\<close>

record ('s, 'a, 'r) Handler =
  safe_mode :: bool
  hk_AfterInitialize :: "('s, unit) tm"
  hk_before :: "string \<Rightarrow> ('a \<Rightarrow> ('s, bool) tm) option"
  hk_simulate :: "string \<Rightarrow> ('a \<Rightarrow> ('s, 'r) tm) option"
  hk_after :: "string \<Rightarrow> ('r \<Rightarrow> 'a \<Rightarrow> ('s, unit) tm) option"

record ('s, 'a, 'r) library =
  pth_is_initialized :: bool
  pHandler :: "('s, 'a, 'r) Handler option"
  world :: 's

definition library_init :: "'s \<Rightarrow> ('s, 'a, 'r) library" where
  "library_init w = \<lparr>pth_is_initialized = False, pHandler = None, world = w\<rparr>"

text \<open>What the layer is linked with: the original functions, the handler of the thriller, a zero of the result type.\<close>

record ('s, 'a, 'r) linked =
  Originals_initialize :: "('s, unit) tm"
  Originals :: "string \<Rightarrow> 'a \<Rightarrow> ('s, 'r) tm"
  create_handler :: "('s, ('s, 'a, 'r) Handler option) tm"
  method_create :: "('s, 'a, 'r) Handler \<Rightarrow> 'a \<Rightarrow> ('s, 'r) tm"
  zero_result :: 'r

definition in_world :: "('s, 'b) tm \<Rightarrow> (('s, 'a, 'r) library, 'b) tm" where
  "in_world m l =
     (case m (world l) of
        Inl (e, w) \<Rightarrow> Inl (e, l\<lparr>world := w\<rparr>)
      | Inr (x, w) \<Rightarrow> Inr (x, l\<lparr>world := w\<rparr>))"

section \<open>The methods, hooks and entry points\<close>

definition wrappers_1 :: "wrapper list" where
  "wrappers_1 =
    [Wrapper ''sem_wait'' ''BeforeSemWait'' ''sem_wait'' ''SimulateSemWait'' ''AfterSemWait'',
     Wrapper ''thrille_mutex_lock'' ''BeforeMutexLock'' ''pthread_mutex_lock'' ''SimulateMutexLock'' ''AfterMutexLock'',
     Wrapper ''sleep'' ''BeforeSleep'' ''sleep'' ''SimulateSleep'' ''AfterSleep'',
     Wrapper ''thrille_condattr_destroy'' ''BeforeCondattrDestroy'' ''pthread_condattr_destroy'' ''SimulateCondattrDestroy'' ''AfterCondattrDestroy'',
     Wrapper ''thrille_mutexattr_getpshared'' ''BeforeMutexattrGetpshared'' ''pthread_mutexattr_getpshared'' ''SimulateMutexattrGetpshared'' ''AfterMutexattrGetpshared'',
     Wrapper ''thrille_setconcurrency'' ''BeforeSetconcurrency'' ''pthread_setconcurrency'' ''SimulateSetconcurrency'' ''AfterSetconcurrency'',
     Wrapper ''thrille_getconcurrency'' ''BeforeGetconcurrency'' ''pthread_getconcurrency'' ''SimulateGetconcurrency'' ''AfterGetconcurrency'',
     Wrapper ''sem_destroy'' ''BeforeSemDestroy'' ''sem_destroy'' ''SimulateSemDestroy'' ''AfterSemDestroy'',
     Wrapper ''thrille_testcancel'' ''BeforeTestcancel'' ''pthread_testcancel'' ''SimulateTestcancel'' ''AfterTestcancel'',
     Wrapper ''thrille_attr_getscope'' ''BeforeAttrGetscope'' ''pthread_attr_getscope'' ''SimulateAttrGetscope'' ''AfterAttrGetscope'',
     Wrapper ''thrille_mutex_init'' ''BeforeMutexInit'' ''pthread_mutex_init'' ''SimulateMutexInit'' ''AfterMutexInit'']"

definition wrappers_2 :: "wrapper list" where
  "wrappers_2 =
    [Wrapper ''sem_init'' ''BeforeSemInit'' ''sem_init'' ''SimulateSemInit'' ''AfterSemInit'',
     Wrapper ''thrille_mutex_trylock'' ''BeforeMutexTrylock'' ''pthread_mutex_trylock'' ''SimulateMutexTrylock'' ''AfterMutexTrylock'',
     Wrapper ''thrille_rwlockattr_init'' ''BeforeRwlockattrInit'' ''pthread_rwlockattr_init'' ''SimulateRwlockattrInit'' ''AfterRwlockattrInit'',
     Wrapper ''thrille_mutexattr_setpshared'' ''BeforeMutexattrSetpshared'' ''pthread_mutexattr_setpshared'' ''SimulateMutexattrSetpshared'' ''AfterMutexattrSetpshared'',
     Wrapper ''thrille_rwlockattr_destroy'' ''BeforeRwlockattrDestroy'' ''pthread_rwlockattr_destroy'' ''SimulateRwlockattrDestroy'' ''AfterRwlockattrDestroy'',
     Wrapper ''thrille_barrier_destroy'' ''BeforeBarrierDestroy'' ''pthread_barrier_destroy'' ''SimulateBarrierDestroy'' ''AfterBarrierDestroy'',
     Wrapper ''thrille_getschedparam'' ''BeforeGetschedparam'' ''pthread_getschedparam'' ''SimulateGetschedparam'' ''AfterGetschedparam'',
     Wrapper ''thrille_attr_getschedparam'' ''BeforeAttrGetschedparam'' ''pthread_attr_getschedparam'' ''SimulateAttrGetschedparam'' ''AfterAttrGetschedparam'',
     Wrapper ''thrille_cancel'' ''BeforeCancel'' ''pthread_cancel'' ''SimulateCancel'' ''AfterCancel'',
     Wrapper ''thrille_cond_wait'' ''BeforeCondWait'' ''pthread_cond_wait'' ''SimulateCondWait'' ''AfterCondWait'',
     Wrapper ''thrille_condattr_getpshared'' ''BeforeCondattrGetpshared'' ''pthread_condattr_getpshared'' ''SimulateCondattrGetpshared'' ''AfterCondattrGetpshared'']"

definition wrappers_3 :: "wrapper list" where
  "wrappers_3 =
    [Wrapper ''thrille_spin_trylock'' ''BeforeSpinTrylock'' ''pthread_spin_trylock'' ''SimulateSpinTrylock'' ''AfterSpinTrylock'',
     Wrapper ''thrille_attr_getinheritsched'' ''BeforeAttrGetinheritsched'' ''pthread_attr_getinheritsched'' ''SimulateAttrGetinheritsched'' ''AfterAttrGetinheritsched'',
     Wrapper ''thrille_attr_setstack'' ''BeforeAttrSetstack'' ''pthread_attr_setstack'' ''SimulateAttrSetstack'' ''AfterAttrSetstack'',
     Wrapper ''thrille_cond_signal'' ''BeforeCondSignal'' ''pthread_cond_signal'' ''SimulateCondSignal'' ''AfterCondSignal'',
     Wrapper ''sem_getvalue'' ''BeforeSemGetvalue'' ''sem_getvalue'' ''SimulateSemGetvalue'' ''AfterSemGetvalue'',
     Wrapper ''thrille_mutexattr_init'' ''BeforeMutexattrInit'' ''pthread_mutexattr_init'' ''SimulateMutexattrInit'' ''AfterMutexattrInit'',
     Wrapper ''thrille_barrier_wait'' ''BeforeBarrierWait'' ''pthread_barrier_wait'' ''SimulateBarrierWait'' ''AfterBarrierWait'',
     Wrapper ''thrille_spin_destroy'' ''BeforeSpinDestroy'' ''pthread_spin_destroy'' ''SimulateSpinDestroy'' ''AfterSpinDestroy'',
     Wrapper ''thrille_key_delete'' ''BeforeKeyDelete'' ''pthread_key_delete'' ''SimulateKeyDelete'' ''AfterKeyDelete'',
     Wrapper ''thrille_setspecific'' ''BeforeSetspecific'' ''pthread_setspecific'' ''SimulateSetspecific'' ''AfterSetspecific'',
     Wrapper ''thrille_attr_setstacksize'' ''BeforeAttrSetstacksize'' ''pthread_attr_setstacksize'' ''SimulateAttrSetstacksize'' ''AfterAttrSetstacksize'']"

definition wrappers_4 :: "wrapper list" where
  "wrappers_4 =
    [Wrapper ''thrille_setcancelstate'' ''BeforeSetcancelstate'' ''pthread_setcancelstate'' ''SimulateSetcancelstate'' ''AfterSetcancelstate'',
     Wrapper ''thrille_barrierattr_setpshared'' ''BeforeBarrierattrSetpshared'' ''pthread_barrierattr_setpshared'' ''SimulateBarrierattrSetpshared'' ''AfterBarrierattrSetpshared'',
     Wrapper ''thrille_rwlock_timedrdlock'' ''BeforeRwlockTimedrdlock'' ''pthread_rwlock_timedrdlock'' ''SimulateRwlockTimedrdlock'' ''AfterRwlockTimedrdlock'',
     Wrapper ''thrille_detach'' ''BeforeDetach'' ''pthread_detach'' ''SimulateDetach'' ''AfterDetach'',
     Wrapper ''usleep'' ''BeforeUsleep'' ''usleep'' ''SimulateUsleep'' ''AfterUsleep'',
     Wrapper ''thrille_rwlock_destroy'' ''BeforeRwlockDestroy'' ''pthread_rwlock_destroy'' ''SimulateRwlockDestroy'' ''AfterRwlockDestroy'',
     Wrapper ''thrille_exit'' ''BeforeExit'' ''pthread_exit'' ''SimulateExit'' ''AfterExit'',
     Wrapper ''thrille_attr_setdetachstate'' ''BeforeAttrSetdetachstate'' ''pthread_attr_setdetachstate'' ''SimulateAttrSetdetachstate'' ''AfterAttrSetdetachstate'',
     Wrapper ''thrille_rwlock_trywrlock'' ''BeforeRwlockTrywrlock'' ''pthread_rwlock_trywrlock'' ''SimulateRwlockTrywrlock'' ''AfterRwlockTrywrlock'',
     Wrapper ''thrille_attr_init'' ''BeforeAttrInit'' ''pthread_attr_init'' ''SimulateAttrInit'' ''AfterAttrInit'',
     Wrapper ''thrille_attr_setguardsize'' ''BeforeAttrSetguardsize'' ''pthread_attr_setguardsize'' ''SimulateAttrSetguardsize'' ''AfterAttrSetguardsize'']"

definition wrappers_5 :: "wrapper list" where
  "wrappers_5 =
    [Wrapper ''thrille_condattr_setpshared'' ''BeforeCondattrSetpshared'' ''pthread_condattr_setpshared'' ''SimulateCondattrSetpshared'' ''AfterCondattrSetpshared'',
     Wrapper ''thrille_mutex_setprioceiling'' ''BeforeMutexSetprioceiling'' ''pthread_mutex_setprioceiling'' ''SimulateMutexSetprioceiling'' ''AfterMutexSetprioceiling'',
     Wrapper ''thrille_mutexattr_getprotocol'' ''BeforeMutexattrGetprotocol'' ''pthread_mutexattr_getprotocol'' ''SimulateMutexattrGetprotocol'' ''AfterMutexattrGetprotocol'',
     Wrapper ''thrille_attr_getstack'' ''BeforeAttrGetstack'' ''pthread_attr_getstack'' ''SimulateAttrGetstack'' ''AfterAttrGetstack'',
     Wrapper ''thrille_condattr_init'' ''BeforeCondattrInit'' ''pthread_condattr_init'' ''SimulateCondattrInit'' ''AfterCondattrInit'',
     Wrapper ''thrille_mutexattr_gettype'' ''BeforeMutexattrGettype'' ''pthread_mutexattr_gettype'' ''SimulateMutexattrGettype'' ''AfterMutexattrGettype'',
     Wrapper ''sem_post'' ''BeforeSemPost'' ''sem_post'' ''SimulateSemPost'' ''AfterSemPost'',
     Wrapper ''thrille_attr_getstacksize'' ''BeforeAttrGetstacksize'' ''pthread_attr_getstacksize'' ''SimulateAttrGetstacksize'' ''AfterAttrGetstacksize'',
     Wrapper ''sem_timedwait'' ''BeforeSemTimedwait'' ''sem_timedwait'' ''SimulateSemTimedwait'' ''AfterSemTimedwait'',
     Wrapper ''thrille_equal'' ''BeforeEqual'' ''pthread_equal'' ''SimulateEqual'' ''AfterEqual'',
     Wrapper ''thrille_spin_init'' ''BeforeSpinInit'' ''pthread_spin_init'' ''SimulateSpinInit'' ''AfterSpinInit'']"

definition wrappers_6 :: "wrapper list" where
  "wrappers_6 =
    [Wrapper ''sched_yield'' ''BeforeSchedYield'' ''sched_yield'' ''SimulateSchedYield'' ''AfterSchedYield'',
     Wrapper ''thrille_key_create'' ''BeforeKeyCreate'' ''pthread_key_create'' ''SimulateKeyCreate'' ''AfterKeyCreate'',
     Wrapper ''thrille_mutexattr_destroy'' ''BeforeMutexattrDestroy'' ''pthread_mutexattr_destroy'' ''SimulateMutexattrDestroy'' ''AfterMutexattrDestroy'',
     Wrapper ''thrille_cond_timedwait'' ''BeforeCondTimedwait'' ''pthread_cond_timedwait'' ''SimulateCondTimedwait'' ''AfterCondTimedwait'',
     Wrapper ''thrille_condattr_getclock'' ''BeforeCondattrGetclock'' ''pthread_condattr_getclock'' ''SimulateCondattrGetclock'' ''AfterCondattrGetclock'',
     Wrapper ''thrille_setschedparam'' ''BeforeSetschedparam'' ''pthread_setschedparam'' ''SimulateSetschedparam'' ''AfterSetschedparam'',
     Wrapper ''thrille_attr_setinheritsched'' ''BeforeAttrSetinheritsched'' ''pthread_attr_setinheritsched'' ''SimulateAttrSetinheritsched'' ''AfterAttrSetinheritsched'',
     Wrapper ''thrille_mutex_unlock'' ''BeforeMutexUnlock'' ''pthread_mutex_unlock'' ''SimulateMutexUnlock'' ''AfterMutexUnlock'',
     Wrapper ''thrille_attr_setschedparam'' ''BeforeAttrSetschedparam'' ''pthread_attr_setschedparam'' ''SimulateAttrSetschedparam'' ''AfterAttrSetschedparam'',
     Wrapper ''thrille_rwlockattr_setpshared'' ''BeforeRwlockattrSetpshared'' ''pthread_rwlockattr_setpshared'' ''SimulateRwlockattrSetpshared'' ''AfterRwlockattrSetpshared'',
     Wrapper ''thrille_attr_setstackaddr'' ''BeforeAttrSetstackaddr'' ''pthread_attr_setstackaddr'' ''SimulateAttrSetstackaddr'' ''AfterAttrSetstackaddr'']"

definition wrappers_7 :: "wrapper list" where
  "wrappers_7 =
    [Wrapper ''thrille_mutex_destroy'' ''BeforeMutexDestroy'' ''pthread_mutex_destroy'' ''SimulateMutexDestroy'' ''AfterMutexDestroy'',
     Wrapper ''thrille_attr_getschedpolicy'' ''BeforeAttrGetschedpolicy'' ''pthread_attr_getschedpolicy'' ''SimulateAttrGetschedpolicy'' ''AfterAttrGetschedpolicy'',
     Wrapper ''thrille_setcanceltype'' ''BeforeSetcanceltype'' ''pthread_setcanceltype'' ''SimulateSetcanceltype'' ''AfterSetcanceltype'',
     Wrapper ''sigwait'' ''BeforeSigwait'' ''sigwait'' ''SimulateSigwait'' ''AfterSigwait'',
     Wrapper ''thrille_rwlock_init'' ''BeforeRwlockInit'' ''pthread_rwlock_init'' ''SimulateRwlockInit'' ''AfterRwlockInit'',
     Wrapper ''thrille_rwlock_unlock'' ''BeforeRwlockUnlock'' ''pthread_rwlock_unlock'' ''SimulateRwlockUnlock'' ''AfterRwlockUnlock'',
     Wrapper ''thrille_mutexattr_setprotocol'' ''BeforeMutexattrSetprotocol'' ''pthread_mutexattr_setprotocol'' ''SimulateMutexattrSetprotocol'' ''AfterMutexattrSetprotocol'',
     Wrapper ''thrille_mutex_getprioceiling'' ''BeforeMutexGetprioceiling'' ''pthread_mutex_getprioceiling'' ''SimulateMutexGetprioceiling'' ''AfterMutexGetprioceiling'',
     Wrapper ''sem_trywait'' ''BeforeSemTrywait'' ''sem_trywait'' ''SimulateSemTrywait'' ''AfterSemTrywait'',
     Wrapper ''thrille_attr_getstackaddr'' ''BeforeAttrGetstackaddr'' ''pthread_attr_getstackaddr'' ''SimulateAttrGetstackaddr'' ''AfterAttrGetstackaddr'',
     Wrapper ''thrille_mutexattr_settype'' ''BeforeMutexattrSettype'' ''pthread_mutexattr_settype'' ''SimulateMutexattrSettype'' ''AfterMutexattrSettype'']"

definition wrappers_8 :: "wrapper list" where
  "wrappers_8 =
    [Wrapper ''thrille_getcpuclockid'' ''BeforeGetcpuclockid'' ''pthread_getcpuclockid'' ''SimulateGetcpuclockid'' ''AfterGetcpuclockid'',
     Wrapper ''thrille_cond_destroy'' ''BeforeCondDestroy'' ''pthread_cond_destroy'' ''SimulateCondDestroy'' ''AfterCondDestroy'',
     Wrapper ''thrille_spin_lock'' ''BeforeSpinLock'' ''pthread_spin_lock'' ''SimulateSpinLock'' ''AfterSpinLock'',
     Wrapper ''thrille_once'' ''BeforeOnce'' ''pthread_once'' ''SimulateOnce'' ''AfterOnce'',
     Wrapper ''thrille_atfork'' ''BeforeAtfork'' ''pthread_atfork'' ''SimulateAtfork'' ''AfterAtfork'',
     Wrapper ''thrille_attr_setscope'' ''BeforeAttrSetscope'' ''pthread_attr_setscope'' ''SimulateAttrSetscope'' ''AfterAttrSetscope'',
     Wrapper ''thrille_getspecific'' ''BeforeGetspecific'' ''pthread_getspecific'' ''SimulateGetspecific'' ''AfterGetspecific'',
     Wrapper ''thrille_attr_destroy'' ''BeforeAttrDestroy'' ''pthread_attr_destroy'' ''SimulateAttrDestroy'' ''AfterAttrDestroy'',
     Wrapper ''thrille_mutex_timedlock'' ''BeforeMutexTimedlock'' ''pthread_mutex_timedlock'' ''SimulateMutexTimedlock'' ''AfterMutexTimedlock'',
     Wrapper ''thrille_barrier_init'' ''BeforeBarrierInit'' ''pthread_barrier_init'' ''SimulateBarrierInit'' ''AfterBarrierInit'',
     Wrapper ''thrille_setschedprio'' ''BeforeSetschedprio'' ''pthread_setschedprio'' ''SimulateSetschedprio'' ''AfterSetschedprio'']"

definition wrappers_9 :: "wrapper list" where
  "wrappers_9 =
    [Wrapper ''thrille_condattr_setclock'' ''BeforeCondattrSetclock'' ''pthread_condattr_setclock'' ''SimulateCondattrSetclock'' ''AfterCondattrSetclock'',
     Wrapper ''thrille_cond_broadcast'' ''BeforeCondBroadcast'' ''pthread_cond_broadcast'' ''SimulateCondBroadcast'' ''AfterCondBroadcast'',
     Wrapper ''thrille_spin_unlock'' ''BeforeSpinUnlock'' ''pthread_spin_unlock'' ''SimulateSpinUnlock'' ''AfterSpinUnlock'',
     Wrapper ''thrille_rwlock_rdlock'' ''BeforeRwlockRdlock'' ''pthread_rwlock_rdlock'' ''SimulateRwlockRdlock'' ''AfterRwlockRdlock'',
     Wrapper ''thrille_rwlock_wrlock'' ''BeforeRwlockWrlock'' ''pthread_rwlock_wrlock'' ''SimulateRwlockWrlock'' ''AfterRwlockWrlock'',
     Wrapper ''thrille_join'' ''BeforeJoin'' ''pthread_join'' ''SimulateJoin'' ''AfterJoin'',
     Wrapper ''thrille_cond_init'' ''BeforeCondInit'' ''pthread_cond_init'' ''SimulateCondInit'' ''AfterCondInit'',
     Wrapper ''thrille_attr_getguardsize'' ''BeforeAttrGetguardsize'' ''pthread_attr_getguardsize'' ''SimulateAttrGetguardsize'' ''AfterAttrGetguardsize'',
     Wrapper ''thrille_barrierattr_init'' ''BeforeBarrierattrInit'' ''pthread_barrierattr_init'' ''SimulateBarrierattrInit'' ''AfterBarrierattrInit'',
     Wrapper ''thrille_rwlock_tryrdlock'' ''BeforeRwlockTryrdlock'' ''pthread_rwlock_tryrdlock'' ''SimulateRwlockTryrdlock'' ''AfterRwlockTryrdlock'',
     Wrapper ''thrille_attr_setschedpolicy'' ''BeforeAttrSetschedpolicy'' ''pthread_attr_setschedpolicy'' ''SimulateAttrSetschedpolicy'' ''AfterAttrSetschedpolicy'']"

definition wrappers_10 :: "wrapper list" where
  "wrappers_10 =
    [Wrapper ''thrille_barrierattr_destroy'' ''BeforeBarrierattrDestroy'' ''pthread_barrierattr_destroy'' ''SimulateBarrierattrDestroy'' ''AfterBarrierattrDestroy'',
     Wrapper ''thrille_self'' ''BeforeSelf'' ''pthread_self'' ''SimulateSelf'' ''AfterSelf'',
     Wrapper ''thrille_attr_getdetachstate'' ''BeforeAttrGetdetachstate'' ''pthread_attr_getdetachstate'' ''SimulateAttrGetdetachstate'' ''AfterAttrGetdetachstate'',
     Wrapper ''thrille_rwlock_timedwrlock'' ''BeforeRwlockTimedwrlock'' ''pthread_rwlock_timedwrlock'' ''SimulateRwlockTimedwrlock'' ''AfterRwlockTimedwrlock'',
     Wrapper ''thrille_mutexattr_setprioceiling'' ''BeforeMutexattrSetprioceiling'' ''pthread_mutexattr_setprioceiling'' ''SimulateMutexattrSetprioceiling'' ''AfterMutexattrSetprioceiling'']"

definition default_hooks_1 :: "string list" where
  "default_hooks_1 =
    [''Create'',
     ''SemWait'',
     ''MutexLock'',
     ''Sleep'',
     ''CondattrDestroy'',
     ''MutexattrGetpshared'',
     ''Setconcurrency'',
     ''Getconcurrency'',
     ''SemDestroy'',
     ''Testcancel'',
     ''AttrGetscope'',
     ''MutexInit'',
     ''SemInit'']"

definition default_hooks_2 :: "string list" where
  "default_hooks_2 =
    [''MutexTrylock'',
     ''RwlockattrInit'',
     ''MutexattrSetpshared'',
     ''RwlockattrDestroy'',
     ''BarrierDestroy'',
     ''Getschedparam'',
     ''AttrGetschedparam'',
     ''Cancel'',
     ''CondWait'',
     ''CondattrGetpshared'',
     ''SpinTrylock'',
     ''AttrGetinheritsched'',
     ''AttrSetstack'',
     ''CondSignal'',
     ''SemGetvalue'']"

definition default_hooks_3 :: "string list" where
  "default_hooks_3 =
    [''MutexattrInit'',
     ''BarrierWait'',
     ''SpinDestroy'',
     ''KeyDelete'',
     ''Setspecific'',
     ''AttrSetstacksize'',
     ''Setcancelstate'',
     ''BarrierattrSetpshared'',
     ''RwlockTimedrdlock'',
     ''Detach'',
     ''Usleep'',
     ''RwlockDestroy'',
     ''Exit'',
     ''AttrSetdetachstate'',
     ''RwlockTrywrlock'']"

definition default_hooks_4 :: "string list" where
  "default_hooks_4 =
    [''AttrInit'',
     ''AttrSetguardsize'',
     ''CondattrSetpshared'',
     ''MutexSetprioceiling'',
     ''MutexattrGetprotocol'',
     ''AttrGetstack'',
     ''CondattrInit'',
     ''MutexattrGettype'',
     ''SemPost'',
     ''AttrGetstacksize'',
     ''SemTimedwait'',
     ''Equal'',
     ''SpinInit'',
     ''SchedYield'',
     ''KeyCreate'']"

definition default_hooks_5 :: "string list" where
  "default_hooks_5 =
    [''MutexattrDestroy'',
     ''CondTimedwait'',
     ''CondattrGetclock'',
     ''Setschedparam'',
     ''AttrSetinheritsched'',
     ''MutexUnlock'',
     ''AttrSetschedparam'',
     ''RwlockattrSetpshared'',
     ''AttrSetstackaddr'',
     ''MutexDestroy'',
     ''AttrGetschedpolicy'',
     ''Setcanceltype'',
     ''Sigwait'',
     ''RwlockInit'',
     ''RwlockUnlock'']"

definition default_hooks_6 :: "string list" where
  "default_hooks_6 =
    [''MutexattrSetprotocol'',
     ''MutexGetprioceiling'',
     ''SemTrywait'',
     ''AttrGetstackaddr'',
     ''MutexattrSettype'',
     ''Getcpuclockid'',
     ''CondDestroy'',
     ''SpinLock'',
     ''Once'',
     ''Atfork'',
     ''AttrSetscope'',
     ''Getspecific'',
     ''AttrDestroy'',
     ''MutexTimedlock'',
     ''BarrierInit'']"

definition default_hooks_7 :: "string list" where
  "default_hooks_7 =
    [''Setschedprio'',
     ''CondattrSetclock'',
     ''CondBroadcast'',
     ''SpinUnlock'',
     ''RwlockRdlock'',
     ''RwlockWrlock'',
     ''Join'',
     ''CondInit'',
     ''AttrGetguardsize'',
     ''BarrierattrInit'',
     ''RwlockTryrdlock'',
     ''AttrSetschedpolicy'',
     ''BarrierattrDestroy'',
     ''Self'',
     ''AttrGetdetachstate'']"

definition default_hooks_8 :: "string list" where
  "default_hooks_8 =
    [''RwlockTimedwrlock'',
     ''MutexattrSetprioceiling'']"

definition entries_1 :: "entry_point list" where
  "entries_1 =
    [EntryPoint ''pthread_create'' ''thrille_create'' False,
     EntryPoint ''sem_wait'' ''sem_wait'' True,
     EntryPoint ''pthread_mutex_lock'' ''thrille_mutex_lock'' True,
     EntryPoint ''sleep'' ''sleep'' True,
     EntryPoint ''pthread_condattr_destroy'' ''thrille_condattr_destroy'' True,
     EntryPoint ''pthread_mutexattr_getpshared'' ''thrille_mutexattr_getpshared'' True,
     EntryPoint ''pthread_setconcurrency'' ''thrille_setconcurrency'' True,
     EntryPoint ''pthread_getconcurrency'' ''thrille_getconcurrency'' True,
     EntryPoint ''sem_destroy'' ''sem_destroy'' True,
     EntryPoint ''pthread_testcancel'' ''thrille_testcancel'' True,
     EntryPoint ''pthread_attr_getscope'' ''thrille_attr_getscope'' True]"

definition entries_2 :: "entry_point list" where
  "entries_2 =
    [EntryPoint ''pthread_mutex_init'' ''thrille_mutex_init'' True,
     EntryPoint ''sem_init'' ''sem_init'' True,
     EntryPoint ''pthread_mutex_trylock'' ''thrille_mutex_trylock'' True,
     EntryPoint ''pthread_rwlockattr_init'' ''thrille_rwlockattr_init'' True,
     EntryPoint ''pthread_mutexattr_setpshared'' ''thrille_mutexattr_setpshared'' True,
     EntryPoint ''pthread_rwlockattr_destroy'' ''thrille_rwlockattr_destroy'' True,
     EntryPoint ''pthread_barrier_destroy'' ''thrille_barrier_destroy'' True,
     EntryPoint ''pthread_getschedparam'' ''thrille_getschedparam'' True,
     EntryPoint ''pthread_attr_getschedparam'' ''thrille_attr_getschedparam'' True,
     EntryPoint ''pthread_cancel'' ''thrille_cancel'' True]"

definition entries_3 :: "entry_point list" where
  "entries_3 =
    [EntryPoint ''pthread_cond_wait'' ''thrille_cond_wait'' True,
     EntryPoint ''pthread_condattr_getpshared'' ''thrille_condattr_getpshared'' True,
     EntryPoint ''pthread_spin_trylock'' ''thrille_spin_trylock'' True,
     EntryPoint ''pthread_attr_getinheritsched'' ''thrille_attr_getinheritsched'' True,
     EntryPoint ''pthread_attr_setstack'' ''thrille_attr_setstack'' True,
     EntryPoint ''pthread_cond_signal'' ''thrille_cond_signal'' True,
     EntryPoint ''sem_getvalue'' ''sem_getvalue'' True,
     EntryPoint ''pthread_mutexattr_init'' ''thrille_mutexattr_init'' True,
     EntryPoint ''pthread_barrier_wait'' ''thrille_barrier_wait'' True,
     EntryPoint ''pthread_spin_destroy'' ''thrille_spin_destroy'' True]"

definition entries_4 :: "entry_point list" where
  "entries_4 =
    [EntryPoint ''pthread_key_delete'' ''thrille_key_delete'' True,
     EntryPoint ''pthread_setspecific'' ''thrille_setspecific'' True,
     EntryPoint ''pthread_attr_setstacksize'' ''thrille_attr_setstacksize'' True,
     EntryPoint ''pthread_setcancelstate'' ''thrille_setcancelstate'' True,
     EntryPoint ''pthread_barrierattr_setpshared'' ''thrille_barrierattr_setpshared'' True,
     EntryPoint ''pthread_rwlock_timedrdlock'' ''thrille_rwlock_timedrdlock'' True,
     EntryPoint ''pthread_detach'' ''thrille_detach'' True,
     EntryPoint ''usleep'' ''usleep'' True,
     EntryPoint ''pthread_rwlock_destroy'' ''thrille_rwlock_destroy'' True,
     EntryPoint ''pthread_exit'' ''thrille_exit'' True]"

definition entries_5 :: "entry_point list" where
  "entries_5 =
    [EntryPoint ''pthread_attr_setdetachstate'' ''thrille_attr_setdetachstate'' True,
     EntryPoint ''pthread_rwlock_trywrlock'' ''thrille_rwlock_trywrlock'' True,
     EntryPoint ''pthread_attr_init'' ''thrille_attr_init'' True,
     EntryPoint ''pthread_attr_setguardsize'' ''thrille_attr_setguardsize'' True,
     EntryPoint ''pthread_condattr_setpshared'' ''thrille_condattr_setpshared'' True,
     EntryPoint ''pthread_mutex_setprioceiling'' ''thrille_mutex_setprioceiling'' True,
     EntryPoint ''pthread_mutexattr_getprotocol'' ''thrille_mutexattr_getprotocol'' True,
     EntryPoint ''pthread_attr_getstack'' ''thrille_attr_getstack'' True,
     EntryPoint ''pthread_condattr_init'' ''thrille_condattr_init'' True,
     EntryPoint ''pthread_mutexattr_gettype'' ''thrille_mutexattr_gettype'' True]"

definition entries_6 :: "entry_point list" where
  "entries_6 =
    [EntryPoint ''sem_post'' ''sem_post'' True,
     EntryPoint ''pthread_attr_getstacksize'' ''thrille_attr_getstacksize'' True,
     EntryPoint ''sem_timedwait'' ''sem_timedwait'' True,
     EntryPoint ''pthread_equal'' ''thrille_equal'' True,
     EntryPoint ''pthread_spin_init'' ''thrille_spin_init'' True,
     EntryPoint ''sched_yield'' ''sched_yield'' True,
     EntryPoint ''pthread_key_create'' ''thrille_key_create'' True,
     EntryPoint ''pthread_mutexattr_destroy'' ''thrille_mutexattr_destroy'' True,
     EntryPoint ''pthread_cond_timedwait'' ''thrille_cond_timedwait'' True,
     EntryPoint ''pthread_condattr_getclock'' ''thrille_condattr_getclock'' True]"

definition entries_7 :: "entry_point list" where
  "entries_7 =
    [EntryPoint ''pthread_setschedparam'' ''thrille_setschedparam'' True,
     EntryPoint ''pthread_attr_setinheritsched'' ''thrille_attr_setinheritsched'' True,
     EntryPoint ''pthread_mutex_unlock'' ''thrille_mutex_unlock'' True,
     EntryPoint ''pthread_attr_setschedparam'' ''thrille_attr_setschedparam'' True,
     EntryPoint ''pthread_rwlockattr_setpshared'' ''thrille_rwlockattr_setpshared'' True,
     EntryPoint ''pthread_attr_setstackaddr'' ''thrille_attr_setstackaddr'' True,
     EntryPoint ''pthread_mutex_destroy'' ''thrille_mutex_destroy'' True,
     EntryPoint ''pthread_attr_getschedpolicy'' ''thrille_attr_getschedpolicy'' True,
     EntryPoint ''pthread_setcanceltype'' ''thrille_setcanceltype'' True,
     EntryPoint ''sigwait'' ''sigwait'' True]"

definition entries_8 :: "entry_point list" where
  "entries_8 =
    [EntryPoint ''pthread_rwlock_init'' ''thrille_rwlock_init'' True,
     EntryPoint ''pthread_rwlock_unlock'' ''thrille_rwlock_unlock'' True,
     EntryPoint ''pthread_mutexattr_setprotocol'' ''thrille_mutexattr_setprotocol'' True,
     EntryPoint ''pthread_mutex_getprioceiling'' ''thrille_mutex_getprioceiling'' True,
     EntryPoint ''sem_trywait'' ''sem_trywait'' True,
     EntryPoint ''pthread_attr_getstackaddr'' ''thrille_attr_getstackaddr'' True,
     EntryPoint ''pthread_mutexattr_settype'' ''thrille_mutexattr_settype'' True,
     EntryPoint ''pthread_getcpuclockid'' ''thrille_getcpuclockid'' True,
     EntryPoint ''pthread_cond_destroy'' ''thrille_cond_destroy'' True,
     EntryPoint ''pthread_spin_lock'' ''thrille_spin_lock'' True]"

definition entries_9 :: "entry_point list" where
  "entries_9 =
    [EntryPoint ''pthread_once'' ''thrille_once'' True,
     EntryPoint ''pthread_atfork'' ''thrille_atfork'' True,
     EntryPoint ''pthread_attr_setscope'' ''thrille_attr_setscope'' True,
     EntryPoint ''pthread_getspecific'' ''thrille_getspecific'' True,
     EntryPoint ''pthread_attr_destroy'' ''thrille_attr_destroy'' True,
     EntryPoint ''pthread_mutex_timedlock'' ''thrille_mutex_timedlock'' True,
     EntryPoint ''pthread_barrier_init'' ''thrille_barrier_init'' True,
     EntryPoint ''pthread_setschedprio'' ''thrille_setschedprio'' True,
     EntryPoint ''pthread_condattr_setclock'' ''thrille_condattr_setclock'' True,
     EntryPoint ''pthread_cond_broadcast'' ''thrille_cond_broadcast'' True]"

definition entries_10 :: "entry_point list" where
  "entries_10 =
    [EntryPoint ''pthread_spin_unlock'' ''thrille_spin_unlock'' True,
     EntryPoint ''pthread_rwlock_rdlock'' ''thrille_rwlock_rdlock'' True,
     EntryPoint ''pthread_rwlock_wrlock'' ''thrille_rwlock_wrlock'' True,
     EntryPoint ''pthread_join'' ''thrille_join'' True,
     EntryPoint ''pthread_cond_init'' ''thrille_cond_init'' True,
     EntryPoint ''pthread_attr_getguardsize'' ''thrille_attr_getguardsize'' True,
     EntryPoint ''pthread_barrierattr_init'' ''thrille_barrierattr_init'' True,
     EntryPoint ''pthread_rwlock_tryrdlock'' ''thrille_rwlock_tryrdlock'' True,
     EntryPoint ''pthread_attr_setschedpolicy'' ''thrille_attr_setschedpolicy'' True,
     EntryPoint ''pthread_barrierattr_destroy'' ''thrille_barrierattr_destroy'' True]"

definition entries_11 :: "entry_point list" where
  "entries_11 =
    [EntryPoint ''pthread_self'' ''thrille_self'' True,
     EntryPoint ''pthread_attr_getdetachstate'' ''thrille_attr_getdetachstate'' True,
     EntryPoint ''pthread_rwlock_timedwrlock'' ''thrille_rwlock_timedwrlock'' True,
     EntryPoint ''pthread_mutexattr_setprioceiling'' ''thrille_mutexattr_setprioceiling'' True]"

definition wrappers :: "wrapper list" where
  "wrappers = concat [wrappers_1, wrappers_2, wrappers_3, wrappers_4, wrappers_5, wrappers_6, wrappers_7, wrappers_8, wrappers_9, wrappers_10]"

definition default_hooks :: "string list" where
  "default_hooks = concat [default_hooks_1, default_hooks_2, default_hooks_3, default_hooks_4, default_hooks_5, default_hooks_6, default_hooks_7, default_hooks_8]"

definition entries :: "entry_point list" where
  "entries = concat [entries_1, entries_2, entries_3, entries_4, entries_5, entries_6, entries_7, entries_8, entries_9, entries_10, entries_11]"

section \<open>Calls\<close>

text \<open>The default hooks. \<open>SimulateSelf\<close> returns what a new object holds.\<close>

definition default_before :: "bool \<Rightarrow> 'a \<Rightarrow> ('s, bool) tm" where
  "default_before safe a =
     (if safe then bnd (exit_with (SafeAssert ''functionIsImplemented'')) (\<lambda>_ :: unit. ret True) else ret True)"

definition default_simulate :: "'r \<Rightarrow> string \<Rightarrow> 'a \<Rightarrow> ('s, 'r) tm" where
  "default_simulate zero name a =
     (if name = ''SimulateSelf'' then exit_with (Undefined ''pthread_self: *s'') else ret zero)"

definition default_after :: "'r \<Rightarrow> 'a \<Rightarrow> ('s, unit) tm" where
  "default_after r a = ret ()"

definition has_default :: "string \<Rightarrow> string \<Rightarrow> bool" where
  "has_default kind name \<longleftrightarrow> name \<in> set (map (\<lambda>f. kind @ f) default_hooks)"

definition before_hook :: "('s, 'a, 'r) Handler \<Rightarrow> string \<Rightarrow> 'a \<Rightarrow> ('s, bool) tm" where
  "before_hook h name a =
     (case hk_before h name of
        Some f \<Rightarrow> f a
      | None \<Rightarrow> if has_default ''Before'' name then default_before (safe_mode h) a else exit_with (Undefined name))"

definition simulate_hook :: "'r \<Rightarrow> ('s, 'a, 'r) Handler \<Rightarrow> string \<Rightarrow> 'a \<Rightarrow> ('s, 'r) tm" where
  "simulate_hook zero h name a =
     (case hk_simulate h name of
        Some f \<Rightarrow> f a
      | None \<Rightarrow> if has_default ''Simulate'' name then default_simulate zero name a else exit_with (Undefined name))"

definition after_hook :: "('s, 'a, 'r) Handler \<Rightarrow> string \<Rightarrow> 'r \<Rightarrow> 'a \<Rightarrow> ('s, unit) tm" where
  "after_hook h name r a =
     (case hk_after h name of
        Some f \<Rightarrow> f r a
      | None \<Rightarrow> if has_default ''After'' name then default_after r a else exit_with (Undefined name))"

text \<open>The body that the methods share, and the call of a method.\<close>

definition run_wrapper :: "('s, 'a, 'r) linked \<Rightarrow> ('s, 'a, 'r) Handler \<Rightarrow> wrapper \<Rightarrow> 'a \<Rightarrow> ('s, 'r) tm" where
  "run_wrapper L h w a =
     bnd (before_hook h (w_before w) a) (\<lambda>call_original.
     bnd (if call_original then Originals L (w_original w) a
          else simulate_hook (zero_result L) h (w_simulate w) a) (\<lambda>ret_val.
     bnd (after_hook h (w_after w) ret_val a) (\<lambda>_.
     ret ret_val)))"

definition run_method :: "('s, 'a, 'r) linked \<Rightarrow> ('s, 'a, 'r) Handler \<Rightarrow> string \<Rightarrow> 'a \<Rightarrow> ('s, 'r) tm" where
  "run_method L h name a =
     (if name = ''thrille_create'' then method_create L h a
      else case find (\<lambda>w. w_method w = name) wrappers of
             Some w \<Rightarrow> run_wrapper L h w a
           | None \<Rightarrow> exit_with (Undefined name))"

section \<open>Starting the library\<close>

definition initializationDone :: "(('s, 'a, 'r) library, unit) tm" where
  "initializationDone =
     bnd (gets pth_is_initialized) (\<lambda>i.
     if i then exit_with (SafeAssert ''! pth_is_initialized'')
     else upd (\<lambda>l. l\<lparr>pth_is_initialized := True\<rparr>))"

definition pth_start :: "('s, 'a, 'r) linked \<Rightarrow> (('s, 'a, 'r) library, unit) tm" where
  "pth_start L =
     bnd (gets pth_is_initialized) (\<lambda>i.
     if i then ret ()
     else bnd (in_world (Originals_initialize L)) (\<lambda>_.
          bnd (in_world (create_handler L)) (\<lambda>h.
          bnd (upd (\<lambda>l. l\<lparr>pHandler := h\<rparr>)) (\<lambda>_.
          case h of
            None \<Rightarrow> exit_with (SafeAssert ''pHandler != NULL'')
          | Some h \<Rightarrow>
              bnd (in_world (hk_AfterInitialize h)) (\<lambda>_.
              initializationDone)))))"

text \<open>An entry point, with the check at its beginning if it has one.\<close>

definition start_check :: "('s, 'a, 'r) linked \<Rightarrow> string \<Rightarrow> (('s, 'a, 'r) library, unit) tm" where
  "start_check L name =
     bnd (gets pth_is_initialized) (\<lambda>i.
     if i then ret ()
     else bnd (pth_start L) (\<lambda>_.
          bnd (gets pth_is_initialized) (\<lambda>j.
          if j then ret () else exit_with (ErrorExit (name @ '' initialization fail'')))))"

definition enter :: "('s, 'a, 'r) linked \<Rightarrow> entry_point \<Rightarrow> 'a \<Rightarrow> (('s, 'a, 'r) library, 'r) tm" where
  "enter L e a =
     bnd (if e_checks e then start_check L (e_name e) else ret ()) (\<lambda>_.
     bnd (gets pHandler) (\<lambda>h.
     case h of
       None \<Rightarrow> exit_with (Undefined ''call of a method of NULL'')
     | Some h \<Rightarrow> in_world (run_method L h (e_method e) a)))"

text \<open>
  The members and virtual functions of an object of the class \<open>Handler\<close> itself; what its constructor does
  besides is \<open>new_Handler\<close> in \<open>Original_Functions\<close>.
\<close>

definition plain_handler :: "('s, 'a, 'r) Handler" where
  "plain_handler = \<lparr>safe_mode = False, hk_AfterInitialize = ret (), hk_before = (\<lambda>_. None),
     hk_simulate = (\<lambda>_. None), hk_after = (\<lambda>_. None)\<rparr>"

section \<open>The tables\<close>

definition wrapper_ok :: "wrapper \<Rightarrow> string \<Rightarrow> bool" where
  "wrapper_ok w x \<longleftrightarrow> w_before w = ''Before'' @ x \<and> w_simulate w = ''Simulate'' @ x \<and> w_after w = ''After'' @ x"

lemma wrappers_ok: "list_all2 wrapper_ok wrappers (tl default_hooks)"
  by code_simp

definition entry_ok :: "entry_point \<Rightarrow> wrapper \<Rightarrow> bool" where
  "entry_ok e w \<longleftrightarrow> e_method e = w_method w \<and> e_name e = w_original w \<and> e_checks e"

lemma entries_ok: "list_all2 entry_ok (tl entries) wrappers"
  by code_simp

text \<open>The methods are distinct; their names are compared from the end, where they differ most.\<close>

definition method_rev :: "wrapper \<Rightarrow> string" where
  "method_rev w = rev (w_method w)"

abbreviation first_methods :: "string list" where
  "first_methods \<equiv> map method_rev (concat [wrappers_1, wrappers_2, wrappers_3, wrappers_4, wrappers_5])"

abbreviation last_methods :: "string list" where
  "last_methods \<equiv> map method_rev (concat [wrappers_6, wrappers_7, wrappers_8, wrappers_9, wrappers_10])"

lemma distinct_first: "distinct first_methods"
  by code_simp

lemma distinct_last: "distinct last_methods"
  by code_simp

lemma first_not_last: "list_all (\<lambda>x. list_all (\<lambda>y. x \<noteq> y) last_methods) first_methods"
  by code_simp

lemma distinct_methods: "distinct (map w_method wrappers)"
proof -
  have w: "map method_rev wrappers = first_methods @ last_methods"
    by (simp add: wrappers_def)
  have "set first_methods \<inter> set last_methods = {}"
    using first_not_last unfolding list_all_iff by blast
  then have "distinct (map method_rev wrappers)"
    unfolding w distinct_append using distinct_first distinct_last by blast
  then have "distinct (map rev (map w_method wrappers))"
    by (simp add: method_rev_def [abs_def] comp_def)
  then show ?thesis
    by (simp only: distinct_map)
qed

lemma find_distinct: "distinct (map f xs) \<Longrightarrow> x \<in> set xs \<Longrightarrow> find (\<lambda>y. f y = f x) xs = Some x"
  by (induction xs) (auto simp: image_iff)

lemma find_wrapper: "w \<in> set wrappers \<Longrightarrow> find (\<lambda>v. w_method v = w_method w) wrappers = Some w"
  using distinct_methods by (rule find_distinct)

lemma has_default: "x \<in> set default_hooks \<Longrightarrow> has_default kind (kind @ x)"
  by (simp add: has_default_def)

lemma wrapper_defaults:
  assumes "w \<in> set wrappers"
  shows "has_default ''Before'' (w_before w)" "has_default ''Simulate'' (w_simulate w)" "has_default ''After'' (w_after w)"
proof -
  obtain i where i: "i < length wrappers" "w = wrappers ! i"
    using assms by (metis in_set_conv_nth)
  have "wrapper_ok w (tl default_hooks ! i)" "tl default_hooks ! i \<in> set (tl default_hooks)"
    using wrappers_ok i by (auto simp: list_all2_conv_all_nth)
  then have w: "wrapper_ok w x" and x: "x \<in> set default_hooks" if "x = tl default_hooks ! i" for x
    using that list.set_sel(2) [of default_hooks] by (simp_all, metis list.sel(2))
  show "has_default ''Before'' (w_before w)" "has_default ''Simulate'' (w_simulate w)" "has_default ''After'' (w_after w)"
    using w [OF refl] has_default [OF x [OF refl]] by (simp_all only: wrapper_ok_def)
qed

lemma entry_wrapper:
  assumes "e \<in> set entries" and "e_method e \<noteq> ''thrille_create''"
  obtains w where "w \<in> set wrappers" "e_method e = w_method w" "e_name e = w_original w" "e_checks e"
proof -
  have hd: "e_method (hd entries) = ''thrille_create''" "entries \<noteq> []"
    by (simp_all add: entries_def entries_1_def)
  then have "e \<in> set (tl entries)"
    using assms list.collapse [of entries] by (metis set_ConsD)
  then obtain i where i: "i < length (tl entries)" "e = tl entries ! i"
    by (metis in_set_conv_nth)
  then have "entry_ok e (wrappers ! i)" "wrappers ! i \<in> set wrappers"
    using entries_ok by (auto simp: list_all2_conv_all_nth)
  then show ?thesis
    using that by (simp add: entry_ok_def)
qed

lemma run_method_wrapper:
  "w \<in> set wrappers \<Longrightarrow> w_method w \<noteq> ''thrille_create'' \<Longrightarrow> run_method L h (w_method w) a = run_wrapper L h w a"
  by (simp add: run_method_def find_wrapper)

section \<open>Transparency\<close>

lemma run_wrapper_plain_handler:
  "w \<in> set wrappers \<Longrightarrow> run_wrapper L plain_handler w a = Originals L (w_original w) a"
  by (rule ext) (auto simp: run_wrapper_def before_hook_def after_hook_def plain_handler_def wrapper_defaults default_before_def
      default_after_def bnd_def ret_def split: sum.splits)

lemma enter_started:
  "pth_is_initialized l \<Longrightarrow> pHandler l = Some h \<Longrightarrow> enter L e a l = in_world (run_method L h (e_method e) a) l"
  by (simp add: enter_def start_check_def bnd_def)

lemma enter_plain_handler:
  assumes "e \<in> set entries" and "e_method e \<noteq> ''thrille_create''"
    and "pth_is_initialized l" and "pHandler l = Some plain_handler"
  shows "enter L e a l = in_world (Originals L (e_name e) a) l"
proof -
  obtain w where "w \<in> set wrappers" "e_method e = w_method w" "e_name e = w_original w"
    using assms(1,2) by (rule entry_wrapper)
  then show ?thesis
    using assms by (simp add: enter_started run_method_wrapper run_wrapper_plain_handler)
qed

section \<open>The first call\<close>

lemma in_world_eq_Inr: "in_world m l = Inr (x, l') \<longleftrightarrow> (\<exists>w. m (world l) = Inr (x, w) \<and> l' = l\<lparr>world := w\<rparr>)"
  by (auto simp: in_world_def split: sum.splits)

lemma pth_start_done: "pth_is_initialized l \<Longrightarrow> pth_start L l = Inr ((), l)"
  by (simp add: pth_start_def)

lemma pth_start_starts:
  "pth_start L l = Inr (u, l') \<Longrightarrow> pth_is_initialized l' \<and> (pth_is_initialized l \<or> pHandler l' \<noteq> None)"
  by (auto simp: pth_start_def bnd_eq_Inr in_world_eq_Inr initializationDone_def split: if_splits option.splits)

lemma pth_start_twice: "bnd (pth_start L) (\<lambda>_. pth_start L) = pth_start L"
proof
  show "bnd (pth_start L) (\<lambda>_. pth_start L) l = pth_start L l" for l
    using pth_start_starts [of L l] pth_start_done [of _ L]
    by (cases "pth_start L l") (auto simp: bnd_def split: prod.splits)
qed

lemma bnd_pth_start_twice: "bnd (pth_start L) (\<lambda>_. bnd (pth_start L) (\<lambda>_. m)) = bnd (pth_start L) (\<lambda>_. m)"
  using bnd_assoc [of "pth_start L" "\<lambda>_. pth_start L" "\<lambda>_. m"] by (simp add: pth_start_twice)

lemma start_check_pth_start: "start_check L n l = pth_start L l"
  using pth_start_starts [of L l] pth_start_done [of l L]
  by (cases "pth_start L l") (auto simp: start_check_def bnd_def split: prod.splits)

text \<open>
  The first call starts the library, once. An entry point, that of \<open>pthread_create\<close> apart, does what it would do after
  \<open>pth_start\<close>; a start that returns leaves a handler, and starting again does nothing; no call changes the handler or
  the flag afterwards. The entry point of \<open>pthread_create\<close> starts nothing: before any other call it uses a null
  pointer.
\<close>

lemma first_call_starts_once:
  "e \<in> set entries \<Longrightarrow> e_method e \<noteq> ''thrille_create'' \<Longrightarrow> enter L e a l = bnd (pth_start L) (\<lambda>_. enter L e a) l"
  "pth_start L (library_init w) = Inr (u, l') \<Longrightarrow>
     pth_is_initialized l' \<and> pHandler l' \<noteq> None \<and> pth_start L l' = Inr ((), l')"
  "pth_is_initialized l \<Longrightarrow> enter L e a l = Inr (r, l') \<Longrightarrow> pth_is_initialized l' \<and> pHandler l' = pHandler l"
  "enter L (hd entries) a (library_init w) = Inl (Undefined ''call of a method of NULL'', library_init w)"
proof -
  assume "e \<in> set entries" "e_method e \<noteq> ''thrille_create''"
  then have "e_checks e"
    by (rule entry_wrapper)
  moreover have "start_check L n = pth_start L" for n
    by (rule ext) (rule start_check_pth_start)
  ultimately have "enter L e a = bnd (pth_start L) (\<lambda>_. bnd (gets pHandler) (\<lambda>h.
      case h of None \<Rightarrow> exit_with (Undefined ''call of a method of NULL'') | Some h \<Rightarrow> in_world (run_method L h (e_method e) a)))"
    (is "_ = bnd _ ?rest")
    by (simp add: enter_def)
  then show "enter L e a l = bnd (pth_start L) (\<lambda>_. enter L e a) l"
    by (simp add: bnd_pth_start_twice)
next
  assume "pth_start L (library_init w) = Inr (u, l')"
  from pth_start_starts [OF this]
  show "pth_is_initialized l' \<and> pHandler l' \<noteq> None \<and> pth_start L l' = Inr ((), l')"
    by (simp add: library_init_def pth_start_done)
next
  assume "pth_is_initialized l" "enter L e a l = Inr (r, l')"
  then show "pth_is_initialized l' \<and> pHandler l' = pHandler l"
    by (auto simp: enter_def bnd_eq_Inr start_check_def in_world_eq_Inr split: if_splits option.splits)
next
  show "enter L (hd entries) a (library_init w) = Inl (Undefined ''call of a method of NULL'', library_init w)"
    by (simp add: entries_def entries_1_def enter_def library_init_def)
qed

end
