(* ===== verification/Original_Functions.thy ===== *)
theory Original_Functions
  imports Interposition Thread_Tracker
begin

text \<open>
  The original functions, \<open>src/thrille-core/originals.cpp\<close>: a pointer per function, filled by \<open>dlsym\<close> when the library starts, and
  a function of the same name that calls it. Where \<open>dlsym\<close> finds nothing the pointer is null and the call returns zero;
  \<open>pthread_self\<close> then returns what a new object holds. The functions have all the same shape, and are listed by name.

  \<open>dlsym\<close> is an argument: the functions that the next library defines. The constructor of \<open>Handler\<close> (\<open>libpth.h\<close>) is here too,
  with what it does through these functions: it initialises the mutexes and the condition variable of the handler and registers the
  thread that starts the library in a new \<open>ThreadTracker\<close>, under the mutex of that object.
\<close>

record ('s, 'a, 'r) originals =
  initialized :: bool
  pointers :: "string \<Rightarrow> ('a \<Rightarrow> ('s, 'r) tm) option"

definition originals_start :: "('s, 'a, 'r) originals" where
  "originals_start = \<lparr>initialized = False, pointers = (\<lambda>_. None)\<rparr>"

definition original_pointers :: "string list" where
  "original_pointers =
    [''sem_wait'', ''pthread_mutex_lock'', ''sleep'', ''pthread_condattr_destroy'', ''pthread_mutexattr_getpshared'',
     ''pthread_setconcurrency'', ''pthread_getconcurrency'', ''sem_destroy'', ''pthread_testcancel'', ''pthread_attr_getscope'',
     ''pthread_mutex_init'', ''sem_init'', ''pthread_mutex_trylock'', ''pthread_rwlockattr_init'', ''pthread_mutexattr_setpshared'',
     ''pthread_rwlockattr_destroy'', ''pthread_barrier_destroy'', ''pthread_getschedparam'', ''pthread_attr_getschedparam'',
     ''pthread_cancel'', ''pthread_cond_wait'', ''pthread_condattr_getpshared'', ''pthread_spin_trylock'',
     ''pthread_attr_getinheritsched'', ''pthread_attr_setstack'', ''pthread_cond_signal'', ''sem_getvalue'',
     ''pthread_mutexattr_init'', ''pthread_barrier_wait'', ''pthread_spin_destroy'', ''pthread_key_delete'', ''pthread_setspecific'',
     ''pthread_attr_setstacksize'', ''pthread_setcancelstate'', ''pthread_barrierattr_setpshared'', ''pthread_rwlock_timedrdlock'',
     ''pthread_detach'', ''usleep'', ''pthread_rwlock_destroy'', ''pthread_exit'', ''pthread_attr_setdetachstate'',
     ''pthread_rwlock_trywrlock'', ''pthread_attr_init'', ''pthread_attr_setguardsize'', ''pthread_condattr_setpshared'',
     ''pthread_mutex_setprioceiling'', ''pthread_mutexattr_getprotocol'', ''pthread_attr_getstack'', ''pthread_condattr_init'',
     ''pthread_mutexattr_gettype'', ''sem_post'', ''pthread_attr_getstacksize'', ''pthread_create'', ''sem_timedwait'',
     ''pthread_equal'', ''pthread_spin_init'', ''sched_yield'', ''pthread_key_create'', ''pthread_mutexattr_destroy'',
     ''pthread_cond_timedwait'', ''pthread_condattr_getclock'', ''pthread_setschedparam'', ''pthread_attr_setinheritsched'',
     ''pthread_mutex_unlock'', ''pthread_attr_setschedparam'', ''pthread_rwlockattr_setpshared'', ''pthread_attr_setstackaddr'',
     ''pthread_mutex_destroy'', ''pthread_attr_getschedpolicy'', ''pthread_setcanceltype'', ''sigwait'', ''pthread_rwlock_init'',
     ''pthread_rwlock_unlock'', ''pthread_mutexattr_setprotocol'', ''pthread_mutex_getprioceiling'', ''sem_trywait'',
     ''pthread_attr_getstackaddr'', ''pthread_mutexattr_settype'', ''pthread_getcpuclockid'', ''pthread_cond_destroy'',
     ''pthread_spin_lock'', ''pthread_once'', ''pthread_atfork'', ''pthread_attr_setscope'', ''pthread_getspecific'',
     ''pthread_attr_destroy'', ''pthread_mutex_timedlock'', ''pthread_barrier_init'', ''pthread_setschedprio'',
     ''pthread_condattr_setclock'', ''pthread_cond_broadcast'', ''pthread_spin_unlock'', ''pthread_rwlock_rdlock'',
     ''pthread_rwlock_wrlock'', ''pthread_join'', ''pthread_cond_init'', ''pthread_attr_getguardsize'', ''pthread_barrierattr_init'',
     ''pthread_rwlock_tryrdlock'', ''pthread_attr_setschedpolicy'', ''pthread_barrierattr_destroy'', ''pthread_self'',
     ''pthread_attr_getdetachstate'', ''pthread_rwlock_timedwrlock'', ''pthread_mutexattr_setprioceiling'']"

text \<open>The macro \<open>init_original\<close>, and the two functions that use it.\<close>

definition init_original :: "(string \<Rightarrow> ('a \<Rightarrow> ('s, 'r) tm) option) \<Rightarrow> string \<Rightarrow> (('s, 'a, 'r) originals, unit) tm" where
  "init_original dlsym f = upd (\<lambda>g. g\<lparr>pointers := (pointers g)(f := dlsym f)\<rparr>)"

definition initialize_pointers :: "(string \<Rightarrow> ('a \<Rightarrow> ('s, 'r) tm) option) \<Rightarrow> (('s, 'a, 'r) originals, unit) tm" where
  "initialize_pointers dlsym =
     bnd (gets initialized) (\<lambda>i.
     if i then exit_with (SafeAssert ''!_initialized'')
     else bnd (for_each (init_original dlsym) original_pointers) (\<lambda>_.
          upd (\<lambda>g. g\<lparr>initialized := True\<rparr>)))"

definition initialize_originals :: "(string \<Rightarrow> ('a \<Rightarrow> ('s, 'r) tm) option) \<Rightarrow> (('s, 'a, 'r) originals, unit) tm" where
  "initialize_originals dlsym =
     bnd (gets initialized) (\<lambda>i.
     if i then exit_with (SafeAssert ''!_initialized'')
     else bnd (initialize_pointers dlsym) (\<lambda>_.
          bnd (gets initialized) (\<lambda>j.
          if j then ret () else exit_with (SafeAssert ''_initialized''))))"

definition original_functions_1 :: "string list" where
  "original_functions_1 =
    [''sem_wait'', ''pthread_mutex_lock'', ''sleep'', ''pthread_condattr_destroy'', ''pthread_mutexattr_getpshared'',
     ''pthread_setconcurrency'', ''pthread_getconcurrency'', ''sem_destroy'', ''pthread_testcancel'', ''pthread_attr_getscope'',
     ''pthread_mutex_init'', ''sem_init'', ''pthread_mutex_trylock'', ''pthread_rwlockattr_init'', ''pthread_mutexattr_setpshared'',
     ''pthread_rwlockattr_destroy'', ''pthread_barrier_destroy'', ''pthread_getschedparam'']"

definition original_functions_2 :: "string list" where
  "original_functions_2 =
    [''pthread_attr_getschedparam'', ''pthread_cancel'', ''pthread_cond_wait'', ''pthread_condattr_getpshared'',
     ''pthread_spin_trylock'', ''pthread_attr_getinheritsched'', ''pthread_attr_setstack'', ''pthread_cond_signal'', ''sem_getvalue'',
     ''pthread_mutexattr_init'', ''pthread_barrier_wait'', ''pthread_spin_destroy'', ''pthread_key_delete'', ''pthread_setspecific'',
     ''pthread_attr_setstacksize'', ''pthread_setcancelstate'', ''pthread_barrierattr_setpshared'', ''pthread_rwlock_timedrdlock'']"

definition original_functions_3 :: "string list" where
  "original_functions_3 =
    [''pthread_detach'', ''usleep'', ''pthread_rwlock_destroy'', ''pthread_exit'', ''pthread_attr_setdetachstate'',
     ''pthread_rwlock_trywrlock'', ''pthread_attr_init'', ''pthread_attr_setguardsize'', ''pthread_condattr_setpshared'',
     ''pthread_mutex_setprioceiling'', ''pthread_mutexattr_getprotocol'', ''pthread_attr_getstack'', ''pthread_condattr_init'',
     ''pthread_mutexattr_gettype'', ''sem_post'', ''pthread_attr_getstacksize'', ''pthread_create'', ''sem_timedwait'']"

definition original_functions_4 :: "string list" where
  "original_functions_4 =
    [''pthread_equal'', ''pthread_spin_init'', ''sched_yield'', ''pthread_key_create'', ''pthread_mutexattr_destroy'',
     ''pthread_cond_timedwait'', ''pthread_condattr_getclock'', ''pthread_setschedparam'', ''pthread_attr_setinheritsched'',
     ''pthread_mutex_unlock'', ''pthread_attr_setschedparam'', ''pthread_rwlockattr_setpshared'', ''pthread_attr_setstackaddr'',
     ''pthread_mutex_destroy'', ''pthread_attr_getschedpolicy'', ''pthread_setcanceltype'', ''sigwait'', ''pthread_rwlock_init'']"

definition original_functions_5 :: "string list" where
  "original_functions_5 =
    [''pthread_rwlock_unlock'', ''pthread_mutexattr_setprotocol'', ''pthread_mutex_getprioceiling'', ''sem_trywait'',
     ''pthread_attr_getstackaddr'', ''pthread_mutexattr_settype'', ''pthread_getcpuclockid'', ''pthread_cond_destroy'',
     ''pthread_spin_lock'', ''pthread_once'', ''pthread_atfork'', ''pthread_attr_setscope'', ''pthread_getspecific'',
     ''pthread_attr_destroy'', ''pthread_mutex_timedlock'', ''pthread_barrier_init'', ''pthread_setschedprio'',
     ''pthread_condattr_setclock'']"

definition original_functions_6 :: "string list" where
  "original_functions_6 =
    [''pthread_cond_broadcast'', ''pthread_spin_unlock'', ''pthread_rwlock_rdlock'', ''pthread_rwlock_wrlock'', ''pthread_join'',
     ''pthread_cond_init'', ''pthread_attr_getguardsize'', ''pthread_barrierattr_init'', ''pthread_rwlock_tryrdlock'',
     ''pthread_attr_setschedpolicy'', ''pthread_barrierattr_destroy'', ''pthread_self'', ''pthread_attr_getdetachstate'',
     ''pthread_rwlock_timedwrlock'', ''pthread_mutexattr_setprioceiling'']"

definition original_functions :: "string list" where
  "original_functions =
     concat [original_functions_1, original_functions_2, original_functions_3, original_functions_4, original_functions_5, original_functions_6]"

definition call_original :: "'r \<Rightarrow> ('s, 'a, 'r) originals \<Rightarrow> string \<Rightarrow> 'a \<Rightarrow> ('s, 'r) tm" where
  "call_original zero g name a =
     (if name \<in> set original_functions
      then (case pointers g name of
              Some f \<Rightarrow> f a
            | None \<Rightarrow> if name = ''pthread_self'' then exit_with (Undefined ''pthread_self: *tid'') else ret zero)
      else exit_with (Undefined name))"

section \<open>The tables agree\<close>

lemma same_functions: "original_functions = original_pointers"
  by code_simp

lemma functions_of_wrappers: "filter (\<lambda>f. f \<noteq> ''pthread_create'') original_pointers = map w_original wrappers"
  by code_simp

lemma original_of_wrapper: "w \<in> set wrappers \<Longrightarrow> w_original w \<in> set original_functions"
  using arg_cong [OF functions_of_wrappers, of set] unfolding same_functions by auto

lemma for_each_init_original:
  "for_each (init_original dlsym) fs g = Inr ((), g\<lparr>pointers := (\<lambda>f. if f \<in> set fs then dlsym f else pointers g f)\<rparr>)"
  by (induction fs arbitrary: g) (auto simp: init_original_def fun_upd_def bnd_def intro!: arg_cong2 [of _ _ _ _ "\<lambda>x y. x\<lparr>pointers := y\<rparr>"])

text \<open>The pointers after the start.\<close>

definition initialized_originals :: "(string \<Rightarrow> ('a \<Rightarrow> ('s, 'r) tm) option) \<Rightarrow> ('s, 'a, 'r) originals" where
  "initialized_originals dlsym = \<lparr>initialized = True, pointers = (\<lambda>f. if f \<in> set original_functions then dlsym f else None)\<rparr>"

lemma initialize_originals_result: "initialize_originals dlsym originals_start = Inr ((), initialized_originals dlsym)"
  by (simp add: initialize_originals_def initialize_pointers_def originals_start_def for_each_init_original bnd_def
      initialized_originals_def same_functions cong: if_cong)

lemma initialize_originals_twice:
  "initialize_originals dlsym (initialized_originals dlsym) = Inl (SafeAssert ''!_initialized'', initialized_originals dlsym)"
  by (simp add: initialize_originals_def initialized_originals_def bnd_def)

section \<open>The constructor of the handler\<close>

text \<open>
  The library with these functions and the plain handler: the world consists of the pointers, of the \<open>ThreadTracker\<close> of the handler
  (\<open>None\<close> before it is allocated) and of the state that the original functions work on.
\<close>

record ('o, 'a, 'r) process =
  originals_of :: "('o, 'a, 'r) originals"
  own_threads :: "ThreadTracker option"
  os :: 'o

text \<open>
  The arguments of the calls that the handler makes for itself: the addresses of \<open>_globalLock\<close>, \<open>threadtracker_mutex\<close>,
  \<open>newthread_lock\<close> and \<open>newthread_cond\<close>, each with a null attribute where it is initialised; and the result of
  \<open>pthread_self\<close> as a handle.
\<close>

record ('a, 'r) own_objects =
  init_globalLock :: 'a
  init_threadtracker_mutex :: 'a
  threadtracker_mutex :: 'a
  self_arguments :: 'a
  init_newthread_lock :: 'a
  init_newthread_cond :: 'a
  handle_of :: "'r \<Rightarrow> pthread_t"

definition on_originals :: "(('o, 'a, 'r) originals, 'b) tm \<Rightarrow> (('o, 'a, 'r) process, 'b) tm" where
  "on_originals m w =
     (case m (originals_of w) of
        Inl (e, g) \<Rightarrow> Inl (e, w\<lparr>originals_of := g\<rparr>)
      | Inr (x, g) \<Rightarrow> Inr (x, w\<lparr>originals_of := g\<rparr>))"

definition on_os :: "('o, 'b) tm \<Rightarrow> (('o, 'a, 'r) process, 'b) tm" where
  "on_os m w =
     (case m (os w) of
        Inl (e, s) \<Rightarrow> Inl (e, w\<lparr>os := s\<rparr>)
      | Inr (x, s) \<Rightarrow> Inr (x, w\<lparr>os := s\<rparr>))"

definition on_threads :: "(ThreadTracker, 'b) tm \<Rightarrow> (('o, 'a, 'r) process, 'b) tm" where
  "on_threads m w =
     (case own_threads w of
        None \<Rightarrow> Inl (Undefined ''threadtracker'', w)
      | Some tt \<Rightarrow> (case m tt of
            Inl (e, tt') \<Rightarrow> Inl (e, w\<lparr>own_threads := Some tt'\<rparr>)
          | Inr (x, tt') \<Rightarrow> Inr (x, w\<lparr>own_threads := Some tt'\<rparr>)))"

definition original :: "'r \<Rightarrow> string \<Rightarrow> 'a \<Rightarrow> (('o, 'a, 'r) process, 'r) tm" where
  "original zero n a w = on_os (call_original zero (originals_of w) n a) w"

definition new_ThreadTracker :: "'r \<Rightarrow> ('a, 'r) own_objects \<Rightarrow> (('o, 'a, 'r) process, unit) tm" where
  "new_ThreadTracker zero A =
     bnd (original zero ''pthread_mutex_init'' (init_threadtracker_mutex A)) (\<lambda>_.
     upd (\<lambda>w. w\<lparr>own_threads := Some ThreadTracker_init\<rparr>))"

definition own_getNextTID :: "'r \<Rightarrow> ('a, 'r) own_objects \<Rightarrow> (('o, 'a, 'r) process, thrID) tm" where
  "own_getNextTID zero A =
     bnd (original zero ''pthread_mutex_lock'' (threadtracker_mutex A)) (\<lambda>_.
     bnd (on_threads (upd tid_inc)) (\<lambda>_.
     bnd (original zero ''pthread_mutex_unlock'' (threadtracker_mutex A)) (\<lambda>_.
     on_threads (gets tid_read))))"

definition own_setTID :: "'r \<Rightarrow> ('a, 'r) own_objects \<Rightarrow> thrID \<Rightarrow> pthread_t \<Rightarrow> (('o, 'a, 'r) process, unit) tm" where
  "own_setTID zero A t h =
     bnd (original zero ''pthread_mutex_lock'' (threadtracker_mutex A)) (\<lambda>_.
     bnd (on_threads (setTID t h)) (\<lambda>_.
     bnd (original zero ''pthread_mutex_unlock'' (threadtracker_mutex A)) (\<lambda>_.
     ret ())))"

definition new_Handler :: "'r \<Rightarrow> ('a, 'r) own_objects \<Rightarrow> (('o, 'a, 'r) process, (('o, 'a, 'r) process, 'a, 'r) Handler) tm" where
  "new_Handler zero A =
     bnd (original zero ''pthread_mutex_init'' (init_globalLock A)) (\<lambda>_.
     bnd (new_ThreadTracker zero A) (\<lambda>_.
     bnd (own_getNextTID zero A) (\<lambda>myself.
     bnd (original zero ''pthread_self'' (self_arguments A)) (\<lambda>self.
     bnd (own_setTID zero A myself (handle_of A self)) (\<lambda>_.
     bnd (original zero ''pthread_mutex_init'' (init_newthread_lock A)) (\<lambda>_.
     bnd (original zero ''pthread_cond_init'' (init_newthread_cond A)) (\<lambda>_.
     ret plain_handler)))))))"

section \<open>Transparency\<close>

definition plain_linked :: "(string \<Rightarrow> ('a \<Rightarrow> ('o, 'r) tm) option) \<Rightarrow> 'r \<Rightarrow> ('a, 'r) own_objects \<Rightarrow> (('o, 'a, 'r) process, 'a, 'r) linked" where
  "plain_linked dlsym zero A =
     \<lparr>Originals_initialize = on_originals (initialize_originals dlsym),
      Originals = original zero,
      create_handler = bnd (new_Handler zero A) (\<lambda>h. ret (Some h)),
      method_create = (\<lambda>h a. original zero ''pthread_create'' a),
      zero_result = zero\<rparr>"

definition before_start :: "'o \<Rightarrow> (('o, 'a, 'r) process, 'a, 'r) library" where
  "before_start s = library_init \<lparr>originals_of = originals_start, own_threads = None, os = s\<rparr>"

text \<open>The world of a started process: the thread that started the library is thread 0, with the handle \<open>h\<close>.\<close>

definition started_process :: "(string \<Rightarrow> ('a \<Rightarrow> ('o, 'r) tm) option) \<Rightarrow> pthread_t \<Rightarrow> 'o \<Rightarrow> ('o, 'a, 'r) process" where
  "started_process dlsym h s =
     \<lparr>originals_of = initialized_originals dlsym, own_threads = Some \<lparr>curr_id = 0, pthreadHandleMap = [(0, h)]\<rparr>, os = s\<rparr>"

definition after_start :: "(string \<Rightarrow> ('a \<Rightarrow> ('o, 'r) tm) option) \<Rightarrow> pthread_t \<Rightarrow> 'o \<Rightarrow> (('o, 'a, 'r) process, 'a, 'r) library" where
  "after_start dlsym h s = \<lparr>pth_is_initialized = True, pHandler = Some plain_handler, world = started_process dlsym h s\<rparr>"

text \<open>
  A call without the library: what \<open>dlsym\<close> finds. A function that it does not find cannot be called; the library then returns
  zero, or a new object in the case of \<open>pthread_self\<close>.
\<close>

definition direct :: "(string \<Rightarrow> ('a \<Rightarrow> ('o, 'r) tm) option) \<Rightarrow> 'r \<Rightarrow> string \<times> 'a \<Rightarrow> ('o, 'r) tm" where
  "direct dlsym zero c =
     (case dlsym (fst c) of
        Some f \<Rightarrow> f (snd c)
      | None \<Rightarrow> if fst c = ''pthread_self'' then exit_with (Undefined ''pthread_self: *tid'') else ret zero)"

text \<open>The calls that the start makes, in their order.\<close>

definition start_calls :: "('a, 'r) own_objects \<Rightarrow> (string \<times> 'a) list" where
  "start_calls A =
    [(''pthread_mutex_init'', init_globalLock A), (''pthread_mutex_init'', init_threadtracker_mutex A),
     (''pthread_mutex_lock'', threadtracker_mutex A), (''pthread_mutex_unlock'', threadtracker_mutex A),
     (''pthread_self'', self_arguments A),
     (''pthread_mutex_lock'', threadtracker_mutex A), (''pthread_mutex_unlock'', threadtracker_mutex A),
     (''pthread_mutex_init'', init_newthread_lock A), (''pthread_cond_init'', init_newthread_cond A)]"

text \<open>The calls of a program, one after the other.\<close>

fun run_calls :: "('c \<Rightarrow> ('s, 'r) tm) \<Rightarrow> 'c list \<Rightarrow> ('s, 'r list) tm" where
  "run_calls f [] = ret []"
| "run_calls f (c # cs) = bnd (f c) (\<lambda>x. bnd (run_calls f cs) (\<lambda>xs. ret (x # xs)))"

definition outcome_in :: "('o \<Rightarrow> 'l) \<Rightarrow> (exit_reason \<times> 'o) + ('b \<times> 'o) \<Rightarrow> (exit_reason \<times> 'l) + ('b \<times> 'l)" where
  "outcome_in f r = (case r of Inl (e, s) \<Rightarrow> Inl (e, f s) | Inr (x, s) \<Rightarrow> Inr (x, f s))"

lemma outcome_in_bnd:
  assumes "\<And>s. m (f s) = outcome_in f (n s)" and "\<And>x s. k x (f s) = outcome_in f (h x s)"
  shows "bnd m k (f s) = outcome_in f (bnd n h s)"
  using assms(1) [of s] assms(2) by (auto simp: outcome_in_def bnd_def split: sum.splits)

lemma run_calls_in:
  assumes "\<And>c s. c \<in> set cs \<Longrightarrow> f c (g s) = outcome_in g (f' c s)"
  shows "run_calls f cs (g s) = outcome_in g (run_calls f' cs s)"
  using assms
proof (induction cs arbitrary: s)
  case Nil
  show ?case by (simp add: outcome_in_def)
next
  case (Cons c cs)
  have "f c (g s) = outcome_in g (f' c s)" for s
    using Cons.prems by simp
  moreover have "bnd (run_calls f cs) (\<lambda>xs. ret (x # xs)) (g s) = outcome_in g (bnd (run_calls f' cs) (\<lambda>xs. ret (x # xs)) s)" for x s
    using Cons by (intro outcome_in_bnd) (simp_all add: outcome_in_def)
  ultimately show ?case
    by (simp add: outcome_in_bnd)
qed

lemma original_direct:
  assumes "originals_of w = initialized_originals dlsym" and "n \<in> set original_functions"
  shows "original zero n a w =
     (case direct dlsym zero (n, a) (os w) of Inl (e, s) \<Rightarrow> Inl (e, w\<lparr>os := s\<rparr>) | Inr (x, s) \<Rightarrow> Inr (x, w\<lparr>os := s\<rparr>))"
  using assms by (auto simp: original_def on_os_def call_original_def direct_def initialized_originals_def split: option.split)

lemma own_functions:
  "''pthread_mutex_init'' \<in> set original_functions" "''pthread_mutex_lock'' \<in> set original_functions"
  "''pthread_mutex_unlock'' \<in> set original_functions" "''pthread_self'' \<in> set original_functions"
  "''pthread_cond_init'' \<in> set original_functions"
  unfolding same_functions by (simp_all add: original_pointers_def)

lemma bnd_original:
  assumes "originals_of w = initialized_originals dlsym" and "n \<in> set original_functions"
  shows "bnd (original zero n a) k w =
     (case direct dlsym zero (n, a) (os w) of Inl (e, s) \<Rightarrow> Inl (e, w\<lparr>os := s\<rparr>) | Inr (x, s) \<Rightarrow> k x (w\<lparr>os := s\<rparr>))"
  using original_direct [OF assms, of zero a] by (auto simp: bnd_def split: sum.splits)

lemma bnd_on_threads:
  "own_threads w = Some tt \<Longrightarrow> m tt = Inr (x, tt') \<Longrightarrow> bnd (on_threads m) k w = k x (w\<lparr>own_threads := Some tt'\<rparr>)"
  by (simp add: on_threads_def)

lemma new_Handler_calls:
  "new_Handler zero A =
     bnd (original zero ''pthread_mutex_init'' (init_globalLock A)) (\<lambda>_.
     bnd (original zero ''pthread_mutex_init'' (init_threadtracker_mutex A)) (\<lambda>_.
     bnd (upd (\<lambda>w. w\<lparr>own_threads := Some ThreadTracker_init\<rparr>)) (\<lambda>_.
     bnd (original zero ''pthread_mutex_lock'' (threadtracker_mutex A)) (\<lambda>_.
     bnd (on_threads (upd tid_inc)) (\<lambda>_.
     bnd (original zero ''pthread_mutex_unlock'' (threadtracker_mutex A)) (\<lambda>_.
     bnd (on_threads (gets tid_read)) (\<lambda>myself.
     bnd (original zero ''pthread_self'' (self_arguments A)) (\<lambda>self.
     bnd (original zero ''pthread_mutex_lock'' (threadtracker_mutex A)) (\<lambda>_.
     bnd (on_threads (setTID myself (handle_of A self))) (\<lambda>_.
     bnd (original zero ''pthread_mutex_unlock'' (threadtracker_mutex A)) (\<lambda>_.
     bnd (original zero ''pthread_mutex_init'' (init_newthread_lock A)) (\<lambda>_.
     bnd (original zero ''pthread_cond_init'' (init_newthread_cond A)) (\<lambda>_.
     ret plain_handler)))))))))))))"
  unfolding new_Handler_def new_ThreadTracker_def own_getNextTID_def own_setTID_def bnd_assoc bnd_ret
  by (rule refl)

text \<open>The constructor returns if all its calls do, and then the handler knows the thread that runs it; otherwise it leaves where a call leaves.\<close>

lemma new_Handler_result:
  assumes "originals_of w = initialized_originals dlsym" and "run_calls (direct dlsym zero) (start_calls A) (os w) = Inr (rs, s)"
  shows "new_Handler zero A w =
     Inr (plain_handler, w\<lparr>own_threads := Some \<lparr>curr_id = 0, pthreadHandleMap = [(0, handle_of A (rs ! 4))]\<rparr>, os := s\<rparr>)"
  using assms(2)
  by (auto simp: new_Handler_calls start_calls_def bnd_eq_Inr bnd_original assms(1) own_functions bnd_on_threads
      ThreadTracker_init_def tid_inc_def tid_read_def setTID_def)

lemma new_Handler_exit:
  assumes "originals_of w = initialized_originals dlsym" and "run_calls (direct dlsym zero) (start_calls A) (os w) = Inl (e, s)"
  shows "\<exists>w'. new_Handler zero A w = Inl (e, w') \<and> os w' = s"
  using assms(2)
  by (auto simp: new_Handler_calls start_calls_def bnd_eq_Inl bnd_original assms(1) own_functions bnd_on_threads
      ThreadTracker_init_def tid_inc_def tid_read_def setTID_def)

lemma pth_start_plain:
  "run_calls (direct dlsym zero) (start_calls A) s = Inr (rs, s') \<Longrightarrow>
   pth_start (plain_linked dlsym zero A) (before_start s) = Inr ((), after_start dlsym (handle_of A (rs ! 4)) s')"
  using new_Handler_result [of "\<lparr>originals_of = initialized_originals dlsym, own_threads = None, os = s\<rparr>" dlsym zero A rs s']
  by (simp add: pth_start_def before_start_def library_init_def plain_linked_def in_world_def on_originals_def
      initialize_originals_result initializationDone_def after_start_def started_process_def plain_handler_def bnd_def)

lemma pth_start_plain_exit:
  assumes "run_calls (direct dlsym zero) (start_calls A) s = Inl (e, s')"
  shows "\<exists>l. pth_start (plain_linked dlsym zero A) (before_start s) = Inl (e, l) \<and> os (world l) = s' \<and>
     \<not> pth_is_initialized l \<and> pHandler l = None"
proof -
  obtain w' where "new_Handler zero A \<lparr>originals_of = initialized_originals dlsym, own_threads = None, os = s\<rparr> = Inl (e, w')" "os w' = s'"
    using new_Handler_exit [of "\<lparr>originals_of = initialized_originals dlsym, own_threads = None, os = s\<rparr>" dlsym zero A e s'] assms by auto
  then show ?thesis
    by (simp add: pth_start_def before_start_def library_init_def plain_linked_def in_world_def on_originals_def
        initialize_originals_result bnd_def)
qed

lemma enter_after_start:
  assumes "e \<in> set entries" and "e_method e \<noteq> ''thrille_create''"
  shows "enter (plain_linked dlsym zero A) e a (after_start dlsym h s) =
     outcome_in (after_start dlsym h) (direct dlsym zero (e_name e, a) s)"
proof -
  obtain w where "w \<in> set wrappers" "e_name e = w_original w"
    using assms(1,2) by (rule entry_wrapper)
  then have "e_name e \<in> set original_functions"
    by (simp add: original_of_wrapper)
  then have "Originals (plain_linked dlsym zero A) (e_name e) a (started_process dlsym h s)
      = outcome_in (started_process dlsym h) (direct dlsym zero (e_name e, a) s)"
    using original_direct [of "started_process dlsym h s" dlsym "e_name e" zero a]
    by (auto simp: plain_linked_def started_process_def outcome_in_def split: sum.splits)
  then show ?thesis
    using enter_plain_handler [OF assms(1,2), of "after_start dlsym h s" "plain_linked dlsym zero A" a]
    by (auto simp: after_start_def in_world_def outcome_in_def split: sum.splits)
qed

text \<open>
  C8: A program under the plain handler runs as if it were not interposed, apart from what the start of the library does. The
  first call starts the library: it makes the calls of \<open>start_calls\<close>, for the handler's own mutexes and condition variable
  and to register the thread, and leaves where one of these leaves. After that the results of any sequence of calls, the state that the functions of
  the next library leave, and the exits are those of calling these functions directly, on the state that the start has left. Of
  the functions of the library \<open>pthread_create\<close> is not covered: its method starts a thread of the library's own. A function that \<open>dlsym\<close> does not find counts as one that returns zero.
\<close>

theorem interposition_is_transparent:
  assumes "\<forall>(e, a) \<in> set cs. e \<in> set entries \<and> e_method e \<noteq> ''thrille_create''" and "cs \<noteq> []"
  shows "case run_calls (direct dlsym zero) (start_calls A) s of
      Inl (x, s') \<Rightarrow> \<exists>l. run_calls (\<lambda>(e, a). enter (plain_linked dlsym zero A) e a) cs (before_start s) = Inl (x, l) \<and>
        os (world l) = s' \<and> \<not> pth_is_initialized l \<and> pHandler l = None
    | Inr (rs, s') \<Rightarrow> run_calls (\<lambda>(e, a). enter (plain_linked dlsym zero A) e a) cs (before_start s) =
        outcome_in (after_start dlsym (handle_of A (rs ! 4))) (run_calls (\<lambda>(e, a). direct dlsym zero (e_name e, a)) cs s')"
proof -
  let ?f = "\<lambda>(e, a). enter (plain_linked dlsym zero A) e a"
  obtain e a cs' where cs: "cs = (e, a) # cs'"
    using assms(2) by (cases cs) auto
  then have first: "run_calls ?f cs (before_start s) = bnd (pth_start (plain_linked dlsym zero A)) (\<lambda>_. run_calls ?f cs) (before_start s)"
    using first_call_starts_once(1) [of e "plain_linked dlsym zero A" a "before_start s"] assms(1)
    by (simp add: bnd_def split: sum.splits)
  have calls: "?f c (after_start dlsym h s) = outcome_in (after_start dlsym h) ((\<lambda>(e, a). direct dlsym zero (e_name e, a)) c s)"
    if "c \<in> set cs" for c h s
    using assms(1) that by (auto simp: enter_after_start split: prod.split)
  show ?thesis
  proof (cases "run_calls (direct dlsym zero) (start_calls A) s")
    case (Inl x)
    then show ?thesis using pth_start_plain_exit [of dlsym zero A s "fst x" "snd x"] by (auto simp: first)
  next
    case (Inr x)
    then show ?thesis
      using pth_start_plain [of dlsym zero A s "fst x" "snd x"]
        run_calls_in [of cs ?f "after_start dlsym (handle_of A (fst x ! 4))", OF calls, of "snd x"]
      by (auto simp: first)
  qed
qed

text \<open>Two calls of functions that count, and a \<open>dlsym\<close> that finds nothing.\<close>

definition counting_dlsym :: "string \<Rightarrow> (unit \<Rightarrow> (nat, nat) tm) option" where
  "counting_dlsym n = (if n = ''pthread_cond_init'' then None else Some (\<lambda>a s. Inr (s, s + 1)))"

definition no_objects :: "(unit, nat) own_objects" where
  "no_objects = \<lparr>init_globalLock = (), init_threadtracker_mutex = (), threadtracker_mutex = (), self_arguments = (),
     init_newthread_lock = (), init_newthread_cond = (), handle_of = of_nat\<rparr>"

definition mutex_init_entry :: entry_point where
  "mutex_init_entry = EntryPoint ''pthread_mutex_init'' ''thrille_mutex_init'' True"

lemma mutex_init_entry: "mutex_init_entry \<in> set entries" "e_method mutex_init_entry \<noteq> ''thrille_create''"
  by (simp_all add: mutex_init_entry_def entries_def entries_2_def)

lemma interposition_is_transparent_witness:
  "run_calls (\<lambda>(e, a). enter (plain_linked counting_dlsym 0 no_objects) e a) [(mutex_init_entry, ()), (mutex_init_entry, ())] (before_start 3) =
     Inr ([11, 12], after_start counting_dlsym 7 13) \<and>
   (\<exists>l. run_calls (\<lambda>(e, a). enter (plain_linked (\<lambda>_. None) 0 no_objects) e a) [(mutex_init_entry, ())] (before_start (3 :: nat)) =
     Inl (Undefined ''pthread_self: *tid'', l))"
proof -
  let ?cs = "[(mutex_init_entry, ()), (mutex_init_entry, ())]"
  have entries: "\<forall>(e, a) \<in> set ?cs. e \<in> set entries \<and> e_method e \<noteq> ''thrille_create''" "?cs \<noteq> []"
    "\<forall>(e, a) \<in> set [(mutex_init_entry, ())]. e \<in> set entries \<and> e_method e \<noteq> ''thrille_create''" "[(mutex_init_entry, ())] \<noteq> []"
    using mutex_init_entry by auto
  have self: "handle_of no_objects ([3, 4, 5, 6, 7, 8, 9, 10, 0] ! 4) = 7" by (simp add: no_objects_def)
  have start: "run_calls (direct counting_dlsym 0) (start_calls no_objects) 3 = Inr ([3, 4, 5, 6, 7, 8, 9, 10, 0], 11)"
    by (simp add: start_calls_def direct_def counting_dlsym_def bnd_def)
  have direct: "run_calls (\<lambda>(e, a). direct counting_dlsym 0 (e_name e, a)) ?cs 11 = Inr ([11, 12], 13)"
    by (simp add: direct_def counting_dlsym_def mutex_init_entry_def bnd_def)
  have none: "run_calls (direct (\<lambda>_. None) 0) (start_calls no_objects) (3 :: nat) = Inl (Undefined ''pthread_self: *tid'', 3)"
    by (simp add: start_calls_def direct_def bnd_def)
  have "run_calls (\<lambda>(e, a). enter (plain_linked counting_dlsym 0 no_objects) e a) ?cs (before_start 3) =
      Inr ([11, 12], after_start counting_dlsym 7 13)"
    using interposition_is_transparent [OF entries(1,2), where dlsym = counting_dlsym and zero = 0 and A = no_objects and s = 3]
    by (simp only: start sum.case prod.case self direct outcome_in_def)
  moreover have "\<exists>l. run_calls (\<lambda>(e, a). enter (plain_linked (\<lambda>_. None) 0 no_objects) e a) [(mutex_init_entry, ())] (before_start (3 :: nat)) =
      Inl (Undefined ''pthread_self: *tid'', l)"
    using interposition_is_transparent [OF entries(3,4), where dlsym = "\<lambda>_. None" and zero = 0 and A = no_objects and s = "3 :: nat"]
    by (simp only: none sum.case prod.case) blast
  ultimately show ?thesis by blast
qed

end
