(* ===== verification/Serializer_Handler.thy ===== *)
theory Serializer_Handler
  imports Original_Functions Thread_Tracker
begin

text \<open>
  The handler of the serializer, \<open>src/serializer/libserializer.cpp\<close>, in the interposition layer. It is in safe
  mode, so that a function it has no \<open>Before\<close> hook for stops the program. Its hooks find the thread that
  calls and pass the call to the execution tracker (\<open>controller\<close>), to the race detector (\<open>race\<close>, under a lock
  of its own), or to both, in an order that is listed here hook by hook.

  The execution tracker and the race detector are arguments: computations that are given the name of the hook, which is the name of the
  method called, and its arguments. The trackers themselves are in \<open>Tracker_Ops\<close> and in \<open>Immediate_Race\<close>.
\<close>

section \<open>The hooks\<close>

datatype part = Controller | Race | Target

datatype hook_override = Override (o_hook: string) (o_parts: "part list")

definition serializer_hooks_1 :: "hook_override list" where
  "serializer_hooks_1 =
    [Override ''BeforeGetschedparam'' [Controller],
     Override ''BeforeKeyCreate'' [Controller],
     Override ''BeforeSetspecific'' [Controller],
     Override ''BeforeGetspecific'' [Controller],
     Override ''BeforeAttrSetstacksize'' [Controller],
     Override ''BeforeAttrSetdetachstate'' [Controller],
     Override ''BeforeAttrGetschedparam'' [Controller],
     Override ''BeforeAttrSetschedparam'' [Controller],
     Override ''BeforeEqual'' [Controller],
     Override ''BeforeAttrDestroy'' [Controller],
     Override ''BeforeMutexTrylock'' [Controller],
     Override ''SimulateMutexTrylock'' [Controller],
     Override ''AfterMutexTrylock'' [Controller],
     Override ''BeforeMutexattrSettype'' [Controller],
     Override ''BeforeMutexattrInit'' [Controller]]"

definition serializer_hooks_2 :: "hook_override list" where
  "serializer_hooks_2 =
    [Override ''BeforeSetcanceltype'' [Controller]]"

definition serializer_hooks_3 :: "hook_override list" where
  "serializer_hooks_3 =
    [Override ''BeforeBarrierDestroy'' [Controller],
     Override ''SimulateBarrierDestroy'' [Controller],
     Override ''BeforeOnce'' [Controller],
     Override ''BeforeMutexInit'' [Controller],
     Override ''BeforeCondInit'' [Controller],
     Override ''BeforeSelf'' [Controller],
     Override ''BeforeAttrInit'' [Controller],
     Override ''BeforeAttrSetscope'' [Controller],
     Override ''BeforeSemDestroy'' [Controller],
     Override ''SimulateSemDestroy'' [Controller],
     Override ''BeforeMutexDestroy'' [Controller],
     Override ''SimulateMutexDestroy'' [Controller],
     Override ''BeforeCondDestroy'' [Controller],
     Override ''SimulateCondDestroy'' [Controller],
     Override ''BeforeCreate'' [Controller, Race],
     Override ''AfterCreate'' [Controller],
     Override ''BeforeJoin'' [Target, Controller],
     Override ''AfterJoin'' []]"

definition serializer_hooks_4 :: "hook_override list" where
  "serializer_hooks_4 =
    [Override ''BeforeMutexLock'' [Controller],
     Override ''SimulateMutexLock'' [Controller],
     Override ''AfterMutexLock'' [Race],
     Override ''BeforeMutexUnlock'' [Race, Controller],
     Override ''AfterMutexUnlock'' [Controller],
     Override ''BeforeCondWait'' [Controller],
     Override ''SimulateCondWait'' [Controller],
     Override ''AfterCondWait'' [Race],
     Override ''BeforeCondTimedwait'' [Controller],
     Override ''SimulateCondTimedwait'' [Controller],
     Override ''AfterCondTimedwait'' [Race],
     Override ''BeforeCondSignal'' [Controller, Race],
     Override ''SimulateCondSignal'' [Controller],
     Override ''BeforeCondBroadcast'' [Controller, Race],
     Override ''SimulateCondBroadcast'' [Controller],
     Override ''BeforeBarrierInit'' [Controller],
     Override ''BeforeBarrierWait'' [Controller]]"

definition serializer_hooks_5 :: "hook_override list" where
  "serializer_hooks_5 =
    [Override ''BeforeSleep'' [Controller],
     Override ''SimulateSleep'' [Controller],
     Override ''BeforeSigwait'' [Controller],
     Override ''BeforeUsleep'' [Controller],
     Override ''SimulateUsleep'' [Controller],
     Override ''BeforeSemWait'' [Controller],
     Override ''SimulateSemWait'' [Controller],
     Override ''BeforeSemPost'' [Controller],
     Override ''SimulateSemPost'' [Controller],
     Override ''BeforeSemInit'' [Controller]]"

definition serializer_hooks_6 :: "hook_override list" where
  "serializer_hooks_6 =
    [Override ''BeforeExit'' [Controller],
     Override ''SimulateExit'' [Controller]]"

definition serializer_hooks :: "hook_override list" where
  "serializer_hooks =
     concat [serializer_hooks_1, serializer_hooks_2, serializer_hooks_3, serializer_hooks_4, serializer_hooks_5, serializer_hooks_6]"

text \<open>What the handler consists of. The methods of the controller get the target of \<open>BeforeJoin\<close> as well.\<close>

record ('s, 'a, 'r) serializer_parts =
  sp_self :: "('s, pthread_t) tm"
  threadtracker :: "'s \<Rightarrow> ThreadTracker"
  sp_joined :: "'a \<Rightarrow> pthread_t"
  sp_before :: "string \<Rightarrow> thrID \<Rightarrow> thrID option \<Rightarrow> 'a \<Rightarrow> ('s, bool) tm"
  sp_simulate :: "string \<Rightarrow> thrID \<Rightarrow> 'a \<Rightarrow> ('s, 'r) tm"
  sp_after :: "string \<Rightarrow> thrID \<Rightarrow> 'r \<Rightarrow> 'a \<Rightarrow> ('s, unit) tm"
  sp_race :: "string \<Rightarrow> thrID \<Rightarrow> 'r option \<Rightarrow> 'a \<Rightarrow> ('s, unit) tm"
  sp_race_lock :: "('s, unit) tm"
  sp_race_unlock :: "('s, unit) tm"
  sp_new_lock :: "('s, unit) tm"
  sp_new_race :: "thrID \<Rightarrow> ('s, unit) tm"
  sp_new_controller :: "thrID \<Rightarrow> ('s, unit) tm"

definition sh_translateHandleToTID :: "('s, 'a, 'r) serializer_parts \<Rightarrow> pthread_t \<Rightarrow> ('s, thrID) tm" where
  "sh_translateHandleToTID p h s =
     (case translateHandleToTID h (threadtracker p s) of Inl (e, _) \<Rightarrow> Inl (e, s) | Inr (t, _) \<Rightarrow> Inr (t, s))"

definition getThrID :: "('s, 'a, 'r) serializer_parts \<Rightarrow> ('s, thrID) tm" where
  "getThrID p = bnd (sp_self p) (sh_translateHandleToTID p)"

text \<open>A call of the detector, and the parts of a hook in order; the result is that of the controller.\<close>

definition with_race_lock :: "('s, 'a, 'r) serializer_parts \<Rightarrow> ('s, unit) tm \<Rightarrow> ('s, unit) tm" where
  "with_race_lock p m = steps [sp_race_lock p, m, sp_race_unlock p]"

fun run_parts :: "('s, 'a, 'r) serializer_parts \<Rightarrow> (thrID option \<Rightarrow> ('s, 'b) tm) \<Rightarrow> ('s, unit) tm \<Rightarrow> 'a \<Rightarrow> part list \<Rightarrow>
    thrID option \<Rightarrow> 'b \<Rightarrow> ('s, 'b) tm" where
  "run_parts p ctl race a [] tgt res = ret res"
| "run_parts p ctl race a (Controller # ps) tgt res = bnd (ctl tgt) (\<lambda>res'. run_parts p ctl race a ps tgt res')"
| "run_parts p ctl race a (Race # ps) tgt res = bnd (with_race_lock p race) (\<lambda>_. run_parts p ctl race a ps tgt res)"
| "run_parts p ctl race a (Target # ps) tgt res =
     bnd (sh_translateHandleToTID p (sp_joined p a)) (\<lambda>t. run_parts p ctl race a ps (Some t) res)"

definition run_hook :: "('s, 'a, 'r) serializer_parts \<Rightarrow> (thrID \<Rightarrow> thrID option \<Rightarrow> ('s, 'b) tm) \<Rightarrow> (thrID \<Rightarrow> ('s, unit) tm) \<Rightarrow> 'a \<Rightarrow>
    part list \<Rightarrow> 'b \<Rightarrow> ('s, 'b) tm" where
  "run_hook p ctl race a ps res =
     (if ps = [] then ret res else bnd (getThrID p) (\<lambda>myself. run_parts p (ctl myself) (race myself) a ps None res))"

definition parts_of :: "string \<Rightarrow> part list option" where
  "parts_of name = map_option o_parts (find (\<lambda>h. o_hook h = name) serializer_hooks)"

definition sh_AfterInitialize :: "('s, 'a, 'r) serializer_parts \<Rightarrow> ('s, unit) tm" where
  "sh_AfterInitialize p =
     bnd (getThrID p) (\<lambda>myself. steps [sp_new_lock p, sp_new_race p myself, sp_new_controller p myself])"

definition SerializerHandler :: "('s, 'a, 'r) serializer_parts \<Rightarrow> 'r \<Rightarrow> ('s, 'a, 'r) Handler" where
  "SerializerHandler p zero =
     \<lparr>safe_mode = True,
      hk_AfterInitialize = sh_AfterInitialize p,
      hk_before = (\<lambda>name. map_option (\<lambda>ps a.
        run_hook p (\<lambda>t tgt. sp_before p name t tgt a) (\<lambda>t. sp_race p name t None a) a ps True) (parts_of name)),
      hk_simulate = (\<lambda>name. map_option (\<lambda>ps a.
        run_hook p (\<lambda>t _. sp_simulate p name t a) (\<lambda>t. sp_race p name t None a) a ps zero) (parts_of name)),
      hk_after = (\<lambda>name. map_option (\<lambda>ps r a.
        run_hook p (\<lambda>t _. sp_after p name t r a) (\<lambda>t. sp_race p name t (Some r) a) a ps ()) (parts_of name))\<rparr>"

text \<open>The start and the end of a thread, and memory accesses.\<close>

definition sh_ThreadStart :: "('s, 'a, 'r) serializer_parts \<Rightarrow> 'r \<Rightarrow> 'a \<Rightarrow> ('s, unit) tm" where
  "sh_ThreadStart p r a =
     bnd (getThrID p) (\<lambda>myself.
     bnd (sp_after p ''ThreadStart'' myself r a) (\<lambda>_.
     with_race_lock p (sp_race p ''ThreadStart'' myself None a)))"

definition sh_ThreadFinish :: "('s, 'a, 'r) serializer_parts \<Rightarrow> 'r \<Rightarrow> 'a \<Rightarrow> ('s, unit) tm" where
  "sh_ThreadFinish p r a =
     bnd (getThrID p) (\<lambda>myself.
     bnd (sp_after p ''ThreadFinish'' myself r a) (\<lambda>_.
     with_race_lock p (sp_race p ''ThreadFinish'' myself None a)))"

definition sh_myMemoryRead :: "('s, 'a, 'r) serializer_parts \<Rightarrow> 'r \<Rightarrow> 'a \<Rightarrow> ('s, unit) tm" where
  "sh_myMemoryRead p r a =
     bnd (getThrID p) (\<lambda>myself.
     bnd (sp_after p ''myMemoryRead'' myself r a) (\<lambda>_.
     with_race_lock p (sp_race p ''memoryRead'' myself None a)))"

definition sh_myMemoryWrite :: "('s, 'a, 'r) serializer_parts \<Rightarrow> 'r \<Rightarrow> 'a \<Rightarrow> ('s, unit) tm" where
  "sh_myMemoryWrite p r a =
     bnd (getThrID p) (\<lambda>myself.
     bnd (sp_after p ''myMemoryWrite'' myself r a) (\<lambda>_.
     with_race_lock p (sp_race p ''memoryWrite'' myself None a)))"

text \<open>The calls that the program makes itself.\<close>

definition sh_thrilleAssert :: "('s, 'a, 'r) serializer_parts \<Rightarrow> 'r \<Rightarrow> 'a \<Rightarrow> ('s, unit) tm" where
  "sh_thrilleAssert p r a = bnd (getThrID p) (\<lambda>myself. sp_after p ''thrilleAssert'' myself r a)"

definition sh_thrilleSchedPoint :: "('s, 'a, 'r) serializer_parts \<Rightarrow> 'r \<Rightarrow> 'a \<Rightarrow> ('s, unit) tm" where
  "sh_thrilleSchedPoint p r a = bnd (getThrID p) (\<lambda>myself. sp_after p ''thrilleSchedPoint'' myself r a)"

definition sh_thrilleCheckpoint :: "('s, 'a, 'r) serializer_parts \<Rightarrow> 'r \<Rightarrow> 'a \<Rightarrow> ('s, unit) tm" where
  "sh_thrilleCheckpoint p r a = bnd (getThrID p) (\<lambda>myself. sp_after p ''thrilleCheckpoint'' myself r a)"

definition sh_thrilleSegfault :: "('s, 'a, 'r) serializer_parts \<Rightarrow> 'r \<Rightarrow> 'a \<Rightarrow> ('s, unit) tm" where
  "sh_thrilleSegfault p r a =
     bnd (getThrID p) (\<lambda>myself.
     bnd (sp_after p ''segfault'' myself r a) (\<lambda>_.
     exit_with (ErrorExit ''segmentation fault'')))"

section \<open>What is supported\<close>

text \<open>The functions that the serializer has a \<open>Before\<close> hook for, and that can be called under it.\<close>

definition supported_calls :: "string list" where
  "supported_calls =
    [''sem_wait'', ''pthread_mutex_lock'', ''sleep'', ''sem_destroy'', ''pthread_mutex_init'', ''sem_init'', ''pthread_mutex_trylock'',
     ''pthread_barrier_destroy'', ''pthread_getschedparam'', ''pthread_attr_getschedparam'', ''pthread_cond_wait'',
     ''pthread_cond_signal'', ''pthread_mutexattr_init'', ''pthread_barrier_wait'', ''pthread_setspecific'',
     ''pthread_attr_setstacksize'', ''usleep'', ''pthread_exit'', ''pthread_attr_setdetachstate'', ''pthread_attr_init'',
     ''sem_post'', ''pthread_equal'', ''pthread_key_create'', ''pthread_cond_timedwait'', ''pthread_mutex_unlock'',
     ''pthread_attr_setschedparam'', ''pthread_mutex_destroy'', ''pthread_setcanceltype'', ''sigwait'',
     ''pthread_mutexattr_settype'', ''pthread_cond_destroy'', ''pthread_once'', ''pthread_attr_setscope'', ''pthread_getspecific'',
     ''pthread_attr_destroy'', ''pthread_barrier_init'', ''pthread_cond_broadcast'', ''pthread_join'', ''pthread_cond_init'',
     ''pthread_self'']"

lemma supported_first:
  "list_all (\<lambda>w. (parts_of (w_before w) \<noteq> None) = (w_original w \<in> set supported_calls))
     (concat [wrappers_1, wrappers_2, wrappers_3, wrappers_4, wrappers_5])"
  by code_simp

lemma supported_last:
  "list_all (\<lambda>w. (parts_of (w_before w) \<noteq> None) = (w_original w \<in> set supported_calls))
     (concat [wrappers_6, wrappers_7, wrappers_8, wrappers_9, wrappers_10])"
  by code_simp

lemma supported_exactly: "w \<in> set wrappers \<Longrightarrow> parts_of (w_before w) \<noteq> None \<longleftrightarrow> w_original w \<in> set supported_calls"
  using supported_first supported_last unfolding wrappers_def list_all_iff
  by (simp only: set_concat list.set UN_insert UN_empty Un_iff empty_iff) blast

text \<open>A hook that says whether to call the original function asks the controller.\<close>

lemma before_asks_controller:
  "list_all (\<lambda>h. take 6 (o_hook h) = ''Before'' \<longrightarrow> Controller \<in> set (o_parts h)) serializer_hooks"
  by code_simp

lemma parts_of_before:
  assumes "parts_of (''Before'' @ x) = Some ps"
  shows "Controller \<in> set ps"
proof -
  obtain h where "h \<in> set serializer_hooks" "o_hook h = ''Before'' @ x" "o_parts h = ps"
    using assms unfolding parts_of_def map_option_eq_Some find_Some_iff by (metis nth_mem)
  then show ?thesis
    using before_asks_controller by (auto simp: list_all_iff)
qed

text \<open>
  The hooks that the detector hears of: the unlocking of a mutex, but only one of the ways to lock it, since \<open>AfterMutexTrylock\<close> tells
  the controller only.
\<close>

lemma race_hooks:
  "map o_hook (filter (\<lambda>h. Race \<in> set (o_parts h)) serializer_hooks) =
     [''BeforeCreate'', ''AfterMutexLock'', ''BeforeMutexUnlock'', ''AfterCondWait'', ''AfterCondTimedwait'', ''BeforeCondSignal'',
      ''BeforeCondBroadcast'']"
  by code_simp

lemma before_hook_serializer:
  "before_hook (SerializerHandler p zero) name a =
     (case parts_of name of
        None \<Rightarrow> if has_default ''Before'' name then exit_with (SafeAssert ''functionIsImplemented'') else exit_with (Undefined name)
      | Some ps \<Rightarrow> run_hook p (\<lambda>t tgt. sp_before p name t tgt a) (\<lambda>t. sp_race p name t None a) a ps True)"
  by (rule ext) (auto simp: before_hook_def SerializerHandler_def default_before_def bnd_def exit_with_def split: option.split)

text \<open>
  C9: under the serializer a program can use the 40 functions of \<open>supported_calls\<close>, and \<open>pthread_create\<close>. A call of any
  other function stops the program with the failed assertion \<open>functionIsImplemented\<close> before anything has happened; a call of one of
  the 40 runs the method of that function, with the original function of that name, and its \<open>Before\<close> hook is the serializer's and asks the
  controller.
\<close>

theorem unsupported_calls_stop:
  assumes "e \<in> set entries" and "e_method e \<noteq> ''thrille_create''"
    and "pth_is_initialized l" and "pHandler l = Some (SerializerHandler p zero)"
  shows "if e_name e \<notin> set supported_calls then enter L e a l = Inl (SafeAssert ''functionIsImplemented'', l)
    else \<exists>w ps. w \<in> set wrappers \<and> w_original w = e_name e
        \<and> enter L e a l = in_world (run_wrapper L (SerializerHandler p zero) w a) l
        \<and> before_hook (SerializerHandler p zero) (w_before w) a =
            run_hook p (\<lambda>t tgt. sp_before p (w_before w) t tgt a) (\<lambda>t. sp_race p (w_before w) t None a) a ps True
        \<and> Controller \<in> set ps"
proof -
  obtain w where w: "w \<in> set wrappers" "e_method e = w_method w" "e_name e = w_original w"
    using assms(1,2) by (rule entry_wrapper)
  have run: "enter L e a l = in_world (run_wrapper L (SerializerHandler p zero) w a) l"
    using w assms by (simp add: enter_started run_method_wrapper)
  have supported: "parts_of (w_before w) \<noteq> None \<longleftrightarrow> e_name e \<in> set supported_calls"
    using supported_exactly [OF w(1)] by (simp only: w(3))
  show ?thesis
  proof (cases "parts_of (w_before w)")
    case None
    then have "enter L e a l = Inl (SafeAssert ''functionIsImplemented'', l)"
      by (simp add: run run_wrapper_def before_hook_serializer wrapper_defaults [OF w(1)] in_world_def)
    then show ?thesis
      using None supported by (simp only: if_True not_True_eq_False not_False_eq_True simp_thms)
  next
    case (Some ps)
    obtain x where "w_before w = ''Before'' @ x"
      using wrapper_defaults(1) [OF w(1)] unfolding has_default_def set_map by blast
    then have "Controller \<in> set ps"
      using Some by (simp only: parts_of_before)
    then have "\<exists>w ps. w \<in> set wrappers \<and> w_original w = e_name e
        \<and> enter L e a l = in_world (run_wrapper L (SerializerHandler p zero) w a) l
        \<and> before_hook (SerializerHandler p zero) (w_before w) a =
            run_hook p (\<lambda>t tgt. sp_before p (w_before w) t tgt a) (\<lambda>t. sp_race p (w_before w) t None a) a ps True
        \<and> Controller \<in> set ps"
      using w run Some by (intro exI [of _ w] exI [of _ ps]) (simp add: before_hook_serializer)
    moreover have "e_name e \<in> set supported_calls"
      using Some supported by (simp only: option.distinct simp_thms)
    ultimately show ?thesis
      by (simp only: simp_thms if_False)
  qed
qed

section \<open>The lock of the race detector\<close>

text \<open>
  \<open>outcome P m Q ok\<close>: from a state with \<open>P\<close>, \<open>m\<close> returns in a state with \<open>Q\<close> or leaves the process in one with \<open>ok\<close>.
\<close>

named_theorems outcome_rules \<open>outcomes of composed computations\<close>

definition outcome :: "('s \<Rightarrow> bool) \<Rightarrow> ('s, 'b) tm \<Rightarrow> ('s \<Rightarrow> bool) \<Rightarrow> ('s \<Rightarrow> bool) \<Rightarrow> bool" where
  "outcome P m Q ok \<longleftrightarrow> (\<forall>s. P s \<longrightarrow> (case m s of Inl (e, s') \<Rightarrow> ok s' | Inr (x, s') \<Rightarrow> Q s'))"

lemma outcome_return [outcome_rules]: "outcome P (ret x) P ok"
  by (simp add: outcome_def)

lemma outcome_exit: "(\<And>s. P s \<Longrightarrow> ok s) \<Longrightarrow> outcome P (exit_with e) Q ok"
  by (simp add: outcome_def)

lemma outcome_bnd [outcome_rules]:
  assumes "outcome P m R ok" and "\<And>x. outcome R (k x) Q ok"
  shows "outcome P (bnd m k) Q ok"
  using assms by (fastforce simp: outcome_def bnd_def split: sum.splits)

lemma outcome_steps [outcome_rules]:
  "outcome P (steps []) P ok"
  "outcome P m R ok \<Longrightarrow> outcome R (steps ms) Q ok \<Longrightarrow> outcome P (steps (m # ms)) Q ok"
  by (auto intro: outcome_rules)

text \<open>
  What the serializer relies on and promises about the lock: with the lock free the controller, the original functions and
  \<open>pthread_self\<close> leave it free; taking it from there gives \<open>held\<close>, in which the detector runs and the lock can be released. \<open>ok\<close>
  is what holds when the process is left.
\<close>

locale race_lock =
  fixes p :: "('s, 'a, 'r) serializer_parts"
    and L :: "('s, 'a, 'r) linked"
    and free held ok :: "'s \<Rightarrow> bool"
  assumes before: "outcome free (sp_before p n t tgt a) free ok"
    and simulate: "outcome free (sp_simulate p n t a) free ok"
    and after: "outcome free (sp_after p n t r a) free ok"
    and self: "outcome free (sp_self p) free ok"
    and original: "outcome free (Originals L n a) free ok"
    and take: "outcome free (sp_race_lock p) held ok"
    and race: "outcome held (sp_race p n t q a) held ok"
    and release: "outcome held (sp_race_unlock p) free ok"
    and free_ok: "free s \<Longrightarrow> ok s"
begin

lemma locked_race: "outcome free (with_race_lock p (sp_race p n t q a)) free ok"
  unfolding with_race_lock_def by (rule take race release outcome_rules)+

lemma translate: "outcome free (sh_translateHandleToTID p h) free ok"
  using free_ok by (auto simp: outcome_def sh_translateHandleToTID_def split: sum.split)

lemma thread: "outcome free (getThrID p) free ok"
  unfolding getThrID_def by (rule self translate outcome_rules)+

lemma parts:
  assumes "\<And>tgt. outcome free (ctl tgt) free ok"
  shows "outcome free (run_parts p ctl (sp_race p n t q a) b ps tgt res) free ok"
proof (induction ps arbitrary: tgt res)
  case Nil
  show ?case by (simp add: outcome_def)
next
  case (Cons x ps)
  show ?case
    by (cases x) (simp_all, (rule Cons.IH assms locked_race translate outcome_bnd)+)
qed

lemma hook:
  assumes "\<And>t tgt. outcome free (ctl t tgt) free ok"
  shows "outcome free (run_hook p ctl (\<lambda>t. sp_race p n t q a) b ps res) free ok"
  unfolding run_hook_def using assms by (auto intro!: outcome_rules thread parts)

lemma wrapper:
  assumes "w \<in> set wrappers"
  shows "outcome free (run_wrapper L (SerializerHandler p zero) w a) free ok"
proof -
  have "outcome free (before_hook (SerializerHandler p zero) (w_before w) a) free ok"
    by (auto simp: before_hook_serializer [abs_def] wrapper_defaults [OF assms] split: option.split
        intro!: outcome_exit free_ok hook before)
  moreover have "outcome free (simulate_hook z (SerializerHandler p zero) (w_simulate w) a) free ok" for z
    by (auto simp: simulate_hook_def [abs_def] SerializerHandler_def wrapper_defaults [OF assms] default_simulate_def
        split: option.split intro!: outcome_exit free_ok hook simulate outcome_return)
  moreover have "outcome free (after_hook (SerializerHandler p zero) (w_after w) r a) free ok" for r
    by (auto simp: after_hook_def [abs_def] SerializerHandler_def wrapper_defaults [OF assms] default_after_def
        split: option.split intro!: hook after outcome_return)
  ultimately show ?thesis
    unfolding run_wrapper_def by (auto intro!: outcome_rules original)
qed

lemma thread_hooks:
  "outcome free (sh_ThreadStart p r a) free ok" "outcome free (sh_ThreadFinish p r a) free ok"
  "outcome free (sh_myMemoryRead p r a) free ok" "outcome free (sh_myMemoryWrite p r a) free ok"
  "outcome free (sh_thrilleAssert p r a) free ok" "outcome free (sh_thrilleSchedPoint p r a) free ok"
  "outcome free (sh_thrilleCheckpoint p r a) free ok" "outcome free (sh_thrilleSegfault p r a) free ok"
  unfolding sh_ThreadStart_def sh_ThreadFinish_def sh_myMemoryRead_def sh_myMemoryWrite_def
    sh_thrilleAssert_def sh_thrilleSchedPoint_def sh_thrilleCheckpoint_def sh_thrilleSegfault_def
  by (rule outcome_exit free_ok thread after locked_race outcome_rules)+

end

subsection \<open>Any controller and any detector\<close>

text \<open>
  The state of the process: the controller and the detector with states of any type, the lock, and whether the lock was ever misused: the
  controller, which can wait for other threads, or an original function called with the lock taken, the detector called without it, the
  lock taken twice by one thread (which would never return) or released when free.
\<close>

record ('c, 'd) serializer_world =
  w_self :: pthread_t
  w_threads :: ThreadTracker
  w_locked :: bool
  w_misused :: bool
  w_controller :: 'c
  w_race :: 'd

record ('c, 'd, 'a, 'r) trackers =
  t_before :: "string \<Rightarrow> thrID \<Rightarrow> thrID option \<Rightarrow> 'a \<Rightarrow> ('c, bool) tm"
  t_simulate :: "string \<Rightarrow> thrID \<Rightarrow> 'a \<Rightarrow> ('c, 'r) tm"
  t_after :: "string \<Rightarrow> thrID \<Rightarrow> 'r \<Rightarrow> 'a \<Rightarrow> ('c, unit) tm"
  t_race :: "string \<Rightarrow> thrID \<Rightarrow> 'r option \<Rightarrow> 'a \<Rightarrow> ('d, unit) tm"
  t_original :: "string \<Rightarrow> 'a \<Rightarrow> ('c, 'r) tm"
  t_create :: "'a \<Rightarrow> ('c, 'r) tm"
  t_joined :: "'a \<Rightarrow> pthread_t"
  t_new_race :: "thrID \<Rightarrow> 'd"
  t_new_controller :: "thrID \<Rightarrow> 'c"

definition on_controller :: "('c, 'b) tm \<Rightarrow> (('c, 'd) serializer_world, 'b) tm" where
  "on_controller m w =
     (case m (w_controller w) of
        Inl (e, c) \<Rightarrow> Inl (e, w\<lparr>w_controller := c, w_misused := w_misused w \<or> w_locked w\<rparr>)
      | Inr (x, c) \<Rightarrow> Inr (x, w\<lparr>w_controller := c, w_misused := w_misused w \<or> w_locked w\<rparr>))"

definition on_race :: "('d, 'b) tm \<Rightarrow> (('c, 'd) serializer_world, 'b) tm" where
  "on_race m w =
     (case m (w_race w) of
        Inl (e, d) \<Rightarrow> Inl (e, w\<lparr>w_race := d, w_misused := w_misused w \<or> \<not> w_locked w\<rparr>)
      | Inr (x, d) \<Rightarrow> Inr (x, w\<lparr>w_race := d, w_misused := w_misused w \<or> \<not> w_locked w\<rparr>))"

definition serializer_parts_of :: "('c, 'd, 'a, 'r) trackers \<Rightarrow> (('c, 'd) serializer_world, 'a, 'r) serializer_parts" where
  "serializer_parts_of T =
     \<lparr>sp_self = gets w_self, threadtracker = w_threads, sp_joined = t_joined T,
      sp_before = (\<lambda>n t tgt a. on_controller (t_before T n t tgt a)),
      sp_simulate = (\<lambda>n t a. on_controller (t_simulate T n t a)),
      sp_after = (\<lambda>n t r a. on_controller (t_after T n t r a)),
      sp_race = (\<lambda>n t q a. on_race (t_race T n t q a)),
      sp_race_lock = upd (\<lambda>w. w\<lparr>w_locked := True, w_misused := w_misused w \<or> w_locked w\<rparr>),
      sp_race_unlock = upd (\<lambda>w. w\<lparr>w_locked := False, w_misused := w_misused w \<or> \<not> w_locked w\<rparr>),
      sp_new_lock = upd (\<lambda>w. w\<lparr>w_locked := False\<rparr>),
      sp_new_race = (\<lambda>t. upd (\<lambda>w. w\<lparr>w_race := t_new_race T t\<rparr>)),
      sp_new_controller = (\<lambda>t. upd (\<lambda>w. w\<lparr>w_controller := t_new_controller T t\<rparr>))\<rparr>"

text \<open>
  What the constructor of the base class leaves: the thread that starts the library is registered. (Its calls of the original functions,
  for mutexes of the handler, are \<open>new_Handler\<close> in \<open>Original_Functions\<close>.)
\<close>

definition register_starter :: "(('c, 'd) serializer_world, unit) tm" where
  "register_starter w =
     (case start_thread (w_self w) ThreadTracker_init of
        Inl (e, tt) \<Rightarrow> Inl (e, w\<lparr>w_threads := tt\<rparr>)
      | Inr (_, tt) \<Rightarrow> Inr ((), w\<lparr>w_threads := tt\<rparr>))"

definition serializer_linked :: "('c, 'd, 'a, 'r) trackers \<Rightarrow> 'r \<Rightarrow> (('c, 'd) serializer_world, 'a, 'r) linked" where
  "serializer_linked T zero =
     \<lparr>Originals_initialize = ret (),
      Originals = (\<lambda>n a. on_controller (t_original T n a)),
      create_handler = bnd register_starter (\<lambda>_. ret (Some (SerializerHandler (serializer_parts_of T) zero))),
      method_create = (\<lambda>h a. on_controller (t_create T a)),
      zero_result = zero\<rparr>"

definition lock_free :: "('c, 'd) serializer_world \<Rightarrow> bool" where
  "lock_free w \<longleftrightarrow> \<not> w_locked w \<and> \<not> w_misused w"

definition lock_held :: "('c, 'd) serializer_world \<Rightarrow> bool" where
  "lock_held w \<longleftrightarrow> w_locked w \<and> \<not> w_misused w"

interpretation serializer_lock: race_lock "serializer_parts_of T" "serializer_linked T zero" lock_free lock_held "\<lambda>w. \<not> w_misused w"
  for T :: "('c, 'd, 'a, 'r) trackers" and zero :: 'r
  by unfold_locales
    (auto simp: serializer_parts_of_def serializer_linked_def outcome_def on_controller_def on_race_def lock_free_def lock_held_def
      split: sum.split)

text \<open>
  C39: the lock of the race detector, for any controller and any detector. A call of an entry point of the started library (\<open>pthread_create\<close>
  apart), the start and the end of a thread, a memory access and the calls of the program itself never misuse it: the detector runs with the lock taken, the controller,
  where a thread waits for its turn, and the original functions with the lock free, and whatever returns leaves the lock free.
\<close>

theorem race_lock_discipline:
  assumes "lock_free (world l)"
  shows "(e \<in> set entries \<and> e_method e \<noteq> ''thrille_create'' \<and> pth_is_initialized l \<and>
      pHandler l = Some (SerializerHandler (serializer_parts_of T) zero) \<longrightarrow>
      (case enter (serializer_linked T zero) e a l of
         Inl (reason, l') \<Rightarrow> \<not> w_misused (world l')
       | Inr (r, l') \<Rightarrow> lock_free (world l')))
    \<and> (m \<in> {sh_ThreadStart (serializer_parts_of T) r a, sh_ThreadFinish (serializer_parts_of T) r a,
        sh_myMemoryRead (serializer_parts_of T) r a, sh_myMemoryWrite (serializer_parts_of T) r a,
        sh_thrilleAssert (serializer_parts_of T) r a, sh_thrilleSchedPoint (serializer_parts_of T) r a,
        sh_thrilleCheckpoint (serializer_parts_of T) r a, sh_thrilleSegfault (serializer_parts_of T) r a} \<longrightarrow>
      (case m (world l) of Inl (reason, w) \<Rightarrow> \<not> w_misused w | Inr (_, w) \<Rightarrow> lock_free w))"
proof (intro conjI impI; (elim conjE)?)
  assume e: "e \<in> set entries" "e_method e \<noteq> ''thrille_create''" and
    l: "pth_is_initialized l" "pHandler l = Some (SerializerHandler (serializer_parts_of T) zero)"
  obtain w where w: "w \<in> set wrappers" "e_method e = w_method w"
    using e by (rule entry_wrapper)
  let ?m = "run_wrapper (serializer_linked T zero) (SerializerHandler (serializer_parts_of T) zero) w a"
  have "enter (serializer_linked T zero) e a l = in_world ?m l"
    by (simp only: enter_started [OF l] w(2) run_method_wrapper [OF w(1) e(2) [unfolded w(2)]])
  moreover have "case ?m (world l) of Inl (reason, w) \<Rightarrow> \<not> w_misused w | Inr (x, w) \<Rightarrow> lock_free w"
    using serializer_lock.wrapper [OF w(1), of T zero zero a] assms unfolding outcome_def by blast
  ultimately show "case enter (serializer_linked T zero) e a l of
      Inl (reason, l') \<Rightarrow> \<not> w_misused (world l') | Inr (r, l') \<Rightarrow> lock_free (world l')"
    by (auto simp: in_world_def split: sum.splits prod.splits)
next
  assume "m \<in> {sh_ThreadStart (serializer_parts_of T) r a, sh_ThreadFinish (serializer_parts_of T) r a,
        sh_myMemoryRead (serializer_parts_of T) r a, sh_myMemoryWrite (serializer_parts_of T) r a,
        sh_thrilleAssert (serializer_parts_of T) r a, sh_thrilleSchedPoint (serializer_parts_of T) r a,
        sh_thrilleCheckpoint (serializer_parts_of T) r a, sh_thrilleSegfault (serializer_parts_of T) r a}"
  then have "outcome lock_free m lock_free (\<lambda>w. \<not> w_misused w)"
    using serializer_lock.thread_hooks [of T r a] by blast
  then show "case m (world l) of Inl (reason, w) \<Rightarrow> \<not> w_misused w | Inr (_, w) \<Rightarrow> lock_free w"
    using assms by (simp add: outcome_def)
qed

section \<open>Witnesses\<close>

text \<open>
  The serializer with a controller that counts its calls and lets every original function run, a detector that counts its calls, and
  one thread, with the handle 7.
\<close>

definition counting_trackers :: "(nat, nat, unit, nat) trackers" where
  "counting_trackers =
     \<lparr>t_before = (\<lambda>n t tgt a c. Inr (True, c + 1)), t_simulate = (\<lambda>n t a c. Inr (0, c + 1)),
      t_after = (\<lambda>n t r a c. Inr ((), c + 1)), t_race = (\<lambda>n t q a d. Inr ((), d + 1)),
      t_original = (\<lambda>n a c. Inr (0, c)), t_create = (\<lambda>a c. Inr (0, c)), t_joined = (\<lambda>_. 7),
      t_new_race = (\<lambda>t. 0), t_new_controller = (\<lambda>t. 0)\<rparr>"

definition one_thread :: "(nat, nat) serializer_world" where
  "one_thread = \<lparr>w_self = 7, w_threads = \<lparr>curr_id = 0, pthreadHandleMap = [(0, 7)]\<rparr>, w_locked = False, w_misused = False,
     w_controller = 0, w_race = 0\<rparr>"

definition serialized_library :: "((nat, nat) serializer_world, unit, nat) library" where
  "serialized_library = \<lparr>pth_is_initialized = True,
     pHandler = Some (SerializerHandler (serializer_parts_of counting_trackers) 0), world = one_thread\<rparr>"

definition detach_entry :: entry_point where
  "detach_entry = EntryPoint ''pthread_detach'' ''thrille_detach'' True"

lemma detach_entry: "detach_entry \<in> set entries" "e_method detach_entry \<noteq> ''thrille_create''"
  by (simp_all add: detach_entry_def entries_def entries_4_def)

lemma serialized_library:
  "pth_is_initialized serialized_library"
  "pHandler serialized_library = Some (SerializerHandler (serializer_parts_of counting_trackers) 0)"
  "lock_free (world serialized_library)"
  by (simp_all add: serialized_library_def lock_free_def one_thread_def)

lemma unsupported_calls_stop_witness:
  "enter (serializer_linked counting_trackers 0) detach_entry () serialized_library =
     Inl (SafeAssert ''functionIsImplemented'', serialized_library)
   \<and> (\<exists>w ps. w_original w = ''pthread_mutex_init'' \<and> Controller \<in> set ps
        \<and> enter (serializer_linked counting_trackers 0) mutex_init_entry () serialized_library =
            in_world (run_wrapper (serializer_linked counting_trackers 0)
              (SerializerHandler (serializer_parts_of counting_trackers) 0) w ()) serialized_library)"
proof -
  have "e_name detach_entry \<notin> set supported_calls"
    by (simp add: detach_entry_def supported_calls_def)
  moreover have m: "e_name mutex_init_entry = ''pthread_mutex_init''"
    by (simp add: mutex_init_entry_def entries_2_def)
  moreover have "e_name mutex_init_entry \<in> set supported_calls"
    unfolding m by (simp add: supported_calls_def)
  ultimately show ?thesis
    using unsupported_calls_stop [OF detach_entry serialized_library(1,2), of "serializer_linked counting_trackers 0" "()"]
      unsupported_calls_stop [OF mutex_init_entry serialized_library(1,2), of "serializer_linked counting_trackers 0" "()"]
    by metis
qed

lemma race_lock_discipline_witness:
  "(case enter (serializer_linked counting_trackers 0) mutex_init_entry () serialized_library of
      Inl (reason, l') \<Rightarrow> \<not> w_misused (world l') | Inr (r, l') \<Rightarrow> lock_free (world l'))
   \<and> (case sh_ThreadStart (serializer_parts_of counting_trackers) 0 () (world serialized_library) of
      Inl (reason, w) \<Rightarrow> \<not> w_misused w | Inr (_, w) \<Rightarrow> lock_free w)"
  using race_lock_discipline [OF serialized_library(3), of mutex_init_entry counting_trackers 0 "()"
      "sh_ThreadStart (serializer_parts_of counting_trackers) 0 ()" 0] mutex_init_entry serialized_library(1,2)
  by blast

end
