(* ===== verification/Active_Handler.thy ===== *)
theory Active_Handler
  imports Prelude
begin

text \<open>
  The first active tester, \<open>src/activetest/libactive.cpp\<close>: a handler that does not serialize the program. A thread that is at one of
  two statements announces its access, waits for 300 ms and goes on; one that finds an announced access it races with has found
  the race, and wakes the threads that wait.

  The threads run in parallel. What a thread does with \<open>my_mutex\<close> held is one step; it is between
  two steps when it waits for the mutex (\<open>Entering\<close>, \<open>Waking\<close>) or for the condition (\<open>Waiting\<close>). Events are
  local variables of the threads, \<open>eventSet\<close> has the addresses of those that are announced, at most one for a thread: it
  is a map from threads here.
\<close>

section \<open>The handler\<close>

record active_event =
  av_iid :: int
  av_addr :: addr
  av_isread :: bool

definition active_isRace :: "active_event \<Rightarrow> active_event \<Rightarrow> bool" where
  "active_isRace r other =
     (if av_addr r \<noteq> av_addr other then False
      else if av_isread r \<and> av_isread other then False
      else True)"

datatype active_pc = Outside | Entering active_event | Waiting active_event | Waking active_event

record ActiveHandler =
  firstiid :: int
  secondiid :: int
  raceDiscovered :: bool
  eventSet :: "(thrID, active_event) cmap"
  active_pcs :: "thrID \<Rightarrow> active_pc"

text \<open>The handler after \<open>AfterInitialize\<close>, which reads the two statements from the file \<open>thr-iids\<close>.\<close>

definition new_ActiveHandler :: "int \<Rightarrow> int \<Rightarrow> ActiveHandler" where
  "new_ActiveHandler f g = \<lparr>firstiid = f, secondiid = g, raceDiscovered = False, eventSet = [], active_pcs = (\<lambda>_. Outside)\<rparr>"

definition active_checkRace :: "active_event \<Rightarrow> ActiveHandler \<Rightarrow> bool" where
  "active_checkRace r h = list_ex (\<lambda>(t, e). active_isRace r e) (eventSet h)"

definition active_addEvent :: "thrID \<Rightarrow> active_event \<Rightarrow> ActiveHandler \<Rightarrow> ActiveHandler" where
  "active_addEvent t r h = h\<lparr>eventSet := cm_put t r (eventSet h)\<rparr>"

definition active_removeEvent :: "thrID \<Rightarrow> (ActiveHandler, unit) tm" where
  "active_removeEvent t h =
     (if map_of (eventSet h) t = None then Inl (ErrorExit ''ActiveError: 1'', h)
      else Inr ((), h\<lparr>eventSet := cm_erase t (eventSet h)\<rparr>))"

definition active_goto :: "thrID \<Rightarrow> active_pc \<Rightarrow> ActiveHandler \<Rightarrow> ActiveHandler" where
  "active_goto t c h = h\<lparr>active_pcs := (active_pcs h)(t := c)\<rparr>"

definition active_broadcast :: "ActiveHandler \<Rightarrow> ActiveHandler" where
  "active_broadcast h =
     h\<lparr>active_pcs := (\<lambda>t. case active_pcs h t of Waiting r \<Rightarrow> Waking r | c \<Rightarrow> c)\<rparr>"

text \<open>
  \<open>myMemoryRead\<close> and \<open>myMemoryWrite\<close>, which differ in the event only, up to the mutex; from the mutex to the wait; and from the end of
  the wait, when the mutex is held again.
\<close>

definition active_access :: "thrID \<Rightarrow> active_event \<Rightarrow> ActiveHandler \<Rightarrow> ActiveHandler" where
  "active_access t r h =
     (if av_iid r = firstiid h \<or> av_iid r = secondiid h
      then if \<not> raceDiscovered h then active_goto t (Entering r) h else h
      else h)"

definition active_enter :: "thrID \<Rightarrow> active_event \<Rightarrow> ActiveHandler \<Rightarrow> ActiveHandler" where
  "active_enter t r h =
     (if active_checkRace r h then active_goto t Outside (active_broadcast (h\<lparr>raceDiscovered := True\<rparr>))
      else active_goto t (Waiting r) (active_addEvent t r h))"

definition active_leave :: "thrID \<Rightarrow> (ActiveHandler, unit) tm" where
  "active_leave t = bnd (active_removeEvent t) (\<lambda>_. upd (active_goto t Outside))"

text \<open>\<open>prepTimedWait\<close>: the time now, in seconds and microseconds, and the time at which the wait ends, in seconds and nanoseconds.\<close>

definition msTimeout :: int where
  "msTimeout = 300"

definition prepTimedWait :: "int \<times> int \<Rightarrow> int \<times> int" where
  "prepTimedWait now =
     (let (sec, usec) = now;
          nsec = (usec + 1000 * msTimeout) * 1000
      in if nsec \<ge> 1000000000 then (sec + nsec sdiv 1000000000, nsec smod 1000000000) else (sec, nsec))"

section \<open>Runs\<close>

text \<open>
  A thread outside calls \<open>myMemoryRead\<close> or \<open>myMemoryWrite\<close>; it gets the mutex; its wait ends without a broadcast, after the time or
  for no reason; it gets the mutex again. An operation of a thread that is elsewhere does not happen.
\<close>

datatype active_op = Access thrID active_event | Enter thrID | Timeout thrID | Leave thrID

fun active_step :: "active_op \<Rightarrow> (ActiveHandler, unit) tm" where
  "active_step (Access t r) = upd (active_access t r)"
| "active_step (Enter t) = (\<lambda>h. case active_pcs h t of Entering r \<Rightarrow> Inr ((), active_enter t r h) | _ \<Rightarrow> Inr ((), h))"
| "active_step (Timeout t) = (\<lambda>h. case active_pcs h t of Waiting r \<Rightarrow> Inr ((), active_goto t (Waking r) h) | _ \<Rightarrow> Inr ((), h))"
| "active_step (Leave t) = active_leave t"

fun can :: "active_op \<Rightarrow> ActiveHandler \<Rightarrow> bool" where
  "can (Access t r) h \<longleftrightarrow> active_pcs h t = Outside"
| "can (Enter t) h \<longleftrightarrow> (\<exists>r. active_pcs h t = Entering r)"
| "can (Timeout t) h \<longleftrightarrow> (\<exists>r. active_pcs h t = Waiting r)"
| "can (Leave t) h \<longleftrightarrow> (\<exists>r. active_pcs h t = Waking r)"

inductive active_run :: "int \<Rightarrow> int \<Rightarrow> active_op list \<Rightarrow> ActiveHandler \<Rightarrow> bool" for f g where
  start: "active_run f g [] (new_ActiveHandler f g)"
| step: "active_run f g (ops @ [x]) h'"
    if "active_run f g ops h" and "can x h" and "active_step x h = Inr ((), h')"

text \<open>
  What a race is, on the sequence of operations alone: a thread gets the mutex with an access that races with the one that another thread
  has got the mutex with, and that other thread has not left since.
\<close>

definition last_access :: "active_op list \<Rightarrow> thrID \<Rightarrow> active_event option" where
  "last_access ops t = foldl (\<lambda>l x. case x of Access u r \<Rightarrow> if u = t then Some r else l | _ \<Rightarrow> l) None ops"

definition announced :: "active_op list \<Rightarrow> thrID \<Rightarrow> active_event \<Rightarrow> bool" where
  "announced ops u r \<longleftrightarrow> (\<exists>i < length ops. ops ! i = Enter u \<and> last_access (take i ops) u = Some r
     \<and> (\<forall>k. i < k \<and> k < length ops \<longrightarrow> ops ! k \<noteq> Leave u))"

definition meets :: "active_op list \<Rightarrow> thrID \<Rightarrow> bool" where
  "meets ops t \<longleftrightarrow> (\<exists>u r r'. last_access ops t = Some r \<and> u \<noteq> t \<and> announced ops u r'
     \<and> av_addr r = av_addr r' \<and> \<not> (av_isread r \<and> av_isread r'))"

definition race_met :: "active_op list \<Rightarrow> bool" where
  "race_met ops \<longleftrightarrow> (\<exists>j < length ops. \<exists>t. ops ! j = Enter t \<and> meets (take j ops) t)"

section \<open>The race\<close>

lemma last_access_snoc:
  "last_access (ops @ [x]) t = (case x of Access u r \<Rightarrow> if u = t then Some r else last_access ops t | _ \<Rightarrow> last_access ops t)"
  by (cases x) (simp_all add: last_access_def)

lemma announced_snoc:
  "announced (ops @ [x]) u r \<longleftrightarrow> x = Enter u \<and> last_access ops u = Some r \<or> announced ops u r \<and> x \<noteq> Leave u"
  (is "?l \<longleftrightarrow> ?a \<or> ?b")
proof
  assume ?l
  then obtain i where i: "i < length (ops @ [x])" "(ops @ [x]) ! i = Enter u" "last_access (take i (ops @ [x])) u = Some r"
    "\<forall>k. i < k \<and> k < length (ops @ [x]) \<longrightarrow> (ops @ [x]) ! k \<noteq> Leave u"
    by (auto simp: announced_def)
  show "?a \<or> ?b"
  proof (cases "i = length ops")
    case False
    then have "i < length ops" using i(1) by simp
    moreover from this have "x \<noteq> Leave u" using i(4) by force
    moreover have "\<forall>k. i < k \<and> k < length ops \<longrightarrow> ops ! k \<noteq> Leave u"
      using i(4) by (metis less_SucI length_append_singleton nth_append)
    ultimately show ?thesis
      using i by (auto simp: announced_def nth_append intro!: exI [of _ i])
  qed (use i in simp)
next
  assume "?a \<or> ?b"
  then show ?l
  proof
    assume ?a
    then show ?l unfolding announced_def by (intro exI [of _ "length ops"]) auto
  next
    assume ?b
    then obtain i where "i < length ops" "ops ! i = Enter u" "last_access (take i ops) u = Some r"
      "\<forall>k. i < k \<and> k < length ops \<longrightarrow> ops ! k \<noteq> Leave u" and "x \<noteq> Leave u"
      by (auto simp: announced_def)
    then show ?l
      unfolding announced_def by (intro exI [of _ i]) (auto simp: nth_append less_Suc_eq)
  qed
qed

lemma position_snoc:
  "(\<exists>j < length (ops @ [x]). P (take j (ops @ [x])) ((ops @ [x]) ! j)) \<longleftrightarrow> (\<exists>j < length ops. P (take j ops) (ops ! j)) \<or> P ops x"
  by (simp add: less_Suc_eq conj_disj_distribR ex_disj_distrib nth_append cong: conj_cong)

lemma race_met_snoc: "race_met (ops @ [x]) \<longleftrightarrow> race_met ops \<or> (\<exists>t. x = Enter t \<and> meets ops t)"
  unfolding race_met_def by (rule position_snoc [where P = "\<lambda>h y. \<exists>t. y = Enter t \<and> meets h t"])

text \<open>What the handler knows of a run. \<open>pc_access\<close> is the access a thread is at, \<open>pc_waits\<close> the one it has announced.\<close>

fun pc_access :: "active_pc \<Rightarrow> active_event option" where
  "pc_access Outside = None"
| "pc_access (Entering r) = Some r"
| "pc_access (Waiting r) = Some r"
| "pc_access (Waking r) = Some r"

fun pc_waits :: "active_pc \<Rightarrow> active_event option" where
  "pc_waits (Waiting r) = Some r"
| "pc_waits (Waking r) = Some r"
| "pc_waits _ = None"

definition accesses_known :: "active_op list \<Rightarrow> ActiveHandler \<Rightarrow> bool" where
  "accesses_known ops h \<longleftrightarrow>
     (\<forall>t r. pc_access (active_pcs h t) = Some r \<longrightarrow> last_access ops t = Some r \<and> av_iid r \<in> {firstiid h, secondiid h})"

definition events_of_waiting :: "ActiveHandler \<Rightarrow> bool" where
  "events_of_waiting h \<longleftrightarrow> (\<forall>t. map_of (eventSet h) t = pc_waits (active_pcs h t)) \<and> cm_ok (eventSet h)"

definition events_announced :: "active_op list \<Rightarrow> ActiveHandler \<Rightarrow> bool" where
  "events_announced ops h \<longleftrightarrow> (\<forall>t r. map_of (eventSet h) t = Some r \<longrightarrow> announced ops t r)"

definition announced_kept :: "active_op list \<Rightarrow> ActiveHandler \<Rightarrow> bool" where
  "announced_kept ops h \<longleftrightarrow> raceDiscovered h \<or> (\<forall>t r. announced ops t r \<longrightarrow> map_of (eventSet h) t = Some r)"

definition active_inv :: "active_op list \<Rightarrow> ActiveHandler \<Rightarrow> bool" where
  "active_inv ops h \<longleftrightarrow> accesses_known ops h \<and> events_of_waiting h \<and> events_announced ops h \<and> announced_kept ops h
     \<and> raceDiscovered h = race_met ops"

lemma active_inv_start: "active_inv [] (new_ActiveHandler f g)"
  by (simp add: active_inv_def accesses_known_def events_of_waiting_def events_announced_def announced_kept_def
      new_ActiveHandler_def announced_def race_met_def)

lemma active_goto_simps [simp]:
  "firstiid (active_goto t c h) = firstiid h" "secondiid (active_goto t c h) = secondiid h"
  "raceDiscovered (active_goto t c h) = raceDiscovered h" "eventSet (active_goto t c h) = eventSet h"
  "active_pcs (active_goto t c h) u = (if u = t then c else active_pcs h u)"
  by (simp_all add: active_goto_def)

lemma broadcast_pc [simp]:
  "pc_access (active_pcs (active_broadcast h) t) = pc_access (active_pcs h t)"
  "pc_waits (active_pcs (active_broadcast h) t) = pc_waits (active_pcs h t)"
  by (simp_all add: active_broadcast_def split: active_pc.split)

lemma broadcast_simps [simp]:
  "firstiid (active_broadcast h) = firstiid h" "secondiid (active_broadcast h) = secondiid h"
  "raceDiscovered (active_broadcast h) = raceDiscovered h" "eventSet (active_broadcast h) = eventSet h"
  by (simp_all add: active_broadcast_def)

lemma active_checkRace_iff:
  "cm_ok (eventSet h) \<Longrightarrow> active_checkRace r h \<longleftrightarrow> (\<exists>t r'. map_of (eventSet h) t = Some r' \<and> active_isRace r r')"
  by (auto simp: active_checkRace_def list_ex_iff in_set_cm_iff Bex_def)

lemma meets_iff:
  "last_access ops t = Some r \<Longrightarrow> meets ops t \<longleftrightarrow> (\<exists>u r'. u \<noteq> t \<and> announced ops u r' \<and> active_isRace r r')"
  unfolding meets_def active_isRace_def by auto

lemma checkRace_meets:
  assumes "active_inv ops h" and "active_pcs h t = Entering r" and "active_checkRace r h"
  shows "meets ops t"
proof -
  have "last_access ops t = Some r" and none: "map_of (eventSet h) t = None"
    using assms by (simp_all add: active_inv_def accesses_known_def events_of_waiting_def)
  moreover obtain u r' where u: "map_of (eventSet h) u = Some r'" "active_isRace r r'"
    using assms by (auto simp: active_inv_def events_of_waiting_def active_checkRace_iff)
  moreover have "announced ops u r'"
    using assms(1) u(1) by (simp add: active_inv_def events_announced_def)
  moreover have "u \<noteq> t"
    using u(1) none by auto
  ultimately show ?thesis
    using meets_iff by blast
qed

lemma meets_checkRace:
  assumes "active_inv ops h" and "active_pcs h t = Entering r" and "\<not> raceDiscovered h" and "meets ops t"
  shows "active_checkRace r h"
proof -
  have "last_access ops t = Some r"
    using assms by (simp add: active_inv_def accesses_known_def)
  then obtain u r' where u: "announced ops u r'" "active_isRace r r'"
    using assms(4) meets_iff by blast
  then have "map_of (eventSet h) u = Some r'"
    using assms(1,3) by (simp add: active_inv_def announced_kept_def)
  moreover have "cm_ok (eventSet h)"
    using assms(1) by (simp add: active_inv_def events_of_waiting_def)
  ultimately show ?thesis
    using u(2) active_checkRace_iff by blast
qed

lemma active_inv_access:
  assumes inv: "active_inv ops h" and out: "active_pcs h t = Outside"
  shows "active_inv (ops @ [Access t r]) (active_access t r h)"
proof -
  let ?h = "active_access t r h"
  have fields: "firstiid ?h = firstiid h" "secondiid ?h = secondiid h" "raceDiscovered ?h = raceDiscovered h" "eventSet ?h = eventSet h"
    by (simp_all add: active_access_def)
  have pcs: "active_pcs ?h u = (if u = t \<and> av_iid r \<in> {firstiid h, secondiid h} \<and> \<not> raceDiscovered h then Entering r else active_pcs h u)" for u
    by (simp add: active_access_def)
  show ?thesis
    using inv out unfolding active_inv_def accesses_known_def events_of_waiting_def events_announced_def announced_kept_def
    by (simp add: fields pcs last_access_snoc announced_snoc race_met_snoc) metis
qed

lemma active_inv_timeout:
  assumes inv: "active_inv ops h" and w: "active_pcs h t = Waiting r"
  shows "active_inv (ops @ [Timeout t]) (active_goto t (Waking r) h)"
proof -
  have "pc_access (active_pcs h t) = Some r" "pc_waits (active_pcs h t) = Some r"
    by (simp_all add: w)
  then show ?thesis
    using inv unfolding active_inv_def accesses_known_def events_of_waiting_def events_announced_def announced_kept_def
    by (simp add: last_access_snoc announced_snoc race_met_snoc) metis
qed

lemma active_inv_leave:
  assumes inv: "active_inv ops h" and w: "active_pcs h t = Waking r"
  obtains h' where "active_leave t h = Inr ((), h')" "active_inv (ops @ [Leave t]) h'"
proof -
  have "map_of (eventSet h) t = Some r"
    using inv w by (simp add: active_inv_def events_of_waiting_def)
  then have leave: "active_leave t h = Inr ((), active_goto t Outside (h\<lparr>eventSet := cm_erase t (eventSet h)\<rparr>))"
    by (simp add: active_leave_def active_removeEvent_def bnd_def)
  have "active_inv (ops @ [Leave t]) (active_goto t Outside (h\<lparr>eventSet := cm_erase t (eventSet h)\<rparr>))"
    using inv unfolding active_inv_def accesses_known_def events_of_waiting_def events_announced_def announced_kept_def
    by (simp add: last_access_snoc announced_snoc race_met_snoc map_of_cm_erase) metis
  with leave show ?thesis
    by (rule that)
qed

lemma active_inv_discover:
  assumes inv: "active_inv ops h" and "meets ops t" and e: "active_pcs h t = Entering r"
  shows "active_inv (ops @ [Enter t]) (active_goto t Outside (active_broadcast (h\<lparr>raceDiscovered := True\<rparr>)))" (is "active_inv ?ops ?h")
proof -
  have pcs: "pc_waits (active_pcs ?h u) = pc_waits (active_pcs h u)" for u
    using e by simp
  have "pc_access (active_pcs ?h u) = (if u = t then None else pc_access (active_pcs h u))" for u
    by simp
  then have "accesses_known ?ops ?h"
    using inv by (simp add: active_inv_def accesses_known_def last_access_snoc)
  moreover have "events_of_waiting ?h"
    using inv unfolding active_inv_def events_of_waiting_def pcs by simp
  moreover have "events_announced ?ops ?h"
    using inv by (simp add: active_inv_def events_announced_def announced_snoc)
  moreover have "race_met ?ops"
    using assms(2) by (simp add: race_met_snoc)
  ultimately show ?thesis
    by (simp add: active_inv_def announced_kept_def)
qed

lemma active_inv_announce:
  assumes inv: "active_inv ops h" and e: "active_pcs h t = Entering r" and none: "raceDiscovered h \<or> \<not> meets ops t"
  shows "active_inv (ops @ [Enter t]) (active_goto t (Waiting r) (active_addEvent t r h))" (is "active_inv ?ops ?h")
proof -
  have last: "last_access ops t = Some r" "av_iid r \<in> {firstiid h, secondiid h}"
    using inv e unfolding active_inv_def accesses_known_def by (metis pc_access.simps(2))+
  have f: "firstiid ?h = firstiid h" "secondiid ?h = secondiid h" "raceDiscovered ?h = raceDiscovered h"
    "eventSet ?h = cm_put t r (eventSet h)"
    by (simp_all add: active_addEvent_def)
  have pcs: "active_pcs ?h u = (if u = t then Waiting r else active_pcs h u)" for u
    by (simp add: active_addEvent_def)
  have "accesses_known ?ops ?h"
    using inv last unfolding active_inv_def accesses_known_def f pcs by (simp add: last_access_snoc)
  moreover have "events_of_waiting ?h"
    using inv unfolding active_inv_def events_of_waiting_def f pcs by simp
  moreover have "events_announced ?ops ?h"
    using inv last unfolding active_inv_def events_announced_def f by (simp add: announced_snoc)
  moreover have "map_of (eventSet h) t = None"
    using inv e by (simp add: active_inv_def events_of_waiting_def)
  then have "announced_kept ?ops ?h"
    using inv last unfolding active_inv_def announced_kept_def f by (auto simp: announced_snoc)
  moreover have "raceDiscovered h = race_met ?ops"
    using inv none by (auto simp: active_inv_def race_met_snoc)
  ultimately show ?thesis
    unfolding active_inv_def f by blast
qed

lemma active_inv_enter:
  assumes inv: "active_inv ops h" and e: "active_pcs h t = Entering r"
  shows "active_inv (ops @ [Enter t]) (active_enter t r h)"
proof (cases "active_checkRace r h")
  case True
  then show ?thesis
    using inv e by (simp add: active_enter_def active_inv_discover checkRace_meets)
next
  case False
  then have "raceDiscovered h \<or> \<not> meets ops t"
    using inv e meets_checkRace by blast
  then show ?thesis
    using False inv e by (simp add: active_enter_def active_inv_announce)
qed

lemma active_run_inv: "active_run f g ops h \<Longrightarrow> active_inv ops h"
proof (induction rule: active_run.induct)
  case start
  show ?case by (rule active_inv_start)
next
  case (step ops h x h')
  then show ?case
    by (cases x) (auto simp: active_inv_access active_inv_timeout active_inv_enter elim: active_inv_leave)
qed

lemma can_step: "active_inv ops h \<Longrightarrow> can x h \<Longrightarrow> \<exists>h'. active_step x h = Inr ((), h')"
  by (cases x) (auto elim: active_inv_leave)

text \<open>
  C18: whatever the interleaving, the handler has discovered a race exactly if two threads have met: one got the mutex with an access
  that races (same address, not both reads) with the access of another thread that had got it before and not left yet. A
  thread that can go on does so, the removal of its event never fails, and only accesses at the two statements are announced.
\<close>

theorem active_race_exact:
  assumes "active_run f g ops h"
  shows "(raceDiscovered h \<longleftrightarrow> race_met ops)
    \<and> (\<forall>x. can x h \<longrightarrow> (\<exists>h'. active_step x h = Inr ((), h')))
    \<and> (\<forall>t r. map_of (eventSet h) t = Some r \<longrightarrow>
         active_pcs h t \<in> {Waiting r, Waking r} \<and> av_iid r \<in> {firstiid h, secondiid h})"
proof (intro conjI allI impI)
  have inv: "active_inv ops h"
    using assms by (rule active_run_inv)
  then show "raceDiscovered h \<longleftrightarrow> race_met ops"
    by (simp add: active_inv_def)
  show "\<exists>h'. active_step x h = Inr ((), h')" if "can x h" for x
    using inv that by (rule can_step)
  fix t r
  assume "map_of (eventSet h) t = Some r"
  then have w: "pc_waits (active_pcs h t) = Some r"
    using inv by (simp add: active_inv_def events_of_waiting_def)
  then show "active_pcs h t \<in> {Waiting r, Waking r}"
    by (cases "active_pcs h t") auto
  then have "pc_access (active_pcs h t) = Some r"
    by auto
  then show "av_iid r \<in> {firstiid h, secondiid h}"
    using inv unfolding active_inv_def accesses_known_def by blast
qed

text \<open>
  Two threads at the same statement: a race is reported although no thread was at the second statement; the
  destructor then prints that there is a race between the two.
\<close>

definition active_demo :: "active_op list" where
  "active_demo =
     [Access 1 \<lparr>av_iid = 10, av_addr = 64, av_isread = False\<rparr>, Enter 1,
      Access 2 \<lparr>av_iid = 10, av_addr = 64, av_isread = False\<rparr>, Enter 2, Leave 1]"

definition active_demo_end :: ActiveHandler where
  "active_demo_end = \<lparr>firstiid = 10, secondiid = 20, raceDiscovered = True, eventSet = [], active_pcs = (\<lambda>_. Outside)\<rparr>"

lemma active_runI:
  "active_run f g ops h \<Longrightarrow> can x h \<Longrightarrow> active_step x h = Inr ((), h') \<Longrightarrow> ops' = ops @ [x] \<Longrightarrow> active_run f g ops' h'"
  by (simp add: active_run.step)

lemma active_demo_run: "active_run 10 20 active_demo active_demo_end"
  unfolding active_demo_def active_demo_end_def
  by (rule active_runI, rule active_runI, rule active_runI, rule active_runI, rule active_runI, rule active_run.start)
    (auto simp: new_ActiveHandler_def active_access_def active_goto_def active_enter_def active_checkRace_def active_addEvent_def
      active_isRace_def active_broadcast_def active_leave_def active_removeEvent_def cm_erase_def bnd_def fun_eq_iff)

lemma active_race_exact_witness: "race_met active_demo"
  using active_race_exact [OF active_demo_run] by (simp add: active_demo_end_def)

section \<open>The wait\<close>

text \<open>
  C40: the time limit of the wait. From a time of day with less than a million microseconds the result is a
  normalised time, exactly 300 ms later, and the product it is computed from is below the limit of 32 bits.
\<close>

theorem prepTimedWait_normalised:
  assumes "0 \<le> usec" and "usec < 1000000"
  shows "case prepTimedWait (sec, usec) of (s, n) \<Rightarrow>
    0 \<le> n \<and> n < 1000000000 \<and> s * 1000000000 + n = sec * 1000000000 + usec * 1000 + 300 * 1000000
    \<and> sec \<le> s \<and> s \<le> sec + 1 \<and> (usec + 1000 * msTimeout) * 1000 < 2 ^ 31"
proof -
  define n where "n = usec * 1000 + 300000000"
  have n: "0 \<le> n" "n < 1300000000"
    using assms by (simp_all add: n_def)
  then have sdiv: "n sdiv 1000000000 = n div 1000000000" "n smod 1000000000 = n mod 1000000000"
    by (simp_all add: signed_divide_int_def signed_modulo_int_def sgn_if)
  have product: "(usec + 1000 * 300) * 1000 = n"
    by (simp add: n_def)
  have "prepTimedWait (sec, usec) = (if n \<ge> 1000000000 then (sec + n div 1000000000, n mod 1000000000) else (sec, n))"
    unfolding prepTimedWait_def msTimeout_def prod.case Let_def product sdiv by (rule refl)
  moreover have "n div 1000000000 \<le> 1" "0 \<le> n div 1000000000" "n div 1000000000 * 1000000000 + n mod 1000000000 = n"
    using n by auto
  ultimately show ?thesis
    using n unfolding msTimeout_def product by (auto simp: n_def)
qed

lemma prepTimedWait_normalised_witness:
  "prepTimedWait (7, 900000) = (8, 200000000) \<and> (case prepTimedWait (7, 900000) of (s, n) \<Rightarrow> 0 \<le> n \<and> n < 1000000000)"
  using prepTimedWait_normalised [of 900000 7]
  by (auto simp: prepTimedWait_def msTimeout_def signed_divide_int_def signed_modulo_int_def)

end
