(* ===== verification/Dpor_Tracker.thy ===== *)
theory Dpor_Tracker
  imports Vector_Clock
begin

text \<open>
  The beginning of a partial order reduction, \<open>src/dpor/dportracker.cpp\<close>: a random tracker with hooks of its own, a counter of
  transitions, sets of threads to backtrack to, and a vector clock (the tracker of \<open>Vector_Clock\<close>, of which the source includes an older
  copy). The maps of last accesses and of process states are declared and used nowhere, and left out.
\<close>

record DporTracker =
  currentTransition :: int
  transitions_chosen :: "thrID list"
  backtrack_set :: "thrID list list"
  done_set :: "thrID list list"
  dpor_vc :: VectorClockTracker

definition new_DporTracker :: DporTracker where
  "new_DporTracker = \<lparr>currentTransition = 0, transitions_chosen = [], backtrack_set = [], done_set = [],
     dpor_vc = new_VectorClockTracker\<rparr>"

definition incrementCurrentTransition :: "DporTracker \<Rightarrow> DporTracker" where
  "incrementCurrentTransition d = d\<lparr>currentTransition := currentTransition d + 1\<rparr>"

definition getCurrentTransition :: "DporTracker \<Rightarrow> int" where
  "getCurrentTransition d = currentTransition d"

definition on_vc :: "(VectorClockTracker \<Rightarrow> VectorClockTracker) \<Rightarrow> DporTracker \<Rightarrow> DporTracker" where
  "on_vc f d = d\<lparr>dpor_vc := f (dpor_vc d)\<rparr>"

text \<open>The hooks.\<close>

datatype dpor_call =
    dporThreadStart thrID
  | dporThreadFinish thrID
  | dporBeforeCondTimedwait thrID addr
  | dporAfterCondTimedwait thrID addr
  | dporBeforeCreate thrID thrID
  | dporAfterCreate thrID
  | dporAfterJoin thrID thrID
  | dporBeforeMutexLock thrID addr
  | dporSimulateMutexLock thrID addr
  | dporAfterMutexUnlock thrID addr
  | dporBeforeCondWait thrID addr
  | dporAfterCondWait thrID addr
  | dporBeforeCondSignal thrID addr
  | dporSimulateCondSignal thrID addr
  | dporBeforeCondBroadcast thrID addr
  | dporSimulateCondBroadcast thrID addr
  | dpormyMemoryRead thrID addr
  | dpormyMemoryWrite thrID addr
  | dporBeforeExit thrID
  | dporSimulateExit thrID
  | dpormyUsleep thrID

fun dpor_step :: "dpor_call \<Rightarrow> DporTracker \<Rightarrow> DporTracker" where
  "dpor_step (dporAfterCondTimedwait t c) = on_vc (afterWait t c)"
| "dpor_step (dporBeforeCreate t u) = on_vc (beforeCreate t u)"
| "dpor_step (dporAfterJoin t u) = on_vc (afterJoin t u)"
| "dpor_step (dporAfterCondWait t c) = on_vc (afterWait t c)"
| "dpor_step (dporBeforeCondSignal t c) = on_vc (beforeSignal t c)"
| "dpor_step (dporBeforeCondBroadcast t c) = on_vc (beforeSignal t c)"
| "dpor_step (dpormyMemoryWrite t a) = on_vc (\<lambda>s. snd (getVectorClock t s))"
| "dpor_step _ = (\<lambda>d. d)"

text \<open>The operations on clocks in a sequence of calls; the clocks are those of \<open>Vector_Clock\<close> for this run.\<close>

fun dpor_clock_op :: "dpor_call \<Rightarrow> vc_op option" where
  "dpor_clock_op (dporAfterCondTimedwait t c) = Some (Wait t c)"
| "dpor_clock_op (dporBeforeCreate t u) = Some (Create t u)"
| "dpor_clock_op (dporAfterJoin t u) = Some (Join t u)"
| "dpor_clock_op (dporAfterCondWait t c) = Some (Wait t c)"
| "dpor_clock_op (dporBeforeCondSignal t c) = Some (Signal t c)"
| "dpor_clock_op (dporBeforeCondBroadcast t c) = Some (Signal t c)"
| "dpor_clock_op (dpormyMemoryWrite t a) = Some (Access t)"
| "dpor_clock_op _ = None"

lemma dpor_step_clock:
  "dpor_step x d = (case dpor_clock_op x of None \<Rightarrow> d | Some y \<Rightarrow> on_vc (vc_step y) d)"
  by (cases x) (simp_all add: on_vc_def)

lemma dpor_clocks:
  "foldl (\<lambda>d x. dpor_step x d) d calls =
     d\<lparr>dpor_vc := foldl (\<lambda>s y. vc_step y s) (dpor_vc d) (List.map_filter dpor_clock_op calls)\<rparr>"
  by (induction calls arbitrary: d) (auto simp: dpor_step_clock on_vc_def map_filter_simps split: option.split)

text \<open>
  What the tracker records: after any calls its clocks are those of the calls, and nothing else has
  changed. No transition is counted and no thread is ever put into a backtrack set, so that no reduction happens.
\<close>

lemma dpor_records_clocks_only:
  fixes calls :: "dpor_call list"
  defines "ops \<equiv> List.map_filter dpor_clock_op calls"
  shows "foldl (\<lambda>d x. dpor_step x d) new_DporTracker calls = new_DporTracker\<lparr>dpor_vc := state_at ops (length ops)\<rparr>"
  unfolding dpor_clocks ops_def by (simp add: state_at_def new_DporTracker_def)

end
