(* ===== verification/Spec2Isabelle.thy ===== *)
theory Spec2Isabelle
  imports Schedule_File Thread_Tracker Barrier_Wait Serial_Theorems Chess_Tracker Addr_Tracker Race_File Immediate_Exact Preempt_Counter Serializer_Handler Active_Handler Dpor_Tracker
begin

text \<open>
  Thrille runs a multithreaded C program under a library that interposes the pthread functions.
  A handler (a ``thriller'') decides what the calls do. Most thrillers serialize the program: one
  thread runs at a time, every call is a scheduling point, and a policy chooses the thread that goes on. Others
  only watch the calls, to find races. This development models the library (C++ under \<open>src/\<close>) and proves what the
  thrillers promise.

  \<^bold>\<open>Conventions.\<close> A C++ object is a record, a method a function on it. A method that can leave the process
  is a \<open>tm\<close> computation (theory \<open>Prelude\<close>): \<open>Inr\<close> the result and the state,
  \<open>Inl\<close> the reason it left (a failed \<open>safe_assert\<close>, an exit with a message, a use of memory that was never
  written). \<open>std::map\<close> is a list of pairs sorted by key, with \<open>operator[]\<close>'s insertion of
  the default (\<open>cm_touch\<close>) written out. Addresses are 64-bit words, the words of the
  random generator have 64 bits, as \<open>unsigned long\<close> has, thread ids are integers. Text that goes to the console only is left out.

  \<^bold>\<open>Theories, and the sources they model.\<close>

  \<^item> \<open>Prelude\<close>: errors, the monad, sorted maps, the lemmas on them. \<open>C_String\<close>: the C string
    and formatting functions the sources call (\<open>strtoul\<close>, \<open>fgets\<close>, \<open>%p\<close>, \<open>%d\<close>).
  \<^item> \<open>Mersenne_Twister\<close>: \<open>Mersenne-1.1/MersenneTwister.h\<close>, compared with the reference code in C
    (\<open>mt19937ar.c\<close>, \<open>mt19937ar-cok.c\<close>). \<open>Thread_Tracker\<close>: \<open>thrille-core/threadtracker.cpp\<close>.
    \<open>Barrier_Tracker\<close>: \<open>serializer/barriertracker.cpp\<close>, and \<open>Barrier_Wait\<close>: when the execution tracker opens a barrier.
  \<^item> \<open>Sched_Types\<close>, \<open>Logger\<close>, \<open>Schedule_File\<close>: \<open>serializer/serializertypes.cpp\<close> and \<open>logger.cpp\<close>,
    the decisions of a run and the file they are written to and read from. The parser reads through pointers into dead stack buffers
    (\<open>parseNextReadfileLineAsCharStar\<close>): what it finds there is a parameter, the \<open>stack_frame\<close>, and may be undefined.
    The files are a parameter too, their contents by name.
  \<^item> \<open>Tracker_State\<close>, \<open>Tracker_Schedule\<close>, \<open>Tracker_Ops\<close>: \<open>serializer/executiontracker.cpp\<close>, the
    state of the serializer, \<open>schedule\<close> with its virtual functions as a record \<open>policy\<close>, and every handler.
    A handler that waits (for a condition, or for its turn) is split where it waits.
  \<^item> \<open>Interposition\<close>: \<open>thrille-core/libpth.cpp\<close>, the 105 entry points, the methods and default hooks of the handler they call, as
    tables of the names in them with the one body they share, and the start of the library. \<open>Original_Functions\<close>:
    \<open>thrille-core/originals.cpp\<close>, the original functions that the methods call, and the constructor of \<open>Handler\<close>, which calls
    some of them for itself. \<open>Serializer_Handler\<close>: \<open>serializer/libserializer.cpp\<close>, the
    handler that passes the calls on to the serializer and to a race detector.
  \<^item> \<open>Serial_Machine\<close>: the wrappers of \<open>thrille-core/libpth.cpp\<close> with the tracker, as a
    step relation: the program counters of all threads inside the library, one semaphore per
    thread, and the tracker they share.
    \<open>Tracker_View\<close>, \<open>Serial_Invariant\<close>, \<open>Serial_Safety\<close>, \<open>Serial_Steps\<close>, \<open>Serial_Resume\<close>, \<open>Serial_Preserve\<close>
    build its invariant; \<open>Serial_Theorems\<close> draws the conclusions.
  \<^item> The policies: \<open>Strict_Tracker\<close> (\<open>strictserial/\<close>, replay), \<open>Random_Tracker\<close> (\<open>randomschedule/\<close>),
    \<open>Fair_Scheduler\<close> and \<open>Chess_Tracker\<close> (\<open>addrserial/fairscheduler.cpp\<close>, \<open>chessserial/\<close>),
    \<open>Relaxed_Logger\<close> and \<open>Relaxed_Tracker\<close> (\<open>relaxedserial/\<close>, \<open>relaxedtester/\<close>), \<open>Addr_Tracker\<close> (\<open>addrserial/\<close>, \<open>dfailserial/\<close>),
    \<open>Preempt_Counter\<close> (\<open>preemptcount/\<close>).
  \<^item> Race detection: \<open>Vector_Clock\<close> and \<open>Hybrid_Race\<close> (\<open>racer/\<close>), \<open>Lock_Race\<close> (\<open>lockrace/\<close>). Active testing of the
    races found: \<open>Random_Active\<close> and \<open>Race_File\<close> (\<open>randact/\<close>), and \<open>Active_Handler\<close> (\<open>activetest/\<close>), which lets
    the threads run in parallel. The detector that reports races at once:
    \<open>Immediate_Race\<close> and \<open>Immediate_Exact\<close> (\<open>irace/\<close>). The clocks of partial order reduction: \<open>Dpor_Tracker\<close> (\<open>dpor/\<close>).

  \<^bold>\<open>Interfaces.\<close> Locales state what one part relies on from another. \<open>serial_methods\<close> has the laws of a
    scheduling policy that the safety of the serializer rests on; it is interpreted on the base tracker and on the strict, random,
    chess, relaxed, tester, address and failure-directed ones, so that the safety results hold for all of them.
    \<open>race_tracker\<close> says what a tracker that overrides the hybrid one keeps of it, and is interpreted on
    the hybrid and on the modified tracker. \<open>reenabler\<close> says what the scheduler of active testing relies on when it
    gives a paused thread up, and is interpreted on the three classes of testers. \<open>barrier_tracker\<close> is the contract of barriers.
    \<open>race_lock\<close> says what the handler of the serializer relies on around the lock of the detector, and is interpreted on it with any
    controller and any detector.

  \<^bold>\<open>What is shown.\<close>

  \<^item> The serializer: in every reachable state of the machine exactly one thread can go on; the threads the
    tracker holds to be disabled are exactly those that what they wait for is not there for; a thread that is resumed to
    take a mutex or a semaphore gets it, without a failed assertion; the base policy reports a deadlock exactly if
    no thread is enabled, and otherwise posts the semaphore of the thread it chooses; a barrier opens at the arrival that its count asks for.
  \<^item> Schedules: the threads that are written are read back whatever the dead stack buffers hold, and everything if they are intact; a replay takes the decisions of the recorded run,
    or fails where its points stop agreeing with the recorded ones; where lines that are too long break this; that the hash of the schedule that should seed the address tracker is not one of the schedule.
  \<^item> Handles of threads translate to the thread started last with them.
  \<^item> Policies: which thread each of them chooses, that it is enabled, that loops over schedules end, that
    the fair scheduler never blocks a program that can go on and that a thread that yields gives way; that preemptions stay within
    the budget unless a log prescribes them.
  \<^item> Interposition: under the plain handler a program (calls of \<open>pthread_create\<close> apart) runs as if it were not interposed, after the calls that the start
    of the library makes for itself; under the serializer exactly the supported
    functions can be called; the detector is called under its lock, and nothing that waits is.
  \<^item> The generator computes what the reference code computes; save and load are inverse.
  \<^item> Race detection: comparing clocks decides happens-before, where happens-before is defined on the
    sequence of calls; the reports list exactly the racing pairs among the accesses that are kept. The file of reported races is read by the active
    testers, each race in its turn; a tester pauses threads at the two locations, reports a race exactly if it is one, and (for
    races on data) never blocks the program by pausing; the parallel tester discovers a race exactly if two threads have met. The immediate detector reports exactly the accesses whose partner
    has not been heard of, by chains of messages through the places that hold its clocks; that its access map can forget a read,
    and that its report can lose a race, is shown as well.

  \<^bold>\<open>Fuel and bounds.\<close> Loops over finite data are structural. \<open>regenerate_loop\<close> (relaxed schedules) has as
    fuel two more than the number of steps left, \<open>cond_loop\<close> three more than the number of signals left,
    \<open>postponed_loop\<close> (active testing) one more than the number of paused threads; each
    is proved to be enough, as every round takes one of them. \<open>signals_loop\<close>, which a malformed file makes run for ever, is a
    \<^emph>\<open>partial\<close> function into \<open>option\<close>, and that it does not return there is a theorem; so is \<open>pick_other\<close>
    (preemption counting), which returns when the random numbers select another thread. Clock entries,
    which grow by one per signal or creation, are unbounded.

  \<^bold>\<open>Not modelled.\<close> The real pthread functions and \<open>dlsym\<close>: what the
    machine needs of mutexes and semaphores is part of its state. In \<open>Interposition\<close> the tracker behind the hooks is an argument, because its
    handlers wait, which \<open>Serial_Machine\<close> models step by step. The
    destructors, console output, seeding from \<open>/dev/urandom\<close>, floating-point random numbers. The simulated calls of
    \<open>preemptcount/\<close> are written against interfaces that the core no longer has.
    The LLVM pass, the scripts, the benchmarks and the tests.
\<close>

end
